(* ===== verification/Go_Prelude.thy ===== *)
theory Go_Prelude
  imports Main "HOL-Library.Word" "HOL-Library.Signed_Division"
begin

unbundle bit_operations_syntax

text \<open>
  Shared vocabulary of the development: the machine integers of a 32-bit Go target
  (\<open>GOOS=qnx GOARCH=arm\<close>), Go's integer conversions and truncating division, the two ways a
  runtime function can end (return or \<open>throw\<close>), and the generic list and word lemmas the
  components use. Unsigned Go integers are words; signed ones are \<open>int\<close> with the conversion
  (\<open>int32\<close>, \<open>int64\<close>) written out wherever the source converts or may overflow.
\<close>

section \<open>Machine integers\<close>

type_synonym u8 = "8 word"
type_synonym u16 = "16 word"
type_synonym u32 = "32 word"
type_synonym u64 = "64 word"
type_synonym uintptr = "32 word"

text \<open>A Go string is a sequence of bytes.\<close>

type_synonym gostring = "8 word list"

definition int32 :: "int \<Rightarrow> int" where
  "int32 x = signed_take_bit 31 x"

definition int64 :: "int \<Rightarrow> int" where
  "int64 x = signed_take_bit 63 x"

definition go_div :: "int \<Rightarrow> int \<Rightarrow> int" where
  "go_div a b = a sdiv b"

definition go_mod :: "int \<Rightarrow> int \<Rightarrow> int" where
  "go_mod a b = a smod b"

text \<open>\<open>uintptr(x)\<close> of a signed integer, and \<open>int(x)\<close> of a \<open>uintptr\<close>, on a 32-bit machine.\<close>

definition uptr :: "int \<Rightarrow> uintptr" where
  "uptr x = word_of_int x"

definition toint :: "uintptr \<Rightarrow> int" where
  "toint w = sint w"

text \<open>How a runtime function ends: it returns, or it calls \<open>throw\<close> with a message.\<close>

datatype 'a outcome = Ret 'a | Throw string

section \<open>Collections used by the component proofs\<close>

named_theorems go_arith \<open>Go integer conversions and division, in rewriting form\<close>
named_theorems libcall_defs \<open>definitions of the libc-call bridge and of its wrappers\<close>
named_theorems poll_defs \<open>definitions of the poller's operations\<close>

section \<open>Lemmas on the conversions\<close>

lemma int32_range: "- (2 ^ 31) \<le> int32 x" "int32 x < 2 ^ 31"
  using signed_take_bit_int_greater_eq_minus_exp [of 31 x] signed_take_bit_int_less_exp [of 31 x]
  by (auto simp: int32_def)

lemma int64_range: "- (2 ^ 63) \<le> int64 x" "int64 x < 2 ^ 63"
  using signed_take_bit_int_greater_eq_minus_exp [of 63 x] signed_take_bit_int_less_exp [of 63 x]
  by (auto simp: int64_def)

lemma int32_id [go_arith]: "- (2 ^ 31) \<le> x \<Longrightarrow> x < 2 ^ 31 \<Longrightarrow> int32 x = x"
  unfolding int32_def by (rule signed_take_bit_int_eq_self) auto

lemma int64_id [go_arith]: "- (2 ^ 63) \<le> x \<Longrightarrow> x < 2 ^ 63 \<Longrightarrow> int64 x = x"
  unfolding int64_def by (rule signed_take_bit_int_eq_self) auto

lemma int32_toint [simp]: "int32 (toint w) = toint w"
  using sint_range_size [of w] by (intro int32_id) (auto simp: toint_def word_size)

lemma toint_uptr [go_arith]: "toint (uptr x) = int32 x"
  by (simp add: toint_def uptr_def int32_def signed_of_int)

lemma uptr_toint [simp]: "uptr (toint w) = w"
  by (simp add: toint_def uptr_def)

lemma toint_uptr_id: "- (2 ^ 31) \<le> x \<Longrightarrow> x < 2 ^ 31 \<Longrightarrow> toint (uptr x) = x"
  by (simp add: toint_uptr int32_id)

lemma toint_range: "- (2 ^ 31) \<le> toint w" "toint w < 2 ^ 31"
  using int32_range [of "toint w"] by auto

lemma toint_small: "uint w < 2 ^ 31 \<Longrightarrow> toint w = uint w"
  using signed_take_bit_int_eq_self [of 31 "uint w"] order_trans [OF _ uint_ge_0, of "- (2 ^ 31)" w]
  by (simp add: toint_def sint_uint)

lemma and_7F: "w AND 0x7F = take_bit 7 (w :: u32)"
proof -
  have "(0x7F :: u32) = mask 7" by (simp add: mask_eq_exp_minus_1)
  then show ?thesis by (simp add: take_bit_eq_mask)
qed

lemma go_div_nonneg [go_arith]: "0 \<le> a \<Longrightarrow> 0 < b \<Longrightarrow> go_div a b = a div b"
  by (cases "a = 0") (simp_all add: go_div_def signed_divide_int_def)

lemma go_mod_nonneg [go_arith]: "0 \<le> a \<Longrightarrow> 0 < b \<Longrightarrow> go_mod a b = a mod b"
  by (cases "a = 0") (simp_all add: go_mod_def signed_modulo_int_def)

lemma go_div_mod: "go_div a b * b + go_mod a b = a"
  unfolding go_div_def go_mod_def using mult_sdiv_smod_eq [of b a] by (simp add: mult.commute)

lemma go_mod_neg: "a < 0 \<Longrightarrow> 0 < b \<Longrightarrow> go_mod a b = - (- a mod b)"
  by (simp add: go_mod_def signed_modulo_int_def)

section \<open>List lemmas\<close>

lemma take_nth_Suc: "i < length xs \<Longrightarrow> take (Suc i) xs = take i xs @ [xs ! i]"
  by (rule take_Suc_conv_app_nth)

lemma takeWhile_nth_True: "i < length (takeWhile P xs) \<Longrightarrow> P (xs ! i)"
  by (metis nth_mem set_takeWhileD takeWhile_nth)

lemma takeWhile_no_zero: "0 \<notin> set p \<Longrightarrow> takeWhile (\<lambda>c. c \<noteq> 0) (p @ 0 # q) = (p :: 'a :: zero list)"
  by (induction p) auto

lemma butlast_update_last:
  assumes "i < length xs"
  shows "butlast (xs[i := last xs]) = (butlast xs)[i := last xs]"
proof -
  have "xs \<noteq> []" using assms by auto
  then obtain ys y where xs: "xs = ys @ [y]" by (meson rev_exhaust)
  show ?thesis
  proof (cases "i < length ys")
    case True
    then show ?thesis by (simp add: xs list_update_append1)
  next
    case False
    with assms have "i = length ys" by (simp add: xs)
    then show ?thesis by (simp add: xs list_update_beyond)
  qed
qed

end
