(* ===== verification/Qnx_Types.thy ===== *)
theory Qnx_Types
  imports Go_Prelude
begin

text \<open>
  The data the QNX port exchanges with libc: the error and signal numbers of
  \<open>syscall/zerrors_qnx_arm.go\<close>, the C structures of \<open>syscall/ztypes_qnx_arm.go\<close> and of
  \<open>runtime/defs_qnx_arm.go\<close>, and the type of a C argument. A pointer argument is modelled by
  what it points to: a call receives the contents before the call and hands back the contents
  after it. The raw socket addresses, which the source reads through casts between structure
  types, are byte sequences with the structures' offsets.
\<close>

section \<open>Error numbers\<close>

abbreviation EPERM :: u32 where "EPERM \<equiv> 1"
abbreviation ENOENT :: u32 where "ENOENT \<equiv> 2"
abbreviation EINTR :: u32 where "EINTR \<equiv> 4"
abbreviation EAGAIN :: u32 where "EAGAIN \<equiv> 11"
abbreviation EINVAL :: u32 where "EINVAL \<equiv> 22"
abbreviation ENOSYS :: u32 where "ENOSYS \<equiv> 89"
abbreviation EAFNOSUPPORT :: u32 where "EAFNOSUPPORT \<equiv> 247"
abbreviation EPIPE :: u32 where "EPIPE \<equiv> 32"
abbreviation EBADF :: u32 where "EBADF \<equiv> 9"
abbreviation EACCES :: u32 where "EACCES \<equiv> 13"
abbreviation EEXIST :: u32 where "EEXIST \<equiv> 17"
abbreviation ENOTEMPTY :: u32 where "ENOTEMPTY \<equiv> 93"
abbreviation ENOTSUP :: u32 where "ENOTSUP \<equiv> 48"
abbreviation EOPNOTSUPP :: u32 where "EOPNOTSUPP \<equiv> 103"
abbreviation EMFILE :: u32 where "EMFILE \<equiv> 24"
abbreviation ENFILE :: u32 where "ENFILE \<equiv> 23"
abbreviation ETIMEDOUT :: u32 where "ETIMEDOUT \<equiv> 260"
abbreviation EWOULDBLOCK :: u32 where "EWOULDBLOCK \<equiv> 11"

definition errno_table :: "(string \<times> nat) list" where
  "errno_table =
  [(''EPERM'', 1),
   (''ENOENT'', 2),
   (''ESRCH'', 3),
   (''EINTR'', 4),
   (''EIO'', 5),
   (''ENXIO'', 6),
   (''E2BIG'', 7),
   (''ENOEXEC'', 8),
   (''EBADF'', 9),
   (''ECHILD'', 10),
   (''EAGAIN'', 11),
   (''ENOMEM'', 12),
   (''EACCES'', 13),
   (''EFAULT'', 14),
   (''ENOTBLK'', 15),
   (''EBUSY'', 16),
   (''EEXIST'', 17),
   (''EXDEV'', 18),
   (''ENODEV'', 19),
   (''ENOTDIR'', 20),
   (''EISDIR'', 21),
   (''EINVAL'', 22),
   (''ENFILE'', 23),
   (''EMFILE'', 24),
   (''ENOTTY'', 25),
   (''ETXTBSY'', 26),
   (''EFBIG'', 27),
   (''ENOSPC'', 28),
   (''ESPIPE'', 29),
   (''EROFS'', 30),
   (''EMLINK'', 31),
   (''EPIPE'', 32),
   (''EDOM'', 33),
   (''ERANGE'', 34),
   (''EDEADLK'', 45),
   (''ENOLCK'', 46),
   (''ECANCELED'', 47),
   (''ENOTSUP'', 48),
   (''EILSEQ'', 88),
   (''ENOSYS'', 89),
   (''ELOOP'', 90),
   (''ENOTEMPTY'', 93),
   (''EOPNOTSUPP'', 103),
   (''EOVERFLOW'', 79),
   (''ENAMETOOLONG'', 78),
   (''ETIME'', 62),
   (''EWOULDBLOCK'', 11),
   (''EINPROGRESS'', 236),
   (''EALREADY'', 237),
   (''ENOTSOCK'', 238),
   (''EDESTADDRREQ'', 239),
   (''EMSGSIZE'', 240),
   (''EPROTOTYPE'', 241),
   (''ENOPROTOOPT'', 242),
   (''EPROTONOSUPPORT'', 243),
   (''EAFNOSUPPORT'', 247),
   (''EADDRINUSE'', 248),
   (''EADDRNOTAVAIL'', 249),
   (''ENETDOWN'', 250),
   (''ENETUNREACH'', 251),
   (''ECONNABORTED'', 253),
   (''ECONNRESET'', 254),
   (''ENOBUFS'', 255),
   (''EISCONN'', 256),
   (''ENOTCONN'', 257),
   (''ESHUTDOWN'', 258),
   (''ETIMEDOUT'', 260),
   (''ECONNREFUSED'', 261),
   (''EHOSTDOWN'', 264),
   (''EHOSTUNREACH'', 265)]"

definition signal_table :: "(string \<times> nat) list" where
  "signal_table =
  [(''SIGHUP'', 1),
   (''SIGINT'', 2),
   (''SIGQUIT'', 3),
   (''SIGILL'', 4),
   (''SIGTRAP'', 5),
   (''SIGABRT'', 6),
   (''SIGFPE'', 8),
   (''SIGKILL'', 9),
   (''SIGBUS'', 10),
   (''SIGSEGV'', 11),
   (''SIGSYS'', 12),
   (''SIGPIPE'', 13),
   (''SIGALRM'', 14),
   (''SIGTERM'', 15),
   (''SIGURG'', 21),
   (''SIGSTOP'', 23),
   (''SIGTSTP'', 24),
   (''SIGCONT'', 25),
   (''SIGCHLD'', 18),
   (''SIGTTIN'', 26),
   (''SIGTTOU'', 27),
   (''SIGIO'', 22),
   (''SIGWINCH'', 20),
   (''SIGUSR1'', 16),
   (''SIGUSR2'', 17)]"

definition errors_table :: "(nat \<times> string) list" where
  "errors_table =
  [(1, ''operation not permitted''),
   (2, ''no such file or directory''),
   (4, ''interrupted system call''),
   (9, ''bad file descriptor''),
   (11, ''resource temporarily unavailable''),
   (12, ''not enough space''),
   (13, ''permission denied''),
   (14, ''bad address''),
   (17, ''file exists''),
   (22, ''invalid argument''),
   (24, ''too many open files''),
   (32, ''broken pipe''),
   (89, ''function not implemented''),
   (260, ''connection timed out'')]"

text \<open>\<open>strconv.Itoa\<close> on the non-negative numbers \<open>Errno.Error\<close> prints.\<close>

fun itoa_nat :: "nat \<Rightarrow> string" where
  "itoa_nat n = (if n < 10 then [char_of (48 + n)] else itoa_nat (n div 10) @ [char_of (48 + n mod 10)])"

declare itoa_nat.simps [simp del]

text \<open>
  \<open>Errno.Error\<close>: the table has one slot per index up to 260; a slot that the literal does not
  name holds the empty string, which counts as "no message".
\<close>

definition Errno_Error :: "u32 \<Rightarrow> string" where
  "Errno_Error e =
     (case map_of errors_table (unat e) of
        Some s \<Rightarrow> s
      | None \<Rightarrow> ''errno '' @ (if 0 \<le> toint e then itoa_nat (unat e)
                                else ''-'' @ itoa_nat (nat (- toint e))))"

text \<open>The sentinel errors of \<open>internal/oserror\<close> that \<open>Errno.Is\<close> compares with.\<close>

datatype oserror = ErrPermission | ErrExist | ErrNotExist | ErrUnsupported | ErrOther

definition Errno_Is :: "u32 \<Rightarrow> oserror \<Rightarrow> bool" where
  "Errno_Is e target =
     (case target of
        ErrPermission \<Rightarrow> e = EACCES \<or> e = EPERM
      | ErrExist \<Rightarrow> e = EEXIST \<or> e = ENOTEMPTY
      | ErrNotExist \<Rightarrow> e = ENOENT
      | ErrUnsupported \<Rightarrow> e = ENOSYS \<or> e = ENOTSUP \<or> e = EOPNOTSUPP
      | ErrOther \<Rightarrow> False)"

definition Errno_Timeout :: "u32 \<Rightarrow> bool" where
  "Errno_Timeout e \<longleftrightarrow> e = EAGAIN \<or> e = EWOULDBLOCK \<or> e = ETIMEDOUT"

definition Errno_Temporary :: "u32 \<Rightarrow> bool" where
  "Errno_Temporary e \<longleftrightarrow> e = EINTR \<or> e = EMFILE \<or> e = ENFILE \<or> Errno_Timeout e"

section \<open>C structures\<close>

record Timespec =
  ts_Sec :: int
  ts_Nsec :: int

record Timeval =
  tv_Sec :: int
  tv_Usec :: int

record Stat_t =
  st_Ino :: u64
  st_Size :: int
  st_Dev :: int
  st_Rdev :: int
  st_Uid :: u32
  st_Gid :: u32
  st_Mtim :: int
  st_Atim :: int
  st_Ctim :: int
  st_Mode :: u32
  st_Nlink :: int
  st_Blocksize :: int
  st_Nblocks :: int
  st_Blksize :: int
  st_Blocks :: int

record Rlimit =
  rl_Cur :: u64
  rl_Max :: u64

record Rusage =
  ru_Utime :: Timeval
  ru_Stime :: Timeval
  ru_Rest :: "int list"

record Iovec =
  iov_Base :: "gostring option"
  iov_Len :: u32

record Msghdr =
  msg_Name :: "gostring option"
  msg_Namelen :: u32
  msg_Iov :: Iovec
  msg_Iovlen :: u32
  msg_Control :: "gostring option"
  msg_Controllen :: u32
  msg_Flags :: int

record pollfd =
  pf_fd :: int
  pf_events :: u16
  pf_revents :: u16

record sigset =
  ss_bits0 :: u32
  ss_bits1 :: u32

record sigactiont =
  sa_handler :: uintptr
  sa_flags :: u32
  sa_mask :: sigset

text \<open>
  One node of the list \<open>getifaddrs\<close> returns. \<open>Name\<close>, \<open>Addr\<close> and \<open>Netmask\<close> are the bytes the
  pointers lead to (\<open>None\<close> for a nil pointer); \<open>Data\<close> is the \<open>uint64\<close> at offset 8 of
  \<open>struct if_data\<close>, the only part of it the port reads. The \<open>Next\<close> pointer is the list order.
\<close>

record Ifaddrs =
  ifa_Name :: "gostring option"
  ifa_Flags :: u32
  ifa_Addr :: "gostring option"
  ifa_Netmask :: "gostring option"
  ifa_Data :: "u64 option"

section \<open>C arguments\<close>

datatype carg =
    AWord u32
  | ANull
  | ACStr gostring
  | ABuf gostring
  | ATimespec Timespec
  | ATimevals "Timeval list"
  | AStat Stat_t
  | AI32s "int list"
  | AU32s "u32 list"
  | ASocklen u32
  | ARaw gostring
  | ARlimit Rlimit
  | ARusage Rusage
  | AMsg Msghdr
  | AIovs "Iovec list"
  | AStrs "gostring list"
  | AHandle u32
  | AIfaddrs "Ifaddrs list"
  | APollfds "pollfd list"
  | ASigset sigset
  | ASigact sigactiont
  | AFn string

text \<open>The argument at a position after the call; a nil pointer beyond the arguments passed.\<close>

definition argat :: "carg list \<Rightarrow> nat \<Rightarrow> carg" where
  "argat as i = (if i < length as then as ! i else ANull)"

text \<open>
  What Go reads back through a pointer it passed: the new contents, or the old ones where the
  callee left something of another shape (C can only write the pointed-to object).
\<close>

definition out_buf :: "carg \<Rightarrow> gostring \<Rightarrow> gostring" where
  "out_buf a old = (case a of ABuf b \<Rightarrow> if length b = length old then b else old | _ \<Rightarrow> old)"

definition out_raw :: "carg \<Rightarrow> gostring \<Rightarrow> gostring" where
  "out_raw a old = (case a of ARaw b \<Rightarrow> if length b = length old then b else old | _ \<Rightarrow> old)"

definition out_stat :: "carg \<Rightarrow> Stat_t \<Rightarrow> Stat_t" where
  "out_stat a old = (case a of AStat s \<Rightarrow> s | _ \<Rightarrow> old)"

definition out_i32s :: "carg \<Rightarrow> int list \<Rightarrow> int list" where
  "out_i32s a old = (case a of AI32s xs \<Rightarrow> if length xs = length old then map int32 xs else old | _ \<Rightarrow> old)"

definition out_u32s :: "carg \<Rightarrow> u32 list \<Rightarrow> u32 list" where
  "out_u32s a old = (case a of AU32s xs \<Rightarrow> if length xs = length old then xs else old | _ \<Rightarrow> old)"

definition out_timespec :: "carg \<Rightarrow> Timespec \<Rightarrow> Timespec" where
  "out_timespec a old =
     (case a of ATimespec ts \<Rightarrow> \<lparr>ts_Sec = int32 (ts_Sec ts), ts_Nsec = int32 (ts_Nsec ts)\<rparr> | _ \<Rightarrow> old)"

definition out_msg :: "carg \<Rightarrow> Msghdr \<Rightarrow> Msghdr" where
  "out_msg a old = (case a of AMsg m \<Rightarrow> m | _ \<Rightarrow> old)"

definition out_pollfds :: "carg \<Rightarrow> pollfd list \<Rightarrow> pollfd list" where
  "out_pollfds a old = (case a of APollfds ps \<Rightarrow> if length ps = length old then ps else old | _ \<Rightarrow> old)"

lemma out_buf_length [simp]: "length (out_buf a old) = length old"
  by (simp add: out_buf_def split: carg.split)

lemma out_raw_length [simp]: "length (out_raw a old) = length old"
  by (simp add: out_raw_def split: carg.split)

lemma out_u32s_length [simp]: "length (out_u32s a old) = length old"
  by (simp add: out_u32s_def split: carg.split)

lemma out_i32s_length [simp]: "length (out_i32s a old) = length old"
  by (simp add: out_i32s_def split: carg.split)

lemma out_pollfds_length [simp]: "length (out_pollfds a old) = length old"
  by (simp add: out_pollfds_def split: carg.split)

section \<open>The tables\<close>

text \<open>
  Two names of the table have the same number exactly when one is the alias
  \<open>EWOULDBLOCK = EAGAIN\<close>, the only alias of the block.
\<close>

lemma errno_values_distinct:
  "distinct (map snd (filter (\<lambda>p. fst p \<noteq> ''EWOULDBLOCK'') errno_table))"
  by (simp add: errno_table_def)

end
