(* ===== verification/Qnx_Libcall.thy ===== *)
theory Qnx_Libcall
  imports Qnx_Types
begin

text \<open>
  The libc-call bridge: every service of QNX is reached by calling a C function of \<open>libc.so.3\<close>
  or \<open>libsocket.so.3\<close>. Modelled are the assembly routine \<open>asmsysvicall6\<close>
  (\<open>runtime/sys_qnx_arm.s\<close>), the runtime's entry points \<open>sysvicall0\<close> to \<open>sysvicall6\<close>
  (\<open>runtime/os_qnx.go\<close>), the two entry points of package \<open>syscall\<close>
  (\<open>runtime/syscall_qnx.go\<close>) and the import tables. The C library is a parameter of every
  definition: a function from the imported name, the arguments, the value of \<open>errno\<close> and the
  state of the world to the two result registers, the new \<open>errno\<close>, the contents of the
  arguments after the call, and the new world.
\<close>

section \<open>State\<close>

type_synonym libcFunc = string

type_synonym 'w libc = "libcFunc \<Rightarrow> carg list \<Rightarrow> u32 \<Rightarrow> 'w \<Rightarrow> u32 \<times> u32 \<times> u32 \<times> carg list \<times> 'w"

text \<open>The parts of the answer of a C function.\<close>

abbreviation c_ret :: "u32 \<times> u32 \<times> u32 \<times> carg list \<times> 'w \<Rightarrow> u32" where "c_ret x \<equiv> fst x"
abbreviation c_errno :: "u32 \<times> u32 \<times> u32 \<times> carg list \<times> 'w \<Rightarrow> u32" where "c_errno x \<equiv> fst (snd (snd x))"
abbreviation c_args :: "u32 \<times> u32 \<times> u32 \<times> carg list \<times> 'w \<Rightarrow> carg list" where "c_args x \<equiv> fst (snd (snd (snd x)))"
abbreviation c_world :: "u32 \<times> u32 \<times> u32 \<times> carg list \<times> 'w \<Rightarrow> 'w" where "c_world x \<equiv> snd (snd (snd (snd x)))"

datatype sched_event = EnterSyscallBlock | ExitSyscall

text \<open>
  The calling thread: the current \<open>g\<close> (0 for nil), the values \<open>GetCallerPC\<close> and
  \<open>GetCallerSP\<close> return, the fields of its \<open>m\<close> the bridge uses, and the thread's \<open>errno\<close> cell.
  \<open>t_calls\<close> and \<open>t_sched\<close> record the C calls made and the scheduler notifications, in order.
\<close>

record 'w thr =
  t_g :: uintptr
  t_callerpc :: uintptr
  t_callersp :: uintptr
  m_libcallg :: uintptr
  m_libcallpc :: uintptr
  m_libcallsp :: uintptr
  m_perrno :: uintptr
  t_errno :: u32
  t_calls :: "(libcFunc \<times> carg list) list"
  t_sched :: "sched_event list"
  t_world :: 'w

record libcall =
  lc_fn :: libcFunc
  lc_n :: nat
  lc_args :: "carg list"
  lc_r1 :: uintptr
  lc_r2 :: uintptr
  lc_err :: uintptr

definition libcall_init :: "libcFunc \<Rightarrow> nat \<Rightarrow> carg list \<Rightarrow> libcall" where
  "libcall_init fn n args = \<lparr>lc_fn = fn, lc_n = n, lc_args = args, lc_r1 = 0, lc_r2 = 0, lc_err = 0\<rparr>"

definition has_errno :: "'w thr \<Rightarrow> bool" where
  "has_errno t \<longleftrightarrow> t_g t \<noteq> 0 \<and> m_perrno t \<noteq> 0"

section \<open>The assembly routine\<close>

text \<open>
  Arguments 0 to 3 go to registers, 4 and 5 to the stack when \<open>n\<close> says they exist; the callee
  reads the ones its prototype declares. \<open>errno\<close> is cleared before and read after the call when
  the thread has a \<open>g\<close> and a cached \<open>errno\<close> pointer.
\<close>

definition asmsysvicall6 :: "'w libc \<Rightarrow> libcall \<Rightarrow> 'w thr \<Rightarrow> libcall \<times> 'w thr" where
  "asmsysvicall6 L lc t =
     (let cargs = take (min (lc_n lc) 6) (lc_args lc);
          e0 = (if has_errno t then 0 else t_errno t);
          (r0, r1, e1, as, w) = L (lc_fn lc) cargs e0 (t_world t)
      in (lc\<lparr>lc_args := as, lc_r1 := r0, lc_r2 := r1,
             lc_err := (if has_errno t then e1 else lc_err lc)\<rparr>,
          t\<lparr>t_errno := e1, t_calls := t_calls t @ [(lc_fn lc, cargs)], t_world := w\<rparr>))"

section \<open>The runtime's entry points\<close>

text \<open>
  The prologue and epilogue that every \<open>sysvicall\<close> function repeats: the outermost call on an
  \<open>m\<close> publishes the calling \<open>g\<close>, pc and sp for tracebacks and withdraws them afterwards; a
  nested call (made from a signal handler) leaves the outer frame in place.
\<close>

definition libcall_enter :: "'w thr \<Rightarrow> bool \<times> 'w thr" where
  "libcall_enter t =
     (if t_g t \<noteq> 0 \<and> m_libcallsp t = 0
      then (True, t\<lparr>m_libcallg := t_g t, m_libcallpc := t_callerpc t, m_libcallsp := t_callersp t\<rparr>)
      else (False, t))"

definition libcall_leave :: "bool \<Rightarrow> 'w thr \<Rightarrow> 'w thr" where
  "libcall_leave own t = (if own then t\<lparr>m_libcallsp := 0\<rparr> else t)"

definition sysvicallN ::
  "'w libc \<Rightarrow> nat \<Rightarrow> libcFunc \<Rightarrow> carg list \<Rightarrow> 'w thr \<Rightarrow> (uintptr \<times> uintptr \<times> carg list) \<times> 'w thr" where
  "sysvicallN L n fn args t =
     (let (own, t1) = libcall_enter t;
          (lc, t2) = asmsysvicall6 L (libcall_init fn n args) t1
      in ((lc_r1 lc, lc_err lc, lc_args lc), libcall_leave own t2))"

definition sysvicall0 :: "'w libc \<Rightarrow> libcFunc \<Rightarrow> 'w thr \<Rightarrow> uintptr \<times> 'w thr" where
  "sysvicall0 L fn t = (let ((r1, err, as), t') = sysvicallN L 0 fn [] t in (r1, t'))"

definition sysvicall1Err ::
  "'w libc \<Rightarrow> libcFunc \<Rightarrow> carg \<Rightarrow> 'w thr \<Rightarrow> (uintptr \<times> uintptr \<times> carg list) \<times> 'w thr" where
  "sysvicall1Err L fn a1 t = sysvicallN L 1 fn [a1] t"

definition sysvicall1 :: "'w libc \<Rightarrow> libcFunc \<Rightarrow> carg \<Rightarrow> 'w thr \<Rightarrow> (uintptr \<times> carg list) \<times> 'w thr" where
  "sysvicall1 L fn a1 t = (let ((r1, err, as), t') = sysvicall1Err L fn a1 t in ((r1, as), t'))"

definition sysvicall2Err ::
  "'w libc \<Rightarrow> libcFunc \<Rightarrow> carg \<Rightarrow> carg \<Rightarrow> 'w thr \<Rightarrow> (uintptr \<times> uintptr \<times> carg list) \<times> 'w thr" where
  "sysvicall2Err L fn a1 a2 t = sysvicallN L 2 fn [a1, a2] t"

definition sysvicall2 ::
  "'w libc \<Rightarrow> libcFunc \<Rightarrow> carg \<Rightarrow> carg \<Rightarrow> 'w thr \<Rightarrow> (uintptr \<times> carg list) \<times> 'w thr" where
  "sysvicall2 L fn a1 a2 t = (let ((r1, err, as), t') = sysvicall2Err L fn a1 a2 t in ((r1, as), t'))"

definition sysvicall3Err ::
  "'w libc \<Rightarrow> libcFunc \<Rightarrow> carg \<Rightarrow> carg \<Rightarrow> carg \<Rightarrow> 'w thr \<Rightarrow> (uintptr \<times> uintptr \<times> carg list) \<times> 'w thr" where
  "sysvicall3Err L fn a1 a2 a3 t = sysvicallN L 3 fn [a1, a2, a3] t"

definition sysvicall3 ::
  "'w libc \<Rightarrow> libcFunc \<Rightarrow> carg \<Rightarrow> carg \<Rightarrow> carg \<Rightarrow> 'w thr \<Rightarrow> (uintptr \<times> carg list) \<times> 'w thr" where
  "sysvicall3 L fn a1 a2 a3 t =
     (let ((r1, err, as), t') = sysvicall3Err L fn a1 a2 a3 t in ((r1, as), t'))"

definition sysvicall4 ::
  "'w libc \<Rightarrow> libcFunc \<Rightarrow> carg \<Rightarrow> carg \<Rightarrow> carg \<Rightarrow> carg \<Rightarrow> 'w thr \<Rightarrow> (uintptr \<times> carg list) \<times> 'w thr" where
  "sysvicall4 L fn a1 a2 a3 a4 t =
     (let ((r1, err, as), t') = sysvicallN L 4 fn [a1, a2, a3, a4] t in ((r1, as), t'))"

definition sysvicall5 ::
  "'w libc \<Rightarrow> libcFunc \<Rightarrow> carg \<Rightarrow> carg \<Rightarrow> carg \<Rightarrow> carg \<Rightarrow> carg \<Rightarrow> 'w thr
     \<Rightarrow> (uintptr \<times> carg list) \<times> 'w thr" where
  "sysvicall5 L fn a1 a2 a3 a4 a5 t =
     (let ((r1, err, as), t') = sysvicallN L 5 fn [a1, a2, a3, a4, a5] t in ((r1, as), t'))"

definition rt_sysvicall6 ::
  "'w libc \<Rightarrow> libcFunc \<Rightarrow> carg \<Rightarrow> carg \<Rightarrow> carg \<Rightarrow> carg \<Rightarrow> carg \<Rightarrow> carg \<Rightarrow> 'w thr
     \<Rightarrow> (uintptr \<times> carg list) \<times> 'w thr" where
  "rt_sysvicall6 L fn a1 a2 a3 a4 a5 a6 t =
     (let ((r1, err, as), t') = sysvicallN L 6 fn [a1, a2, a3, a4, a5, a6] t in ((r1, as), t'))"

section \<open>The entry points of package syscall\<close>

definition syscall_sysvicall6 ::
  "'w libc \<Rightarrow> libcFunc \<Rightarrow> nat \<Rightarrow> carg list \<Rightarrow> 'w thr
     \<Rightarrow> (uintptr \<times> uintptr \<times> uintptr \<times> carg list) \<times> 'w thr" where
  "syscall_sysvicall6 L fn nargs args t =
     (let t1 = t\<lparr>t_sched := t_sched t @ [EnterSyscallBlock]\<rparr>;
          (lc, t2) = asmsysvicall6 L (libcall_init fn nargs args) t1
      in ((lc_r1 lc, lc_r2 lc, lc_err lc, lc_args lc),
          t2\<lparr>t_sched := t_sched t2 @ [ExitSyscall]\<rparr>))"

definition syscall_rawsysvicall6 ::
  "'w libc \<Rightarrow> libcFunc \<Rightarrow> nat \<Rightarrow> carg list \<Rightarrow> 'w thr
     \<Rightarrow> (uintptr \<times> uintptr \<times> uintptr \<times> carg list) \<times> 'w thr" where
  "syscall_rawsysvicall6 L fn nargs args t =
     (let (lc, t2) = asmsysvicall6 L (libcall_init fn nargs args) t
      in ((lc_r1 lc, lc_r2 lc, lc_err lc, lc_args lc), t2))"

text \<open>The names the assembly stubs of \<open>syscall\<close> and \<open>internal/syscall/unix\<close> jump to.\<close>

abbreviation sysvicall6 where "sysvicall6 \<equiv> syscall_sysvicall6"
abbreviation rawSysvicall6 where "rawSysvicall6 \<equiv> syscall_rawsysvicall6"

lemmas [libcall_defs] =
  Let_def case_prod_beta has_errno_def asmsysvicall6_def libcall_enter_def libcall_leave_def libcall_init_def sysvicallN_def
  sysvicall0_def sysvicall1Err_def sysvicall1_def sysvicall2Err_def sysvicall2_def
  sysvicall3Err_def sysvicall3_def sysvicall4_def sysvicall5_def rt_sysvicall6_def
  syscall_sysvicall6_def syscall_rawsysvicall6_def

section \<open>The contract of a bridge\<close>

text \<open>
  What the callers rely on, for an entry point that reports the result registers, the error and
  the arguments: exactly one C call is made, with the arguments cut to the declared count; the
  outcome does not depend on the value \<open>errno\<close> had before; the reported error is the \<open>errno\<close>
  the callee left.
\<close>

locale errno_bridge =
  fixes call :: "'w libc \<Rightarrow> libcFunc \<Rightarrow> nat \<Rightarrow> carg list \<Rightarrow> 'w thr
     \<Rightarrow> (uintptr \<times> uintptr \<times> uintptr \<times> carg list) \<times> 'w thr"
  assumes one_call: "t_calls (snd (call L fn n args t)) = t_calls t @ [(fn, take (min n 6) args)]"
    and result: "has_errno t \<Longrightarrow> L fn (take (min n 6) args) 0 (t_world t) = (r0, r1, e, as, w)
      \<Longrightarrow> fst (call L fn n args t) = (r0, r1, e, as) \<and> t_world (snd (call L fn n args t)) = w"
    and keeps_errno: "has_errno (snd (call L fn n args t)) = has_errno t"
begin

text \<open>A stale \<open>errno\<close> never reaches the caller.\<close>

lemma no_stale_errno:
  assumes "has_errno t"
  shows "fst (call L fn n args (t\<lparr>t_errno := e1\<rparr>)) = fst (call L fn n args (t\<lparr>t_errno := e2\<rparr>))"
proof -
  obtain r0 r1 e as w where L: "L fn (take (min n 6) args) 0 (t_world t) = (r0, r1, e, as, w)"
    by (metis prod.collapse)
  have "has_errno (t\<lparr>t_errno := x\<rparr>)" for x
    using assms by (simp add: has_errno_def)
  with L show ?thesis
    using result [of "t\<lparr>t_errno := e1\<rparr>" L fn n args] result [of "t\<lparr>t_errno := e2\<rparr>" L fn n args]
    by simp
qed

text \<open>Two calls in a row are exactly two C calls, in order, and each reports its own error.\<close>

lemma two_calls:
  "t_calls (snd (call L fn' n' args' (snd (call L fn n args t))))
     = t_calls t @ [(fn, take (min n 6) args), (fn', take (min n' 6) args')]"
  by (simp add: one_call)

end

lemma syscall_sysvicall6_calls:
  "t_calls (snd (syscall_sysvicall6 L fn n args t)) = t_calls t @ [(fn, take (min n 6) args)]"
  by (simp add: libcall_defs)

lemma syscall_rawsysvicall6_calls:
  "t_calls (snd (syscall_rawsysvicall6 L fn n args t)) = t_calls t @ [(fn, take (min n 6) args)]"
  by (simp add: libcall_defs)

interpretation blocking: errno_bridge syscall_sysvicall6
  by unfold_locales (auto simp: libcall_defs)

interpretation raw: errno_bridge syscall_rawsysvicall6
  by unfold_locales (auto simp: libcall_defs)

section \<open>Import tables\<close>

text \<open>
  The \<open>go:cgo_import_dynamic\<close> directives of each file, in source order: the Go variable, the C
  symbol it is bound to, and the library that provides it.
\<close>

definition runtime_imports :: "(libcFunc \<times> string \<times> string) list" where
  "runtime_imports =
  [(''libc_malloc'', ''malloc'', ''libc.so.3''),
   (''libc_exit'', ''exit'', ''libc.so.3''),
   (''libc_close'', ''close'', ''libc.so.3''),
   (''libc_read'', ''read'', ''libc.so.3''),
   (''libc_write'', ''write'', ''libc.so.3''),
   (''libc_open'', ''open'', ''libc.so.3''),
   (''libc_mmap'', ''mmap'', ''libc.so.3''),
   (''libc_munmap'', ''munmap'', ''libc.so.3''),
   (''libc_sem_init'', ''sem_init'', ''libc.so.3''),
   (''libc_sem_wait'', ''sem_wait'', ''libc.so.3''),
   (''libc_sem_post'', ''sem_post'', ''libc.so.3''),
   (''libc_sem_timedwait'', ''sem_timedwait'', ''libc.so.3''),
   (''libc_sched_yield'', ''sched_yield'', ''libc.so.3''),
   (''libc_clock_gettime'', ''clock_gettime'', ''libc.so.3''),
   (''libc_nanosleep'', ''nanosleep'', ''libc.so.3''),
   (''libc_pthread_attr_init'', ''pthread_attr_init'', ''libc.so.3''),
   (''libc_pthread_attr_setstacksize'', ''pthread_attr_setstacksize'', ''libc.so.3''),
   (''libc_pthread_attr_setdetachstate'', ''pthread_attr_setdetachstate'', ''libc.so.3''),
   (''libc_pthread_create'', ''pthread_create'', ''libc.so.3''),
   (''libc_sigaction'', ''sigaction'', ''libc.so.3''),
   (''libc_sigprocmask'', ''sigprocmask'', ''libc.so.3''),
   (''libc_kill'', ''kill'', ''libc.so.3''),
   (''libc_getpid'', ''getpid'', ''libc.so.3''),
   (''libc_fcntl'', ''fcntl'', ''libc.so.3''),
   (''libc_pipe'', ''pipe'', ''libc.so.3''),
   (''libc_poll'', ''poll'', ''libc.so.3''),
   (''libc_get_errno_ptr'', ''__get_errno_ptr'', ''libc.so.3''),
   (''libc__init_libc'', ''_init_libc'', ''libc.so.3''),
   (''libc__cpupage_ptr'', ''_cpupage_ptr'', ''libc.so.3'')]"

definition syscall_imports :: "(libcFunc \<times> string \<times> string) list" where
  "syscall_imports =
  [(''libc_open'', ''open'', ''libc.so.3''),
   (''libc_close'', ''close'', ''libc.so.3''),
   (''libc_read'', ''read'', ''libc.so.3''),
   (''libc_write'', ''write'', ''libc.so.3''),
   (''libc_pread'', ''pread'', ''libc.so.3''),
   (''libc_pwrite'', ''pwrite'', ''libc.so.3''),
   (''libc_lseek'', ''lseek'', ''libc.so.3''),
   (''libc_fcntl'', ''fcntl'', ''libc.so.3''),
   (''libc_stat'', ''stat'', ''libc.so.3''),
   (''libc_lstat'', ''lstat'', ''libc.so.3''),
   (''libc_fstat'', ''fstat'', ''libc.so.3''),
   (''libc_mkdir'', ''mkdir'', ''libc.so.3''),
   (''libc_rmdir'', ''rmdir'', ''libc.so.3''),
   (''libc_unlink'', ''unlink'', ''libc.so.3''),
   (''libc_rename'', ''rename'', ''libc.so.3''),
   (''libc_chdir'', ''chdir'', ''libc.so.3''),
   (''libc_ftruncate'', ''ftruncate'', ''libc.so.3''),
   (''libc_fsync'', ''fsync'', ''libc.so.3''),
   (''libc_dup'', ''dup'', ''libc.so.3''),
   (''libc_dup2'', ''dup2'', ''libc.so.3''),
   (''libc_pipe'', ''pipe'', ''libc.so.3''),
   (''libc_getcwd'', ''getcwd'', ''libc.so.3''),
   (''libc_readlink'', ''readlink'', ''libc.so.3''),
   (''libc_symlink'', ''symlink'', ''libc.so.3''),
   (''libc_link'', ''link'', ''libc.so.3''),
   (''libc_chmod'', ''chmod'', ''libc.so.3''),
   (''libc_getdents'', ''readdir_r'', ''libc.so.3''),
   (''libc_getrlimit'', ''getrlimit'', ''libc.so.3''),
   (''libc_setrlimit'', ''setrlimit'', ''libc.so.3''),
   (''libc_socket'', ''socket'', ''libsocket.so.3''),
   (''libc_bind'', ''bind'', ''libsocket.so.3''),
   (''libc_connect'', ''connect'', ''libsocket.so.3''),
   (''libc_listen'', ''listen'', ''libsocket.so.3''),
   (''libc_accept'', ''accept'', ''libsocket.so.3''),
   (''libc_getsockname'', ''getsockname'', ''libsocket.so.3''),
   (''libc_getpeername'', ''getpeername'', ''libsocket.so.3''),
   (''libc_getsockopt'', ''getsockopt'', ''libsocket.so.3''),
   (''libc_setsockopt'', ''setsockopt'', ''libsocket.so.3''),
   (''libc_recvfrom'', ''recvfrom'', ''libsocket.so.3''),
   (''libc_sendto'', ''sendto'', ''libsocket.so.3''),
   (''libc_recvmsg'', ''recvmsg'', ''libsocket.so.3''),
   (''libc_sendmsg'', ''sendmsg'', ''libsocket.so.3''),
   (''libc_socketpair'', ''socketpair'', ''libsocket.so.3''),
   (''libc_shutdown'', ''shutdown'', ''libsocket.so.3''),
   (''libc_wait4'', ''wait4'', ''libc.so.3''),
   (''libc_kill'', ''kill'', ''libc.so.3''),
   (''libc_mmap'', ''mmap'', ''libc.so.3''),
   (''libc_munmap'', ''munmap'', ''libc.so.3''),
   (''libc_getpid'', ''getpid'', ''libc.so.3''),
   (''libc_getppid'', ''getppid'', ''libc.so.3''),
   (''libc_writev'', ''writev'', ''libc.so.3''),
   (''libc_fchmod'', ''fchmod'', ''libc.so.3''),
   (''libc_fchown'', ''fchown'', ''libc.so.3''),
   (''libc_fchdir'', ''fchdir'', ''libc.so.3'')]"

definition syscall_imports2 :: "(libcFunc \<times> string \<times> string) list" where
  "syscall_imports2 =
  [(''libc_truncate'', ''truncate'', ''libc.so.3''),
   (''libc_chown'', ''chown'', ''libc.so.3''),
   (''libc_lchown'', ''lchown'', ''libc.so.3''),
   (''libc_utimes'', ''utimes'', ''libc.so.3''),
   (''libc_access'', ''access'', ''libc.so.3''),
   (''libc_getuid'', ''getuid'', ''libc.so.3''),
   (''libc_geteuid'', ''geteuid'', ''libc.so.3''),
   (''libc_getgid'', ''getgid'', ''libc.so.3''),
   (''libc_getegid'', ''getegid'', ''libc.so.3''),
   (''libc_getgroups'', ''getgroups'', ''libc.so.3''),
   (''libc_gethostname'', ''gethostname'', ''libc.so.3''),
   (''libc_getrusage'', ''getrusage'', ''libc.so.3''),
   (''libc_getsid'', ''getsid'', ''libc.so.3''),
   (''libc_umask'', ''umask'', ''libc.so.3'')]"

definition syscall_imports3 :: "(libcFunc \<times> string \<times> string) list" where
  "syscall_imports3 =
  [(''libc_poll'', ''poll'', ''libc.so.3''),
   (''libc_clock_settime'', ''clock_settime'', ''libc.so.3''),
   (''libc_getifaddrs'', ''getifaddrs'', ''libsocket.so.3''),
   (''libc_freeifaddrs'', ''freeifaddrs'', ''libsocket.so.3''),
   (''libc_if_nametoindex'', ''if_nametoindex'', ''libsocket.so.3'')]"

definition exec_imports :: "(libcFunc \<times> string \<times> string) list" where
  "exec_imports =
  [(''libc_posix_spawn'', ''posix_spawn'', ''libc.so.3''),
   (''libc_posix_spawn_file_actions_init'', ''posix_spawn_file_actions_init'', ''libc.so.3''),
   (''libc_posix_spawn_file_actions_destroy'', ''posix_spawn_file_actions_destroy'', ''libc.so.3''),
   (''libc_posix_spawn_file_actions_adddup2'', ''posix_spawn_file_actions_adddup2'', ''libc.so.3''),
   (''libc_posix_spawnattr_init'', ''posix_spawnattr_init'', ''libc.so.3''),
   (''libc_posix_spawnattr_destroy'', ''posix_spawnattr_destroy'', ''libc.so.3''),
   (''libc_posix_spawnattr_setflags'', ''posix_spawnattr_setflags'', ''libc.so.3''),
   (''libc_posix_spawnattr_setpgroup'', ''posix_spawnattr_setpgroup'', ''libc.so.3'')]"

definition unix_imports :: "(libcFunc \<times> string \<times> string) list" where
  "unix_imports =
  [(''libc_open'', ''open'', ''libc.so.3''),
   (''libc_stat'', ''stat'', ''libc.so.3''),
   (''libc_lstat'', ''lstat'', ''libc.so.3''),
   (''libc_unlink'', ''unlink'', ''libc.so.3''),
   (''libc_rmdir'', ''rmdir'', ''libc.so.3''),
   (''libc_mkdir'', ''mkdir'', ''libc.so.3''),
   (''libc_chmod'', ''chmod'', ''libc.so.3''),
   (''libc_chown'', ''chown'', ''libc.so.3''),
   (''libc_lchown'', ''lchown'', ''libc.so.3''),
   (''libc_readlink'', ''readlink'', ''libc.so.3''),
   (''libc_symlink'', ''symlink'', ''libc.so.3''),
   (''libc_link'', ''link'', ''libc.so.3''),
   (''libc_rename'', ''rename'', ''libc.so.3''),
   (''libc_access'', ''access'', ''libc.so.3'')]"

definition qnx_imports :: "(libcFunc \<times> string \<times> string) list" where
  "qnx_imports = runtime_imports @ syscall_imports @ syscall_imports2 @ syscall_imports3
     @ exec_imports @ unix_imports"

lemmas imports_defs =
  runtime_imports_def syscall_imports_def syscall_imports2_def syscall_imports3_def
  exec_imports_def unix_imports_def qnx_imports_def

section \<open>Properties\<close>

text \<open>A thread with a \<open>g\<close> and a cached \<open>errno\<close> pointer, and no call made yet.\<close>

definition thr_of :: "'w \<Rightarrow> 'w thr" where
  "thr_of w = \<lparr>t_g = 1, t_callerpc = 0x1000, t_callersp = 0x2000, m_libcallg = 0, m_libcallpc = 0,
     m_libcallsp = 0, m_perrno = 0x3000, t_errno = 0, t_calls = [], t_sched = [], t_world = w\<rparr>"

text \<open>A libc call leaves the traceback frame of its thread as it found it: the outermost call
  withdraws the frame it published, a nested call changes neither the frame's sp nor its g and pc,
  and exactly one C call is made, with the arguments cut to the declared count.\<close>

theorem sysvicallN_frame:
  shows "m_libcallsp (snd (sysvicallN L n fn args t)) = m_libcallsp t
    \<and> (m_libcallsp t \<noteq> 0 \<longrightarrow> m_libcallg (snd (sysvicallN L n fn args t)) = m_libcallg t
         \<and> m_libcallpc (snd (sysvicallN L n fn args t)) = m_libcallpc t)
    \<and> t_calls (snd (sysvicallN L n fn args t)) = t_calls t @ [(fn, take (min n 6) args)]"
  by (simp add: libcall_defs)

theorem sysvicallN_frame_witness:
  "m_libcallsp (snd (sysvicallN (\<lambda>fn as e w. (0, 0, 0, as, w)) 1 ''libc_close'' [AWord 3]
      ((thr_of ())\<lparr>m_libcallsp := 7, m_libcallpc := 9\<rparr>))) = 7
   \<and> m_libcallpc (snd (sysvicallN (\<lambda>fn as e w. (0, 0, 0, as, w)) 1 ''libc_close'' [AWord 3]
      ((thr_of ())\<lparr>m_libcallsp := 7, m_libcallpc := 9\<rparr>))) = 9"
  using sysvicallN_frame [of "\<lambda>fn as e w. (0, 0, 0, as, w)" 1 "''libc_close''" "[AWord 3]"
      "(thr_of ())\<lparr>m_libcallsp := 7, m_libcallpc := 9\<rparr>"] by simp

text \<open>C37: The error a bridge reports is the one its own C call left: whatever value \<open>errno\<close> had
  before the call, both entry points of package \<open>syscall\<close> report the callee's results and error,
  and nothing of the earlier value.\<close>

theorem bridges_no_stale_errno:
  assumes "has_errno t"
  shows "fst (syscall_sysvicall6 L fn n args (t\<lparr>t_errno := e1\<rparr>)) = fst (syscall_sysvicall6 L fn n args (t\<lparr>t_errno := e2\<rparr>))
    \<and> fst (syscall_rawsysvicall6 L fn n args (t\<lparr>t_errno := e1\<rparr>)) = fst (syscall_rawsysvicall6 L fn n args (t\<lparr>t_errno := e2\<rparr>))"
  using blocking.no_stale_errno [OF assms] raw.no_stale_errno [OF assms] by blast

theorem bridges_no_stale_errno_witness:
  "fst (syscall_sysvicall6 (\<lambda>fn as e w. (0, 0, e, as, w)) ''libc_getppid'' 0 [] ((thr_of ())\<lparr>t_errno := 9\<rparr>))
     = fst (syscall_sysvicall6 (\<lambda>fn as e w. (0, 0, e, as, w)) ''libc_getppid'' 0 [] ((thr_of ())\<lparr>t_errno := 0\<rparr>))"
  using bridges_no_stale_errno [of "thr_of ()" "\<lambda>fn as e w. (0, 0, e, as, w)" "''libc_getppid''" 0 "[]" 9 0]
  by (simp add: has_errno_def thr_of_def)

text \<open>
  The functions the port takes from the socket library, and the naming rule of the Go variables:
  \<open>libc_\<close> followed by the symbol, with two exceptions.
\<close>

definition socket_symbols :: "string list" where
  "socket_symbols = [''socket'', ''bind'', ''connect'', ''listen'', ''accept'', ''getsockname'', ''getpeername'',
     ''getsockopt'', ''setsockopt'', ''recvfrom'', ''sendto'', ''recvmsg'', ''sendmsg'', ''socketpair'', ''shutdown'',
     ''getifaddrs'', ''freeifaddrs'', ''if_nametoindex'']"

definition symbol_of :: "libcFunc \<Rightarrow> string" where
  "symbol_of v = (if v = ''libc_getdents'' then ''readdir_r''
     else if v = ''libc_get_errno_ptr'' then ''__get_errno_ptr'' else drop 5 v)"

definition library_of :: "string \<Rightarrow> string" where
  "library_of s = (if s \<in> set socket_symbols then ''libsocket.so.3'' else ''libc.so.3'')"

definition binding_ok :: "libcFunc \<times> string \<times> string \<Rightarrow> bool" where
  "binding_ok b = (case b of (v, s, l) \<Rightarrow> s = symbol_of v \<and> l = library_of s)"

lemmas binding_defs = binding_ok_def symbol_of_def library_of_def socket_symbols_def

lemma runtime_bindings: "list_all binding_ok runtime_imports"
  by (simp add: runtime_imports_def binding_defs)

lemma syscall_bindings: "list_all binding_ok syscall_imports"
  by (simp add: syscall_imports_def binding_defs)

lemma other_bindings:
  "list_all binding_ok (syscall_imports2 @ syscall_imports3 @ exec_imports @ unix_imports)"
  by (simp add: syscall_imports2_def syscall_imports3_def exec_imports_def unix_imports_def binding_defs)

text \<open>The import tables of the runtime, of \<open>syscall\<close> and of \<open>internal/syscall/unix\<close> agree:
  two directives for the same Go variable bind the same C symbol of the same library, and a symbol
  comes from \<open>libsocket.so.3\<close> exactly when it is one of the socket functions.\<close>

theorem imports_agree:
  assumes "(v, s, l) \<in> set qnx_imports" and "(v, s', l') \<in> set qnx_imports"
  shows "s = s' \<and> l = l' \<and> (l = ''libsocket.so.3'' \<longleftrightarrow> s \<in> set socket_symbols)"
proof -
  have "list_all binding_ok qnx_imports"
    using runtime_bindings syscall_bindings other_bindings by (simp add: qnx_imports_def)
  with assms have "binding_ok (v, s, l)" and "binding_ok (v, s', l')" by (auto simp: list_all_iff)
  then show ?thesis by (auto simp: binding_ok_def library_of_def)
qed

theorem imports_agree_witness:
  "(''libc_open'', ''open'', ''libc.so.3'') \<in> set qnx_imports \<and> ''open'' \<notin> set socket_symbols"
proof -
  have m: "(''libc_open'', ''open'', ''libc.so.3'') \<in> set qnx_imports"
    by (simp add: qnx_imports_def runtime_imports_def)
  from imports_agree [OF this this] m show ?thesis by simp
qed

end
