(* ===== verification/Qnx_Sockaddr.thy ===== *)
theory Qnx_Sockaddr
  imports Qnx_Types
begin

text \<open>
  \<open>syscall/syscall_qnx_arm.go\<close>: the decoding of wait statuses and the conversion between Go's
  socket addresses and the BSD-style structures (length byte first) libsocket exchanges. The
  \<open>raw\<close> field that each Go address carries is part of the state: \<open>sockaddr\<close> writes into it and
  returns a pointer to it. The contract \<open>sockaddr_codec\<close> says that what a peer reads from the
  bytes handed to the kernel is the address that was encoded.
\<close>

section \<open>Wait status\<close>

abbreviation SIGSTOP_num :: int where "SIGSTOP_num \<equiv> 23"

definition WaitStatus_Exited :: "u32 \<Rightarrow> bool" where
  "WaitStatus_Exited w \<longleftrightarrow> w AND 0x7F = 0"

definition WaitStatus_ExitStatus :: "u32 \<Rightarrow> int" where
  "WaitStatus_ExitStatus w = (if w AND 0x7F \<noteq> 0 then -1 else toint (drop_bit 8 w))"

definition WaitStatus_Signaled :: "u32 \<Rightarrow> bool" where
  "WaitStatus_Signaled w \<longleftrightarrow> w AND 0x7F \<noteq> 0x7F \<and> w AND 0x7F \<noteq> 0"

definition WaitStatus_Signal :: "u32 \<Rightarrow> int" where
  "WaitStatus_Signal w =
     (let sig = toint (w AND 0x7F) in if sig = 0x7F \<or> sig = 0 then -1 else sig)"

definition WaitStatus_CoreDump :: "u32 \<Rightarrow> bool" where
  "WaitStatus_CoreDump w \<longleftrightarrow> WaitStatus_Signaled w \<and> w AND 0x80 \<noteq> 0"

definition WaitStatus_Stopped :: "u32 \<Rightarrow> bool" where
  "WaitStatus_Stopped w \<longleftrightarrow> w AND 0x7F = 0x7F \<and> toint (drop_bit 8 w) \<noteq> SIGSTOP_num"

definition WaitStatus_Continued :: "u32 \<Rightarrow> bool" where
  "WaitStatus_Continued w \<longleftrightarrow> w AND 0x7F = 0x7F \<and> toint (drop_bit 8 w) = SIGSTOP_num"

definition WaitStatus_StopSignal :: "u32 \<Rightarrow> int" where
  "WaitStatus_StopSignal w = (if \<not> WaitStatus_Stopped w then -1 else toint (drop_bit 8 w) AND 0xFF)"

section \<open>Socket addresses\<close>

abbreviation AF_UNIX :: u8 where "AF_UNIX \<equiv> 1"
abbreviation AF_INET :: u8 where "AF_INET \<equiv> 2"
abbreviation AF_INET6 :: u8 where "AF_INET6 \<equiv> 24"

definition sizeof_RawSockaddrAny :: nat where "sizeof_RawSockaddrAny = 112"
definition SizeofSockaddrAny :: u32 where "SizeofSockaddrAny = 0x6c"

record SockaddrInet4 =
  s4_Port :: int
  s4_Addr :: gostring
  s4_raw :: gostring

record SockaddrInet6 =
  s6_Port :: int
  s6_ZoneId :: u32
  s6_Addr :: gostring
  s6_raw :: gostring

record SockaddrUnix =
  su_Name :: gostring
  su_raw :: gostring

text \<open>The address as the caller of \<open>anyToSockaddr\<close> sees it.\<close>

datatype Sockaddr = Inet4 int gostring | Inet6 int u32 gostring | Unix gostring

definition le32 :: "u32 \<Rightarrow> gostring" where
  "le32 w = [ucast w, ucast (drop_bit 8 w), ucast (drop_bit 16 w), ucast (drop_bit 24 w)]"

definition of_le32 :: "gostring \<Rightarrow> u32" where
  "of_le32 b = ucast (b ! 0) OR push_bit 8 (ucast (b ! 1)) OR push_bit 16 (ucast (b ! 2))
     OR push_bit 24 (ucast (b ! 3))"

definition port_hi :: "int \<Rightarrow> u8" where "port_hi p = word_of_int (drop_bit 8 p)"
definition port_lo :: "int \<Rightarrow> u8" where "port_lo p = word_of_int p"

definition sockaddr_inet4 :: "SockaddrInet4 \<Rightarrow> (u32 + gostring \<times> u32) \<times> SockaddrInet4" where
  "sockaddr_inet4 sa =
     (if s4_Port sa < 0 \<or> s4_Port sa > 0xFFFF then (Inl EINVAL, sa)
      else (let raw = [0x10, AF_INET, port_hi (s4_Port sa), port_lo (s4_Port sa)] @ s4_Addr sa
                        @ drop 8 (s4_raw sa)
            in (Inr (raw, 0x10), sa\<lparr>s4_raw := raw\<rparr>)))"

definition sockaddr_inet6 :: "SockaddrInet6 \<Rightarrow> (u32 + gostring \<times> u32) \<times> SockaddrInet6" where
  "sockaddr_inet6 sa =
     (if s6_Port sa < 0 \<or> s6_Port sa > 0xFFFF then (Inl EINVAL, sa)
      else (let raw = [0x1c, AF_INET6, port_hi (s6_Port sa), port_lo (s6_Port sa)]
                        @ take 4 (drop 4 (s6_raw sa)) @ s6_Addr sa @ le32 (s6_ZoneId sa)
            in (Inr (raw, 0x1c), sa\<lparr>s6_raw := raw\<rparr>)))"

definition sockaddr_unix :: "SockaddrUnix \<Rightarrow> (u32 + gostring \<times> u32) \<times> SockaddrUnix" where
  "sockaddr_unix sa =
     (let n = length (su_Name sa)
      in if n \<ge> 104 \<or> n = 0 then (Inl EINVAL, sa)
         else (let raw = [of_nat (3 + n), AF_UNIX] @ su_Name sa @ drop (2 + n) (su_raw sa)
               in (Inr (raw, of_nat (3 + n)), sa\<lparr>su_raw := raw\<rparr>)))"

definition anyToSockaddr :: "gostring \<Rightarrow> u32 + Sockaddr" where
  "anyToSockaddr rsa =
     (let port = push_bit 8 (uint (rsa ! 2)) + uint (rsa ! 3)
      in if rsa ! 1 = AF_UNIX then Inr (Unix (takeWhile (\<lambda>c. c \<noteq> 0) (take 104 (drop 2 rsa))))
         else if rsa ! 1 = AF_INET then Inr (Inet4 port (take 4 (drop 4 rsa)))
         else if rsa ! 1 = AF_INET6
           then Inr (Inet6 port (of_le32 (take 4 (drop 24 rsa))) (take 16 (drop 8 rsa)))
         else Inl EAFNOSUPPORT)"

text \<open>
  What a receiver finds in its zeroed \<open>RawSockaddrAny\<close> when the peer's address is the first
  \<open>n\<close> bytes of \<open>raw\<close>.
\<close>

definition rsa_of :: "gostring \<Rightarrow> u32 \<Rightarrow> gostring" where
  "rsa_of raw n = take (unat n) raw @ replicate (sizeof_RawSockaddrAny - unat n) 0"

section \<open>Arithmetic of lengths, ports and scope ids\<close>

lemma unix_len_value:
  assumes "k < 104"
  shows "unat (word_of_nat (3 + k) :: u32) = 3 + k" and "uint (word_of_nat (3 + k) :: u8) = 3 + int k"
    and "uint (word_of_nat (3 + k) :: u32) = 3 + int k"
proof -
  have u: "unat (word_of_nat (3 + k) :: u32) = 3 + k" "unat (word_of_nat (3 + k) :: u8) = 3 + k"
    using assms by (auto simp: unat_word_ariths unat_of_nat take_bit_eq_mod simp del: of_nat_add)
  from u(1) show "unat (word_of_nat (3 + k) :: u32) = 3 + k" .
  from u show "uint (word_of_nat (3 + k) :: u8) = 3 + int k" and "uint (word_of_nat (3 + k) :: u32) = 3 + int k"
    by (simp_all only: uint_nat of_nat_add of_nat_numeral)
qed

lemma port_roundtrip:
  assumes "0 \<le> p" and "p \<le> 0xFFFF"
  shows "push_bit 8 (uint (port_hi p)) + uint (port_lo p) = p"
proof -
  have "p div 256 < 256" using assms by auto
  moreover have "0 \<le> p div 256" using assms by auto
  ultimately have "uint (port_hi p) = p div 256"
    using assms by (simp add: port_hi_def uint_word_of_int drop_bit_eq_div)
  moreover have "uint (port_lo p) = p mod 256"
    by (simp add: port_lo_def uint_word_of_int)
  ultimately show ?thesis
    by (simp add: push_bit_eq_mult)
qed

lemma le32_roundtrip: "of_le32 (le32 w) = w"
proof (rule bit_word_eqI)
  fix n :: nat
  assume "n < LENGTH(32)"
  then have "n < 32" by simp
  then consider "n < 8" | "8 \<le> n" "n < 16" | "16 \<le> n" "n < 24" | "24 \<le> n" "n < 32" by linarith
  then show "bit (of_le32 (le32 w)) n = bit w n"
    by cases (auto simp: of_le32_def le32_def bit_simps)
qed

lemma le32_length [simp]: "length (le32 w) = 4"
  by (simp add: le32_def)

section \<open>The contract of the three encoders\<close>

locale sockaddr_codec =
  fixes wf :: "'s \<Rightarrow> bool"
    and encode :: "'s \<Rightarrow> (u32 + gostring \<times> u32) \<times> 's"
    and view :: "'s \<Rightarrow> Sockaddr"
  assumes decode: "wf s \<Longrightarrow> encode s = (Inr (raw, n), s') \<Longrightarrow> anyToSockaddr (rsa_of raw n) = Inr (view s)"
    and len_byte: "wf s \<Longrightarrow> encode s = (Inr (raw, n), s') \<Longrightarrow> uint (raw ! 0) = uint n \<and> unat n \<le> length raw"
begin

text \<open>Two addresses that differ are never sent as the same bytes.\<close>

lemma encode_injective:
  assumes "wf s1" and "wf s2" and "encode s1 = (Inr (raw, n), s1')" and "encode s2 = (Inr (raw, n), s2')"
  shows "view s1 = view s2"
proof -
  from decode [OF assms(1) assms(3)] decode [OF assms(2) assms(4)]
  have "(Inr (view s1) :: u32 + Sockaddr) = Inr (view s2)" by simp
  then show ?thesis by simp
qed

end

definition wf_inet4 :: "SockaddrInet4 \<Rightarrow> bool" where
  "wf_inet4 s \<longleftrightarrow> length (s4_Addr s) = 4 \<and> length (s4_raw s) = 16"

definition wf_inet6 :: "SockaddrInet6 \<Rightarrow> bool" where
  "wf_inet6 s \<longleftrightarrow> length (s6_Addr s) = 16 \<and> length (s6_raw s) = 28"

text \<open>
  For a Unix address the byte after the name must still be zero in \<open>raw\<close>: \<open>sockaddr\<close> copies the
  name without a terminator, and counts one byte for it.
\<close>

definition wf_unix :: "SockaddrUnix \<Rightarrow> bool" where
  "wf_unix s \<longleftrightarrow> length (su_raw s) = 106 \<and> 0 \<notin> set (su_Name s)
     \<and> (length (su_Name s) < 104 \<longrightarrow> su_raw s ! (2 + length (su_Name s)) = 0)"

lemma inet4_decode:
  assumes "wf_inet4 s" and "sockaddr_inet4 s = (Inr (raw, n), s')"
  shows "anyToSockaddr (rsa_of raw n) = Inr (Inet4 (s4_Port s) (s4_Addr s))"
proof -
  from assms have raw: "raw = [0x10, AF_INET, port_hi (s4_Port s), port_lo (s4_Port s)] @ s4_Addr s @ drop 8 (s4_raw s)"
    and n: "n = 0x10" and p: "0 \<le> s4_Port s" "s4_Port s \<le> 0xFFFF"
    by (auto simp: sockaddr_inet4_def Let_def split: if_splits)
  from assms(1) have "take 16 raw = raw"
    by (simp add: raw wf_inet4_def)
  then have "rsa_of raw n = raw @ replicate 96 0"
    by (simp add: rsa_of_def n sizeof_RawSockaddrAny_def)
  then have "rsa_of raw n = 0x10 # AF_INET # port_hi (s4_Port s) # port_lo (s4_Port s) # s4_Addr s
      @ drop 8 (s4_raw s) @ replicate 96 0"
    by (simp add: raw)
  then show ?thesis
    using assms(1) port_roundtrip [OF p] by (simp add: anyToSockaddr_def Let_def wf_inet4_def)
qed

lemma inet6_decode:
  assumes "wf_inet6 s" and "sockaddr_inet6 s = (Inr (raw, n), s')"
  shows "anyToSockaddr (rsa_of raw n) = Inr (Inet6 (s6_Port s) (s6_ZoneId s) (s6_Addr s))"
proof -
  define f where "f = take 4 (drop 4 (s6_raw s))"
  from assms have raw: "raw = [0x1c, AF_INET6, port_hi (s6_Port s), port_lo (s6_Port s)] @ f @ s6_Addr s
        @ le32 (s6_ZoneId s)"
    and n: "n = 0x1c" and p: "0 \<le> s6_Port s" "s6_Port s \<le> 0xFFFF"
    by (auto simp: sockaddr_inet6_def Let_def f_def split: if_splits)
  from assms(1) have lf: "length f = 4" and la: "length (s6_Addr s) = 16"
    by (auto simp: f_def wf_inet6_def)
  then have "take 28 raw = raw"
    by (simp add: raw)
  then have rsa: "rsa_of raw n = 0x1c # AF_INET6 # port_hi (s6_Port s) # port_lo (s6_Port s) # f @ s6_Addr s
      @ le32 (s6_ZoneId s) @ replicate 84 0"
    by (simp add: rsa_of_def n sizeof_RawSockaddrAny_def raw)
  from lf la have "take 4 (drop 24 (rsa_of raw n)) = le32 (s6_ZoneId s)"
    and "take 16 (drop 8 (rsa_of raw n)) = s6_Addr s"
    by (simp_all add: rsa drop_Cons')
  then show ?thesis
    using port_roundtrip [OF p] by (simp add: anyToSockaddr_def Let_def rsa le32_roundtrip)
qed

lemma unix_decode:
  assumes "wf_unix s" and "sockaddr_unix s = (Inr (raw, n), s')"
  shows "anyToSockaddr (rsa_of raw n) = Inr (Unix (su_Name s))"
proof -
  let ?k = "length (su_Name s)"
  from assms have k: "?k < 104" "0 < ?k"
    and raw: "raw = [of_nat (3 + ?k), AF_UNIX] @ su_Name s @ drop (2 + ?k) (su_raw s)"
    and n: "n = of_nat (3 + ?k)"
    by (auto simp: sockaddr_unix_def Let_def split: if_splits)
  have un: "unat n = 3 + ?k" unfolding n by (rule unix_len_value(1) [OF k(1)])
  from assms(1) k have "drop (2 + ?k) (su_raw s) = 0 # drop (3 + ?k) (su_raw s)"
    using Cons_nth_drop_Suc [of "2 + ?k" "su_raw s"] by (simp add: wf_unix_def eval_nat_numeral)
  then have "take (unat n) raw = [of_nat (3 + ?k), AF_UNIX] @ su_Name s @ [0]"
    by (simp add: raw un take_Cons' numeral_eq_Suc)
  then have rsa: "rsa_of raw n = [of_nat (3 + ?k), AF_UNIX] @ su_Name s @ [0]
      @ replicate (sizeof_RawSockaddrAny - (3 + ?k)) 0"
    by (simp add: rsa_of_def un)
  have nz: "\<forall>c \<in> set (su_Name s). c \<noteq> 0" using assms(1) by (auto simp: wf_unix_def)
  have "take 104 (drop 2 (rsa_of raw n)) = su_Name s @ 0 # replicate (103 - ?k) 0"
    using k by (simp add: rsa sizeof_RawSockaddrAny_def min_def take_Cons')
  moreover have "takeWhile (\<lambda>c. c \<noteq> 0) (su_Name s @ 0 # replicate (103 - ?k) 0) = su_Name s"
    using nz by (simp add: takeWhile_append2)
  ultimately show ?thesis by (simp add: anyToSockaddr_def Let_def rsa)
qed

lemma inet4_len:
  "wf_inet4 s \<Longrightarrow> sockaddr_inet4 s = (Inr (raw, n), s') \<Longrightarrow> uint (raw ! 0) = uint n \<and> unat n \<le> length raw"
  by (auto simp: sockaddr_inet4_def wf_inet4_def Let_def split: if_splits)

lemma inet6_len:
  "wf_inet6 s \<Longrightarrow> sockaddr_inet6 s = (Inr (raw, n), s') \<Longrightarrow> uint (raw ! 0) = uint n \<and> unat n \<le> length raw"
  by (auto simp: sockaddr_inet6_def wf_inet6_def Let_def split: if_splits)

lemma unix_len:
  "wf_unix s \<Longrightarrow> sockaddr_unix s = (Inr (raw, n), s') \<Longrightarrow> uint (raw ! 0) = uint n \<and> unat n \<le> length raw"
  by (auto simp: sockaddr_unix_def wf_unix_def Let_def unix_len_value split: if_splits
      simp del: of_nat_add)

interpretation inet4: sockaddr_codec wf_inet4 sockaddr_inet4 "\<lambda>s. Inet4 (s4_Port s) (s4_Addr s)"
  by unfold_locales (erule (1) inet4_decode, erule (1) inet4_len)

interpretation inet6: sockaddr_codec wf_inet6 sockaddr_inet6 "\<lambda>s. Inet6 (s6_Port s) (s6_ZoneId s) (s6_Addr s)"
  by unfold_locales (erule (1) inet6_decode, erule (1) inet6_len)

interpretation unixsock: sockaddr_codec wf_unix sockaddr_unix "\<lambda>s. Unix (su_Name s)"
  by unfold_locales (erule (1) unix_decode, erule (1) unix_len)

section \<open>Properties\<close>

text \<open>Every wait status is classified as exactly one of exited, signaled, stopped and continued;
  an exit status is reported for the first class only, a terminating signal for the second only.\<close>

theorem wait_status_classes:
  "length (filter id [WaitStatus_Exited w, WaitStatus_Signaled w, WaitStatus_Stopped w, WaitStatus_Continued w]) = 1
   \<and> (WaitStatus_Signal w \<noteq> -1 \<longleftrightarrow> WaitStatus_Signaled w)
   \<and> (WaitStatus_CoreDump w \<longrightarrow> WaitStatus_Signaled w)
   \<and> (\<not> WaitStatus_Exited w \<longrightarrow> WaitStatus_ExitStatus w = -1)
   \<and> (\<not> WaitStatus_Stopped w \<longrightarrow> WaitStatus_StopSignal w = -1)"
proof -
  have "uint (w AND 0x7F) < 128"
    unfolding and_7F using take_bit_int_less_exp [of 7 "uint w"] by (simp add: unsigned_take_bit_eq)
  then have b: "toint (w AND 0x7F) = uint (w AND 0x7F)"
    by (intro toint_small) simp
  have "toint (w AND 0x7F) \<noteq> -1"
    unfolding b using uint_ge_0 [of "w AND 0x7F"] by linarith
  moreover have "toint (w AND 0x7F) = 0x7F \<longleftrightarrow> w AND 0x7F = 0x7F" "toint (w AND 0x7F) = 0 \<longleftrightarrow> w AND 0x7F = 0"
    unfolding b using word_uint_eq_iff [of "w AND 0x7F" "0x7F"] word_uint_eq_iff [of "w AND 0x7F" 0] by auto
  ultimately show ?thesis
    by (auto simp: WaitStatus_Exited_def WaitStatus_Signaled_def WaitStatus_Stopped_def WaitStatus_Continued_def
        WaitStatus_Signal_def WaitStatus_CoreDump_def WaitStatus_ExitStatus_def WaitStatus_StopSignal_def Let_def)
qed

theorem wait_status_classes_witness:
  "WaitStatus_ExitStatus 0x0B = -1 \<and> WaitStatus_StopSignal 0x0B = -1"
  using wait_status_classes [where w = "0x0B"] by (simp add: WaitStatus_Exited_def WaitStatus_Stopped_def)

text \<open>The exit code of a child is read back exactly: the status that C builds for \<open>exit(n)\<close>,
  \<open>n\<close> of eight bits, is an exit with status \<open>n\<close>.\<close>

theorem exit_status_roundtrip:
  "WaitStatus_Exited (push_bit 8 (ucast (n :: u8))) \<and> WaitStatus_ExitStatus (push_bit 8 (ucast n)) = uint n"
proof -
  have lo: "(push_bit 8 (ucast n) :: u32) AND 0x7F = 0"
    unfolding and_7F by (simp add: take_bit_push_bit)
  have "drop_bit 8 (push_bit 8 (ucast n) :: u32) = ucast n"
    by (rule bit_word_eqI) (auto simp: bit_simps dest: bit_imp_le_length)
  moreover have "toint (ucast n) = uint n"
    using uint_lt2p [of n] uint_ge_0 [of n] toint_small [of "ucast n"]
    by (simp add: unsigned_ucast_eq take_bit_int_eq_self)
  ultimately show ?thesis using lo by (simp add: WaitStatus_Exited_def WaitStatus_ExitStatus_def)
qed

text \<open>Job control of QNX is read the BSD way: a child stopped by \<open>SIGSTOP\<close> (23) counts as
  continued and not as stopped, and the status 0xFFFF, with which QNX's \<open>WIFCONTINUED\<close> marks a
  continued child, counts as stopped.\<close>

theorem qnx_stop_status_misread:
  "\<not> WaitStatus_Stopped 0x177F \<and> WaitStatus_Continued 0x177F
   \<and> WaitStatus_Stopped 0xFFFF \<and> \<not> WaitStatus_Continued 0xFFFF"
  by (simp add: WaitStatus_Stopped_def WaitStatus_Continued_def toint_def)

end
