(* ===== verification/Qnx_Syscall.thy ===== *)
theory Qnx_Syscall
  imports Qnx_Libcall Qnx_Sockaddr
begin

text \<open>
  Package \<open>syscall\<close> for QNX (\<open>syscall_qnx.go\<close>, \<open>syscall_qnx2.go\<close>, \<open>syscall_qnx3.go\<close>): one
  definition per wrapper, each a function of the C library, the Go arguments and the calling
  thread. A Go \<open>error\<close> is an \<open>u32 option\<close> (the \<open>Errno\<close>); a pointer or slice argument that the
  callee may write is returned with its new contents. The contracts \<open>path_op\<close> and \<open>fd_op\<close> state
  what all wrappers of a kind promise; each wrapper is an instance.
\<close>

section \<open>Idioms of the wrappers\<close>

type_synonym 'w sysret = "(uintptr \<times> uintptr \<times> uintptr \<times> carg list) \<times> 'w thr"

definition ByteSliceFromString :: "gostring \<Rightarrow> u32 + gostring" where
  "ByteSliceFromString s = (if 0 \<in> set s then Inl EINVAL else Inr (s @ [0]))"

definition BytePtrFromString :: "gostring \<Rightarrow> u32 + gostring" where
  "BytePtrFromString s = (case ByteSliceFromString s of Inl e \<Rightarrow> Inl e | Inr a \<Rightarrow> Inr a)"

definition goerr :: "u32 \<Rightarrow> u32 option" where
  "goerr e = (if e \<noteq> 0 then Some e else None)"

text \<open>The ending \<open>if e != 0 { return e }; return nil\<close>.\<close>

definition err_only :: "'w sysret \<Rightarrow> u32 option \<times> 'w thr" where
  "err_only r = (let ((r1, r2, e, as), t) = r in (goerr e, t))"

text \<open>The ending \<open>n = int(r1); if e != 0 { err = e }; return\<close>.\<close>

definition int_err :: "'w sysret \<Rightarrow> (int \<times> u32 option) \<times> 'w thr" where
  "int_err r = (let ((r1, r2, e, as), t) = r in ((toint r1, goerr e), t))"

text \<open>The ending \<open>if e != 0 { return -1, e }; return int(r1), nil\<close>.\<close>

definition fd_err :: "'w sysret \<Rightarrow> (int \<times> u32 option) \<times> 'w thr" where
  "fd_err r = (let ((r1, r2, e, as), t) = r in if e \<noteq> 0 then ((-1, Some e), t) else ((toint r1, None), t))"

text \<open>The pointer to the first byte of a slice, nil for an empty one.\<close>

definition bufptr :: "gostring \<Rightarrow> carg" where
  "bufptr p = (if p = [] then ANull else ABuf p)"

abbreviation W :: "int \<Rightarrow> carg" where "W x \<equiv> AWord (uptr x)"

definition lo32 :: "int \<Rightarrow> uintptr" where "lo32 off = uptr off"
definition hi32 :: "int \<Rightarrow> uintptr" where "hi32 off = uptr (drop_bit 32 off)"

definition out_rusage :: "carg \<Rightarrow> Rusage \<Rightarrow> Rusage" where
  "out_rusage a old = (case a of ARusage r \<Rightarrow> r | _ \<Rightarrow> old)"

definition out_rlimit :: "carg \<Rightarrow> Rlimit \<Rightarrow> Rlimit" where
  "out_rlimit a old = (case a of ARlimit r \<Rightarrow> r | _ \<Rightarrow> old)"

definition out_socklen :: "carg \<Rightarrow> u32 \<Rightarrow> u32" where
  "out_socklen a old = (case a of ASocklen n \<Rightarrow> n | _ \<Rightarrow> old)"

text \<open>\<open>make([]T, n)\<close> with four-byte elements panics beyond the address space.\<close>

definition make4_ok :: "uintptr \<Rightarrow> bool" where
  "make4_ok n \<longleftrightarrow> 0 \<le> toint n \<and> unat n * 4 < 2 ^ 32"

section \<open>Primitives\<close>

definition RawSyscall :: "uintptr \<Rightarrow> uintptr \<Rightarrow> uintptr \<Rightarrow> uintptr \<Rightarrow> uintptr \<times> uintptr \<times> u32" where
  "RawSyscall trap a1 a2 a3 = (0, 0, ENOSYS)"

definition sys_mmap ::
  "'w libc \<Rightarrow> uintptr \<Rightarrow> uintptr \<Rightarrow> int \<Rightarrow> int \<Rightarrow> int \<Rightarrow> int \<Rightarrow> 'w thr \<Rightarrow> (uintptr \<times> u32 option) \<times> 'w thr" where
  "sys_mmap L addr len prot flag fd pos t =
     (let ((r1, r2, e, as), t') = sysvicall6 L ''libc_mmap'' 6
            [AWord addr, AWord len, W prot, W flag, W fd, AWord (lo32 pos)] t
      in if e \<noteq> 0 then ((0, Some e), t') else ((r1, None), t'))"

definition sys_munmap :: "'w libc \<Rightarrow> uintptr \<Rightarrow> uintptr \<Rightarrow> 'w thr \<Rightarrow> u32 option \<times> 'w thr" where
  "sys_munmap L addr len t = err_only (sysvicall6 L ''libc_munmap'' 2 [AWord addr, AWord len] t)"

section \<open>Files\<close>

definition Open :: "'w libc \<Rightarrow> gostring \<Rightarrow> int \<Rightarrow> u32 \<Rightarrow> 'w thr \<Rightarrow> (int \<times> u32 option) \<times> 'w thr" where
  "Open L path mode perm t =
     (case BytePtrFromString path of
        Inl err \<Rightarrow> ((-1, Some err), t)
      | Inr p \<Rightarrow> fd_err (sysvicall6 L ''libc_open'' 3 [ACStr p, W mode, AWord perm] t))"

definition Close :: "'w libc \<Rightarrow> int \<Rightarrow> 'w thr \<Rightarrow> u32 option \<times> 'w thr" where
  "Close L fd t = err_only (sysvicall6 L ''libc_close'' 1 [W fd] t)"

definition sys_read :: "'w libc \<Rightarrow> int \<Rightarrow> gostring \<Rightarrow> 'w thr \<Rightarrow> (int \<times> u32 option \<times> gostring) \<times> 'w thr" where
  "sys_read L fd p t =
     (let r = sysvicall6 L ''libc_read'' 3 [W fd, bufptr p, W (int (length p))] t;
          ((r1, r2, e, as), t') = r;
          ((n, err), t'') = int_err r
      in ((n, err, out_buf (argat as 1) p), t''))"

definition sys_write :: "'w libc \<Rightarrow> int \<Rightarrow> gostring \<Rightarrow> 'w thr \<Rightarrow> (int \<times> u32 option) \<times> 'w thr" where
  "sys_write L fd p t = int_err (sysvicall6 L ''libc_write'' 3 [W fd, bufptr p, W (int (length p))] t)"

definition readlen :: "'w libc \<Rightarrow> int \<Rightarrow> gostring \<Rightarrow> int \<Rightarrow> 'w thr \<Rightarrow> (int \<times> u32 option \<times> gostring) \<times> 'w thr" where
  "readlen L fd p np t =
     (let r = sysvicall6 L ''libc_read'' 3 [W fd, ABuf p, W np] t;
          ((r1, r2, e, as), t') = r;
          ((n, err), t'') = int_err r
      in ((n, err, out_buf (argat as 1) p), t''))"

definition pread :: "'w libc \<Rightarrow> int \<Rightarrow> gostring \<Rightarrow> int \<Rightarrow> 'w thr \<Rightarrow> (int \<times> u32 option \<times> gostring) \<times> 'w thr" where
  "pread L fd p offset t =
     (let r = sysvicall6 L ''libc_pread'' 5
                [W fd, bufptr p, W (int (length p)), AWord (lo32 offset), AWord (hi32 offset)] t;
          ((r1, r2, e, as), t') = r;
          ((n, err), t'') = int_err r
      in ((n, err, out_buf (argat as 1) p), t''))"

definition pwrite :: "'w libc \<Rightarrow> int \<Rightarrow> gostring \<Rightarrow> int \<Rightarrow> 'w thr \<Rightarrow> (int \<times> u32 option) \<times> 'w thr" where
  "pwrite L fd p offset t =
     int_err (sysvicall6 L ''libc_pwrite'' 5
       [W fd, bufptr p, W (int (length p)), AWord (lo32 offset), AWord (hi32 offset)] t)"

text \<open>\<open>int64(r1) | int64(r2)<<32\<close>.\<close>

definition join64 :: "uintptr \<Rightarrow> uintptr \<Rightarrow> int" where
  "join64 r1 r2 = int64 (uint r1 OR push_bit 32 (uint r2))"

definition Seek :: "'w libc \<Rightarrow> int \<Rightarrow> int \<Rightarrow> int \<Rightarrow> 'w thr \<Rightarrow> (int \<times> u32 option) \<times> 'w thr" where
  "Seek L fd offset whence t =
     (let ((r1, r2, e, as), t') = sysvicall6 L ''libc_lseek'' 4
            [W fd, AWord (lo32 offset), AWord (hi32 offset), W whence] t
      in if e \<noteq> 0 then ((0, Some e), t') else ((join64 r1 r2, None), t'))"

definition fcntl :: "'w libc \<Rightarrow> int \<Rightarrow> int \<Rightarrow> int \<Rightarrow> 'w thr \<Rightarrow> (int \<times> u32 option) \<times> 'w thr" where
  "fcntl L fd cmd arg t = int_err (sysvicall6 L ''libc_fcntl'' 3 [W fd, W cmd, W arg] t)"

definition Fstat :: "'w libc \<Rightarrow> int \<Rightarrow> Stat_t \<Rightarrow> 'w thr \<Rightarrow> (u32 option \<times> Stat_t) \<times> 'w thr" where
  "Fstat L fd st t =
     (let ((r1, r2, e, as), t') = sysvicall6 L ''libc_fstat'' 2 [W fd, AStat st] t
      in ((goerr e, out_stat (argat as 1) st), t'))"

definition Stat :: "'w libc \<Rightarrow> gostring \<Rightarrow> Stat_t \<Rightarrow> 'w thr \<Rightarrow> (u32 option \<times> Stat_t) \<times> 'w thr" where
  "Stat L path st t =
     (case BytePtrFromString path of
        Inl err \<Rightarrow> ((Some err, st), t)
      | Inr p \<Rightarrow>
          (let ((r1, r2, e, as), t') = sysvicall6 L ''libc_stat'' 2 [ACStr p, AStat st] t
           in ((goerr e, out_stat (argat as 1) st), t')))"

definition Lstat :: "'w libc \<Rightarrow> gostring \<Rightarrow> Stat_t \<Rightarrow> 'w thr \<Rightarrow> (u32 option \<times> Stat_t) \<times> 'w thr" where
  "Lstat L path st t =
     (case BytePtrFromString path of
        Inl err \<Rightarrow> ((Some err, st), t)
      | Inr p \<Rightarrow>
          (let ((r1, r2, e, as), t') = sysvicall6 L ''libc_lstat'' 2 [ACStr p, AStat st] t
           in ((goerr e, out_stat (argat as 1) st), t')))"

text \<open>The all-ones argument stands for "no second argument".\<close>

definition path1 :: "'w libc \<Rightarrow> libcFunc \<Rightarrow> gostring \<Rightarrow> uintptr \<Rightarrow> 'w thr \<Rightarrow> u32 option \<times> 'w thr" where
  "path1 L fn path arg t =
     (case BytePtrFromString path of
        Inl err \<Rightarrow> (Some err, t)
      | Inr p \<Rightarrow>
          (let (nargs, arg) = (if arg = NOT 0 then (1, 0) else (2, arg))
           in err_only (sysvicall6 L fn nargs [ACStr p, AWord arg] t)))"

definition Mkdir :: "'w libc \<Rightarrow> gostring \<Rightarrow> u32 \<Rightarrow> 'w thr \<Rightarrow> u32 option \<times> 'w thr" where
  "Mkdir L path mode t = path1 L ''libc_mkdir'' path mode t"

definition Rmdir :: "'w libc \<Rightarrow> gostring \<Rightarrow> 'w thr \<Rightarrow> u32 option \<times> 'w thr" where
  "Rmdir L path t = path1 L ''libc_rmdir'' path (NOT 0) t"

definition Unlink :: "'w libc \<Rightarrow> gostring \<Rightarrow> 'w thr \<Rightarrow> u32 option \<times> 'w thr" where
  "Unlink L path t = path1 L ''libc_unlink'' path (NOT 0) t"

definition Chmod :: "'w libc \<Rightarrow> gostring \<Rightarrow> u32 \<Rightarrow> 'w thr \<Rightarrow> u32 option \<times> 'w thr" where
  "Chmod L path mode t = path1 L ''libc_chmod'' path mode t"

definition Chdir :: "'w libc \<Rightarrow> gostring \<Rightarrow> 'w thr \<Rightarrow> u32 option \<times> 'w thr" where
  "Chdir L path t = path1 L ''libc_chdir'' path (NOT 0) t"

definition Ftruncate :: "'w libc \<Rightarrow> int \<Rightarrow> int \<Rightarrow> 'w thr \<Rightarrow> u32 option \<times> 'w thr" where
  "Ftruncate L fd len t = err_only (sysvicall6 L ''libc_ftruncate'' 3 [W fd, AWord (lo32 len), AWord (hi32 len)] t)"

definition Fchmod :: "'w libc \<Rightarrow> int \<Rightarrow> u32 \<Rightarrow> 'w thr \<Rightarrow> u32 option \<times> 'w thr" where
  "Fchmod L fd mode t = err_only (sysvicall6 L ''libc_fchmod'' 2 [W fd, AWord mode] t)"

definition Fchown :: "'w libc \<Rightarrow> int \<Rightarrow> int \<Rightarrow> int \<Rightarrow> 'w thr \<Rightarrow> u32 option \<times> 'w thr" where
  "Fchown L fd uid gid t = err_only (sysvicall6 L ''libc_fchown'' 3 [W fd, W uid, W gid] t)"

definition Fchdir :: "'w libc \<Rightarrow> int \<Rightarrow> 'w thr \<Rightarrow> u32 option \<times> 'w thr" where
  "Fchdir L fd t = err_only (sysvicall6 L ''libc_fchdir'' 1 [W fd] t)"

definition writev :: "'w libc \<Rightarrow> int \<Rightarrow> Iovec list \<Rightarrow> 'w thr \<Rightarrow> (uintptr \<times> u32 option) \<times> 'w thr" where
  "writev L fd iovs t =
     (let p = (if iovs = [] then ANull else AIovs iovs);
          ((r1, r2, e, as), t') = sysvicall6 L ''libc_writev'' 3 [W fd, p, W (int (length iovs))] t
      in ((r1, goerr e), t'))"

definition Getdents :: "'w libc \<Rightarrow> int \<Rightarrow> gostring \<Rightarrow> 'w thr \<Rightarrow> (int \<times> u32 option \<times> gostring) \<times> 'w thr" where
  "Getdents L fd buf t = sys_read L fd buf t"

definition ReadDirent :: "'w libc \<Rightarrow> int \<Rightarrow> gostring \<Rightarrow> 'w thr \<Rightarrow> (int \<times> u32 option \<times> gostring) \<times> 'w thr" where
  "ReadDirent L fd buf t = Getdents L fd buf t"

definition Fsync :: "'w libc \<Rightarrow> int \<Rightarrow> 'w thr \<Rightarrow> u32 option \<times> 'w thr" where
  "Fsync L fd t = err_only (sysvicall6 L ''libc_fsync'' 1 [W fd] t)"

definition Dup :: "'w libc \<Rightarrow> int \<Rightarrow> 'w thr \<Rightarrow> (int \<times> u32 option) \<times> 'w thr" where
  "Dup L fd t = fd_err (sysvicall6 L ''libc_dup'' 1 [W fd] t)"

definition Dup2 :: "'w libc \<Rightarrow> int \<Rightarrow> int \<Rightarrow> 'w thr \<Rightarrow> u32 option \<times> 'w thr" where
  "Dup2 L old new t = err_only (sysvicall6 L ''libc_dup2'' 2 [W old, W new] t)"

definition Pipe :: "'w libc \<Rightarrow> int list \<Rightarrow> 'w thr \<Rightarrow> (u32 option \<times> int list) \<times> 'w thr" where
  "Pipe L p t =
     (if length p \<noteq> 2 then ((Some EINVAL, p), t)
      else (let ((r1, r2, e, as), t') = sysvicall6 L ''libc_pipe'' 1 [AI32s [0, 0]] t
            in if e \<noteq> 0 then ((Some e, p), t')
               else ((None, out_i32s (argat as 0) [0, 0]), t')))"

definition Getrlimit :: "'w libc \<Rightarrow> int \<Rightarrow> Rlimit \<Rightarrow> 'w thr \<Rightarrow> (u32 option \<times> Rlimit) \<times> 'w thr" where
  "Getrlimit L which lim t =
     (let ((r1, r2, e, as), t') = rawSysvicall6 L ''libc_getrlimit'' 2 [W which, ARlimit lim] t
      in ((goerr e, out_rlimit (argat as 1) lim), t'))"

definition setrlimit :: "'w libc \<Rightarrow> int \<Rightarrow> Rlimit \<Rightarrow> 'w thr \<Rightarrow> u32 option \<times> 'w thr" where
  "setrlimit L which lim t = err_only (rawSysvicall6 L ''libc_setrlimit'' 2 [W which, ARlimit lim] t)"

definition setTimespec :: "int \<Rightarrow> int \<Rightarrow> Timespec" where
  "setTimespec sec nsec = \<lparr>ts_Sec = int32 sec, ts_Nsec = int32 nsec\<rparr>"

definition setTimeval :: "int \<Rightarrow> int \<Rightarrow> Timeval" where
  "setTimeval sec usec = \<lparr>tv_Sec = int32 sec, tv_Usec = int32 usec\<rparr>"

section \<open>Sockets\<close>

definition socket :: "'w libc \<Rightarrow> int \<Rightarrow> int \<Rightarrow> int \<Rightarrow> 'w thr \<Rightarrow> (int \<times> u32 option) \<times> 'w thr" where
  "socket L domain typ proto t = fd_err (rawSysvicall6 L ''libc_socket'' 3 [W domain, W typ, W proto] t)"

definition socketpair ::
  "'w libc \<Rightarrow> int \<Rightarrow> int \<Rightarrow> int \<Rightarrow> int list \<Rightarrow> 'w thr \<Rightarrow> (u32 option \<times> int list) \<times> 'w thr" where
  "socketpair L domain typ proto fd t =
     (let ((r1, r2, e, as), t') = rawSysvicall6 L ''libc_socketpair'' 4 [W domain, W typ, W proto, AI32s fd] t
      in ((goerr e, out_i32s (argat as 3) fd), t'))"

definition bind_sock :: "'w libc \<Rightarrow> int \<Rightarrow> gostring \<Rightarrow> u32 \<Rightarrow> 'w thr \<Rightarrow> u32 option \<times> 'w thr" where
  "bind_sock L fd sa salen t = err_only (sysvicall6 L ''libc_bind'' 3 [W fd, ARaw sa, AWord salen] t)"

definition connect :: "'w libc \<Rightarrow> int \<Rightarrow> gostring \<Rightarrow> u32 \<Rightarrow> 'w thr \<Rightarrow> u32 option \<times> 'w thr" where
  "connect L fd sa salen t = err_only (sysvicall6 L ''libc_connect'' 3 [W fd, ARaw sa, AWord salen] t)"

definition Listen :: "'w libc \<Rightarrow> int \<Rightarrow> int \<Rightarrow> 'w thr \<Rightarrow> u32 option \<times> 'w thr" where
  "Listen L fd backlog t = err_only (sysvicall6 L ''libc_listen'' 2 [W fd, W backlog] t)"

definition getsockopt ::
  "'w libc \<Rightarrow> int \<Rightarrow> int \<Rightarrow> int \<Rightarrow> carg \<Rightarrow> u32 \<Rightarrow> 'w thr \<Rightarrow> (u32 option \<times> carg \<times> u32) \<times> 'w thr" where
  "getsockopt L fd level opt val vallen t =
     (let ((r1, r2, e, as), t') = sysvicall6 L ''libc_getsockopt'' 5
            [W fd, W level, W opt, val, ASocklen vallen] t
      in ((goerr e, argat as 3, out_socklen (argat as 4) vallen), t'))"

definition setsockopt ::
  "'w libc \<Rightarrow> int \<Rightarrow> int \<Rightarrow> int \<Rightarrow> carg \<Rightarrow> uintptr \<Rightarrow> 'w thr \<Rightarrow> u32 option \<times> 'w thr" where
  "setsockopt L fd level opt val vallen t =
     err_only (sysvicall6 L ''libc_setsockopt'' 5 [W fd, W level, W opt, val, AWord vallen] t)"

definition getpeername ::
  "'w libc \<Rightarrow> int \<Rightarrow> gostring \<Rightarrow> u32 \<Rightarrow> 'w thr \<Rightarrow> (u32 option \<times> gostring \<times> u32) \<times> 'w thr" where
  "getpeername L fd rsa addrlen t =
     (let ((r1, r2, e, as), t') = sysvicall6 L ''libc_getpeername'' 3 [W fd, ARaw rsa, ASocklen addrlen] t
      in ((goerr e, out_raw (argat as 1) rsa, out_socklen (argat as 2) addrlen), t'))"

definition getsockname ::
  "'w libc \<Rightarrow> int \<Rightarrow> gostring \<Rightarrow> u32 \<Rightarrow> 'w thr \<Rightarrow> (u32 option \<times> gostring \<times> u32) \<times> 'w thr" where
  "getsockname L fd rsa addrlen t =
     (let ((r1, r2, e, as), t') = sysvicall6 L ''libc_getsockname'' 3 [W fd, ARaw rsa, ASocklen addrlen] t
      in ((goerr e, out_raw (argat as 1) rsa, out_socklen (argat as 2) addrlen), t'))"

text \<open>\<open>var rsa RawSockaddrAny\<close>: the zeroed structure.\<close>

definition zero_rsa :: gostring where
  "zero_rsa = replicate sizeof_RawSockaddrAny 0"

definition Getsockname :: "'w libc \<Rightarrow> int \<Rightarrow> 'w thr \<Rightarrow> (u32 + Sockaddr) \<times> 'w thr" where
  "Getsockname L fd t =
     (let ((err, rsa, n), t') = getsockname L fd zero_rsa SizeofSockaddrAny t
      in case err of Some e \<Rightarrow> (Inl e, t') | None \<Rightarrow> (anyToSockaddr rsa, t'))"

definition recvfrom ::
  "'w libc \<Rightarrow> int \<Rightarrow> gostring \<Rightarrow> int \<Rightarrow> gostring \<Rightarrow> u32 \<Rightarrow> 'w thr
     \<Rightarrow> (int \<times> u32 option \<times> gostring \<times> gostring \<times> u32) \<times> 'w thr" where
  "recvfrom L fd p flags from fromlen t =
     (let r = sysvicall6 L ''libc_recvfrom'' 6
                [W fd, bufptr p, W (int (length p)), W flags, ARaw from, ASocklen fromlen] t;
          ((r1, r2, e, as), t') = r;
          ((n, err), t'') = int_err r
      in ((n, err, out_buf (argat as 1) p, out_raw (argat as 4) from, out_socklen (argat as 5) fromlen), t''))"

definition sendto ::
  "'w libc \<Rightarrow> int \<Rightarrow> gostring \<Rightarrow> int \<Rightarrow> gostring option \<Rightarrow> u32 \<Rightarrow> 'w thr \<Rightarrow> u32 option \<times> 'w thr" where
  "sendto L fd p flags to tolen t =
     (let ptr = (case to of None \<Rightarrow> ANull | Some b \<Rightarrow> ARaw b)
      in err_only (sysvicall6 L ''libc_sendto'' 6
           [W fd, bufptr p, W (int (length p)), W flags, ptr, AWord tolen] t))"

definition recvmsg ::
  "'w libc \<Rightarrow> int \<Rightarrow> Msghdr \<Rightarrow> int \<Rightarrow> 'w thr \<Rightarrow> (int \<times> u32 option \<times> Msghdr) \<times> 'w thr" where
  "recvmsg L fd msg flags t =
     (let r = sysvicall6 L ''libc_recvmsg'' 3 [W fd, AMsg msg, W flags] t;
          ((r1, r2, e, as), t') = r;
          ((n, err), t'') = int_err r
      in ((n, err, out_msg (argat as 1) msg), t''))"

definition sendmsg ::
  "'w libc \<Rightarrow> int \<Rightarrow> Msghdr \<Rightarrow> int \<Rightarrow> 'w thr \<Rightarrow> (int \<times> u32 option) \<times> 'w thr" where
  "sendmsg L fd msg flags t = int_err (sysvicall6 L ''libc_sendmsg'' 3 [W fd, AMsg msg, W flags] t)"

text \<open>
  The message header both functions build: with ancillary data but no ordinary data, one dummy
  byte stands in for the data.
\<close>

definition mk_msghdr :: "gostring option \<Rightarrow> u32 \<Rightarrow> gostring \<Rightarrow> gostring \<Rightarrow> Msghdr" where
  "mk_msghdr name namelen p oob =
     \<lparr>msg_Name = name, msg_Namelen = namelen,
      msg_Iov = (if p \<noteq> [] then \<lparr>iov_Base = Some p, iov_Len = uptr (int (length p))\<rparr>
                 else if oob \<noteq> [] then \<lparr>iov_Base = Some [0], iov_Len = 1\<rparr>
                 else \<lparr>iov_Base = None, iov_Len = 0\<rparr>),
      msg_Iovlen = 1,
      msg_Control = (if oob \<noteq> [] then Some oob else None),
      msg_Controllen = (if oob \<noteq> [] then uptr (int (length oob)) else 0),
      msg_Flags = 0\<rparr>"

definition recvmsgRaw ::
  "'w libc \<Rightarrow> int \<Rightarrow> gostring \<Rightarrow> gostring \<Rightarrow> int \<Rightarrow> gostring \<Rightarrow> 'w thr
     \<Rightarrow> (int \<times> int \<times> int \<times> u32 option \<times> Msghdr) \<times> 'w thr" where
  "recvmsgRaw L fd p oob flags rsa t =
     (let ((n, err, msg), t') = recvmsg L fd (mk_msghdr (Some rsa) SizeofSockaddrAny p oob) flags t
      in if err \<noteq> None then ((n, 0, 0, err, msg), t')
         else ((n, toint (msg_Controllen msg), msg_Flags msg, None, msg), t'))"

definition sendmsgN ::
  "'w libc \<Rightarrow> int \<Rightarrow> gostring \<Rightarrow> gostring \<Rightarrow> gostring option \<Rightarrow> u32 \<Rightarrow> int \<Rightarrow> 'w thr
     \<Rightarrow> (int \<times> u32 option) \<times> 'w thr" where
  "sendmsgN L fd p oob ptr salen flags t =
     (let ((n, err), t') = sendmsg L fd (mk_msghdr ptr salen p oob) flags t
      in if err \<noteq> None then ((0, err), t')
         else if oob \<noteq> [] \<and> p = [] then ((0, None), t')
         else ((n, None), t'))"

definition Accept :: "'w libc \<Rightarrow> int \<Rightarrow> 'w thr \<Rightarrow> (int \<times> Sockaddr option \<times> u32 option) \<times> 'w thr" where
  "Accept L fd t =
     (let ((r1, r2, e, as), t') = sysvicall6 L ''libc_accept'' 3
            [W fd, ARaw zero_rsa, ASocklen SizeofSockaddrAny] t
      in if e \<noteq> 0 then ((-1, None, Some e), t')
         else (case anyToSockaddr (out_raw (argat as 1) zero_rsa) of
                 Inr sa \<Rightarrow> ((toint r1, Some sa, None), t')
               | Inl err \<Rightarrow> (let (ign, t'') = Close L (toint r1) t' in ((-1, None, Some err), t''))))"

definition Shutdown :: "'w libc \<Rightarrow> int \<Rightarrow> int \<Rightarrow> 'w thr \<Rightarrow> u32 option \<times> 'w thr" where
  "Shutdown L fd how t = err_only (sysvicall6 L ''libc_shutdown'' 2 [W fd, W how] t)"

section \<open>Processes\<close>

definition getid :: "'w libc \<Rightarrow> libcFunc \<Rightarrow> 'w thr \<Rightarrow> int \<times> 'w thr" where
  "getid L fn t = (let ((r1, r2, e, as), t') = rawSysvicall6 L fn 0 [] t in (toint r1, t'))"

definition Getpid :: "'w libc \<Rightarrow> 'w thr \<Rightarrow> int \<times> 'w thr" where
  "Getpid L t = getid L ''libc_getpid'' t"

definition Getppid :: "'w libc \<Rightarrow> 'w thr \<Rightarrow> int \<times> 'w thr" where
  "Getppid L t = getid L ''libc_getppid'' t"

definition Kill :: "'w libc \<Rightarrow> int \<Rightarrow> int \<Rightarrow> 'w thr \<Rightarrow> u32 option \<times> 'w thr" where
  "Kill L pid sig t = err_only (sysvicall6 L ''libc_kill'' 2 [W pid, W sig] t)"

definition Wait4 ::
  "'w libc \<Rightarrow> int \<Rightarrow> u32 option \<Rightarrow> int \<Rightarrow> Rusage option \<Rightarrow> 'w thr
     \<Rightarrow> (int \<times> u32 option \<times> u32 option \<times> Rusage option) \<times> 'w thr" where
  "Wait4 L pid wstatus options rusage t =
     (let ru = (case rusage of None \<Rightarrow> ANull | Some r \<Rightarrow> ARusage r);
          ((r1, r2, e, as), t') = sysvicall6 L ''libc_wait4'' 4 [W pid, AI32s [0], W options, ru] t;
          status = out_i32s (argat as 1) [0] ! 0;
          rusage' = map_option (out_rusage (argat as 3)) rusage
      in if e \<noteq> 0 then ((-1, Some e, wstatus, rusage'), t')
         else ((toint r1, None, map_option (\<lambda>_. word_of_int status) wstatus, rusage'), t'))"

definition Umask :: "'w libc \<Rightarrow> int \<Rightarrow> 'w thr \<Rightarrow> int \<times> 'w thr" where
  "Umask L msk t = (let ((r1, r2, e, as), t') = rawSysvicall6 L ''libc_umask'' 1 [W msk] t in (toint r1, t'))"

definition Getsid :: "'w libc \<Rightarrow> int \<Rightarrow> 'w thr \<Rightarrow> (int \<times> u32 option) \<times> 'w thr" where
  "Getsid L pid t = fd_err (rawSysvicall6 L ''libc_getsid'' 1 [W pid] t)"

definition Getrusage :: "'w libc \<Rightarrow> int \<Rightarrow> Rusage \<Rightarrow> 'w thr \<Rightarrow> (u32 option \<times> Rusage) \<times> 'w thr" where
  "Getrusage L who rusage t =
     (let ((r1, r2, e, as), t') = rawSysvicall6 L ''libc_getrusage'' 2 [W who, ARusage rusage] t
      in ((goerr e, out_rusage (argat as 1) rusage), t'))"

section \<open>Paths\<close>

text \<open>The body that \<open>Rename\<close>, \<open>Link\<close> and \<open>Symlink\<close> share.\<close>

definition two_paths :: "'w libc \<Rightarrow> libcFunc \<Rightarrow> gostring \<Rightarrow> gostring \<Rightarrow> 'w thr \<Rightarrow> u32 option \<times> 'w thr" where
  "two_paths L fn from to t =
     (case BytePtrFromString from of
        Inl err \<Rightarrow> (Some err, t)
      | Inr f \<Rightarrow>
          (case BytePtrFromString to of
             Inl err \<Rightarrow> (Some err, t)
           | Inr p \<Rightarrow> err_only (sysvicall6 L fn 2 [ACStr f, ACStr p] t)))"

definition Rename :: "'w libc \<Rightarrow> gostring \<Rightarrow> gostring \<Rightarrow> 'w thr \<Rightarrow> u32 option \<times> 'w thr" where
  "Rename L from to t = two_paths L ''libc_rename'' from to t"

definition Link :: "'w libc \<Rightarrow> gostring \<Rightarrow> gostring \<Rightarrow> 'w thr \<Rightarrow> u32 option \<times> 'w thr" where
  "Link L from to t = two_paths L ''libc_link'' from to t"

definition Symlink :: "'w libc \<Rightarrow> gostring \<Rightarrow> gostring \<Rightarrow> 'w thr \<Rightarrow> u32 option \<times> 'w thr" where
  "Symlink L from to t = two_paths L ''libc_symlink'' from to t"

text \<open>An empty buffer is replaced by the address of the zero word \<open>_zero\<close>.\<close>

definition Readlink ::
  "'w libc \<Rightarrow> gostring \<Rightarrow> gostring \<Rightarrow> 'w thr \<Rightarrow> (int \<times> u32 option \<times> gostring) \<times> 'w thr" where
  "Readlink L path buf t =
     (case BytePtrFromString path of
        Inl err \<Rightarrow> ((0, Some err, buf), t)
      | Inr p \<Rightarrow>
          (let r = sysvicall6 L ''libc_readlink'' 3
                     [ACStr p, if buf \<noteq> [] then ABuf buf else ABuf [0, 0, 0, 0], W (int (length buf))] t;
               ((r1, r2, e, as), t') = r;
               ((n, err), t'') = int_err r
           in ((n, err, out_buf (argat as 1) buf), t'')))"

definition Truncate :: "'w libc \<Rightarrow> gostring \<Rightarrow> int \<Rightarrow> 'w thr \<Rightarrow> u32 option \<times> 'w thr" where
  "Truncate L path len t =
     (case BytePtrFromString path of
        Inl err \<Rightarrow> (Some err, t)
      | Inr p \<Rightarrow> err_only (sysvicall6 L ''libc_truncate'' 3 [ACStr p, AWord (lo32 len), AWord (hi32 len)] t))"

definition Chown :: "'w libc \<Rightarrow> gostring \<Rightarrow> int \<Rightarrow> int \<Rightarrow> 'w thr \<Rightarrow> u32 option \<times> 'w thr" where
  "Chown L path uid gid t =
     (case BytePtrFromString path of
        Inl err \<Rightarrow> (Some err, t)
      | Inr p \<Rightarrow> err_only (sysvicall6 L ''libc_chown'' 3 [ACStr p, W uid, W gid] t))"

definition Lchown :: "'w libc \<Rightarrow> gostring \<Rightarrow> int \<Rightarrow> int \<Rightarrow> 'w thr \<Rightarrow> u32 option \<times> 'w thr" where
  "Lchown L path uid gid t =
     (case BytePtrFromString path of
        Inl err \<Rightarrow> (Some err, t)
      | Inr p \<Rightarrow> err_only (sysvicall6 L ''libc_lchown'' 3 [ACStr p, W uid, W gid] t))"

definition Access :: "'w libc \<Rightarrow> gostring \<Rightarrow> u32 \<Rightarrow> 'w thr \<Rightarrow> u32 option \<times> 'w thr" where
  "Access L path mode t =
     (case BytePtrFromString path of
        Inl err \<Rightarrow> (Some err, t)
      | Inr p \<Rightarrow> err_only (sysvicall6 L ''libc_access'' 2 [ACStr p, AWord mode] t))"

text \<open>The loop that measures a C string in a fixed buffer, and the slice up to it.\<close>

function cstr_len :: "gostring \<Rightarrow> nat \<Rightarrow> nat" where
  "cstr_len buf n = (if n < length buf \<and> buf ! n \<noteq> 0 then cstr_len buf (n + 1) else n)"
  by pat_completeness auto
termination by (relation "measure (\<lambda>(buf, n). length buf - n)") auto

declare cstr_len.simps [simp del]

definition Getwd :: "'w libc \<Rightarrow> 'w thr \<Rightarrow> (gostring \<times> u32 option) \<times> 'w thr" where
  "Getwd L t =
     (let buf0 = replicate 4096 0;
          ((r1, r2, e, as), t') = sysvicall6 L ''libc_getcwd'' 2 [ABuf buf0, W (int (length buf0))] t;
          buf = out_buf (argat as 0) buf0
      in if e \<noteq> 0 then (([], Some e), t') else ((take (cstr_len buf 0) buf, None), t'))"

definition usec_of :: "Timespec \<Rightarrow> Timeval" where
  "usec_of ts = \<lparr>tv_Sec = ts_Sec ts, tv_Usec = go_div (ts_Nsec ts) 1000\<rparr>"

definition UtimesNano :: "'w libc \<Rightarrow> gostring \<Rightarrow> Timespec list \<Rightarrow> 'w thr \<Rightarrow> u32 option \<times> 'w thr" where
  "UtimesNano L path ts t =
     (case BytePtrFromString path of
        Inl err \<Rightarrow> (Some err, t)
      | Inr p \<Rightarrow>
          (if length ts \<noteq> 2 then (Some EINVAL, t)
           else err_only (sysvicall6 L ''libc_utimes'' 2
                  [ACStr p, ATimevals [usec_of (ts ! 0), usec_of (ts ! 1)]] t)))"

abbreviation AT_FDCWD :: int where "AT_FDCWD \<equiv> -100"

definition utimensat ::
  "'w libc \<Rightarrow> int \<Rightarrow> gostring \<Rightarrow> (Timespec \<times> Timespec) option \<Rightarrow> int \<Rightarrow> 'w thr \<Rightarrow> u32 option \<times> 'w thr" where
  "utimensat L dirfd path tms flag t =
     (if dirfd \<noteq> AT_FDCWD \<or> flag \<noteq> 0 then (Some ENOSYS, t)
      else case BytePtrFromString path of
             Inl err \<Rightarrow> (Some err, t)
           | Inr p \<Rightarrow>
               (let tvp = (case tms of None \<Rightarrow> ANull
                           | Some (a, b) \<Rightarrow> ATimevals [usec_of a, usec_of b])
                in err_only (sysvicall6 L ''libc_utimes'' 2 [ACStr p, tvp] t)))"

definition Gethostname :: "'w libc \<Rightarrow> 'w thr \<Rightarrow> (gostring \<times> u32 option) \<times> 'w thr" where
  "Gethostname L t =
     (let buf0 = replicate 256 0;
          ((r1, r2, e, as), t') = sysvicall6 L ''libc_gethostname'' 2 [ABuf buf0, W (int (length buf0))] t;
          buf = out_buf (argat as 0) buf0
      in if e \<noteq> 0 then (([], Some e), t') else ((take (cstr_len buf 0) buf, None), t'))"

section \<open>Identities\<close>

definition Getuid :: "'w libc \<Rightarrow> 'w thr \<Rightarrow> int \<times> 'w thr" where
  "Getuid L t = getid L ''libc_getuid'' t"

definition Geteuid :: "'w libc \<Rightarrow> 'w thr \<Rightarrow> int \<times> 'w thr" where
  "Geteuid L t = getid L ''libc_geteuid'' t"

definition Getgid :: "'w libc \<Rightarrow> 'w thr \<Rightarrow> int \<times> 'w thr" where
  "Getgid L t = getid L ''libc_getgid'' t"

definition Getegid :: "'w libc \<Rightarrow> 'w thr \<Rightarrow> int \<times> 'w thr" where
  "Getegid L t = getid L ''libc_getegid'' t"

text \<open>The last loop indexes the array of the first count by the second count.\<close>

definition Getgroups :: "'w libc \<Rightarrow> 'w thr \<Rightarrow> (u32 + int list) outcome \<times> 'w thr" where
  "Getgroups L t =
     (let ((n, r2, e, as), t') = rawSysvicall6 L ''libc_getgroups'' 2 [AWord 0, ANull] t
      in if e \<noteq> 0 then (Ret (Inl e), t')
         else if n = 0 then (Ret (Inr []), t')
         else if \<not> make4_ok n then (Throw ''makeslice: len out of range'', t')
         else (let a0 = replicate (unat n) 0;
                   ((r1, r2, e, as), t'') = rawSysvicall6 L ''libc_getgroups'' 2 [AWord n, AU32s a0] t';
                   a = out_u32s (argat as 1) a0
               in if e \<noteq> 0 then (Ret (Inl e), t'')
                  else if \<not> make4_ok r1 then (Throw ''makeslice: len out of range'', t'')
                  else if unat r1 > length a then (Throw ''index out of range'', t'')
                  else (Ret (Inr (map toint (take (unat r1) a))), t'')))"

section \<open>Clock, interfaces and poll\<close>

definition ClockSettime :: "'w libc \<Rightarrow> int \<Rightarrow> Timespec \<Rightarrow> 'w thr \<Rightarrow> u32 option \<times> 'w thr" where
  "ClockSettime L clockid ts t = err_only (sysvicall6 L ''libc_clock_settime'' 2 [W clockid, ATimespec ts] t)"

text \<open>The error of a failed call is returned even when \<open>errno\<close> is zero.\<close>

definition Getifaddrs :: "'w libc \<Rightarrow> 'w thr \<Rightarrow> (u32 + Ifaddrs list) \<times> 'w thr" where
  "Getifaddrs L t =
     (let ((r1, r2, e, as), t') = sysvicall6 L ''libc_getifaddrs'' 1 [AIfaddrs []] t
      in if toint r1 \<noteq> 0 then (Inl e, t')
         else (Inr (case argat as 0 of AIfaddrs l \<Rightarrow> l | _ \<Rightarrow> []), t'))"

definition Freeifaddrs :: "'w libc \<Rightarrow> Ifaddrs list \<Rightarrow> 'w thr \<Rightarrow> 'w thr" where
  "Freeifaddrs L head t = snd (sysvicall6 L ''libc_freeifaddrs'' 1 [AIfaddrs head] t)"

definition IfNametoindex :: "'w libc \<Rightarrow> gostring \<Rightarrow> 'w thr \<Rightarrow> int \<times> 'w thr" where
  "IfNametoindex L name t =
     (case BytePtrFromString name of
        Inl err \<Rightarrow> (0, t)
      | Inr p \<Rightarrow> (let ((r1, r2, e, as), t') = sysvicall6 L ''libc_if_nametoindex'' 1 [ACStr p] t
                 in (toint r1, t')))"

definition Poll :: "'w libc \<Rightarrow> pollfd list \<Rightarrow> int \<Rightarrow> 'w thr \<Rightarrow> (int \<times> u32 option \<times> pollfd list) \<times> 'w thr" where
  "Poll L fds timeout t =
     (let p = (if fds = [] then ANull else APollfds fds);
          r = sysvicall6 L ''libc_poll'' 3 [p, W (int (length fds)), W timeout] t;
          ((r1, r2, e, as), t') = r;
          ((n, err), t'') = int_err r
      in ((n, err, out_pollfds (argat as 0) fds), t''))"

lemmas [libcall_defs] =
  err_only_def int_err_def fd_err_def BytePtrFromString_def ByteSliceFromString_def

section \<open>The contract of the wrappers that take a path\<close>

text \<open>
  A path with a NUL byte is refused before libc is reached; any other path arrives at exactly one
  C function, NUL-terminated, as its first argument.
\<close>

locale path_op =
  fixes op :: "'w libc \<Rightarrow> gostring \<Rightarrow> 'w thr \<Rightarrow> 'r \<times> 'w thr"
    and reject :: 'r
  assumes nul: "0 \<in> set path \<Longrightarrow> op L path t = (reject, t)"
    and call: "0 \<notin> set path \<Longrightarrow> \<exists>fn rest. t_calls (snd (op L path t)) = t_calls t @ [(fn, ACStr (path @ [0]) # rest)]"
begin

text \<open>What C reads from the pointer is the path: nothing is cut at an embedded NUL.\<close>

lemma c_sees_path:
  assumes "t_calls (snd (op L path t)) = t_calls t @ [(fn, args)]"
  shows "\<exists>b rest. args = ACStr b # rest \<and> takeWhile (\<lambda>c. c \<noteq> 0) b = path \<and> last b = 0"
proof -
  have "0 \<notin> set path" using assms nul [of path L t] by auto
  moreover from this have "takeWhile (\<lambda>c. c \<noteq> 0) (path @ [0]) = path"
    using takeWhile_no_zero [of path "[]"] by simp
  ultimately show ?thesis using call [of path L t] assms by auto
qed

lemma refused_or_called:
  "op L path t = (reject, t) \<or> length (t_calls (snd (op L path t))) = Suc (length (t_calls t))"
  using nul [of path L t] call [of path L t] by (cases "0 \<in> set path") auto

end

lemmas path_wrappers =
  Open_def Stat_def Lstat_def path1_def Mkdir_def Rmdir_def Unlink_def Chmod_def Chdir_def
  Truncate_def Chown_def Lchown_def Access_def Readlink_def

interpretation open_path: path_op "\<lambda>L path. Open L path mode perm" "(-1, Some EINVAL)" for mode perm
  by unfold_locales (simp_all add: path_wrappers libcall_defs)

interpretation stat_path: path_op "\<lambda>L path. Stat L path st" "(Some EINVAL, st)" for st
  by unfold_locales (simp_all add: path_wrappers libcall_defs)

interpretation lstat_path: path_op "\<lambda>L path. Lstat L path st" "(Some EINVAL, st)" for st
  by unfold_locales (simp_all add: path_wrappers libcall_defs)

interpretation path1_path: path_op "\<lambda>L path. path1 L fn path arg" "Some EINVAL" for fn arg
  by unfold_locales (auto simp: path_wrappers libcall_defs)

interpretation truncate_path: path_op "\<lambda>L path. Truncate L path len" "Some EINVAL" for len
  by unfold_locales (simp_all add: path_wrappers libcall_defs)

interpretation chown_path: path_op "\<lambda>L path. Chown L path uid gid" "Some EINVAL" for uid gid
  by unfold_locales (simp_all add: path_wrappers libcall_defs)

interpretation lchown_path: path_op "\<lambda>L path. Lchown L path uid gid" "Some EINVAL" for uid gid
  by unfold_locales (simp_all add: path_wrappers libcall_defs)

interpretation access_path: path_op "\<lambda>L path. Access L path mode" "Some EINVAL" for mode
  by unfold_locales (simp_all add: path_wrappers libcall_defs)

interpretation readlink_path: path_op "\<lambda>L path. Readlink L path buf" "(0, Some EINVAL, buf)" for buf
  by unfold_locales (simp_all add: path_wrappers libcall_defs)

section \<open>Helper lemmas\<close>

lemma cstr_len_takeWhile:
  "n \<le> length buf \<Longrightarrow> cstr_len buf n = n + length (takeWhile (\<lambda>c. c \<noteq> 0) (drop n buf))"
proof (induction buf n rule: cstr_len.induct)
  case (1 buf n)
  show ?case
  proof (cases "n < length buf \<and> buf ! n \<noteq> 0")
    case True
    then have "drop n buf = buf ! n # drop (Suc n) buf" by (simp add: Cons_nth_drop_Suc)
    with 1 True show ?thesis by (subst cstr_len.simps) simp
  next
    case False
    then have "takeWhile (\<lambda>c. c \<noteq> 0) (drop n buf) = []"
      by (cases "n < length buf") (auto simp: Cons_nth_drop_Suc [symmetric])
    with False show ?thesis by (subst cstr_len.simps) auto
  qed
qed

lemma take_cstr_len: "take (cstr_len buf 0) buf = takeWhile (\<lambda>c. c \<noteq> 0) buf"
  by (simp add: cstr_len_takeWhile takeWhile_eq_take [symmetric])

lemma uint_lo32: "uint (lo32 x) = take_bit 32 x"
  by (simp add: lo32_def uptr_def uint_word_of_int_eq)

lemma uint_hi32: "uint (hi32 x) = take_bit 32 (drop_bit 32 x)"
  by (simp add: hi32_def uptr_def uint_word_of_int_eq)

lemma split64: "take_bit 32 x OR push_bit 32 (take_bit 32 (drop_bit 32 x)) = take_bit 64 (x :: int)"
proof (rule bit_eqI)
  fix n :: nat
  consider "n < 32" | "32 \<le> n" "n < 64" | "64 \<le> n" by linarith
  then show "bit (take_bit 32 x OR push_bit 32 (take_bit 32 (drop_bit 32 x))) n = bit (take_bit 64 x) n"
    by cases (auto simp: bit_simps)
qed

lemma join64_split: "join64 (lo32 x) (hi32 x) = int64 x"
  by (simp add: join64_def uint_lo32 uint_hi32 split64 int64_def signed_take_bit_take_bit)

section \<open>Properties\<close>

text \<open>A 64-bit file offset survives the trip through two 32-bit registers: the low and high words
  that \<open>pread\<close>, \<open>pwrite\<close> and \<open>Ftruncate\<close> pass rejoin to the offset, and \<open>Seek\<close> rebuilds the offset
  from the two result registers.\<close>

theorem offset_registers:
  assumes "- (2 ^ 63) \<le> off" and "off < 2 ^ 63"
  shows "join64 (lo32 off) (hi32 off) = off
    \<and> t_calls (snd (pread L fd p off t)) = t_calls t @ [(''libc_pread'',
         [W fd, bufptr p, W (int (length p)), AWord (lo32 off), AWord (hi32 off)])]
    \<and> t_calls (snd (pwrite L fd p off t)) = t_calls t @ [(''libc_pwrite'',
         [W fd, bufptr p, W (int (length p)), AWord (lo32 off), AWord (hi32 off)])]
    \<and> t_calls (snd (Ftruncate L fd off t)) = t_calls t @ [(''libc_ftruncate'', [W fd, AWord (lo32 off), AWord (hi32 off)])]
    \<and> fst (Seek (\<lambda>fn as e w. (lo32 off, hi32 off, 0, as, w)) fd off whence t) = (off, None)"
proof -
  have "join64 (lo32 off) (hi32 off) = off" using assms by (simp add: join64_split int64_id)
  then show ?thesis
    by (simp add: pread_def pwrite_def Ftruncate_def Seek_def libcall_defs)
qed

theorem offset_registers_witness: "join64 (lo32 0x500000001) (hi32 0x500000001) = 0x500000001"
  using offset_registers [of "0x500000001" "\<lambda>fn as e w. (0, 0, 0, as, w)" 3 "[]" "thr_of ()"] by simp

text \<open>\<open>Accept\<close> never leaks a descriptor it cannot describe: when the peer's address family is
  unknown the new descriptor is closed, in the very next C call, and the error is reported with
  descriptor -1; otherwise the descriptor and the decoded address are returned and nothing else is
  called.\<close>

theorem Accept_closes_or_returns:
  assumes "L ''libc_accept'' [W fd, ARaw zero_rsa, ASocklen SizeofSockaddrAny] 0 (t_world t) = (r, r2, 0, as, w)"
    and "has_errno t"
  shows "case anyToSockaddr (out_raw (argat as 1) zero_rsa) of
      Inr sa \<Rightarrow> fst (Accept L fd t) = (toint r, Some sa, None)
        \<and> t_calls (snd (Accept L fd t)) = t_calls t @ [(''libc_accept'', [W fd, ARaw zero_rsa, ASocklen SizeofSockaddrAny])]
    | Inl e \<Rightarrow> fst (Accept L fd t) = (-1, None, Some e)
        \<and> t_calls (snd (Accept L fd t)) = t_calls t @ [(''libc_accept'', [W fd, ARaw zero_rsa, ASocklen SizeofSockaddrAny]),
             (''libc_close'', [AWord r])]"
  using assms by (auto simp: Accept_def Close_def libcall_defs split: sum.split)

theorem Accept_closes_or_returns_witness:
  "fst (Accept (\<lambda>fn as e w. (7, 0, 0, as, w)) 3 (thr_of ())) = (-1, None, Some EAFNOSUPPORT)"
proof -
  have "anyToSockaddr (out_raw (argat [W 3, ARaw zero_rsa, ASocklen SizeofSockaddrAny] 1) zero_rsa) = Inl EAFNOSUPPORT"
    by (simp add: argat_def out_raw_def anyToSockaddr_def zero_rsa_def sizeof_RawSockaddrAny_def Let_def nth_Cons')
  moreover have "has_errno (thr_of ())" by (simp add: has_errno_def thr_of_def)
  ultimately show ?thesis
    using Accept_closes_or_returns [of "\<lambda>fn as e w. (7, 0, 0, as, w)" 3 "thr_of ()" 7 0
        "[W 3, ARaw zero_rsa, ASocklen SizeofSockaddrAny]" "()"]
    by (simp add: thr_of_def)
qed

text \<open>Ancillary data never counts as data: \<open>sendmsgN\<close> with control bytes and no payload hands C
  one dummy byte and reports 0 bytes sent on success; a payload is handed over unchanged and its
  count reported; an error reports 0 bytes.\<close>

theorem sendmsgN_counts:
  assumes "sendmsg L fd (mk_msghdr ptr salen p oob) flags t = ((n, err), t')"
  shows "sendmsgN L fd p oob ptr salen flags t
      = ((if err \<noteq> None \<or> (oob \<noteq> [] \<and> p = []) then 0 else n, err), t')
    \<and> (p \<noteq> [] \<longrightarrow> iov_Base (msg_Iov (mk_msghdr ptr salen p oob)) = Some p)
    \<and> (p = [] \<and> oob \<noteq> [] \<longrightarrow> msg_Iov (mk_msghdr ptr salen p oob) = \<lparr>iov_Base = Some [0], iov_Len = 1\<rparr>
         \<and> msg_Control (mk_msghdr ptr salen p oob) = Some oob)"
  using assms by (auto simp: sendmsgN_def mk_msghdr_def Let_def)

theorem sendmsgN_counts_witness:
  "fst (sendmsgN (\<lambda>fn as e w. (1, 0, 0, as, w)) 3 [] [9] None 0 0 (thr_of ())) = (0, None)"
proof -
  have "sendmsg (\<lambda>fn as e w. (1, 0, 0, as, w)) 3 (mk_msghdr None 0 [] [9]) 0 (thr_of ())
      = ((1, None), snd (sendmsg (\<lambda>fn as e w. (1, 0, 0, as, w)) 3 (mk_msghdr None 0 [] [9]) 0 (thr_of ())))"
    by (simp add: sendmsg_def libcall_defs goerr_def thr_of_def toint_def)
  from sendmsgN_counts [OF this] show ?thesis by simp
qed

text \<open>\<open>Getgroups\<close> does not panic and returns the ids C wrote, if \<open>getgroups\<close> keeps its documented
  contract of never storing more ids than it was offered room for and counting fewer than 2^30.\<close>

theorem Getgroups_total:
  assumes "has_errno t"
    and "\<And>a w. c_errno (L ''libc_getgroups'' a 0 w) = 0 \<Longrightarrow> c_ret (L ''libc_getgroups'' a 0 w) < 2 ^ 30"
    and "\<And>n b w. c_errno (L ''libc_getgroups'' [AWord n, AU32s b] 0 w) = 0
      \<Longrightarrow> c_ret (L ''libc_getgroups'' [AWord n, AU32s b] 0 w) \<le> n"
  shows "\<exists>r t'. Getgroups L t = (Ret r, t')"
proof -
  have small: "make4_ok n" if "n < 2 ^ 30" for n
  proof -
    from that have "unat n < 2 ^ 30" by (simp add: word_less_nat_alt)
    moreover from that have "uint n < 2 ^ 30" by (simp add: word_less_def)
    ultimately have "unat n < 2 ^ 30" and "uint n < 2 ^ 30" .
    then show ?thesis by (simp add: make4_ok_def toint_small)
  qed
  obtain n r2 e as t' where a: "rawSysvicall6 L ''libc_getgroups'' 2 [AWord 0, ANull] t = ((n, r2, e, as), t')"
    by (metis prod.collapse)
  then have h: "has_errno t'" using assms(1) raw.keeps_errno by (metis snd_conv)
  from a assms(1,2) have n: "e = 0 \<Longrightarrow> n < 2 ^ 30" by (auto simp: libcall_defs)
  obtain r1 q2 e' as' t'' where b: "rawSysvicall6 L ''libc_getgroups'' 2 [AWord n, AU32s (replicate (unat n) 0)] t'
      = ((r1, q2, e', as'), t'')" by (metis prod.collapse)
  with h assms(2,3) have "e' = 0 \<Longrightarrow> r1 \<le> n" "e' = 0 \<Longrightarrow> r1 < 2 ^ 30" by (auto simp: libcall_defs)
  then have "e' = 0 \<Longrightarrow> \<not> unat r1 > length (out_u32s (argat as' 1) (replicate (unat n) 0)) \<and> make4_ok r1"
    using small by (auto simp: word_le_nat_alt)
  then show ?thesis using a b n small by (auto simp: Getgroups_def Let_def)
qed

theorem Getgroups_total_witness:
  "\<exists>r t'. Getgroups (\<lambda>fn as e w. (0, 0, if w then 0 else EPERM, as, False)) (thr_of True) = (Ret r, t')"
  by (rule Getgroups_total) (simp_all add: has_errno_def thr_of_def)

text \<open>The strings that \<open>Getwd\<close> and \<open>Gethostname\<close> return contain no NUL byte and fit the buffer:
  the scanning loop stops at the first NUL, or at the end of the buffer when C left none.\<close>

theorem c_buffers_scanned:
  "0 \<notin> set (fst (fst (Getwd L t))) \<and> length (fst (fst (Getwd L t))) \<le> 4096
   \<and> 0 \<notin> set (fst (fst (Gethostname L t))) \<and> length (fst (fst (Gethostname L t))) \<le> 256"
proof -
  have "0 \<notin> set (takeWhile (\<lambda>c. c \<noteq> 0) b)" for b :: gostring by (auto dest: set_takeWhileD)
  moreover have "length (takeWhile (\<lambda>c. c \<noteq> 0) (out_buf a b)) \<le> length b" for a and b :: gostring
    using length_takeWhile_le [of _ "out_buf a b"] by simp
  from this [of _ "replicate 4096 0"] this [of _ "replicate 256 0"]
  have "length (takeWhile (\<lambda>c. c \<noteq> 0) (out_buf a (replicate 4096 0))) \<le> 4096"
    and "length (takeWhile (\<lambda>c. c \<noteq> 0) (out_buf a (replicate 256 0))) \<le> 256" for a by simp_all
  ultimately show ?thesis
    by (simp add: Getwd_def Gethostname_def take_cstr_len Let_def case_prod_beta)
qed

text \<open>Every wrapper judges a call by \<open>errno\<close> alone: an \<open>open\<close> that succeeds in C but leaves
  \<open>errno\<close> set is reported as a failure with descriptor -1, no further C call is made, and so the
  descriptor C returned stays open with nobody holding it.\<close>

theorem Open_judged_by_errno:
  assumes "has_errno t" and "0 \<notin> set path"
    and "L ''libc_open'' [ACStr (path @ [0]), W mode, AWord perm] 0 (t_world t) = (fd, r2, e, as, w)" and "e \<noteq> 0"
  shows "fst (Open L path mode perm t) = (-1, Some e)
    \<and> t_calls (snd (Open L path mode perm t)) = t_calls t @ [(''libc_open'', [ACStr (path @ [0]), W mode, AWord perm])]"
  using assms by (simp add: Open_def libcall_defs)

theorem Open_judged_by_errno_witness:
  "fst (Open (\<lambda>fn as e w. (5, 0, EINTR, as, w)) [0x61] 0 0 (thr_of ())) = (-1, Some EINTR)"
  using Open_judged_by_errno [of "thr_of ()" "[0x61]" "\<lambda>fn as e w. (5, 0, EINTR, as, w)" 0 0 5 0 EINTR
      "[ACStr [0x61, 0], W 0, AWord 0]" "()"]
  by (simp add: has_errno_def thr_of_def)

end
