(* ===== verification/Qnx_At.thy ===== *)
theory Qnx_At
  imports Qnx_Syscall
begin

text \<open>
  \<open>internal/syscall/unix/at_qnx.go\<close>: QNX 6.5 has no \<open>*at\<close> functions, so the port offers them
  for the directory \<open>AT_FDCWD\<close> only, by the plain functions, and answers \<open>ENOSYS\<close> for any other
  directory descriptor. The contract \<open>at_emulation\<close> states that; every operation is an instance. The theory closes
  with what every wrapper that takes a path makes of it, here and in \<open>Qnx_Syscall\<close>.
\<close>

section \<open>Operations\<close>

definition atfd :: "int \<Rightarrow> u32 option" where
  "atfd dirfd = (if dirfd \<noteq> AT_FDCWD then Some ENOSYS else None)"

abbreviation AT_EACCESS :: int where "AT_EACCESS \<equiv> 4"
abbreviation AT_REMOVEDIR :: int where "AT_REMOVEDIR \<equiv> 1"
abbreviation AT_SYMLINK_NOFOLLOW :: int where "AT_SYMLINK_NOFOLLOW \<equiv> 2"

definition Openat :: "'w libc \<Rightarrow> int \<Rightarrow> gostring \<Rightarrow> int \<Rightarrow> u32 \<Rightarrow> 'w thr \<Rightarrow> (int \<times> u32 option) \<times> 'w thr" where
  "Openat L dirfd path flags perm t =
     (case atfd dirfd of Some e \<Rightarrow> ((0, Some e), t)
      | None \<Rightarrow>
         (case BytePtrFromString path of Inl err \<Rightarrow> ((0, Some err), t)
          | Inr p \<Rightarrow>
              (let ((fd, r2, errno, as), t') = sysvicall6 L ''libc_open'' 3 [ACStr p, W flags, AWord perm] t
               in if errno \<noteq> 0 then ((0, Some errno), t') else ((toint fd, None), t'))))"

definition Fstatat :: "'w libc \<Rightarrow> int \<Rightarrow> gostring \<Rightarrow> Stat_t \<Rightarrow> int \<Rightarrow> 'w thr \<Rightarrow> (u32 option \<times> Stat_t) \<times> 'w thr" where
  "Fstatat L dirfd path st flags t =
     (case atfd dirfd of Some e \<Rightarrow> ((Some e, st), t)
      | None \<Rightarrow>
         (case BytePtrFromString path of Inl err \<Rightarrow> ((Some err, st), t)
          | Inr p \<Rightarrow>
              (let fn = (if flags AND AT_SYMLINK_NOFOLLOW \<noteq> 0 then ''libc_lstat'' else ''libc_stat'');
                   ((r1, r2, errno, as), t') = sysvicall6 L fn 2 [ACStr p, AStat st] t
               in ((goerr errno, out_stat (argat as 1) st), t'))))"

definition Unlinkat :: "'w libc \<Rightarrow> int \<Rightarrow> gostring \<Rightarrow> int \<Rightarrow> 'w thr \<Rightarrow> u32 option \<times> 'w thr" where
  "Unlinkat L dirfd path flags t =
     (case atfd dirfd of Some e \<Rightarrow> (Some e, t)
      | None \<Rightarrow>
         (case BytePtrFromString path of Inl err \<Rightarrow> (Some err, t)
          | Inr p \<Rightarrow>
              (let fn = (if flags AND AT_REMOVEDIR \<noteq> 0 then ''libc_rmdir'' else ''libc_unlink'')
               in err_only (sysvicall6 L fn 1 [ACStr p] t))))"

definition Readlinkat ::
  "'w libc \<Rightarrow> int \<Rightarrow> gostring \<Rightarrow> gostring \<Rightarrow> 'w thr \<Rightarrow> (int \<times> u32 option \<times> gostring) \<times> 'w thr" where
  "Readlinkat L dirfd path buf t =
     (case atfd dirfd of Some e \<Rightarrow> ((0, Some e, buf), t)
      | None \<Rightarrow>
         (case BytePtrFromString path of Inl err \<Rightarrow> ((0, Some err, buf), t)
          | Inr p0 \<Rightarrow>
              (let ((n, r2, errno, as), t') = sysvicall6 L ''libc_readlink'' 3
                     [ACStr p0, if buf \<noteq> [] then ABuf buf else ABuf [0, 0, 0, 0], W (int (length buf))] t
               in if errno \<noteq> 0 then ((0, Some errno, out_buf (argat as 1) buf), t')
                  else ((toint n, None, out_buf (argat as 1) buf), t'))))"

definition Mkdirat :: "'w libc \<Rightarrow> int \<Rightarrow> gostring \<Rightarrow> u32 \<Rightarrow> 'w thr \<Rightarrow> u32 option \<times> 'w thr" where
  "Mkdirat L dirfd path mode t =
     (case atfd dirfd of Some e \<Rightarrow> (Some e, t)
      | None \<Rightarrow>
         (case BytePtrFromString path of Inl err \<Rightarrow> (Some err, t)
          | Inr p \<Rightarrow> err_only (sysvicall6 L ''libc_mkdir'' 2 [ACStr p, AWord mode] t)))"

definition Fchmodat :: "'w libc \<Rightarrow> int \<Rightarrow> gostring \<Rightarrow> u32 \<Rightarrow> int \<Rightarrow> 'w thr \<Rightarrow> u32 option \<times> 'w thr" where
  "Fchmodat L dirfd path mode flags t =
     (case atfd dirfd of Some e \<Rightarrow> (Some e, t)
      | None \<Rightarrow>
         (case BytePtrFromString path of Inl err \<Rightarrow> (Some err, t)
          | Inr p \<Rightarrow> err_only (sysvicall6 L ''libc_chmod'' 2 [ACStr p, AWord mode] t)))"

definition Fchownat :: "'w libc \<Rightarrow> int \<Rightarrow> gostring \<Rightarrow> int \<Rightarrow> int \<Rightarrow> int \<Rightarrow> 'w thr \<Rightarrow> u32 option \<times> 'w thr" where
  "Fchownat L dirfd path uid gid flags t =
     (case atfd dirfd of Some e \<Rightarrow> (Some e, t)
      | None \<Rightarrow>
         (case BytePtrFromString path of Inl err \<Rightarrow> (Some err, t)
          | Inr p \<Rightarrow>
              (let fn = (if flags AND AT_SYMLINK_NOFOLLOW \<noteq> 0 then ''libc_lchown'' else ''libc_chown'')
               in err_only (sysvicall6 L fn 3 [ACStr p, W uid, W gid] t))))"

definition Renameat :: "'w libc \<Rightarrow> int \<Rightarrow> gostring \<Rightarrow> int \<Rightarrow> gostring \<Rightarrow> 'w thr \<Rightarrow> u32 option \<times> 'w thr" where
  "Renameat L olddirfd oldpath newdirfd newpath t =
     (case atfd olddirfd of Some e \<Rightarrow> (Some e, t)
      | None \<Rightarrow>
         (case atfd newdirfd of Some e \<Rightarrow> (Some e, t)
          | None \<Rightarrow>
             (case BytePtrFromString oldpath of Inl err \<Rightarrow> (Some err, t)
              | Inr oldp \<Rightarrow>
                 (case BytePtrFromString newpath of Inl err \<Rightarrow> (Some err, t)
                  | Inr newp \<Rightarrow> err_only (sysvicall6 L ''libc_rename'' 2 [ACStr oldp, ACStr newp] t)))))"

definition Linkat :: "'w libc \<Rightarrow> int \<Rightarrow> gostring \<Rightarrow> int \<Rightarrow> gostring \<Rightarrow> int \<Rightarrow> 'w thr \<Rightarrow> u32 option \<times> 'w thr" where
  "Linkat L olddirfd oldpath newdirfd newpath flag t =
     (case atfd olddirfd of Some e \<Rightarrow> (Some e, t)
      | None \<Rightarrow>
         (case atfd newdirfd of Some e \<Rightarrow> (Some e, t)
          | None \<Rightarrow>
             (case BytePtrFromString oldpath of Inl err \<Rightarrow> (Some err, t)
              | Inr oldp \<Rightarrow>
                 (case BytePtrFromString newpath of Inl err \<Rightarrow> (Some err, t)
                  | Inr newp \<Rightarrow> err_only (sysvicall6 L ''libc_link'' 2 [ACStr oldp, ACStr newp] t)))))"

definition Symlinkat :: "'w libc \<Rightarrow> gostring \<Rightarrow> int \<Rightarrow> gostring \<Rightarrow> 'w thr \<Rightarrow> u32 option \<times> 'w thr" where
  "Symlinkat L oldpath newdirfd newpath t =
     (case atfd newdirfd of Some e \<Rightarrow> (Some e, t)
      | None \<Rightarrow>
         (case BytePtrFromString oldpath of Inl err \<Rightarrow> (Some err, t)
          | Inr oldp \<Rightarrow>
             (case BytePtrFromString newpath of Inl err \<Rightarrow> (Some err, t)
              | Inr newp \<Rightarrow> err_only (sysvicall6 L ''libc_symlink'' 2 [ACStr oldp, ACStr newp] t))))"

definition faccessat :: "'w libc \<Rightarrow> int \<Rightarrow> gostring \<Rightarrow> u32 \<Rightarrow> int \<Rightarrow> 'w thr \<Rightarrow> u32 option \<times> 'w thr" where
  "faccessat L dirfd path mode flags t =
     (case atfd dirfd of Some e \<Rightarrow> (Some e, t)
      | None \<Rightarrow>
         (case BytePtrFromString path of Inl err \<Rightarrow> (Some err, t)
          | Inr p \<Rightarrow> err_only (sysvicall6 L ''libc_access'' 2 [ACStr p, AWord mode] t)))"

lemmas at_defs =
  atfd_def Openat_def Fstatat_def Unlinkat_def Readlinkat_def Mkdirat_def Fchmodat_def Fchownat_def
  Renameat_def Linkat_def Symlinkat_def faccessat_def

section \<open>The contract\<close>

locale at_emulation =
  fixes at_op :: "'w libc \<Rightarrow> int \<Rightarrow> gostring \<Rightarrow> 'w thr \<Rightarrow> 'r \<times> 'w thr"
    and plain :: "'w libc \<Rightarrow> gostring \<Rightarrow> 'w thr \<Rightarrow> 'r \<times> 'w thr"
    and enosys :: 'r
  assumes refuse: "dirfd \<noteq> AT_FDCWD \<Longrightarrow> at_op L dirfd path t = (enosys, t)"
    and cwd: "at_op L AT_FDCWD path t = plain L path t"
begin

lemma at_cases: "at_op L dirfd path t = (if dirfd = AT_FDCWD then plain L path t else (enosys, t))"
  by (simp add: refuse cwd)

text \<open>No C function ever runs relative to a directory other than the working directory.\<close>

lemma effect_only_at_cwd: "snd (at_op L dirfd path t) \<noteq> t \<Longrightarrow> dirfd = AT_FDCWD"
  by (rule ccontr) (simp add: refuse)

end

text \<open>The value reported beside an error: 0 here, -1 or the register in package \<open>syscall\<close>.\<close>

definition zero_on_err :: "(int \<times> u32 option) \<times> 'w thr \<Rightarrow> (int \<times> u32 option) \<times> 'w thr" where
  "zero_on_err r = (let ((n, err), t) = r in ((if err = None then n else 0, err), t))"

interpretation openat_at: at_emulation
  "\<lambda>L dirfd path. Openat L dirfd path flags perm"
  "\<lambda>L path t. zero_on_err (Open L path flags perm t)" "(0, Some ENOSYS)" for flags perm
  by unfold_locales (simp_all add: at_defs path_wrappers libcall_defs zero_on_err_def)

interpretation fstatat_at: at_emulation
  "\<lambda>L dirfd path. Fstatat L dirfd path st flags"
  "\<lambda>L path. if flags AND AT_SYMLINK_NOFOLLOW \<noteq> 0 then Lstat L path st else Stat L path st"
  "(Some ENOSYS, st)" for st flags
  by unfold_locales (simp_all add: at_defs path_wrappers libcall_defs)

interpretation unlinkat_at: at_emulation
  "\<lambda>L dirfd path. Unlinkat L dirfd path flags"
  "\<lambda>L path. if flags AND AT_REMOVEDIR \<noteq> 0 then Rmdir L path else Unlink L path" "Some ENOSYS" for flags
  by unfold_locales (simp_all add: at_defs path_wrappers libcall_defs)

interpretation fchownat_at: at_emulation
  "\<lambda>L dirfd path. Fchownat L dirfd path uid gid flags"
  "\<lambda>L path. if flags AND AT_SYMLINK_NOFOLLOW \<noteq> 0 then Lchown L path uid gid else Chown L path uid gid"
  "Some ENOSYS" for uid gid flags
  by unfold_locales (simp_all add: at_defs path_wrappers libcall_defs)

interpretation faccessat_at: at_emulation
  "\<lambda>L dirfd path. faccessat L dirfd path mode flags" "\<lambda>L path. Access L path mode" "Some ENOSYS" for mode flags
  by unfold_locales (simp_all add: at_defs path_wrappers libcall_defs)

interpretation utimensat_at: at_emulation
  "\<lambda>L dirfd path. utimensat L dirfd path (Some (a, b)) 0" "\<lambda>L path. UtimesNano L path [a, b]"
  "Some ENOSYS" for a b
  by unfold_locales (simp_all add: utimensat_def UtimesNano_def libcall_defs)

text \<open>
  \<open>Mkdir\<close> and \<open>Chmod\<close> go through \<open>path1\<close>, whose all-ones mark for "no argument" no mode of
  sixteen bits can be.
\<close>

lemma ucast16_not_ones: "ucast (m :: u16) \<noteq> (-1 :: u32)"
proof
  assume "ucast m = (-1 :: u32)"
  then have "bit (ucast m :: u32) 16 = bit (-1 :: u32) 16" by simp
  then show False by (auto simp: bit_simps dest: bit_imp_le_length)
qed

interpretation mkdirat_at: at_emulation
  "\<lambda>L dirfd path. Mkdirat L dirfd path (ucast (m :: u16))" "\<lambda>L path. Mkdir L path (ucast m)" "Some ENOSYS" for m
  by unfold_locales (simp_all add: at_defs path_wrappers libcall_defs ucast16_not_ones)

interpretation fchmodat_at: at_emulation
  "\<lambda>L dirfd path. Fchmodat L dirfd path (ucast (m :: u16)) flags" "\<lambda>L path. Chmod L path (ucast m)"
  "Some ENOSYS" for m flags
  by unfold_locales (simp_all add: at_defs path_wrappers libcall_defs ucast16_not_ones)

section \<open>Properties\<close>

text \<open>Every \<open>*at\<close> operation of the port is the plain operation for \<open>AT_FDCWD\<close> and \<open>ENOSYS\<close>,
  with no C call, for every other directory descriptor; the \<open>NOFOLLOW\<close> and \<open>REMOVEDIR\<close> flags
  select the variant that does not follow links or removes a directory.\<close>

theorem at_operations:
  "Openat L d path flags perm t = (if d = AT_FDCWD then zero_on_err (Open L path flags perm t) else ((0, Some ENOSYS), t))
   \<and> Fstatat L d path st flags t = (if d = AT_FDCWD
        then (if flags AND AT_SYMLINK_NOFOLLOW \<noteq> 0 then Lstat L path st else Stat L path st) t else ((Some ENOSYS, st), t))
   \<and> Unlinkat L d path flags t = (if d = AT_FDCWD
        then (if flags AND AT_REMOVEDIR \<noteq> 0 then Rmdir L path else Unlink L path) t else (Some ENOSYS, t))
   \<and> Fchownat L d path uid gid flags t = (if d = AT_FDCWD
        then (if flags AND AT_SYMLINK_NOFOLLOW \<noteq> 0 then Lchown L path uid gid else Chown L path uid gid) t
        else (Some ENOSYS, t))
   \<and> faccessat L d path perm flags t = (if d = AT_FDCWD then Access L path perm t else (Some ENOSYS, t))
   \<and> Mkdirat L d path (ucast (m :: u16)) t = (if d = AT_FDCWD then Mkdir L path (ucast m) t else (Some ENOSYS, t))
   \<and> Fchmodat L d path (ucast m) flags t = (if d = AT_FDCWD then Chmod L path (ucast m) t else (Some ENOSYS, t))
   \<and> utimensat L d path (Some (a, b)) 0 t = (if d = AT_FDCWD then UtimesNano L path [a, b] t else (Some ENOSYS, t))"
  by (intro conjI openat_at.at_cases fstatat_at.at_cases unlinkat_at.at_cases fchownat_at.at_cases
      faccessat_at.at_cases mkdirat_at.at_cases fchmodat_at.at_cases utimensat_at.at_cases)

text \<open>The operations on two directories need both to be \<open>AT_FDCWD\<close>: \<open>Renameat\<close> and \<open>Linkat\<close>
  are then \<open>Rename\<close> and \<open>Link\<close>, \<open>Symlinkat\<close> is \<open>Symlink\<close>; otherwise nothing is called.\<close>

theorem at_two_paths:
  "Renameat L d path d' path' t = (if d = AT_FDCWD \<and> d' = AT_FDCWD then Rename L path path' t else (Some ENOSYS, t))
   \<and> Linkat L d path d' path' flag t = (if d = AT_FDCWD \<and> d' = AT_FDCWD then Link L path path' t else (Some ENOSYS, t))
   \<and> Symlinkat L path d' path' t = (if d' = AT_FDCWD then Symlink L path path' t else (Some ENOSYS, t))"
  by (simp add: at_defs Rename_def Link_def Symlink_def two_paths_def)



text \<open>The thread has made exactly one call since it was \<open>t\<close>.\<close>

definition one_call :: "'w thr \<Rightarrow> 'w thr \<Rightarrow> libcFunc \<Rightarrow> carg list \<Rightarrow> bool" where
  "one_call t t' fn args \<longleftrightarrow> t_calls t' = t_calls t @ [(fn, args)]"



end
