(* ===== verification/Qnx_Socket.thy ===== *)
theory Qnx_Socket
  imports Qnx_Syscall
begin

text \<open>
  The exported socket operations of package \<open>syscall\<close> (\<open>syscall/syscall_unix.go\<close>), on top of
  the QNX wrappers. The instrumentation for the race, memory and address sanitizers and the
  playground's fake time is compiled out on QNX and not part of the model. A Go socket address
  that is passed to an operation comes back with the \<open>raw\<close> bytes its \<open>sockaddr\<close> method wrote.
\<close>

section \<open>The Sockaddr interface\<close>

datatype GoSockaddr = GInet4 SockaddrInet4 | GInet6 SockaddrInet6 | GUnix SockaddrUnix

fun sockaddr :: "GoSockaddr \<Rightarrow> (u32 + gostring \<times> u32) \<times> GoSockaddr" where
  "sockaddr (GInet4 s) = (let (r, s') = sockaddr_inet4 s in (r, GInet4 s'))"
| "sockaddr (GInet6 s) = (let (r, s') = sockaddr_inet6 s in (r, GInet6 s'))"
| "sockaddr (GUnix s) = (let (r, s') = sockaddr_unix s in (r, GUnix s'))"

fun wf_sockaddr :: "GoSockaddr \<Rightarrow> bool" where
  "wf_sockaddr (GInet4 s) = wf_inet4 s"
| "wf_sockaddr (GInet6 s) = wf_inet6 s"
| "wf_sockaddr (GUnix s) = wf_unix s"

fun view_sockaddr :: "GoSockaddr \<Rightarrow> Sockaddr" where
  "view_sockaddr (GInet4 s) = Inet4 (s4_Port s) (s4_Addr s)"
| "view_sockaddr (GInet6 s) = Inet6 (s6_Port s) (s6_ZoneId s) (s6_Addr s)"
| "view_sockaddr (GUnix s) = Unix (su_Name s)"

section \<open>Reading and writing\<close>

definition Read :: "'w libc \<Rightarrow> int \<Rightarrow> gostring \<Rightarrow> 'w thr \<Rightarrow> (int \<times> u32 option \<times> gostring) \<times> 'w thr" where
  "Read L fd p t = sys_read L fd p t"

definition Write :: "'w libc \<Rightarrow> int \<Rightarrow> gostring \<Rightarrow> 'w thr \<Rightarrow> (int \<times> u32 option) \<times> 'w thr" where
  "Write L fd p t = sys_write L fd p t"

definition Pread :: "'w libc \<Rightarrow> int \<Rightarrow> gostring \<Rightarrow> int \<Rightarrow> 'w thr \<Rightarrow> (int \<times> u32 option \<times> gostring) \<times> 'w thr" where
  "Pread L fd p offset t = pread L fd p offset t"

definition Pwrite :: "'w libc \<Rightarrow> int \<Rightarrow> gostring \<Rightarrow> int \<Rightarrow> 'w thr \<Rightarrow> (int \<times> u32 option) \<times> 'w thr" where
  "Pwrite L fd p offset t = pwrite L fd p offset t"

section \<open>Addresses of sockets\<close>

definition Bind :: "'w libc \<Rightarrow> int \<Rightarrow> GoSockaddr \<Rightarrow> 'w thr \<Rightarrow> (u32 option \<times> GoSockaddr) \<times> 'w thr" where
  "Bind L fd sa t =
     (case sockaddr sa of
        (Inl err, sa') \<Rightarrow> ((Some err, sa'), t)
      | (Inr (ptr, n), sa') \<Rightarrow> (let (e, t') = bind_sock L fd ptr n t in ((e, sa'), t')))"

definition Connect :: "'w libc \<Rightarrow> int \<Rightarrow> GoSockaddr \<Rightarrow> 'w thr \<Rightarrow> (u32 option \<times> GoSockaddr) \<times> 'w thr" where
  "Connect L fd sa t =
     (case sockaddr sa of
        (Inl err, sa') \<Rightarrow> ((Some err, sa'), t)
      | (Inr (ptr, n), sa') \<Rightarrow> (let (e, t') = connect L fd ptr n t in ((e, sa'), t')))"

definition Getpeername :: "'w libc \<Rightarrow> int \<Rightarrow> 'w thr \<Rightarrow> (u32 + Sockaddr) \<times> 'w thr" where
  "Getpeername L fd t =
     (let ((err, rsa, n), t') = getpeername L fd zero_rsa SizeofSockaddrAny t
      in case err of Some e \<Rightarrow> (Inl e, t') | None \<Rightarrow> (anyToSockaddr rsa, t'))"

definition GetsockoptInt :: "'w libc \<Rightarrow> int \<Rightarrow> int \<Rightarrow> int \<Rightarrow> 'w thr \<Rightarrow> (int \<times> u32 option) \<times> 'w thr" where
  "GetsockoptInt L fd level opt t =
     (let ((err, v, vallen), t') = getsockopt L fd level opt (AI32s [0]) 4 t
      in ((out_i32s v [0] ! 0, err), t'))"

section \<open>Receiving\<close>

text \<open>The family byte of a raw address; \<open>AF_UNSPEC\<close> is 0.\<close>

definition rsa_family :: "gostring \<Rightarrow> u8" where "rsa_family rsa = rsa ! 1"

definition Recvfrom ::
  "'w libc \<Rightarrow> int \<Rightarrow> gostring \<Rightarrow> int \<Rightarrow> 'w thr
     \<Rightarrow> (int \<times> Sockaddr option \<times> u32 option \<times> gostring) \<times> 'w thr" where
  "Recvfrom L fd p flags t =
     (let ((n, err, p', rsa, len), t') = recvfrom L fd p flags zero_rsa SizeofSockaddrAny t
      in if err \<noteq> None then ((n, None, err, p'), t')
         else if rsa_family rsa \<noteq> 0
         then (case anyToSockaddr rsa of Inl e \<Rightarrow> ((n, None, Some e, p'), t')
               | Inr sa \<Rightarrow> ((n, Some sa, None, p'), t'))
         else ((n, None, None, p'), t'))"

definition load_inet4 :: "gostring \<Rightarrow> SockaddrInet4 \<Rightarrow> SockaddrInet4" where
  "load_inet4 rsa from =
     from\<lparr>s4_Port := push_bit 8 (uint (rsa ! 2)) + uint (rsa ! 3), s4_Addr := take 4 (drop 4 rsa)\<rparr>"

definition load_inet6 :: "gostring \<Rightarrow> SockaddrInet6 \<Rightarrow> SockaddrInet6" where
  "load_inet6 rsa from =
     from\<lparr>s6_Port := push_bit 8 (uint (rsa ! 2)) + uint (rsa ! 3),
          s6_ZoneId := of_le32 (take 4 (drop 24 rsa)), s6_Addr := take 16 (drop 8 rsa)\<rparr>"

definition recvfromInet4 ::
  "'w libc \<Rightarrow> int \<Rightarrow> gostring \<Rightarrow> int \<Rightarrow> SockaddrInet4 \<Rightarrow> 'w thr
     \<Rightarrow> (int \<times> u32 option \<times> gostring \<times> SockaddrInet4) \<times> 'w thr" where
  "recvfromInet4 L fd p flags from t =
     (let ((n, err, p', rsa, len), t') = recvfrom L fd p flags zero_rsa SizeofSockaddrAny t
      in if err \<noteq> None then ((n, err, p', from), t') else ((n, None, p', load_inet4 rsa from), t'))"

definition recvfromInet6 ::
  "'w libc \<Rightarrow> int \<Rightarrow> gostring \<Rightarrow> int \<Rightarrow> SockaddrInet6 \<Rightarrow> 'w thr
     \<Rightarrow> (int \<times> u32 option \<times> gostring \<times> SockaddrInet6) \<times> 'w thr" where
  "recvfromInet6 L fd p flags from t =
     (let ((n, err, p', rsa, len), t') = recvfrom L fd p flags zero_rsa SizeofSockaddrAny t
      in if err \<noteq> None then ((n, err, p', from), t') else ((n, None, p', load_inet6 rsa from), t'))"

text \<open>The address a \<open>recvmsg\<close> wrote through \<open>msg.Name\<close>.\<close>

definition msg_rsa :: "Msghdr \<Rightarrow> gostring" where
  "msg_rsa msg = (case msg_Name msg of
     Some b \<Rightarrow> if length b = length zero_rsa then b else zero_rsa | None \<Rightarrow> zero_rsa)"

definition recvmsgInet4 ::
  "'w libc \<Rightarrow> int \<Rightarrow> gostring \<Rightarrow> gostring \<Rightarrow> int \<Rightarrow> SockaddrInet4 \<Rightarrow> 'w thr
     \<Rightarrow> (int \<times> int \<times> int \<times> u32 option \<times> SockaddrInet4) \<times> 'w thr" where
  "recvmsgInet4 L fd p oob flags from t =
     (let ((n, oobn, recvflags, err, msg), t') = recvmsgRaw L fd p oob flags zero_rsa t
      in if err \<noteq> None then ((n, oobn, recvflags, err, from), t')
         else ((n, oobn, recvflags, None, load_inet4 (msg_rsa msg) from), t'))"

definition recvmsgInet6 ::
  "'w libc \<Rightarrow> int \<Rightarrow> gostring \<Rightarrow> gostring \<Rightarrow> int \<Rightarrow> SockaddrInet6 \<Rightarrow> 'w thr
     \<Rightarrow> (int \<times> int \<times> int \<times> u32 option \<times> SockaddrInet6) \<times> 'w thr" where
  "recvmsgInet6 L fd p oob flags from t =
     (let ((n, oobn, recvflags, err, msg), t') = recvmsgRaw L fd p oob flags zero_rsa t
      in if err \<noteq> None then ((n, oobn, recvflags, err, from), t')
         else ((n, oobn, recvflags, None, load_inet6 (msg_rsa msg) from), t'))"

text \<open>The address is decoded whenever a family was written, and its error replaces the call's.\<close>

definition Recvmsg ::
  "'w libc \<Rightarrow> int \<Rightarrow> gostring \<Rightarrow> gostring \<Rightarrow> int \<Rightarrow> 'w thr
     \<Rightarrow> (int \<times> int \<times> int \<times> Sockaddr option \<times> u32 option) \<times> 'w thr" where
  "Recvmsg L fd p oob flags t =
     (let ((n, oobn, recvflags, err, msg), t') = recvmsgRaw L fd p oob flags zero_rsa t;
          rsa = msg_rsa msg
      in if rsa_family rsa \<noteq> 0
         then (case anyToSockaddr rsa of Inl e \<Rightarrow> ((n, oobn, recvflags, None, Some e), t')
               | Inr sa \<Rightarrow> ((n, oobn, recvflags, Some sa, None), t'))
         else ((n, oobn, recvflags, None, err), t'))"

section \<open>Sending\<close>

definition SendmsgN ::
  "'w libc \<Rightarrow> int \<Rightarrow> gostring \<Rightarrow> gostring \<Rightarrow> GoSockaddr option \<Rightarrow> int \<Rightarrow> 'w thr
     \<Rightarrow> (int \<times> u32 option) \<times> 'w thr" where
  "SendmsgN L fd p oob to flags t =
     (case to of
        None \<Rightarrow> sendmsgN L fd p oob None 0 flags t
      | Some sa \<Rightarrow>
          (case fst (sockaddr sa) of
             Inl err \<Rightarrow> ((0, Some err), t)
           | Inr (ptr, salen) \<Rightarrow> sendmsgN L fd p oob (Some ptr) salen flags t))"

definition Sendmsg ::
  "'w libc \<Rightarrow> int \<Rightarrow> gostring \<Rightarrow> gostring \<Rightarrow> GoSockaddr option \<Rightarrow> int \<Rightarrow> 'w thr \<Rightarrow> u32 option \<times> 'w thr" where
  "Sendmsg L fd p oob to flags t = (let ((n, err), t') = SendmsgN L fd p oob to flags t in (err, t'))"

definition sendmsgNInet4 ::
  "'w libc \<Rightarrow> int \<Rightarrow> gostring \<Rightarrow> gostring \<Rightarrow> SockaddrInet4 option \<Rightarrow> int \<Rightarrow> 'w thr
     \<Rightarrow> (int \<times> u32 option) \<times> 'w thr" where
  "sendmsgNInet4 L fd p oob to flags t =
     (case to of
        None \<Rightarrow> sendmsgN L fd p oob None 0 flags t
      | Some sa \<Rightarrow>
          (case fst (sockaddr_inet4 sa) of
             Inl err \<Rightarrow> ((0, Some err), t)
           | Inr (ptr, salen) \<Rightarrow> sendmsgN L fd p oob (Some ptr) salen flags t))"

definition sendmsgNInet6 ::
  "'w libc \<Rightarrow> int \<Rightarrow> gostring \<Rightarrow> gostring \<Rightarrow> SockaddrInet6 option \<Rightarrow> int \<Rightarrow> 'w thr
     \<Rightarrow> (int \<times> u32 option) \<times> 'w thr" where
  "sendmsgNInet6 L fd p oob to flags t =
     (case to of
        None \<Rightarrow> sendmsgN L fd p oob None 0 flags t
      | Some sa \<Rightarrow>
          (case fst (sockaddr_inet6 sa) of
             Inl err \<Rightarrow> ((0, Some err), t)
           | Inr (ptr, salen) \<Rightarrow> sendmsgN L fd p oob (Some ptr) salen flags t))"

definition sendtoInet4 ::
  "'w libc \<Rightarrow> int \<Rightarrow> gostring \<Rightarrow> int \<Rightarrow> SockaddrInet4 \<Rightarrow> 'w thr \<Rightarrow> u32 option \<times> 'w thr" where
  "sendtoInet4 L fd p flags to t =
     (case fst (sockaddr_inet4 to) of
        Inl err \<Rightarrow> (Some err, t)
      | Inr (ptr, n) \<Rightarrow> sendto L fd p flags (Some ptr) n t)"

definition sendtoInet6 ::
  "'w libc \<Rightarrow> int \<Rightarrow> gostring \<Rightarrow> int \<Rightarrow> SockaddrInet6 \<Rightarrow> 'w thr \<Rightarrow> u32 option \<times> 'w thr" where
  "sendtoInet6 L fd p flags to t =
     (case fst (sockaddr_inet6 to) of
        Inl err \<Rightarrow> (Some err, t)
      | Inr (ptr, n) \<Rightarrow> sendto L fd p flags (Some ptr) n t)"

definition Sendto ::
  "'w libc \<Rightarrow> int \<Rightarrow> gostring \<Rightarrow> int \<Rightarrow> GoSockaddr option \<Rightarrow> 'w thr \<Rightarrow> u32 option \<times> 'w thr" where
  "Sendto L fd p flags to t =
     (case to of
        None \<Rightarrow> sendto L fd p flags None 0 t
      | Some sa \<Rightarrow>
          (case fst (sockaddr sa) of
             Inl err \<Rightarrow> (Some err, t)
           | Inr (ptr, n) \<Rightarrow> sendto L fd p flags (Some ptr) n t))"

section \<open>Options, creation\<close>

definition SetsockoptByte :: "'w libc \<Rightarrow> int \<Rightarrow> int \<Rightarrow> int \<Rightarrow> u8 \<Rightarrow> 'w thr \<Rightarrow> u32 option \<times> 'w thr" where
  "SetsockoptByte L fd level opt v t = setsockopt L fd level opt (ABuf [v]) 1 t"

definition SetsockoptInt :: "'w libc \<Rightarrow> int \<Rightarrow> int \<Rightarrow> int \<Rightarrow> int \<Rightarrow> 'w thr \<Rightarrow> u32 option \<times> 'w thr" where
  "SetsockoptInt L fd level opt v t = setsockopt L fd level opt (AI32s [int32 v]) 4 t"

definition SetsockoptInet4Addr :: "'w libc \<Rightarrow> int \<Rightarrow> int \<Rightarrow> int \<Rightarrow> gostring \<Rightarrow> 'w thr \<Rightarrow> u32 option \<times> 'w thr" where
  "SetsockoptInet4Addr L fd level opt v t = setsockopt L fd level opt (ABuf v) 4 t"

text \<open>The structures that are passed as they lie in memory: two words, two IPv4 addresses, an IPv6 address and an interface index.\<close>

record Linger =
  ln_Onoff :: int
  ln_Linger :: int

record IPMreq =
  im_Multiaddr :: gostring
  im_Interface :: gostring

record IPv6Mreq =
  i6_Multiaddr :: gostring
  i6_Interface :: u32

definition SetsockoptIPMreq :: "'w libc \<Rightarrow> int \<Rightarrow> int \<Rightarrow> int \<Rightarrow> IPMreq \<Rightarrow> 'w thr \<Rightarrow> u32 option \<times> 'w thr" where
  "SetsockoptIPMreq L fd level opt mreq t = setsockopt L fd level opt (ABuf (im_Multiaddr mreq @ im_Interface mreq)) 8 t"

definition SetsockoptIPv6Mreq :: "'w libc \<Rightarrow> int \<Rightarrow> int \<Rightarrow> int \<Rightarrow> IPv6Mreq \<Rightarrow> 'w thr \<Rightarrow> u32 option \<times> 'w thr" where
  "SetsockoptIPv6Mreq L fd level opt mreq t =
     setsockopt L fd level opt (ABuf (i6_Multiaddr mreq @ le32 (i6_Interface mreq))) 0x14 t"

definition SetsockoptLinger :: "'w libc \<Rightarrow> int \<Rightarrow> int \<Rightarrow> int \<Rightarrow> Linger \<Rightarrow> 'w thr \<Rightarrow> u32 option \<times> 'w thr" where
  "SetsockoptLinger L fd level opt l t = setsockopt L fd level opt (AI32s [ln_Onoff l, ln_Linger l]) 8 t"

definition SetsockoptString :: "'w libc \<Rightarrow> int \<Rightarrow> int \<Rightarrow> int \<Rightarrow> gostring \<Rightarrow> 'w thr \<Rightarrow> u32 option \<times> 'w thr" where
  "SetsockoptString L fd level opt s t = setsockopt L fd level opt (bufptr s) (uptr (int (length s))) t"

definition SetsockoptTimeval :: "'w libc \<Rightarrow> int \<Rightarrow> int \<Rightarrow> int \<Rightarrow> Timeval \<Rightarrow> 'w thr \<Rightarrow> u32 option \<times> 'w thr" where
  "SetsockoptTimeval L fd level opt tv t = setsockopt L fd level opt (ATimevals [tv]) 8 t"

text \<open>\<open>SocketDisableIPv6\<close> is a package variable that tests set.\<close>

definition Socket :: "'w libc \<Rightarrow> bool \<Rightarrow> int \<Rightarrow> int \<Rightarrow> int \<Rightarrow> 'w thr \<Rightarrow> (int \<times> u32 option) \<times> 'w thr" where
  "Socket L SocketDisableIPv6 domain typ proto t =
     (if domain = uint AF_INET6 \<and> SocketDisableIPv6 then ((-1, Some EAFNOSUPPORT), t)
      else socket L domain typ proto t)"

definition Socketpair :: "'w libc \<Rightarrow> int \<Rightarrow> int \<Rightarrow> int \<Rightarrow> 'w thr \<Rightarrow> ((int \<times> int) \<times> u32 option) \<times> 'w thr" where
  "Socketpair L domain typ proto t =
     (let ((err, fdx), t') = socketpair L domain typ proto [0, 0] t
      in if err = None then ((((fdx ! 0), (fdx ! 1)), None), t') else (((0, 0), err), t'))"

text \<open>QNX 6.5 has no \<open>sendfile\<close>; callers fall back to copying.\<close>

definition sendfile :: "int \<Rightarrow> int \<Rightarrow> int option \<Rightarrow> int \<Rightarrow> int \<times> u32 option" where
  "sendfile outfd infd offset cnt = (0, Some ENOSYS)"

section \<open>The codec of the interface\<close>

text \<open>The three encoders together satisfy the contract of each: \<open>sockaddr\<close> is one codec.\<close>

lemma sockaddr_decode:
  "wf_sockaddr s \<Longrightarrow> sockaddr s = (Inr (raw, n), s') \<Longrightarrow> anyToSockaddr (rsa_of raw n) = Inr (view_sockaddr s)"
  by (cases s) (auto split: prod.splits dest: inet4.decode inet6.decode unixsock.decode)

lemma sockaddr_len:
  "wf_sockaddr s \<Longrightarrow> sockaddr s = (Inr (raw, n), s') \<Longrightarrow> uint (raw ! 0) = uint n \<and> unat n \<le> length raw"
  by (cases s) (auto split: prod.splits dest: inet4.len_byte inet6.len_byte unixsock.len_byte)

interpretation gosock: sockaddr_codec wf_sockaddr sockaddr view_sockaddr
  by unfold_locales (erule (1) sockaddr_decode, erule (1) sockaddr_len)

lemmas sock_defs =
  Bind_def Connect_def SendmsgN_def sendtoInet4_def Sendto_def bind_sock_def connect_def sendto_def
  sendmsgN_def sendmsg_def

section \<open>Properties\<close>

text \<open>The arrays of a Go address have their lengths, by its type.\<close>

fun sa_shape :: "GoSockaddr \<Rightarrow> bool" where
  "sa_shape (GInet4 s) \<longleftrightarrow> wf_inet4 s"
| "sa_shape (GInet6 s) \<longleftrightarrow> wf_inet6 s"
| "sa_shape (GUnix s) \<longleftrightarrow> length (su_raw s) = 106"

text \<open>The addresses that can be sent.\<close>

fun sa_accepted :: "GoSockaddr \<Rightarrow> bool" where
  "sa_accepted (GInet4 s) \<longleftrightarrow> 0 \<le> s4_Port s \<and> s4_Port s < 2 ^ 16"
| "sa_accepted (GInet6 s) \<longleftrightarrow> 0 \<le> s6_Port s \<and> s6_Port s < 2 ^ 16"
| "sa_accepted (GUnix s) \<longleftrightarrow> su_Name s \<noteq> [] \<and> length (su_Name s) < 104"

text \<open>What the receiver sees: for a Unix address the byte after the name is whatever the buffer of the address
  holds there, zero in a fresh one.\<close>

fun received :: "GoSockaddr \<Rightarrow> Sockaddr" where
  "received (GInet4 s) = Inet4 (s4_Port s) (s4_Addr s)"
| "received (GInet6 s) = Inet6 (s6_Port s) (s6_ZoneId s) (s6_Addr s)"
| "received (GUnix s) = Unix (takeWhile (\<lambda>c. c \<noteq> 0) (su_Name s @ [su_raw s ! (2 + length (su_Name s))]))"

lemma takeWhile_zeros: "takeWhile (\<lambda>c. c \<noteq> 0) (xs @ replicate m (0 :: u8)) = takeWhile (\<lambda>c. c \<noteq> 0) xs"
  by (induction xs) (cases m, simp_all)

lemma unix_decode_stale:
  assumes "length (su_raw s) = 106" and "sockaddr_unix s = (Inr (raw, n), s')"
  shows "anyToSockaddr (rsa_of raw n) = Inr (received (GUnix s)) \<and> uint (raw ! 0) = uint n \<and> unat n \<le> length raw"
proof -
  let ?k = "length (su_Name s)" and ?b = "su_raw s ! (2 + length (su_Name s))"
  from assms have k: "?k < 104" "0 < ?k"
    and raw: "raw = [of_nat (3 + ?k), AF_UNIX] @ su_Name s @ drop (2 + ?k) (su_raw s)"
    and n: "n = of_nat (3 + ?k)"
    by (auto simp: sockaddr_unix_def Let_def split: if_splits)
  have un: "unat n = 3 + ?k" unfolding n by (rule unix_len_value(1) [OF k(1)])
  from assms(1) k have "drop (2 + ?k) (su_raw s) = ?b # drop (3 + ?k) (su_raw s)"
    using Cons_nth_drop_Suc [of "2 + ?k" "su_raw s"] by (simp add: eval_nat_numeral)
  then have "take (unat n) raw = [of_nat (3 + ?k), AF_UNIX] @ su_Name s @ [?b]"
    by (simp add: raw un take_Cons' numeral_eq_Suc)
  then have rsa: "rsa_of raw n = [of_nat (3 + ?k), AF_UNIX] @ su_Name s @ [?b]
      @ replicate (sizeof_RawSockaddrAny - (3 + ?k)) 0"
    by (simp add: rsa_of_def un)
  have "take 104 (drop 2 (rsa_of raw n)) = (su_Name s @ [?b]) @ replicate (103 - ?k) 0"
    using k by (simp add: rsa sizeof_RawSockaddrAny_def min_def take_Cons')
  then have "anyToSockaddr (rsa_of raw n) = Inr (received (GUnix s))"
    by (simp only: anyToSockaddr_def Let_def takeWhile_zeros) (simp add: rsa)
  moreover have "uint (raw ! 0) = uint n" "unat n \<le> length raw"
    using unix_len_value [OF k(1)] assms(1) k by (simp_all add: raw n del: of_nat_add)
  ultimately show ?thesis by blast
qed

lemma sockaddr_shape:
  assumes "sa_shape sa" and "sa_accepted sa"
  obtains raw n sa' where "sockaddr sa = (Inr (raw, n), sa')" "anyToSockaddr (rsa_of raw n) = Inr (received sa)"
    "uint (raw ! 0) = uint n \<and> unat n \<le> length raw"
proof (cases sa)
  case (GInet4 s)
  then obtain raw n s' where e: "sockaddr_inet4 s = (Inr (raw, n), s')"
    using assms(2) by (auto simp: sockaddr_inet4_def Let_def)
  have w: "wf_inet4 s" using assms(1) GInet4 by simp
  show ?thesis by (rule that [OF _ _ inet4_len [OF w e]]) (use inet4_decode [OF w e] e GInet4 in \<open>simp_all\<close>)
next
  case (GInet6 s)
  then obtain raw n s' where e: "sockaddr_inet6 s = (Inr (raw, n), s')"
    using assms(2) by (auto simp: sockaddr_inet6_def Let_def)
  have w: "wf_inet6 s" using assms(1) GInet6 by simp
  show ?thesis by (rule that [OF _ _ inet6_len [OF w e]]) (use inet6_decode [OF w e] e GInet6 in \<open>simp_all\<close>)
next
  case (GUnix s)
  then obtain raw n s' where e: "sockaddr_unix s = (Inr (raw, n), s')"
    using assms(2) by (auto simp: sockaddr_unix_def Let_def)
  have w: "length (su_raw s) = 106" using assms(1) GUnix by simp
  from unix_decode_stale [OF w e] have d: "anyToSockaddr (rsa_of raw n) = Inr (received sa)" "uint (raw ! 0) = uint n \<and> unat n \<le> length raw" using GUnix by blast+
  show ?thesis by (rule that [OF _ d]) (use e GUnix in \<open>simp\<close>)
qed

lemma sockaddr_refused: "\<not> sa_accepted sa \<Longrightarrow> sockaddr sa = (Inl EINVAL, sa)"
  by (cases sa) (auto simp: sockaddr_inet4_def sockaddr_inet6_def sockaddr_unix_def Let_def)

lemma received_view: "wf_sockaddr sa \<Longrightarrow> sa_accepted sa \<Longrightarrow> received sa = view_sockaddr sa"
proof (cases sa)
  case (GUnix s)
  assume "wf_sockaddr sa" "sa_accepted sa"
  with GUnix have "0 \<notin> set (su_Name s)" "su_raw s ! (2 + length (su_Name s)) = 0" by (auto simp: wf_unix_def)
  then have "takeWhile (\<lambda>c. c \<noteq> 0) (su_Name s @ [su_raw s ! (2 + length (su_Name s))]) = su_Name s"
    by (subst takeWhile_append2) auto
  with GUnix show ?thesis by simp
qed simp_all



text \<open>The stale byte shows: an address whose buffer last held a longer name is received with one byte too many.\<close>

theorem unix_stale_byte:
  "received (GUnix (case sockaddr_unix \<lparr>su_Name = [0x61, 0x62, 0x63], su_raw = replicate 106 0\<rparr> of
      (r, s) \<Rightarrow> s\<lparr>su_Name := [0x61]\<rparr>)) = Unix [0x61, 0x62]"
  by (simp add: sockaddr_unix_def Let_def)

text \<open>Different addresses are never sent as the same bytes, across the three families.\<close>

theorem sockaddr_injective:
  assumes "wf_sockaddr s1" and "wf_sockaddr s2"
    and "fst (sockaddr s1) = Inr (raw, n)" and "fst (sockaddr s2) = Inr (raw, n)"
  shows "view_sockaddr s1 = view_sockaddr s2"
  using gosock.encode_injective [OF assms(1,2)] assms(3,4) by (metis prod.collapse)

theorem sockaddr_injective_witness:
  "view_sockaddr (GUnix \<lparr>su_Name = [0x61], su_raw = replicate 106 0\<rparr>)
     = view_sockaddr (GUnix \<lparr>su_Name = [0x61], su_raw = [9, 9, 9] @ replicate 103 0\<rparr>)"
proof (rule sockaddr_injective)
  show "wf_sockaddr (GUnix \<lparr>su_Name = [0x61], su_raw = replicate 106 0\<rparr>)"
    and "wf_sockaddr (GUnix \<lparr>su_Name = [0x61], su_raw = [9, 9, 9] @ replicate 103 0\<rparr>)"
    by (simp_all add: wf_unix_def)
  show "fst (sockaddr (GUnix \<lparr>su_Name = [0x61], su_raw = replicate 106 0\<rparr>)) = Inr ([4, 1, 0x61] @ replicate 103 0, 4)"
    and "fst (sockaddr (GUnix \<lparr>su_Name = [0x61], su_raw = [9, 9, 9] @ replicate 103 0\<rparr>)) = Inr ([4, 1, 0x61] @ replicate 103 0, 4)"
    by (simp_all add: sockaddr_unix_def Let_def)
qed

end
