(* ===== verification/Qnx_Exec.thy ===== *)
theory Qnx_Exec
  imports Qnx_Syscall
begin

text \<open>
  Process creation: \<open>forkAndExecInChild\<close> on top of \<open>posix_spawn\<close> (\<open>syscall/exec_qnx.go\<close>), the
  framework around it (\<open>forkExec\<close> and \<open>Exec\<close> in \<open>syscall/exec_unix.go\<close>) and the status pipe
  (\<open>syscall/forkpipe.go\<close>). Deferred calls are made explicit: each function that opens a scope
  with a \<open>defer\<close> runs the rest of the body and then the deferred call. A loop that repeats while
  a call is interrupted takes fuel.
\<close>

section \<open>C argument vectors\<close>

fun slice_len :: "gostring list \<Rightarrow> nat \<Rightarrow> u32 + nat" where
  "slice_len [] n = Inr n"
| "slice_len (s # ss) n = (if 0 \<in> set s then Inl EINVAL else slice_len ss (n + (length s + 1)))"

text \<open>The second loop: the offset of each string and the packed buffer.\<close>

fun slice_fill :: "gostring list \<Rightarrow> nat \<Rightarrow> gostring \<Rightarrow> nat list \<times> gostring" where
  "slice_fill [] n b = ([], b)"
| "slice_fill (s # ss) n b =
     (let (bb, b') = slice_fill ss (n + (length s + 1)) (take n b @ s @ drop (n + length s) b)
      in (n # bb, b'))"

text \<open>
  A pointer into the buffer is modelled by the bytes from there on; the nil pointer that ends the
  vector is the end of the list.
\<close>

definition SlicePtrFromStrings :: "gostring list \<Rightarrow> u32 + gostring list" where
  "SlicePtrFromStrings ss =
     (case slice_len ss 0 of
        Inl e \<Rightarrow> Inl e
      | Inr n \<Rightarrow> (let (bb, b) = slice_fill ss 0 (replicate n 0) in Inr (map (\<lambda>k. drop k b) bb)))"

section \<open>Descriptors\<close>

abbreviation F_SETFD :: int where "F_SETFD \<equiv> 2"
abbreviation F_GETFL :: int where "F_GETFL \<equiv> 3"
abbreviation F_SETFL :: int where "F_SETFL \<equiv> 4"
abbreviation FD_CLOEXEC :: int where "FD_CLOEXEC \<equiv> 1"
abbreviation O_NONBLOCK :: int where "O_NONBLOCK \<equiv> 0x80"

definition CloseOnExec :: "'w libc \<Rightarrow> int \<Rightarrow> 'w thr \<Rightarrow> 'w thr" where
  "CloseOnExec L fd t = snd (fcntl L fd F_SETFD FD_CLOEXEC t)"

definition SetNonblock :: "'w libc \<Rightarrow> int \<Rightarrow> bool \<Rightarrow> 'w thr \<Rightarrow> u32 option \<times> 'w thr" where
  "SetNonblock L fd nonblocking t =
     (let ((flag, err), t1) = fcntl L fd F_GETFL 0 t
      in if err \<noteq> None then (err, t1)
         else if (flag AND O_NONBLOCK \<noteq> 0) = nonblocking then (None, t1)
         else (let flag' = (if nonblocking then flag OR O_NONBLOCK else flag AND NOT O_NONBLOCK);
                   ((v, err'), t2) = fcntl L fd F_SETFL flag' t1
               in (err', t2)))"

section \<open>Attributes\<close>

record SysProcAttr =
  sys_Chroot :: gostring
  sys_Credential :: "u32 option"
  sys_Setsid :: bool
  sys_Setpgid :: bool
  sys_Setctty :: bool
  sys_Noctty :: bool
  sys_Ctty :: int
  sys_Foreground :: bool
  sys_Pgid :: int

record ProcAttr =
  pa_Dir :: gostring
  pa_Env :: "gostring list"
  pa_Files :: "uintptr list"
  pa_Sys :: "SysProcAttr option"

definition zeroSysProcAttr :: SysProcAttr where
  "zeroSysProcAttr = \<lparr>sys_Chroot = [], sys_Credential = None, sys_Setsid = False, sys_Setpgid = False,
     sys_Setctty = False, sys_Noctty = False, sys_Ctty = 0, sys_Foreground = False, sys_Pgid = 0\<rparr>"

definition zeroProcAttr :: ProcAttr where
  "zeroProcAttr = \<lparr>pa_Dir = [], pa_Env = [], pa_Files = [], pa_Sys = None\<rparr>"

section \<open>posix_spawn\<close>

definition out_handle :: "carg \<Rightarrow> u32 \<Rightarrow> u32" where
  "out_handle a old = (case a of AHandle h \<Rightarrow> h | _ \<Rightarrow> old)"

text \<open>The loop over \<open>attr.Files\<close> from index \<open>i\<close> on.\<close>

fun spawn_dups :: "'w libc \<Rightarrow> uintptr list \<Rightarrow> nat \<Rightarrow> u32 \<Rightarrow> 'w thr \<Rightarrow> (u32 \<times> u32) \<times> 'w thr" where
  "spawn_dups L [] i fa t = ((0, fa), t)"
| "spawn_dups L (f # fs) i fa t =
     (let ((r1, r2, e, as), t') = sysvicall6 L ''libc_posix_spawn_file_actions_adddup2'' 3
            [AHandle fa, AWord f, AWord (of_nat i)] t;
          fa' = out_handle (argat as 0) fa
      in if e \<noteq> 0 then ((e, fa'), t') else spawn_dups L fs (i + 1) fa' t')"

definition spawn_pgroup :: "'w libc \<Rightarrow> SysProcAttr \<Rightarrow> u32 \<Rightarrow> 'w thr \<Rightarrow> u32 \<times> 'w thr" where
  "spawn_pgroup L sys sa t =
     (if sys_Setpgid sys
      then (let ((r1, r2, e, as), t1) = sysvicall6 L ''libc_posix_spawnattr_setflags'' 2 [AHandle sa, AWord 1] t;
                sa1 = out_handle (argat as 0) sa;
                ((r1', r2', e', as'), t2) =
                  sysvicall6 L ''libc_posix_spawnattr_setpgroup'' 2 [AHandle sa1, W (sys_Pgid sys)] t1
            in (out_handle (argat as' 0) sa1, t2))
      else (sa, t))"

definition spawn_call ::
  "'w libc \<Rightarrow> gostring \<Rightarrow> gostring list \<Rightarrow> gostring list \<Rightarrow> u32 \<Rightarrow> u32 \<Rightarrow> 'w thr
     \<Rightarrow> (int \<times> u32) \<times> (u32 \<times> u32) \<times> 'w thr" where
  "spawn_call L argv0 argv envv fa sa t =
     (let ((r, r2, e, as), t') = sysvicall6 L ''libc_posix_spawn'' 6
            [AI32s [0], ACStr argv0, AHandle fa, AHandle sa, AStrs argv, AStrs envv] t;
          childpid = out_i32s (argat as 0) [0] ! 0;
          h = (out_handle (argat as 2) fa, out_handle (argat as 3) sa)
      in if r \<noteq> 0 then ((0, r), h, t') else ((childpid, 0), h, t'))"

text \<open>
  The working directory is read, changed for the spawn, and restored by the deferred \<open>chdir\<close> if
  reading it succeeded; the restoring call also runs when the change fails.
\<close>

definition spawn_in_dir ::
  "'w libc \<Rightarrow> gostring \<Rightarrow> gostring list \<Rightarrow> gostring list \<Rightarrow> gostring option \<Rightarrow> u32 \<Rightarrow> u32 \<Rightarrow> 'w thr
     \<Rightarrow> (int \<times> u32) \<times> (u32 \<times> u32) \<times> 'w thr" where
  "spawn_in_dir L argv0 argv envv dir fa sa t =
     (case dir of
        None \<Rightarrow> spawn_call L argv0 argv envv fa sa t
      | Some d \<Rightarrow>
          (let wd0 = replicate 4096 0;
               ((r, r2, e, as), t1) = sysvicall6 L ''libc_getcwd'' 2 [ABuf wd0, W (int (length wd0))] t;
               wd = out_buf (argat as 0) wd0;
               ((r1', r2', e', as'), t2) = sysvicall6 L ''libc_chdir'' 1 [ACStr d] t1;
               (res, h, t3) = (if e' \<noteq> 0 then ((0, e'), (fa, sa), t2)
                               else spawn_call L argv0 argv envv fa sa t2)
           in if r \<noteq> 0 then (res, h, snd (sysvicall6 L ''libc_chdir'' 1 [ACStr wd] t3))
              else (res, h, t3)))"

definition spawn_with_attr ::
  "'w libc \<Rightarrow> gostring \<Rightarrow> gostring list \<Rightarrow> gostring list \<Rightarrow> gostring option \<Rightarrow> uintptr list \<Rightarrow> SysProcAttr
     \<Rightarrow> u32 \<Rightarrow> 'w thr \<Rightarrow> (int \<times> u32) \<times> u32 \<times> 'w thr" where
  "spawn_with_attr L argv0 argv envv dir files sys fa t =
     (let ((r1, r2, e, as), t1) = sysvicall6 L ''libc_posix_spawnattr_init'' 1 [AHandle 0] t;
          sa = out_handle (argat as 0) 0
      in if e \<noteq> 0 then ((0, e), fa, t1)
         else (let ((e', fa'), t2) = spawn_dups L files 0 fa t1;
                   (res, (fa'', sa''), t3) =
                     (if e' \<noteq> 0 then ((0, e'), (fa', sa), t2)
                      else (let (sa', t3) = spawn_pgroup L sys sa t2
                            in spawn_in_dir L argv0 argv envv dir fa' sa' t3))
               in (res, fa'', snd (sysvicall6 L ''libc_posix_spawnattr_destroy'' 1 [AHandle sa''] t3))))"

definition forkAndExecInChild ::
  "'w libc \<Rightarrow> gostring \<Rightarrow> gostring list \<Rightarrow> gostring list \<Rightarrow> gostring option \<Rightarrow> gostring option
     \<Rightarrow> uintptr list \<Rightarrow> SysProcAttr \<Rightarrow> int \<Rightarrow> 'w thr \<Rightarrow> (int \<times> u32) \<times> 'w thr" where
  "forkAndExecInChild L argv0 argv envv chroot dir files sys pipe t =
     (if sys_Chroot sys \<noteq> [] \<or> sys_Credential sys \<noteq> None \<or> sys_Setsid sys \<or> sys_Setctty sys \<or> sys_Foreground sys
      then ((0, ENOSYS), t)
      else (let ((r1, r2, e, as), t1) = sysvicall6 L ''libc_posix_spawn_file_actions_init'' 1 [AHandle 0] t;
                fa = out_handle (argat as 0) 0
            in if e \<noteq> 0 then ((0, e), t1)
               else (let (res, fa', t2) = spawn_with_attr L argv0 argv envv dir files sys fa t1
                     in (res, snd (sysvicall6 L ''libc_posix_spawn_file_actions_destroy'' 1 [AHandle fa'] t2)))))"

section \<open>The framework\<close>

text \<open>Errors of \<open>forkExec\<close>: an \<open>Errno\<close>, or one of the two messages.\<close>

datatype exec_error = EErrno u32 | EMsg string

definition forkExecPipe :: "'w libc \<Rightarrow> int list \<Rightarrow> 'w thr \<Rightarrow> (u32 option \<times> int list) \<times> 'w thr" where
  "forkExecPipe L p t =
     (let ((err, p'), t1) = Pipe L p t
      in if err \<noteq> None then ((err, p'), t1)
         else (let ((v, err1), t2) = fcntl L (p' ! 0) F_SETFD FD_CLOEXEC t1
               in if err1 \<noteq> None then ((err1, p'), t2)
                  else (let ((v', err2), t3) = fcntl L (p' ! 1) F_SETFD FD_CLOEXEC t2
                        in ((err2, p'), t3))))"

text \<open>\<open>for { n, err = readlen(...); if err != EINTR { break } }\<close>\<close>

fun read_status :: "nat \<Rightarrow> 'w libc \<Rightarrow> int \<Rightarrow> gostring \<Rightarrow> 'w thr \<Rightarrow> ((int \<times> u32 option \<times> gostring) \<times> 'w thr) option" where
  "read_status 0 L fd b t = None"
| "read_status (Suc fuel) L fd b t =
     (let ((n, err, b'), t') = readlen L fd b (int (length b)) t
      in if err \<noteq> Some EINTR then Some ((n, err, b'), t') else read_status fuel L fd b' t')"

fun reap :: "nat \<Rightarrow> 'w libc \<Rightarrow> int \<Rightarrow> 'w thr \<Rightarrow> 'w thr option" where
  "reap 0 L pid t = None"
| "reap (Suc fuel) L pid t =
     (let ((wpid, err1, ws, ru), t') = Wait4 L pid (Some 0) 0 None t
      in if err1 = Some EINTR then reap fuel L pid t' else Some t')"

text \<open>The part after \<open>releaseForkLock\<close>: read the child's status and reap it if it failed.\<close>

definition fork_status :: "nat \<Rightarrow> 'w libc \<Rightarrow> int \<Rightarrow> int list \<Rightarrow> 'w thr \<Rightarrow> ((exec_error + int) \<times> 'w thr) option" where
  "fork_status fuel L pid p t =
     (let t1 = snd (Close L (p ! 1) t)
      in case read_status fuel L (p ! 0) (le32 0) t1 of
           None \<Rightarrow> None
         | Some ((n, err, b), t2) \<Rightarrow>
             (let t3 = snd (Close L (p ! 0) t2)
              in if err \<noteq> None \<or> n \<noteq> 0
                 then (let err' = (if n = 4 then Some (of_le32 b) else err);
                           err'' = (if err' = None then Some EPIPE else err')
                       in map_option (\<lambda>t4. (Inl (EErrno (the err'')), t4)) (reap fuel L pid t3))
                 else Some (Inr pid, t3)))"

text \<open>
  \<open>forkExec\<close>: the boolean is \<open>ForkLock\<close>. The conversion of the arguments comes first and leaves
  nothing to undo.
\<close>

definition forkExec_args ::
  "gostring \<Rightarrow> gostring list \<Rightarrow> ProcAttr \<Rightarrow> SysProcAttr
     \<Rightarrow> exec_error + (gostring \<times> gostring list \<times> gostring list \<times> gostring option \<times> gostring option)" where
  "forkExec_args argv0 argv attr sys =
     (case BytePtrFromString argv0 of Inl e \<Rightarrow> Inl (EErrno e) | Inr argv0p \<Rightarrow>
      (case SlicePtrFromStrings argv of Inl e \<Rightarrow> Inl (EErrno e) | Inr argvp \<Rightarrow>
       (case SlicePtrFromStrings (pa_Env attr) of Inl e \<Rightarrow> Inl (EErrno e) | Inr envvp \<Rightarrow>
        (case (if sys_Chroot sys \<noteq> [] then map_sum id Some (BytePtrFromString (sys_Chroot sys)) else Inr None) of
           Inl e \<Rightarrow> Inl (EErrno e) | Inr chroot \<Rightarrow>
         (case (if pa_Dir attr \<noteq> [] then map_sum id Some (BytePtrFromString (pa_Dir attr)) else Inr None) of
            Inl e \<Rightarrow> Inl (EErrno e) | Inr dir \<Rightarrow>
          (if sys_Setctty sys \<and> sys_Foreground sys
           then Inl (EMsg ''both Setctty and Foreground set in SysProcAttr'')
           else if sys_Setctty sys \<and> sys_Ctty sys \<ge> int (length (pa_Files attr))
           then Inl (EMsg ''Setctty set but Ctty not valid in child'')
           else Inr (argv0p, argvp, envvp, chroot, dir)))))))"

definition forkExec ::
  "nat \<Rightarrow> 'w libc \<Rightarrow> gostring \<Rightarrow> gostring list \<Rightarrow> ProcAttr option \<Rightarrow> bool \<times> 'w thr
     \<Rightarrow> ((exec_error + int) \<times> bool \<times> 'w thr) option" where
  "forkExec fuel L argv0 argv attr0 st =
     (let attr = (case attr0 of None \<Rightarrow> zeroProcAttr | Some a \<Rightarrow> a);
          sys = (case pa_Sys attr of None \<Rightarrow> zeroSysProcAttr | Some s \<Rightarrow> s);
          (lock, t) = st
      in case forkExec_args argv0 argv attr sys of
           Inl e \<Rightarrow> Some (Inl e, lock, t)
         | Inr (argv0p, argvp, envvp, chroot, dir) \<Rightarrow>
             (let ((err, p), t1) = forkExecPipe L [0, 0] t
              in case err of
                   Some e \<Rightarrow> Some (Inl (EErrno e), False, t1)
                 | None \<Rightarrow>
                     (let ((pid, err1), t2) =
                            forkAndExecInChild L argv0p argvp envvp chroot dir (pa_Files attr) sys (p ! 1) t1
                      in if err1 \<noteq> 0
                         then (let t3 = snd (Close L (p ! 0) t2); t4 = snd (Close L (p ! 1) t3)
                               in Some (Inl (EErrno err1), False, t4))
                         else map_option (\<lambda>(r, t'). (r, False, t')) (fork_status fuel L pid p t2))))"

definition StartProcess ::
  "nat \<Rightarrow> 'w libc \<Rightarrow> gostring \<Rightarrow> gostring list \<Rightarrow> ProcAttr option \<Rightarrow> bool \<times> 'w thr
     \<Rightarrow> ((exec_error + int) \<times> bool \<times> 'w thr) option" where
  "StartProcess fuel L argv0 argv attr st = forkExec fuel L argv0 argv attr st"

section \<open>Resource limits and exec\<close>

abbreviation RLIMIT_NOFILE :: int where "RLIMIT_NOFILE \<equiv> 5"

text \<open>
  \<open>syscall/rlimit.go\<close>: the package initialiser raises the soft limit of descriptors and remembers
  the original; \<open>Setrlimit\<close> on that resource forgets it. The option is \<open>origRlimitNofile\<close>.
\<close>

definition rlimit_init :: "'w libc \<Rightarrow> Rlimit option \<Rightarrow> 'w thr \<Rightarrow> Rlimit option \<times> 'w thr" where
  "rlimit_init L orig t =
     (let ((err, lim), t1) = Getrlimit L RLIMIT_NOFILE \<lparr>rl_Cur = 0, rl_Max = 0\<rparr> t
      in if err = None \<and> rl_Max lim > 0 \<and> rl_Cur lim < rl_Max lim - 1
         then (Some lim, snd (setrlimit L RLIMIT_NOFILE (lim\<lparr>rl_Cur := rl_Max lim - 1\<rparr>) t1))
         else (orig, t1))"

definition Setrlimit :: "'w libc \<Rightarrow> int \<Rightarrow> Rlimit \<Rightarrow> Rlimit option \<Rightarrow> 'w thr \<Rightarrow> u32 option \<times> Rlimit option \<times> 'w thr" where
  "Setrlimit L resource rlim orig t =
     (let orig' = (if resource = RLIMIT_NOFILE then None else orig);
          (e, t') = setrlimit L resource rlim t
      in (e, orig', t'))"

text \<open>
  \<open>Exec\<close>: the saved limit is restored, and the raw system call of the default branch, which QNX
  does not have, answers. The two runtime hooks around it only stop the world's threads.
\<close>

definition Exec ::
  "'w libc \<Rightarrow> Rlimit option \<Rightarrow> gostring \<Rightarrow> gostring list \<Rightarrow> gostring list \<Rightarrow> 'w thr \<Rightarrow> u32 \<times> Rlimit option \<times> 'w thr" where
  "Exec L orig argv0 argv envv t =
     (case BytePtrFromString argv0 of Inl e \<Rightarrow> (e, orig, t) | Inr argv0p \<Rightarrow>
      (case SlicePtrFromStrings argv of Inl e \<Rightarrow> (e, orig, t) | Inr argvp \<Rightarrow>
       (case SlicePtrFromStrings envv of Inl e \<Rightarrow> (e, orig, t) | Inr envvp \<Rightarrow>
        (let (orig', t1) = (case orig of None \<Rightarrow> (orig, t)
                            | Some rlim \<Rightarrow> snd (Setrlimit L RLIMIT_NOFILE rlim orig t));
             (r1, r2, err1) = RawSyscall 0 0 0 0
         in (err1, orig', t1)))))"

section \<open>Argument vectors: lemmas\<close>

lemma slice_len_ok:
  "\<forall>s \<in> set ss. 0 \<notin> set s \<Longrightarrow> slice_len ss n = Inr (n + length (concat (map (\<lambda>s. s @ [0]) ss)))"
  by (induction ss arbitrary: n) auto

lemma slice_len_nul: "\<exists>s \<in> set ss. 0 \<in> set s \<Longrightarrow> slice_len ss n = Inl EINVAL"
  by (induction ss arbitrary: n) auto

text \<open>The buffer after the second loop, and where each string starts in it.\<close>

lemma slice_fill_ok:
  assumes "length pre = n"
  shows "slice_fill ss n (pre @ replicate (length (concat (map (\<lambda>s. s @ [0]) ss))) 0)
     = (map (\<lambda>i. n + length (concat (map (\<lambda>s. s @ [0]) (take i ss)))) [0..<length ss],
        pre @ concat (map (\<lambda>s. s @ [0]) ss))"
  using assms
proof (induction ss arbitrary: n pre)
  case (Cons s ss)
  let ?rest = "length (concat (map (\<lambda>s. s @ [0 :: u8]) ss))"
  have split: "replicate (length (s @ [0]) + ?rest) (0 :: u8) = replicate (length s) 0 @ 0 # replicate ?rest 0"
    by (simp add: replicate_add replicate_app_Cons_same)
  have "take n (pre @ replicate (length (s @ [0]) + ?rest) 0) = pre"
    using Cons.prems by simp
  moreover have "drop (n + length s) (pre @ replicate (length (s @ [0]) + ?rest) 0) = 0 # replicate ?rest 0"
    unfolding split using Cons.prems by simp
  ultimately have step: "slice_fill (s # ss) n (pre @ replicate (length (s @ [0]) + ?rest) 0)
      = (let (bb, b') = slice_fill ss (n + (length s + 1)) ((pre @ s @ [0]) @ replicate ?rest 0) in (n # bb, b'))"
    by simp
  have idx: "[0..<length (s # ss)] = 0 # map Suc [0..<length ss]"
    by (simp add: map_Suc_upt upt_conv_Cons del: upt_Suc)
  have "length (pre @ s @ [0]) = n + (length s + 1)" using Cons.prems by simp
  from Cons.IH [OF this] show ?case
    unfolding idx using step by (simp add: o_def add.assoc)
qed simp

lemma concat_suffix:
  "i < length ss \<Longrightarrow> drop (length (concat (map f (take i ss)))) (concat (map f ss)) = f (ss ! i) @ concat (map f (drop (Suc i) ss))"
proof -
  assume i: "i < length ss"
  then have "ss = take i ss @ ss ! i # drop (Suc i) ss" by (rule id_take_nth_drop)
  then have "concat (map f ss) = concat (map f (take i ss)) @ f (ss ! i) @ concat (map f (drop (Suc i) ss))"
    by (metis concat.simps(2) concat_append list.simps(9) map_append)
  then show ?thesis by simp
qed

lemma SlicePtr_ok:
  assumes "\<forall>s \<in> set ss. 0 \<notin> set s"
  shows "\<exists>ptrs. SlicePtrFromStrings ss = Inr ptrs \<and> map (takeWhile (\<lambda>c. c \<noteq> 0)) ptrs = ss"
proof -
  let ?f = "\<lambda>s. s @ [0 :: u8]"
  let ?ptrs = "map (\<lambda>i. drop (length (concat (map ?f (take i ss)))) (concat (map ?f ss))) [0..<length ss]"
  have "SlicePtrFromStrings ss = Inr ?ptrs"
    using slice_len_ok [OF assms, of 0] slice_fill_ok [of "[]" 0 ss]
    by (simp add: SlicePtrFromStrings_def o_def)
  moreover have "map (takeWhile (\<lambda>c. c \<noteq> 0)) ?ptrs = ss"
  proof (rule nth_equalityI)
    fix i assume "i < length (map (takeWhile (\<lambda>c. c \<noteq> 0)) ?ptrs)"
    then have i: "i < length ss" by simp
    with assms have "0 \<notin> set (ss ! i)" by simp
    from takeWhile_no_zero [OF this] i show "map (takeWhile (\<lambda>c. c \<noteq> 0)) ?ptrs ! i = ss ! i"
      by (simp add: concat_suffix)
  qed simp
  ultimately show ?thesis by blast
qed

section \<open>Descriptors of the child\<close>

text \<open>
  What \<open>posix_spawn\<close> does with the recorded actions: it performs the \<open>dup2\<close> operations in the
  order they were added, on the child's copy of the parent's table.
\<close>

definition dup_actions :: "(libcFunc \<times> carg list) list \<Rightarrow> (u32 \<times> u32) list" where
  "dup_actions calls = concat (map (\<lambda>c. case c of
      (fn, [AHandle h, AWord f, AWord i]) \<Rightarrow>
        if fn = ''libc_posix_spawn_file_actions_adddup2'' then [(f, i)] else []
    | _ \<Rightarrow> []) calls)"

definition child_fds :: "(u32 \<times> u32) list \<Rightarrow> (u32 \<Rightarrow> 'o option) \<Rightarrow> u32 \<Rightarrow> 'o option" where
  "child_fds acts parent = fold (\<lambda>(f, i) m. m(i := m f)) acts parent"

text \<open>No source descriptor has been overwritten by an earlier action.\<close>

definition no_clobber :: "uintptr list \<Rightarrow> bool" where
  "no_clobber files \<longleftrightarrow> (\<forall>i < length files. \<forall>j < i. files ! i = of_nat j \<longrightarrow> files ! j = of_nat j)"

definition wiring :: "uintptr list \<Rightarrow> nat \<Rightarrow> (u32 \<times> u32) list" where
  "wiring files k = map (\<lambda>i. (files ! i, of_nat i)) [0..<k]"

lemma child_fds_prefix:
  assumes "no_clobber files" and "k \<le> length files" and "length files < 2 ^ 32"
  shows "child_fds (wiring files k) parent x
     = (if unat x < k then parent (files ! unat x) else parent x)"
  using assms(2)
proof (induction k arbitrary: x)
  case 0
  then show ?case by (simp add: child_fds_def wiring_def)
next
  case (Suc k)
  let ?m = "child_fds (wiring files k) parent"
  have uk: "unat (of_nat k :: u32) = k"
    using Suc.prems assms(3) by (simp add: unat_of_nat take_bit_nat_eq_self)
  have m: "child_fds (wiring files (Suc k)) parent = ?m(of_nat k := ?m (files ! k))"
    by (simp add: child_fds_def wiring_def)
  have src: "?m (files ! k) = parent (files ! k)"
  proof (cases "unat (files ! k) < k")
    case True
    have "files ! k = of_nat (unat (files ! k))" by simp
    with True assms(1) Suc.prems have "files ! unat (files ! k) = files ! k"
      unfolding no_clobber_def by (metis Suc_le_eq)
    with True Suc show ?thesis by simp
  qed (use Suc in simp)
  have "x = of_nat (unat x)" by simp
  with uk have "x = of_nat k \<longleftrightarrow> unat x = k" by metis
  with m src Suc uk show ?case by (auto simp: less_Suc_eq)
qed

lemma dup_actions_append [simp]: "dup_actions (xs @ ys) = dup_actions xs @ dup_actions ys"
  by (simp add: dup_actions_def)

section \<open>The calls of a spawn\<close>

abbreviation fa_init :: libcFunc where "fa_init \<equiv> ''libc_posix_spawn_file_actions_init''"
abbreviation fa_destroy :: libcFunc where "fa_destroy \<equiv> ''libc_posix_spawn_file_actions_destroy''"
abbreviation sa_init :: libcFunc where "sa_init \<equiv> ''libc_posix_spawnattr_init''"
abbreviation sa_destroy :: libcFunc where "sa_destroy \<equiv> ''libc_posix_spawnattr_destroy''"

abbreviation spawn_fn :: libcFunc where "spawn_fn \<equiv> ''libc_posix_spawn''"

definition spawn_body_fns :: "libcFunc set" where
  "spawn_body_fns = {''libc_posix_spawn_file_actions_adddup2'', ''libc_posix_spawnattr_setflags'',
     ''libc_posix_spawnattr_setpgroup'', ''libc_getcwd'', ''libc_chdir'', ''libc_posix_spawn''}"

lemma sysvicall6_trace:
  "sysvicall6 L fn n args t = (r, t') \<Longrightarrow> t_calls t' = t_calls t @ [(fn, take (min n 6) args)]"
  using syscall_sysvicall6_calls [of L fn n args t] by simp

text \<open>
  The opaque objects: every function other than the two initialisers leaves the words that hold them as they are.
\<close>

definition keeps_handles :: "'w libc \<Rightarrow> bool" where
  "keeps_handles L \<longleftrightarrow> (\<forall>fn as e w k h. fn \<notin> {fa_init, sa_init} \<longrightarrow> argat as k = AHandle h
     \<longrightarrow> out_handle (argat (c_args (L fn as e w)) k) h = h)"

lemma handle_kept:
  assumes "keeps_handles L" and "sysvicall6 L fn n args t = ((r1, r2, e, as), t')"
    and "fn \<notin> {fa_init, sa_init}" and "argat (take (min n 6) args) k = AHandle h"
  shows "out_handle (argat as k) h = h"
proof -
  from assms(2) obtain e0 where "as = c_args (L fn (take (min n 6) args) e0 (t_world t))"
    by (auto simp: libcall_defs)
  with assms show ?thesis by (simp add: keeps_handles_def)
qed

text \<open>Calls of the body that come before \<open>posix_spawn\<close>, and those of them that record no action.\<close>

definition before_spawn :: "(libcFunc \<times> carg list) list \<Rightarrow> bool" where
  "before_spawn cs \<longleftrightarrow> fst ` set cs \<subseteq> spawn_body_fns - {spawn_fn}"

definition quiet :: "(libcFunc \<times> carg list) list \<Rightarrow> bool" where
  "quiet cs \<longleftrightarrow> before_spawn cs \<and> dup_actions cs = []"

lemma before_spawn_simps [simp]:
  "before_spawn []" "before_spawn (c # cs) \<longleftrightarrow> fst c \<in> spawn_body_fns - {spawn_fn} \<and> before_spawn cs"
  "before_spawn (xs @ ys) \<longleftrightarrow> before_spawn xs \<and> before_spawn ys"
  by (auto simp: before_spawn_def)

lemma quiet_simps [simp]: "quiet []" "quiet (xs @ ys) \<longleftrightarrow> quiet xs \<and> quiet ys"
  by (auto simp: quiet_def dup_actions_def)

lemma quiet_chdir [simp]: "quiet [(''libc_chdir'', [ACStr d])]" and quiet_getcwd [simp]: "quiet [(''libc_getcwd'', [ABuf b, x])]"
  by (simp_all add: quiet_def spawn_body_fns_def dup_actions_def)

lemma spawn_dups_calls:
  "spawn_dups L fs i fa t = ((e, fa'), t') \<Longrightarrow>
     (\<exists>cs. t_calls t' = t_calls t @ cs \<and> before_spawn cs
       \<and> (e = 0 \<longrightarrow> dup_actions cs = map (\<lambda>k. (fs ! k, of_nat (i + k))) [0..<length fs])) \<and> (keeps_handles L \<longrightarrow> fa' = fa)"
proof (induction fs arbitrary: i fa t)
  case Nil
  then show ?case by (simp add: dup_actions_def)
next
  case (Cons f fs)
  obtain r1 r2 e1 as t1 where r: "sysvicall6 L ''libc_posix_spawn_file_actions_adddup2'' 3
      [AHandle fa, AWord f, AWord (of_nat i)] t = ((r1, r2, e1, as), t1)" by (metis prod.collapse)
  let ?c = "(''libc_posix_spawn_file_actions_adddup2'', [AHandle fa, AWord f, AWord (of_nat i)])"
  from sysvicall6_trace [OF r] have t1: "t_calls t1 = t_calls t @ [?c]" by simp
  have k: "keeps_handles L \<Longrightarrow> out_handle (argat as 0) fa = fa"
    by (rule handle_kept [OF _ r]) (simp_all add: argat_def)
  show ?case
  proof (cases "e1 = 0")
    case False
    with Cons.prems r t1 k show ?thesis by (auto simp: spawn_body_fns_def)
  next
    case True
    with Cons.prems r have n: "spawn_dups L fs (i + 1) (out_handle (argat as 0) fa) t1 = ((e, fa'), t')" by simp
    from Cons.IH [OF n] obtain cs where cs: "t_calls t' = t_calls t1 @ cs" "before_spawn cs"
      "e = 0 \<longrightarrow> dup_actions cs = map (\<lambda>k. (fs ! k, of_nat (i + 1 + k))) [0..<length fs]" by blast
    have idx: "[0..<length (f # fs)] = 0 # map Suc [0..<length fs]"
      by (simp add: map_Suc_upt upt_conv_Cons del: upt_Suc)
    have "dup_actions [?c] = [(f, of_nat i)]" by (simp add: dup_actions_def)
    then have "e = 0 \<longrightarrow> dup_actions (?c # cs) = map (\<lambda>k. ((f # fs) ! k, of_nat (i + k))) [0..<length (f # fs)]"
      unfolding idx using cs(3) dup_actions_append [of "[?c]" cs] by (simp add: o_def)
    moreover have "before_spawn (?c # cs)" using cs(2) by (simp add: spawn_body_fns_def)
    ultimately show ?thesis using t1 cs(1) k Cons.IH [OF n] by (intro conjI exI [of _ "?c # cs"]) simp_all
  qed
qed

lemma spawn_pgroup_calls:
  assumes "spawn_pgroup L sys sa t = (sa', t')"
  shows "(\<exists>cs. t_calls t' = t_calls t @ cs \<and> quiet cs) \<and> (keeps_handles L \<longrightarrow> sa' = sa)"
proof (cases "sys_Setpgid sys")
  case False
  with assms show ?thesis by (simp add: spawn_pgroup_def)
next
  case True
  obtain r1 r2 e as t1 where a: "sysvicall6 L ''libc_posix_spawnattr_setflags'' 2 [AHandle sa, AWord 1] t = ((r1, r2, e, as), t1)"
    by (metis prod.collapse)
  define sa1 where "sa1 = out_handle (argat as 0) sa"
  obtain q1 q2 f bs t2 where b: "sysvicall6 L ''libc_posix_spawnattr_setpgroup'' 2 [AHandle sa1, W (sys_Pgid sys)] t1 = ((q1, q2, f, bs), t2)"
    by (metis prod.collapse)
  have r: "sa' = out_handle (argat bs 0) sa1" "t' = t2"
    using assms True a b by (simp_all add: spawn_pgroup_def sa1_def)
  have "t_calls t' = t_calls t @ [(''libc_posix_spawnattr_setflags'', [AHandle sa, AWord 1]),
      (''libc_posix_spawnattr_setpgroup'', [AHandle sa1, W (sys_Pgid sys)])]"
    using sysvicall6_trace [OF a] sysvicall6_trace [OF b] r by simp
  moreover have "keeps_handles L \<Longrightarrow> sa' = sa"
    using handle_kept [OF _ a, of 0 sa] handle_kept [OF _ b, of 0 sa1] r by (simp add: sa1_def argat_def)
  ultimately show ?thesis by (auto simp: quiet_def spawn_body_fns_def dup_actions_def)
qed

definition spawn_entry :: "gostring \<Rightarrow> gostring list \<Rightarrow> gostring list \<Rightarrow> u32 \<Rightarrow> u32 \<Rightarrow> libcFunc \<times> carg list" where
  "spawn_entry argv0 argv envv fa sa = (spawn_fn, [AI32s [0], ACStr argv0, AHandle fa, AHandle sa, AStrs argv, AStrs envv])"

lemma spawn_call_calls:
  assumes "spawn_call L argv0 argv envv fa sa t = (res, h, t')"
  shows "t_calls t' = t_calls t @ [spawn_entry argv0 argv envv fa sa] \<and> (keeps_handles L \<longrightarrow> h = (fa, sa))"
proof -
  obtain r1 r2 e as t1 where a: "sysvicall6 L spawn_fn 6 [AI32s [0], ACStr argv0, AHandle fa, AHandle sa, AStrs argv, AStrs envv] t
      = ((r1, r2, e, as), t1)" by (metis prod.collapse)
  have "t' = t1" "h = (out_handle (argat as 2) fa, out_handle (argat as 3) sa)"
    using assms a by (auto simp: spawn_call_def Let_def split: if_splits)
  moreover have "keeps_handles L \<Longrightarrow> out_handle (argat as 2) fa = fa" "keeps_handles L \<Longrightarrow> out_handle (argat as 3) sa = sa"
    using handle_kept [OF _ a, of 2 fa] handle_kept [OF _ a, of 3 sa] by (simp_all add: argat_def)
  ultimately show ?thesis using sysvicall6_trace [OF a] by (simp add: spawn_entry_def)
qed

lemma spawn_in_dir_calls:
  assumes "spawn_in_dir L argv0 argv envv dir fa sa t = (res, h, t')"
  shows "(\<exists>pre sp post. t_calls t' = t_calls t @ pre @ sp @ post \<and> quiet pre \<and> quiet post
      \<and> (sp = [spawn_entry argv0 argv envv fa sa] \<or> sp = [] \<and> snd res \<noteq> 0)) \<and> (keeps_handles L \<longrightarrow> h = (fa, sa))"
proof (cases dir)
  case None
  with assms have "spawn_call L argv0 argv envv fa sa t = (res, h, t')" by (simp add: spawn_in_dir_def)
  from spawn_call_calls [OF this] show ?thesis
    by (intro conjI exI [of _ "[]"] exI [of _ "[spawn_entry argv0 argv envv fa sa]"]) simp_all
next
  case (Some d)
  define wd0 where "wd0 = replicate 4096 (0 :: u8)"
  obtain r r2 e as t1 where g: "sysvicall6 L ''libc_getcwd'' 2 [ABuf wd0, W (int (length wd0))] t = ((r, r2, e, as), t1)"
    by (metis prod.collapse)
  obtain q1 q2 e' as' t2 where c: "sysvicall6 L ''libc_chdir'' 1 [ACStr d] t1 = ((q1, q2, e', as'), t2)"
    by (metis prod.collapse)
  obtain res3 h3 t3 where s: "(if e' \<noteq> 0 then ((0, e'), (fa, sa), t2) else spawn_call L argv0 argv envv fa sa t2)
      = (res3, h3, t3)" by (metis prod.collapse)
  define sp where "sp = (if e' = 0 then [spawn_entry argv0 argv envv fa sa] else [])"
  have sp: "t_calls t3 = t_calls t2 @ sp" "keeps_handles L \<Longrightarrow> h3 = (fa, sa)" "e' \<noteq> 0 \<Longrightarrow> snd res3 \<noteq> 0"
    using s spawn_call_calls [of L argv0 argv envv fa sa t2 res3 h3 t3] by (auto simp: sp_def split: if_splits)
  let ?pre = "[(''libc_getcwd'', [ABuf wd0, W (int (length wd0))])] @ [(''libc_chdir'', [ACStr d])]"
  let ?post = "if r \<noteq> 0 then [(''libc_chdir'', [ACStr (out_buf (argat as 0) wd0)])] else []"
  have t3: "t_calls t3 = t_calls t @ ?pre @ sp" using sysvicall6_trace [OF g] sysvicall6_trace [OF c] sp(1) by simp
  have t': "t' = (if r \<noteq> 0 then snd (sysvicall6 L ''libc_chdir'' 1 [ACStr (out_buf (argat as 0) wd0)] t3) else t3)"
    and h: "res = res3" "h = h3"
    using assms Some g c s by (auto simp: spawn_in_dir_def Let_def wd0_def [symmetric] split: if_splits)
  have "t_calls t' = t_calls t @ ?pre @ sp @ ?post" using t3 t' by (simp add: syscall_sysvicall6_calls)
  moreover have "quiet ?pre" "quiet ?post" by (simp_all del: append.simps)
  ultimately show ?thesis using sp h
    by (intro conjI exI [of _ ?pre] exI [of _ sp] exI [of _ ?post]) (simp_all add: sp_def)
qed

text \<open>
  The body between the two initialisers and the two destructors: only body functions are called, and a body without error
  records the whole wiring and then calls \<open>posix_spawn\<close>.
\<close>

definition spawn_body :: "gostring \<Rightarrow> gostring list \<Rightarrow> gostring list \<Rightarrow> uintptr list \<Rightarrow> bool \<Rightarrow> (u32 \<Rightarrow> u32 \<Rightarrow> bool)
     \<Rightarrow> (libcFunc \<times> carg list) list \<Rightarrow> bool" where
  "spawn_body argv0 argv envv files ok H mid \<longleftrightarrow> fst ` set mid \<subseteq> spawn_body_fns \<and> (ok \<longrightarrow> (\<exists>pre fa sa post.
     mid = pre @ spawn_entry argv0 argv envv fa sa # post \<and> before_spawn pre \<and> dup_actions pre = wiring files (length files)
     \<and> quiet post \<and> H fa sa))"

definition init_handle :: "'w libc \<Rightarrow> libcFunc \<Rightarrow> 'w thr \<Rightarrow> u32 \<times> u32 \<times> 'w thr" where
  "init_handle L fn t = (case sysvicall6 L fn 1 [AHandle 0] t of ((r1, r2, e, as), t1) \<Rightarrow> (e, out_handle (argat as 0) 0, t1))"

lemma spawn_with_attr_calls:
  assumes run: "spawn_with_attr L argv0 argv envv dir files sys fa t = (res, fa', t')"
    and init: "init_handle L sa_init t = (e, sa, t1)"
  shows "if e \<noteq> 0 then res = (0, e) \<and> fa' = fa \<and> t' = t1
    else (\<exists>mid h. t_calls t' = t_calls t @ (sa_init, [AHandle 0]) # mid @ [(sa_destroy, [AHandle h])]
       \<and> spawn_body argv0 argv envv files (snd res = 0) (\<lambda>f s. keeps_handles L \<longrightarrow> f = fa \<and> s = sa) mid
       \<and> (keeps_handles L \<longrightarrow> fa' = fa \<and> h = sa))"
proof (cases "e = 0")
  case False
  then show ?thesis using run init by (auto simp: spawn_with_attr_def init_handle_def Let_def split: prod.splits)
next
  case True
  obtain r1 r2 as where i: "sysvicall6 L sa_init 1 [AHandle 0] t = ((r1, r2, e, as), t1)" "sa = out_handle (argat as 0) 0"
    using init by (auto simp: init_handle_def split: prod.splits)
  obtain e' f2 t2 where d: "spawn_dups L files 0 fa t1 = ((e', f2), t2)" by (metis prod.collapse)
  from spawn_dups_calls [OF d] obtain cs where cs: "t_calls t2 = t_calls t1 @ cs" "before_spawn cs"
    "e' = 0 \<longrightarrow> dup_actions cs = wiring files (length files)" "keeps_handles L \<longrightarrow> f2 = fa" by (auto simp: wiring_def)
  obtain res3 f3 s3 t3 where b: "(if e' \<noteq> 0 then ((0, e'), (f2, sa), t2)
      else let (sa', t3) = spawn_pgroup L sys sa t2 in spawn_in_dir L argv0 argv envv dir f2 sa' t3)
      = (res3, (f3, s3), t3)" by (metis prod.collapse)
  have r: "res = res3" "fa' = f3" and t': "t' = snd (sysvicall6 L sa_destroy 1 [AHandle s3] t3)"
    using run i True d b by (auto simp: spawn_with_attr_def Let_def)
  have bf: "before_spawn xs \<Longrightarrow> fst ` set xs \<subseteq> spawn_body_fns" for xs by (auto simp: before_spawn_def)
  have se: "fst (spawn_entry argv0 argv envv x y) \<in> spawn_body_fns" for x y by (simp add: spawn_entry_def spawn_body_fns_def)
  have "\<exists>mid. t_calls t3 = t_calls t1 @ mid \<and> (keeps_handles L \<longrightarrow> f3 = fa \<and> s3 = sa)
      \<and> spawn_body argv0 argv envv files (snd res3 = 0) (\<lambda>f s. keeps_handles L \<longrightarrow> f = fa \<and> s = sa) mid"
  proof (cases "e' = 0")
    case False
    with b cs bf show ?thesis by (auto simp: spawn_body_def)
  next
    case True
    obtain sa' t4 where p: "spawn_pgroup L sys sa t2 = (sa', t4)" by (metis prod.collapse)
    obtain ps where ps: "t_calls t4 = t_calls t2 @ ps" "quiet ps" "keeps_handles L \<longrightarrow> sa' = sa"
      using spawn_pgroup_calls [OF p] by blast
    from True b p have "spawn_in_dir L argv0 argv envv dir f2 sa' t4 = (res3, (f3, s3), t3)" by simp
    from spawn_in_dir_calls [OF this] obtain pre sp post where q: "t_calls t3 = t_calls t4 @ pre @ sp @ post" "quiet pre" "quiet post"
      "sp = [spawn_entry argv0 argv envv f2 sa'] \<or> sp = [] \<and> snd res3 \<noteq> 0" "keeps_handles L \<longrightarrow> f3 = f2 \<and> s3 = sa'" by auto
    let ?mid = "(cs @ ps @ pre) @ sp @ post"
    have c: "t_calls t3 = t_calls t1 @ ?mid" using q(1) ps(1) cs(1) by simp
    have pre: "before_spawn (cs @ ps @ pre)" "dup_actions (cs @ ps @ pre) = wiring files (length files)"
      using True cs ps(2) q(2) by (simp_all add: quiet_def)
    have "fst ` set ?mid \<subseteq> spawn_body_fns"
      using bf [OF pre(1)] q(3,4) bf [of post] se unfolding set_append image_Un quiet_def by auto
    moreover have "snd res3 = 0 \<longrightarrow> ?mid = (cs @ ps @ pre) @ spawn_entry argv0 argv envv f2 sa' # post" using q(4) by auto
    ultimately have "spawn_body argv0 argv envv files (snd res3 = 0) (\<lambda>f s. keeps_handles L \<longrightarrow> f = fa \<and> s = sa) ?mid"
      unfolding spawn_body_def using pre q(3) ps(3) cs(4) by blast
    with c q(5) ps(3) cs(4) show ?thesis by blast
  qed
  then obtain mid where m: "t_calls t3 = t_calls t1 @ mid" "keeps_handles L \<longrightarrow> f3 = fa \<and> s3 = sa"
    "spawn_body argv0 argv envv files (snd res3 = 0) (\<lambda>f s. keeps_handles L \<longrightarrow> f = fa \<and> s = sa) mid" by blast
  have "t_calls t' = t_calls t @ (sa_init, [AHandle 0]) # mid @ [(sa_destroy, [AHandle s3])]"
    using t' m(1) sysvicall6_trace [OF i(1)] by (simp add: syscall_sysvicall6_calls)
  with m r True show ?thesis by auto
qed

definition spawn_unsupp :: "SysProcAttr \<Rightarrow> bool" where
  "spawn_unsupp sys \<longleftrightarrow>
     sys_Chroot sys \<noteq> [] \<or> sys_Credential sys \<noteq> None \<or> sys_Setsid sys \<or> sys_Setctty sys \<or> sys_Foreground sys"

lemma forkAndExec_calls:
  assumes run: "forkAndExecInChild L argv0 argv envv chroot dir files sys pipe t = ((pid, err), t')"
    and sup: "\<not> spawn_unsupp sys"
    and fi: "init_handle L fa_init t = (e, fa, t1)" and si: "init_handle L sa_init t1 = (e2, sa, t2)"
  shows "if e \<noteq> 0 then err = e \<and> t_calls t' = t_calls t @ [(fa_init, [AHandle 0])]
    else if e2 \<noteq> 0 then err = e2 \<and> t_calls t' = t_calls t @ [(fa_init, [AHandle 0]), (sa_init, [AHandle 0]), (fa_destroy, [AHandle fa])]
    else (\<exists>mid h h'. t_calls t' = t_calls t @ [(fa_init, [AHandle 0]), (sa_init, [AHandle 0])] @ mid
         @ [(sa_destroy, [AHandle h]), (fa_destroy, [AHandle h'])]
       \<and> spawn_body argv0 argv envv files (err = 0) (\<lambda>f s. keeps_handles L \<longrightarrow> f = fa \<and> s = sa) mid
       \<and> (keeps_handles L \<longrightarrow> h = sa \<and> h' = fa))"
proof -
  obtain r1 r2 as where i: "sysvicall6 L fa_init 1 [AHandle 0] t = ((r1, r2, e, as), t1)" "fa = out_handle (argat as 0) 0"
    using fi by (auto simp: init_handle_def split: prod.splits)
  have c2: "t_calls t2 = t_calls t1 @ [(sa_init, [AHandle 0])]"
    using si by (auto simp: init_handle_def split: prod.splits dest: sysvicall6_trace)
  obtain res fa' t3 where s: "spawn_with_attr L argv0 argv envv dir files sys fa t1 = (res, fa', t3)" by (metis prod.collapse)
  have c1: "t_calls t1 = t_calls t @ [(fa_init, [AHandle 0])]" using sysvicall6_trace [OF i(1)] by simp
  have r: "if e \<noteq> 0 then err = e \<and> t' = t1 else res = (pid, err) \<and> t' = snd (sysvicall6 L fa_destroy 1 [AHandle fa'] t3)"
    using run i s sup by (auto simp: forkAndExecInChild_def Let_def spawn_unsupp_def split: if_splits)
  show ?thesis
  proof (cases "e = 0 \<and> e2 = 0")
    case False
    with r spawn_with_attr_calls [OF s si] c1 c2 show ?thesis by (auto simp: syscall_sysvicall6_calls)
  next
    case True
    from spawn_with_attr_calls [OF s si] True obtain mid h where
      m: "t_calls t3 = t_calls t1 @ (sa_init, [AHandle 0]) # mid @ [(sa_destroy, [AHandle h])]"
      "spawn_body argv0 argv envv files (snd res = 0) (\<lambda>f s. keeps_handles L \<longrightarrow> f = fa \<and> s = sa) mid"
      "keeps_handles L \<longrightarrow> fa' = fa \<and> h = sa" by auto
    have "t_calls t' = t_calls t @ [(fa_init, [AHandle 0]), (sa_init, [AHandle 0])] @ mid
         @ [(sa_destroy, [AHandle h]), (fa_destroy, [AHandle fa'])]"
      using r True m(1) c1 by (simp add: syscall_sysvicall6_calls)
    with m r True show ?thesis by auto
  qed
qed

text \<open>The actions that \<open>posix_spawn\<close> performs: those recorded before it is called.\<close>

definition spawned_with :: "(libcFunc \<times> carg list) list \<Rightarrow> (u32 \<times> u32) list" where
  "spawned_with calls = dup_actions (takeWhile (\<lambda>c. fst c \<noteq> spawn_fn) calls)"

lemma forkAndExec_spawned:
  assumes run: "forkAndExecInChild L argv0 argv envv chroot dir files sys pipe t = ((pid, 0), t')"
  shows "\<exists>new. t_calls t' = t_calls t @ new \<and> spawn_fn \<in> fst ` set new \<and> spawned_with new = wiring files (length files)"
proof -
  have sup: "\<not> spawn_unsupp sys" using run by (auto simp: forkAndExecInChild_def spawn_unsupp_def split: if_splits)
  obtain e fa t1 where fi: "init_handle L fa_init t = (e, fa, t1)" by (metis prod.collapse)
  obtain e2 sa t2 where si: "init_handle L sa_init t1 = (e2, sa, t2)" by (metis prod.collapse)
  from forkAndExec_calls [OF run sup fi si] have z: "e = 0" "e2 = 0" by (auto split: if_splits)
  with forkAndExec_calls [OF run sup fi si] obtain mid h h' where
    c: "t_calls t' = t_calls t @ [(fa_init, [AHandle 0]), (sa_init, [AHandle 0])] @ mid
         @ [(sa_destroy, [AHandle h]), (fa_destroy, [AHandle h'])]"
    "spawn_body argv0 argv envv files True (\<lambda>f s. keeps_handles L \<longrightarrow> f = fa \<and> s = sa) mid" by auto
  then obtain pre f s post where m: "mid = pre @ spawn_entry argv0 argv envv f s # post" "before_spawn pre"
    "dup_actions pre = wiring files (length files)" unfolding spawn_body_def by blast
  let ?new = "[(fa_init, [AHandle 0]), (sa_init, [AHandle 0])] @ mid @ [(sa_destroy, [AHandle h]), (fa_destroy, [AHandle h'])]"
  have "takeWhile (\<lambda>c. fst c \<noteq> spawn_fn) (pre @ spawn_entry argv0 argv envv f s # ys) = pre" for ys
    using m(2) by (subst takeWhile_append2) (auto simp: before_spawn_def spawn_entry_def)
  then have "spawned_with ?new = dup_actions ([(fa_init, [AHandle 0]), (sa_init, [AHandle 0])] @ pre)"
    by (simp add: spawned_with_def m(1))
  moreover have "dup_actions [(fa_init, [AHandle 0]), (sa_init, [AHandle 0])] = []" by (simp add: dup_actions_def)
  ultimately have "spawned_with ?new = wiring files (length files)" unfolding dup_actions_append m(3) by simp
  moreover have "spawn_fn \<in> fst ` set ?new" by (simp add: m(1) spawn_entry_def)
  ultimately show ?thesis using c(1) by blast
qed

section \<open>The working directory\<close>

text \<open>
  The documented behaviour of the two functions, over the working directory of a world: a
  successful \<open>chdir\<close> sets it, anything else keeps it, and a \<open>getcwd\<close> that returns its buffer has
  filled it with the directory's name.
\<close>

definition cwd_laws :: "'w libc \<Rightarrow> ('w \<Rightarrow> gostring) \<Rightarrow> bool" where
  "cwd_laws L cwd \<longleftrightarrow>
     (\<forall>fn as e w. fn \<noteq> ''libc_chdir'' \<longrightarrow> cwd (c_world (L fn as e w)) = cwd w)
   \<and> (\<forall>b e w. cwd (c_world (L ''libc_chdir'' [ACStr b] e w))
         = (if c_errno (L ''libc_chdir'' [ACStr b] e w) = 0 then takeWhile (\<lambda>c. c \<noteq> 0) b else cwd w))
   \<and> (\<forall>x e w. c_ret (L ''libc_getcwd'' [ABuf (replicate 4096 0), x] e w) \<noteq> 0 \<longrightarrow>
         takeWhile (\<lambda>c. c \<noteq> 0)
           (out_buf (argat (c_args (L ''libc_getcwd'' [ABuf (replicate 4096 0), x] e w)) 0) (replicate 4096 0)) = cwd w)"

lemma cwd_keep:
  "cwd_laws L cwd \<Longrightarrow> fn \<noteq> ''libc_chdir'' \<Longrightarrow> cwd (t_world (snd (sysvicall6 L fn n args t))) = cwd (t_world t)"
  by (auto simp: libcall_defs cwd_laws_def)

lemma cwd_back:
  assumes "cwd_laws L cwd"
    and "\<And>b e w. takeWhile (\<lambda>c. c \<noteq> 0) b = d0 \<Longrightarrow> c_errno (L ''libc_chdir'' [ACStr b] e w) = 0"
    and "takeWhile (\<lambda>c. c \<noteq> 0) b = d0"
  shows "cwd (t_world (snd (sysvicall6 L ''libc_chdir'' 1 [ACStr b] t))) = d0"
  using assms by (auto simp: libcall_defs cwd_laws_def)

lemma spawn_in_dir_cwd:
  assumes laws: "cwd_laws L cwd"
    and home: "\<And>b e w. takeWhile (\<lambda>c. c \<noteq> 0) b = cwd (t_world t) \<Longrightarrow> c_errno (L ''libc_chdir'' [ACStr b] e w) = 0"
    and got: "\<And>x e w. c_ret (L ''libc_getcwd'' [ABuf (replicate 4096 0), x] e w) \<noteq> 0"
    and run: "spawn_in_dir L argv0 argv envv dir fa sa t = (res, h, t')"
  shows "cwd (t_world t') = cwd (t_world t)"
proof (cases dir)
  case None
  with run have "t' = snd (sysvicall6 L ''libc_posix_spawn'' 6
      [AI32s [0], ACStr argv0, AHandle fa, AHandle sa, AStrs argv, AStrs envv] t)"
    by (simp add: spawn_in_dir_def spawn_call_def Let_def case_prod_beta split: if_splits)
  then show ?thesis using cwd_keep [OF laws, of "''libc_posix_spawn''"] by simp
next
  case (Some d)
  define wd0 where "wd0 = replicate 4096 (0 :: u8)"
  obtain r r2 e as t1 where g: "sysvicall6 L ''libc_getcwd'' 2 [ABuf wd0, W (int (length wd0))] t = ((r, r2, e, as), t1)"
    by (metis prod.collapse)
  then have r: "r \<noteq> 0" and wd: "takeWhile (\<lambda>c. c \<noteq> 0) (out_buf (argat as 0) wd0) = cwd (t_world t)"
    using got laws by (auto simp: libcall_defs cwd_laws_def wd0_def)
  obtain t3 where "t' = snd (sysvicall6 L ''libc_chdir'' 1 [ACStr (out_buf (argat as 0) wd0)] t3)"
    using run Some g r by (auto simp: spawn_in_dir_def Let_def wd0_def [symmetric] split: prod.splits)
  with cwd_back [OF laws home wd] show ?thesis by simp
qed

section \<open>The loops of forkExec end\<close>

lemma read_status_returns:
  assumes "\<And>b t n b' t'. readlen L fd b (int (length b)) t = ((n, Some EINTR, b'), t') \<Longrightarrow> m t' < (m t :: nat)"
    and "m t < fuel"
  shows "\<exists>y. read_status fuel L fd b t = Some y"
  using assms(2)
proof (induction fuel arbitrary: b t)
  case (Suc fuel)
  obtain n err b' t' where r: "readlen L fd b (int (length b)) t = ((n, err, b'), t')" by (metis prod.collapse)
  show ?case
  proof (cases "err = Some EINTR")
    case True
    with r assms(1) Suc.prems have "m t' < fuel" by fastforce
    with Suc.IH r True show ?thesis by simp
  qed (use r in simp)
qed simp

section \<open>Properties\<close>

text \<open>The argument and environment vectors a child receives are the Go strings: if no string
  contains a NUL byte, the pointers into the packed buffer read as C strings are exactly the list,
  in order; if one does, the conversion fails with \<open>EINVAL\<close>.\<close>

theorem argv_roundtrip:
  "case SlicePtrFromStrings ss of
     Inr ptrs \<Rightarrow> (\<forall>s \<in> set ss. 0 \<notin> set s) \<and> map (takeWhile (\<lambda>c. c \<noteq> 0)) ptrs = ss
   | Inl e \<Rightarrow> e = EINVAL \<and> (\<exists>s \<in> set ss. 0 \<in> set s)"
proof (cases "\<forall>s \<in> set ss. 0 \<notin> set s")
  case True
  with SlicePtr_ok [OF True] show ?thesis by auto
next
  case False
  then have "SlicePtrFromStrings ss = Inl EINVAL"
    using slice_len_nul [of ss 0] by (simp add: SlicePtrFromStrings_def)
  with False show ?thesis by simp
qed

theorem argv_roundtrip_witness:
  "map (takeWhile (\<lambda>c. c \<noteq> 0)) [[0x6C, 0x73, 0, 0x2D, 0], [0x2D, 0]] = [[0x6C, 0x73], [0x2D :: u8]]"
  using argv_roundtrip [of "[[0x6C, 0x73], [0x2D]]"] by (simp add: SlicePtrFromStrings_def)

text \<open>A spawn that cannot honour a request does nothing: a chroot, a credential, a new session
  or a controlling terminal is refused with \<open>ENOSYS\<close> before any C call.\<close>

theorem spawn_unsupported:
  assumes "sys_Chroot sys \<noteq> [] \<or> sys_Credential sys \<noteq> None \<or> sys_Setsid sys \<or> sys_Setctty sys \<or> sys_Foreground sys"
  shows "forkAndExecInChild L argv0 argv envv chroot dir files sys pipe t = ((0, ENOSYS), t)"
  using assms by (simp add: forkAndExecInChild_def)

theorem spawn_unsupported_witness:
  "forkAndExecInChild (\<lambda>fn as e w. (0, 0, 0, as, w)) [0] [] [] None None [] (zeroSysProcAttr\<lparr>sys_Setsid := True\<rparr>) 4 (thr_of ())
     = ((0, ENOSYS), thr_of ())"
  by (rule spawn_unsupported) simp

text \<open>C21: A spawn releases what it initialised, in reverse order, on every path. An unsupported request makes no call. When the file actions cannot
  be initialised nothing else is called; when the attributes cannot, the file actions just initialised are destroyed; otherwise the calls are the two
  initialisers, calls of the body, and the two destructors, with the handles the initialisers wrote, provided the functions in between leave the words that hold
  the opaque objects alone (\<open>keeps_handles\<close>). A spawn that reports success has recorded one \<open>dup2\<close> action per descriptor of the child,
  in order, before it called \<open>posix_spawn\<close>, with these handles.\<close>

theorem spawn_balanced:
  assumes run: "forkAndExecInChild L argv0 argv envv chroot dir files sys pipe t = ((pid, err), t')"
    and fi: "init_handle L fa_init t = (e, fa, t1)" and si: "init_handle L sa_init t1 = (e2, sa, t2)"
  shows "if spawn_unsupp sys then err = ENOSYS \<and> t' = t
    else if e \<noteq> 0 then err = e \<and> t_calls t' = t_calls t @ [(fa_init, [AHandle 0])]
    else if e2 \<noteq> 0 then err = e2 \<and> t_calls t' = t_calls t @ [(fa_init, [AHandle 0]), (sa_init, [AHandle 0]), (fa_destroy, [AHandle fa])]
    else (\<exists>mid h h'. t_calls t' = t_calls t @ [(fa_init, [AHandle 0]), (sa_init, [AHandle 0])] @ mid
         @ [(sa_destroy, [AHandle h]), (fa_destroy, [AHandle h'])]
       \<and> (keeps_handles L \<longrightarrow> h = sa \<and> h' = fa) \<and> fst ` set mid \<subseteq> spawn_body_fns
       \<and> (err = 0 \<longrightarrow> (\<exists>pre f s post. mid = pre @ (spawn_fn, [AI32s [0], ACStr argv0, AHandle f, AHandle s, AStrs argv, AStrs envv]) # post
            \<and> spawn_fn \<notin> fst ` set pre \<and> dup_actions pre = wiring files (length files) \<and> dup_actions post = []
            \<and> (keeps_handles L \<longrightarrow> f = fa \<and> s = sa))))"
proof (cases "spawn_unsupp sys")
  case True
  with run show ?thesis by (auto simp: forkAndExecInChild_def spawn_unsupp_def)
next
  case False
  note calls = forkAndExec_calls [OF run False fi si]
  show ?thesis
  proof (cases "e = 0 \<and> e2 = 0")
    case inits: True
    with calls obtain mid h h' where m: "t_calls t' = t_calls t @ [(fa_init, [AHandle 0]), (sa_init, [AHandle 0])] @ mid
         @ [(sa_destroy, [AHandle h]), (fa_destroy, [AHandle h'])]"
      "spawn_body argv0 argv envv files (err = 0) (\<lambda>f s. keeps_handles L \<longrightarrow> f = fa \<and> s = sa) mid"
      "keeps_handles L \<longrightarrow> h = sa \<and> h' = fa" by auto
    have "fst ` set mid \<subseteq> spawn_body_fns" using m(2) by (simp add: spawn_body_def)
    moreover have "\<exists>pre f s post. mid = pre @ (spawn_fn, [AI32s [0], ACStr argv0, AHandle f, AHandle s, AStrs argv, AStrs envv]) # post
            \<and> spawn_fn \<notin> fst ` set pre \<and> dup_actions pre = wiring files (length files) \<and> dup_actions post = []
            \<and> (keeps_handles L \<longrightarrow> f = fa \<and> s = sa)" if "err = 0"
    proof -
      from m(2) that obtain pre f s post where "mid = pre @ spawn_entry argv0 argv envv f s # post" "before_spawn pre"
        "dup_actions pre = wiring files (length files)" "quiet post" "keeps_handles L \<longrightarrow> f = fa \<and> s = sa"
        unfolding spawn_body_def by blast
      then show ?thesis
        by (intro exI [of _ pre] exI [of _ f] exI [of _ s] exI [of _ post]) (auto simp: spawn_entry_def before_spawn_def quiet_def)
    qed
    ultimately show ?thesis using False inits m(1,3) by (simp only: if_False if_True simp_thms) blast
  qed (use calls False in auto)
qed

theorem spawn_balanced_witness:
  "\<exists>mid h h'. t_calls (snd (forkAndExecInChild (\<lambda>fn as e w. (0, 0, 0, as, w)) [0] [] [] None None [5] zeroSysProcAttr 4 (thr_of ())))
     = [(fa_init, [AHandle 0]), (sa_init, [AHandle 0])] @ mid @ [(sa_destroy, [AHandle h]), (fa_destroy, [AHandle h'])]
     \<and> h = 0 \<and> h' = 0"
proof -
  obtain L :: "unit libc" where L: "L = (\<lambda>fn as e w. (0, 0, 0, as, w))" by blast
  let ?r = "forkAndExecInChild L [0] [] [] None None [5] zeroSysProcAttr 4 (thr_of ())"
  have run: "?r = ((fst (fst ?r), snd (fst ?r)), snd ?r)" by (simp only: prod.collapse)
  have sup: "\<not> spawn_unsupp zeroSysProcAttr" by (simp add: spawn_unsupp_def zeroSysProcAttr_def)
  have k: "keeps_handles L" by (simp add: L keeps_handles_def out_handle_def)
  have i: "fst (init_handle L fn t) = 0 \<and> fst (snd (init_handle L fn t)) = 0" for fn t
    by (simp add: L init_handle_def libcall_defs argat_def out_handle_def split: if_splits)
  obtain t1 where fi: "init_handle L fa_init (thr_of ()) = (0, 0, t1)" using i [of fa_init "thr_of ()"] by (metis prod.collapse)
  obtain t2 where si: "init_handle L sa_init t1 = (0, 0, t2)" using i [of sa_init t1] by (metis prod.collapse)
  have "t_calls (thr_of ()) = []" by (simp add: thr_of_def)
  with spawn_balanced [OF run fi si] sup k show ?thesis unfolding L [symmetric] by auto
qed

text \<open>C38: The table of the child of a successful spawn: \<open>posix_spawn\<close> was called, and the actions recorded before that call, performed in
  order on a copy of the parent's table, make the child's descriptor \<open>i\<close> the parent's \<open>Files[i]\<close> and leave every descriptor from \<open>length files\<close> on the
  parent's, if no descriptor of the list is overwritten before it is duplicated (every \<open>Files[i]\<close> below \<open>i\<close> is already in place).\<close>

theorem child_descriptors:
  assumes run: "forkAndExecInChild L argv0 argv envv chroot dir files sys pipe t = ((pid, 0), t')"
    and "no_clobber files" and "length files < 2 ^ 32"
  shows "\<exists>new. t_calls t' = t_calls t @ new \<and> spawn_fn \<in> fst ` set new
    \<and> (\<forall>x. child_fds (spawned_with new) parent x = (if unat x < length files then parent (files ! unat x) else parent x))"
  using forkAndExec_spawned [OF run] child_fds_prefix [OF assms(2) order_refl assms(3)] by metis

theorem child_descriptors_witness:
  "\<exists>new. t_calls (snd (forkAndExecInChild (\<lambda>fn as e w. (0, 0, 0, as, w)) [0] [] [] None None [5, 6, 2] zeroSysProcAttr 4 (thr_of ()))) = new
     \<and> child_fds (spawned_with new) (\<lambda>x. Some (x + 100)) 1 = Some 106"
proof -
  let ?r = "forkAndExecInChild (\<lambda>fn as e w. (0, 0, 0, as, w)) [0] [] [] None None [5, 6, 2] zeroSysProcAttr 4 (thr_of ())"
  have "snd (fst ?r) = 0"
    by (simp add: forkAndExecInChild_def spawn_with_attr_def spawn_pgroup_def spawn_in_dir_def spawn_call_def libcall_defs zeroSysProcAttr_def thr_of_def)
  then have run: "?r = ((fst (fst ?r), 0), snd ?r)" by (metis prod.collapse)
  have n: "no_clobber [5, 6, 2]" by (auto simp: no_clobber_def less_Suc_eq nth_Cons')
  have "t_calls (thr_of ()) = []" by (simp add: thr_of_def)
  with child_descriptors [OF run n, of "\<lambda>x. Some (x + 100)"] show ?thesis by fastforce
qed

text \<open>The order of the actions does not protect a descriptor that is both source and target:
  with \<open>Files = [1, 0]\<close> the child's descriptor 1 is the parent's 1 and not the parent's 0.\<close>

theorem child_descriptors_swap:
  "\<exists>new. t_calls (snd (forkAndExecInChild (\<lambda>fn as e w. (0, 0, 0, as, w)) [0] [] [] None None [1, 0] zeroSysProcAttr 4 (thr_of ()))) = new
     \<and> child_fds (spawned_with new) (\<lambda>x. Some x) 1 = Some 1"
proof -
  let ?r = "forkAndExecInChild (\<lambda>fn as e w. (0, 0, 0, as, w)) [0] [] [] None None [1, 0] zeroSysProcAttr 4 (thr_of ())"
  have "snd (fst ?r) = 0"
    by (simp add: forkAndExecInChild_def spawn_with_attr_def spawn_pgroup_def spawn_in_dir_def spawn_call_def libcall_defs zeroSysProcAttr_def thr_of_def)
  then have run: "?r = ((fst (fst ?r), 0), snd ?r)" by (metis prod.collapse)
  have "t_calls (thr_of ()) = []" by (simp add: thr_of_def)
  with forkAndExec_spawned [OF run] show ?thesis by (auto simp: child_fds_def wiring_def numeral_2_eq_2)
qed

text \<open>The directory change for the child does not leak: with a \<open>getcwd\<close> that answers and a
  \<open>chdir\<close> that can return to where it was, the working directory after the spawn is the one before,
  whether the change, the spawn or neither failed.\<close>

theorem spawn_restores_cwd:
  assumes "cwd_laws L cwd"
    and "\<And>b e w. takeWhile (\<lambda>c. c \<noteq> 0) b = cwd (t_world t) \<Longrightarrow> c_errno (L ''libc_chdir'' [ACStr b] e w) = 0"
    and "\<And>x e w. c_ret (L ''libc_getcwd'' [ABuf (replicate 4096 0), x] e w) \<noteq> 0"
    and "spawn_in_dir L argv0 argv envv dir fa sa t = (res, h, t')"
  shows "cwd (t_world t') = cwd (t_world t)"
  using assms by (rule spawn_in_dir_cwd)

text \<open>A world with two directories, for the witness: \<open>True\<close> is in \<open>/\<close>, \<open>False\<close> in \<open>/a\<close>.\<close>

definition two_dirs :: "bool \<Rightarrow> gostring" where
  "two_dirs w = (if w then [0x2F] else [0x2F, 0x61])"

definition two_dirs_libc :: "bool libc" where
  "two_dirs_libc fn as e w =
     (if fn = ''libc_chdir''
      then (case as of
              ACStr b # _ \<Rightarrow>
                (let d = takeWhile (\<lambda>c. c \<noteq> 0) b
                 in if d = two_dirs True then (0, 0, 0, as, True)
                    else if d = two_dirs False then (0, 0, 0, as, False) else (-1, 0, ENOENT, as, w))
            | _ \<Rightarrow> (-1, 0, ENOENT, as, w))
      else if fn = ''libc_getcwd'' then (1, 0, 0, ABuf (two_dirs w @ replicate (4096 - length (two_dirs w)) 0) # tl as, w)
      else (0, 0, 0, as, w))"

lemma two_dirs_laws: "cwd_laws two_dirs_libc two_dirs"
proof -
  have "takeWhile (\<lambda>c. c \<noteq> 0) (two_dirs w @ replicate (4096 - length (two_dirs w)) 0) = two_dirs w" for w
  proof -
    have "0 \<notin> set (two_dirs w)" by (simp add: two_dirs_def)
    moreover have "replicate (4096 - length (two_dirs w)) (0 :: u8) = 0 # replicate (4095 - length (two_dirs w)) 0"
      by (simp add: two_dirs_def replicate_Suc [symmetric] del: replicate_Suc)
    ultimately show ?thesis by (simp add: takeWhile_no_zero)
  qed
  moreover have "length (two_dirs w @ replicate (4096 - length (two_dirs w)) 0) = 4096" for w
    by (simp add: two_dirs_def)
  ultimately show ?thesis
    by (auto simp: cwd_laws_def two_dirs_libc_def Let_def argat_def out_buf_def)
qed

theorem spawn_restores_cwd_witness:
  "two_dirs (t_world (snd (snd (spawn_in_dir two_dirs_libc [0x61, 0] [] [] (Some [0x2F, 0x61, 0]) 0 0 (thr_of True))))) = two_dirs True"
proof -
  let ?r = "spawn_in_dir two_dirs_libc [0x61, 0] [] [] (Some [0x2F, 0x61, 0]) 0 0 (thr_of True)"
  have run: "?r = (fst ?r, fst (snd ?r), snd (snd ?r))" by (simp only: prod.collapse)
  have w: "t_world (thr_of True) = True" by (simp add: thr_of_def)
  have "two_dirs (t_world (snd (snd ?r))) = two_dirs (t_world (thr_of True))"
    by (rule spawn_restores_cwd [OF two_dirs_laws _ _ run]) (simp_all add: two_dirs_libc_def Let_def w)
  then show ?thesis by (simp only: w)
qed

text \<open>\<open>Exec\<close> cannot replace the process on QNX: its default branch is the raw system call the
  port does not have, so it ends with \<open>ENOSYS\<close> for every argument list it accepts.\<close>

theorem Exec_ENOSYS:
  assumes "0 \<notin> set argv0" and "\<forall>s \<in> set (argv @ envv). 0 \<notin> set s"
  shows "fst (Exec L orig argv0 argv envv t) = ENOSYS"
proof -
  from assms(2) have "\<forall>s \<in> set argv. 0 \<notin> set s" and "\<forall>s \<in> set envv. 0 \<notin> set s" by auto
  then obtain p q where "SlicePtrFromStrings argv = Inr p" and "SlicePtrFromStrings envv = Inr q"
    using SlicePtr_ok by metis
  with assms(1) show ?thesis
    by (simp add: Exec_def BytePtrFromString_def ByteSliceFromString_def RawSyscall_def case_prod_beta)
qed

theorem Exec_ENOSYS_witness:
  "fst (Exec (\<lambda>fn as e w. (0, 0, 0, as, w)) None [0x61] [[0x61]] [] (thr_of ())) = ENOSYS"
  by (rule Exec_ENOSYS) simp_all

end
