(* ===== verification/Qnx_Time.thy ===== *)
theory Qnx_Time
  imports Qnx_Syscall
begin

text \<open>
  Conversions between nanoseconds and the C time structures, whose fields are 32 bits wide on QNX
  6.5: the methods of \<open>syscall/syscall.go\<close> and the functions of \<open>syscall/timestruct.go\<close>.
\<close>

definition Timespec_Unix :: "Timespec \<Rightarrow> int \<times> int" where
  "Timespec_Unix ts = (ts_Sec ts, ts_Nsec ts)"

definition Timeval_Unix :: "Timeval \<Rightarrow> int \<times> int" where
  "Timeval_Unix tv = (tv_Sec tv, int64 (tv_Usec tv * 1000))"

definition Timespec_Nano :: "Timespec \<Rightarrow> int" where
  "Timespec_Nano ts = int64 (ts_Sec ts * 1000000000 + ts_Nsec ts)"

definition Timeval_Nano :: "Timeval \<Rightarrow> int" where
  "Timeval_Nano tv = int64 (tv_Sec tv * 1000000000 + tv_Usec tv * 1000)"

definition TimespecToNsec :: "Timespec \<Rightarrow> int" where
  "TimespecToNsec ts = Timespec_Nano ts"

definition NsecToTimespec :: "int \<Rightarrow> Timespec" where
  "NsecToTimespec n =
     (let sec = go_div n 1000000000; nsec = go_mod n 1000000000
      in if nsec < 0 then setTimespec (sec - 1) (nsec + 1000000000) else setTimespec sec nsec)"

definition TimevalToNsec :: "Timeval \<Rightarrow> int" where
  "TimevalToNsec tv = Timeval_Nano tv"

definition NsecToTimeval :: "int \<Rightarrow> Timeval" where
  "NsecToTimeval n =
     (let nsec = int64 (n + 999);
          usec = go_div (go_mod nsec 1000000000) 1000;
          sec = go_div nsec 1000000000
      in if usec < 0 then setTimeval (sec - 1) (usec + 1000000) else setTimeval sec usec)"

section \<open>Floor division from truncating division\<close>

lemma floor_of_trunc:
  assumes "0 < b"
  shows "(if go_mod n b < 0 then go_div n b - 1 else go_div n b) = n div b"
    and "(if go_mod n b < 0 then go_mod n b + b else go_mod n b) = n mod b"
proof -
  have eq: "go_div n b * b + go_mod n b = n" by (rule go_div_mod)
  have bound: "- b < go_mod n b \<and> go_mod n b < b"
  proof (cases "0 \<le> n")
    case True
    with assms show ?thesis by (simp add: go_mod_nonneg)
      (meson assms le_less_trans neg_less_0_iff_less pos_mod_sign less_le_trans)
  next
    case False
    with assms show ?thesis by (simp add: go_mod_neg)
      (meson assms le_less_trans neg_le_0_iff_le pos_mod_sign)
  qed
  let ?q = "if go_mod n b < 0 then go_div n b - 1 else go_div n b"
  let ?r = "if go_mod n b < 0 then go_mod n b + b else go_mod n b"
  have n: "n = b * ?q + ?r" using eq by (simp add: algebra_simps)
  have r: "0 \<le> ?r" "?r < b" using bound by auto
  show "?q = n div b" by (rule int_div_pos_eq [OF n r, symmetric])
  show "?r = n mod b" by (rule int_mod_pos_eq [OF n r, symmetric])
qed

section \<open>Properties\<close>

text \<open>Nanoseconds survive the 32-bit structure: for every time whose seconds fit 32 bits,
  negative ones included, \<open>NsecToTimespec\<close> gives a normalised value (nanoseconds in [0, 10^9))
  from which \<open>TimespecToNsec\<close> recovers the number.\<close>

theorem timespec_roundtrip:
  assumes "- (2 ^ 31) * 1000000000 \<le> n" and "n < 2 ^ 31 * 1000000000"
  shows "TimespecToNsec (NsecToTimespec n) = n
    \<and> 0 \<le> ts_Nsec (NsecToTimespec n) \<and> ts_Nsec (NsecToTimespec n) < 1000000000"
proof -
  let ?B = "1000000000 :: int"
  have sec: "- (2 ^ 31) \<le> n div ?B" "n div ?B < 2 ^ 31" using assms by auto
  have ns: "0 \<le> n mod ?B" "n mod ?B < ?B" by simp_all
  have "NsecToTimespec n = setTimespec (n div ?B) (n mod ?B)"
    using floor_of_trunc [of ?B n] by (auto simp: NsecToTimespec_def Let_def split: if_splits)
  moreover have "int32 (n div ?B) = n div ?B" using sec by (rule int32_id)
  moreover have "int32 (n mod ?B) = n mod ?B" using ns by (intro int32_id) auto
  moreover have "n div ?B * ?B + n mod ?B = n" by simp
  moreover have "int64 n = n" using assms by (intro int64_id) auto
  ultimately show ?thesis
    using ns by (simp add: TimespecToNsec_def Timespec_Nano_def setTimespec_def)
qed

theorem timespec_roundtrip_witness:
  "TimespecToNsec (NsecToTimespec (-1)) = -1 \<and> ts_Nsec (NsecToTimespec (-1)) < 1000000000"
  using timespec_roundtrip [of "-1"] by simp

text \<open>\<open>NsecToTimeval\<close> rounds a non-negative time up to the next microsecond, never by more than
  999 nanoseconds, and normalises the microseconds.\<close>

theorem timeval_rounds_up:
  assumes "0 \<le> n" and "n + 999 < 2 ^ 31 * 1000000000"
  shows "n \<le> TimevalToNsec (NsecToTimeval n) \<and> TimevalToNsec (NsecToTimeval n) \<le> n + 999
    \<and> 0 \<le> tv_Usec (NsecToTimeval n) \<and> tv_Usec (NsecToTimeval n) < 1000000"
proof -
  let ?m = "n + 999" and ?B = "1000000000 :: int"
  let ?s = "?m div ?B" and ?u = "?m mod ?B div 1000"
  have "int64 ?m = ?m" using assms by (intro int64_id) auto
  moreover have "0 \<le> ?m mod ?B" by simp
  moreover have u: "0 \<le> ?u" "?u < 1000000"
  proof -
    have "?m mod ?B < ?B" by simp
    then show "?u < 1000000" by linarith
  qed (simp add: pos_imp_zdiv_nonneg_iff)
  moreover have s: "0 \<le> ?s" "?s < 2 ^ 31" using assms by auto
  ultimately have tv: "NsecToTimeval n = \<lparr>tv_Sec = ?s, tv_Usec = ?u\<rparr>"
    using assms(1) by (simp add: NsecToTimeval_def Let_def go_div_nonneg go_mod_nonneg setTimeval_def int32_id)
  have m: "?s * ?B + ?m mod ?B = ?m" by simp
  have r: "?u * 1000 \<le> ?m mod ?B" "?m mod ?B \<le> ?u * 1000 + 999" by linarith+
  have "int64 (?s * ?B + ?u * 1000) = ?s * ?B + ?u * 1000" using s u by (intro int64_id) auto
  moreover have "n \<le> ?s * ?B + ?u * 1000" "?s * ?B + ?u * 1000 \<le> ?m" using m r by linarith+
  ultimately show ?thesis using tv u by (simp add: TimevalToNsec_def Timeval_Nano_def)
qed

theorem timeval_rounds_up_witness: "1500 \<le> TimevalToNsec (NsecToTimeval 1500)"
  using timeval_rounds_up [of 1500] by simp

end
