(* ===== verification/Qnx_Os.thy ===== *)
theory Qnx_Os
  imports Qnx_Libcall
begin

text \<open>
  The operating-system layer of the runtime: \<open>runtime/os_qnx.go\<close> (semaphores, clocks, files,
  pipes, threads), \<open>runtime/signal_qnx.go\<close> and \<open>runtime/sigtab_qnx.go\<close> (signal actions, masks and
  the table), \<open>runtime/nbpipe_pipe.go\<close> and \<open>runtime/mem_bsd.go\<close> (the address space). Every
  operation is a function of the C library and the calling thread; \<open>throw\<close> is an outcome. The
  error number behind \<open>m.perrno\<close> is the thread's \<open>errno\<close> cell.
\<close>

section \<open>Constants\<close>

abbreviation CLOCK_REALTIME_id :: u32 where "CLOCK_REALTIME_id \<equiv> 0"
abbreviation CLOCK_MONOTONIC_id :: u32 where "CLOCK_MONOTONIC_id \<equiv> 2"
abbreviation PROT_NONE :: int where "PROT_NONE \<equiv> 0"
abbreviation PROT_READ :: int where "PROT_READ \<equiv> 0x100"
abbreviation PROT_WRITE :: int where "PROT_WRITE \<equiv> 0x200"
abbreviation MAP_ANON :: int where "MAP_ANON \<equiv> 0x80000"
abbreviation MAP_PRIVATE :: int where "MAP_PRIVATE \<equiv> 0x2"
abbreviation MAP_FIXED :: int where "MAP_FIXED \<equiv> 0x10"
abbreviation qnxMAP_LAZY :: int where "qnxMAP_LAZY \<equiv> 0x80"
abbreviation SIG_SETMASK :: u32 where "SIG_SETMASK \<equiv> 2"
abbreviation NSIG :: nat where "NSIG \<equiv> 57"

text \<open>Reading the \<open>int32\<close> behind \<open>m.perrno\<close>.\<close>

definition perrno_val :: "'w thr \<Rightarrow> u32" where
  "perrno_val t = t_errno t"

abbreviation U :: "int \<Rightarrow> carg" where "U x \<equiv> AWord (uptr x)"

section \<open>Semaphores\<close>

definition semacreate :: "'w libc \<Rightarrow> uintptr \<Rightarrow> 'w thr \<Rightarrow> uintptr outcome \<times> 'w thr" where
  "semacreate L waitsema t =
     (if waitsema \<noteq> 0 then (Ret waitsema, t)
      else (let (lc, t1) = asmsysvicall6 L (libcall_init ''libc_malloc'' 1 [AWord 8]) t;
                sem = lc_r1 lc;
                ((r, as), t2) = sysvicall3 L ''libc_sem_init'' (AWord sem) (AWord 0) (AWord 0) t1
            in if r \<noteq> 0 then (Throw ''sem_init'', t2) else (Ret sem, t2)))"

text \<open>The absolute deadline that \<open>semasleep\<close> computes from a clock reading.\<close>

definition sem_deadline :: "int \<Rightarrow> Timespec \<Rightarrow> Timespec" where
  "sem_deadline ns now =
     (let sec = int64 (go_div ns 1000000000 + ts_Sec now);
          nsec = int64 (go_mod ns 1000000000 + ts_Nsec now)
      in if nsec \<ge> 1000000000
         then \<lparr>ts_Sec = int32 (sec + 1), ts_Nsec = int32 (nsec - 1000000000)\<rparr>
         else \<lparr>ts_Sec = int32 sec, ts_Nsec = int32 nsec\<rparr>)"

fun sem_wait_loop :: "nat \<Rightarrow> 'w libc \<Rightarrow> uintptr \<Rightarrow> 'w thr \<Rightarrow> (int outcome \<times> 'w thr) option" where
  "sem_wait_loop 0 L sem t = None"
| "sem_wait_loop (Suc fuel) L sem t =
     (let ((r, err, as), t1) = sysvicall1Err L ''libc_sem_wait'' (AWord sem) t
      in if r = 0 then Some (Ret 0, t1)
         else if perrno_val t1 = EINTR then sem_wait_loop fuel L sem t1
         else Some (Throw ''sem_wait'', t1))"

definition semasleep :: "nat \<Rightarrow> 'w libc \<Rightarrow> uintptr \<Rightarrow> Timespec \<Rightarrow> int \<Rightarrow> 'w thr \<Rightarrow> (int outcome \<times> 'w thr) option" where
  "semasleep fuel L waitsema mts ns t =
     (if ns \<ge> 0
      then (let ((r, as), t1) = sysvicall2 L ''libc_clock_gettime'' (AWord CLOCK_REALTIME_id) (ATimespec mts) t;
                ts = sem_deadline ns (out_timespec (argat as 1) mts);
                ((r', as'), t2) = sysvicall2 L ''libc_sem_timedwait'' (AWord waitsema) (ATimespec ts) t1
            in if r' \<noteq> 0
               then (let e = perrno_val t2
                     in if e = ETIMEDOUT \<or> e = EAGAIN \<or> e = EINTR then Some (Ret (-1), t2)
                        else Some (Throw ''sem_timedwait'', t2))
               else Some (Ret 0, t2))
      else sem_wait_loop fuel L waitsema t)"

definition semawakeup :: "'w libc \<Rightarrow> uintptr \<Rightarrow> 'w thr \<Rightarrow> unit outcome \<times> 'w thr" where
  "semawakeup L waitsema t =
     (let ((r, as), t1) = sysvicall1 L ''libc_sem_post'' (AWord waitsema) t
      in if r \<noteq> 0 then (Throw ''sem_post'', t1) else (Ret (), t1))"

section \<open>Scheduling and clocks\<close>

definition osyield :: "'w libc \<Rightarrow> 'w thr \<Rightarrow> 'w thr" where
  "osyield L t = snd (sysvicall0 L ''libc_sched_yield'' t)"

definition getCPUCount :: int where "getCPUCount = 1"

definition ts_zero :: Timespec where "ts_zero = \<lparr>ts_Sec = 0, ts_Nsec = 0\<rparr>"

definition nanotime1 :: "'w libc \<Rightarrow> 'w thr \<Rightarrow> int \<times> 'w thr" where
  "nanotime1 L t =
     (let ((r, as), t1) = sysvicall2 L ''libc_clock_gettime'' (AWord CLOCK_MONOTONIC_id) (ATimespec ts_zero) t;
          ts = out_timespec (argat as 1) ts_zero
      in (int64 (ts_Sec ts * 1000000000 + ts_Nsec ts), t1))"

definition cputicks :: "'w libc \<Rightarrow> 'w thr \<Rightarrow> int \<times> 'w thr" where
  "cputicks L t = nanotime1 L t"

definition setQnxWallOffset :: "int \<Rightarrow> u64" where
  "setQnxWallOffset nsec = word_of_int nsec"

definition walltime_of :: "u64 \<Rightarrow> Timespec \<Rightarrow> int \<times> int" where
  "walltime_of qnxWallOffset ts =
     (let off = sint qnxWallOffset
      in if off = 0 then (ts_Sec ts, ts_Nsec ts)
         else (let t = int64 (int64 (ts_Sec ts * 1000000000 + ts_Nsec ts) + off)
               in (go_div t 1000000000, int32 (go_mod t 1000000000))))"

definition walltime :: "'w libc \<Rightarrow> u64 \<Rightarrow> 'w thr \<Rightarrow> (int \<times> int) \<times> 'w thr" where
  "walltime L qnxWallOffset t =
     (let ((r, as), t1) = sysvicall2 L ''libc_clock_gettime'' (AWord CLOCK_REALTIME_id) (ATimespec ts_zero) t
      in (walltime_of qnxWallOffset (out_timespec (argat as 1) ts_zero), t1))"

definition usleep_ts :: "u32 \<Rightarrow> Timespec" where
  "usleep_ts usec = \<lparr>ts_Sec = toint (usec div 1000000), ts_Nsec = toint ((usec mod 1000000) * 1000)\<rparr>"

definition usleep :: "'w libc \<Rightarrow> u32 \<Rightarrow> 'w thr \<Rightarrow> 'w thr" where
  "usleep L usec t = snd (sysvicall2 L ''libc_nanosleep'' (ATimespec (usleep_ts usec)) (AWord 0) t)"

section \<open>Files, pipes and descriptors\<close>

definition write1 :: "'w libc \<Rightarrow> uintptr \<Rightarrow> gostring \<Rightarrow> int \<Rightarrow> 'w thr \<Rightarrow> int \<times> 'w thr" where
  "write1 L fd p n t = (let ((r, as), t1) = sysvicall3 L ''libc_write'' (AWord fd) (ABuf p) (U n) t in (toint r, t1))"

definition rt_read :: "'w libc \<Rightarrow> int \<Rightarrow> gostring \<Rightarrow> int \<Rightarrow> 'w thr \<Rightarrow> (int \<times> gostring) \<times> 'w thr" where
  "rt_read L fd p n t =
     (let ((r, err, as), t1) = sysvicall3Err L ''libc_read'' (U fd) (ABuf p) (U n) t;
          p' = out_buf (argat as 1) p
      in if toint r < 0 then ((int32 (- toint err), p'), t1) else ((toint r, p'), t1))"

definition closefd :: "'w libc \<Rightarrow> int \<Rightarrow> 'w thr \<Rightarrow> int \<times> 'w thr" where
  "closefd L fd t = (let ((r, as), t1) = sysvicall1 L ''libc_close'' (U fd) t in (toint r, t1))"

definition rt_open :: "'w libc \<Rightarrow> gostring \<Rightarrow> int \<Rightarrow> int \<Rightarrow> 'w thr \<Rightarrow> int \<times> 'w thr" where
  "rt_open L name mode perm t =
     (let ((r, as), t1) = sysvicall3 L ''libc_open'' (ACStr name) (U mode) (U perm) t in (toint r, t1))"

definition dev_random :: gostring where
  "dev_random = [0x2F, 0x64, 0x65, 0x76, 0x2F, 0x72, 0x61, 0x6E, 0x64, 0x6F, 0x6D, 0]"

definition getRandomData :: "'w libc \<Rightarrow> gostring \<Rightarrow> 'w thr \<Rightarrow> gostring \<times> 'w thr" where
  "getRandomData L r t =
     (let (fd, t1) = rt_open L dev_random 0 0 t
      in if fd < 0 then (r, t1)
         else (let ((n, r'), t2) = rt_read L fd r (int (length r)) t1;
                   (c, t3) = closefd L fd t2
               in (r', t3)))"

definition readRandom :: "'w libc \<Rightarrow> gostring \<Rightarrow> 'w thr \<Rightarrow> (int \<times> gostring) \<times> 'w thr" where
  "readRandom L r t = (let (r', t1) = getRandomData L r t in ((int (length r), r'), t1))"

definition rt_fcntl :: "'w libc \<Rightarrow> int \<Rightarrow> int \<Rightarrow> int \<Rightarrow> 'w thr \<Rightarrow> (int \<times> int) \<times> 'w thr" where
  "rt_fcntl L fd cmd arg t =
     (let ((r, err, as), t1) = sysvicall3Err L ''libc_fcntl'' (U fd) (U cmd) (U arg) t in ((toint r, toint err), t1))"

definition rt_pipe :: "'w libc \<Rightarrow> 'w thr \<Rightarrow> (int \<times> int \<times> int) \<times> 'w thr" where
  "rt_pipe L t =
     (let ((ret, err, as), t1) = sysvicall1Err L ''libc_pipe'' (AI32s [0, 0]) t;
          fds = out_i32s (argat as 0) [0, 0]
      in if toint ret = -1 then ((-1, -1, toint err), t1) else ((fds ! 0, fds ! 1, 0), t1))"

definition rt_setNonblock :: "'w libc \<Rightarrow> int \<Rightarrow> 'w thr \<Rightarrow> 'w thr" where
  "rt_setNonblock L fd t =
     (let ((flags, e), t1) = rt_fcntl L fd 3 0 t
      in if flags \<noteq> -1 then snd (rt_fcntl L fd 4 (flags OR 0x80) t1) else t1)"

definition closeonexec :: "'w libc \<Rightarrow> int \<Rightarrow> 'w thr \<Rightarrow> 'w thr" where
  "closeonexec L fd t = snd (rt_fcntl L fd 2 1 t)"

definition nonblockingPipe :: "'w libc \<Rightarrow> 'w thr \<Rightarrow> (int \<times> int \<times> int) \<times> 'w thr" where
  "nonblockingPipe L t =
     (let ((r, w, errno), t1) = rt_pipe L t
      in if errno \<noteq> 0 then ((-1, -1, errno), t1)
         else (let t2 = closeonexec L r t1; t3 = rt_setNonblock L r t2;
                   t4 = closeonexec L w t3; t5 = rt_setNonblock L w t4
               in ((r, w, errno), t5)))"

section \<open>Threads\<close>

definition osinit :: "'w libc \<Rightarrow> 'w thr \<Rightarrow> (int \<times> u32) \<times> 'w thr" where
  "osinit L t = (let (p, t1) = sysvicall0 L ''libc_get_errno_ptr'' t in ((getCPUCount, 4096), t1\<lparr>m_perrno := p\<rparr>))"

text \<open>The part of \<open>minit\<close> before the shared signal set-up.\<close>

definition minit_errno :: "'w libc \<Rightarrow> 'w thr \<Rightarrow> 'w thr" where
  "minit_errno L t = (let (p, t1) = sysvicall0 L ''libc_get_errno_ptr'' t in t1\<lparr>m_perrno := p\<rparr>)"

definition sigset_all :: sigset where
  "sigset_all = \<lparr>ss_bits0 = NOT 0, ss_bits1 = NOT 0\<rparr>"

definition sigset_none :: sigset where
  "sigset_none = \<lparr>ss_bits0 = 0, ss_bits1 = 0\<rparr>"

definition out_sigset :: "carg \<Rightarrow> sigset \<Rightarrow> sigset" where
  "out_sigset a old = (case a of ASigset s \<Rightarrow> s | _ \<Rightarrow> old)"

definition sigprocmask :: "'w libc \<Rightarrow> u32 \<Rightarrow> sigset option \<Rightarrow> sigset option \<Rightarrow> 'w thr \<Rightarrow> sigset option \<times> 'w thr" where
  "sigprocmask L how new old t =
     (let ptr = (\<lambda>x. case x of None \<Rightarrow> ANull | Some s \<Rightarrow> ASigset s);
          ((r, as), t1) = sysvicall3 L ''libc_sigprocmask'' (AWord how) (ptr new) (ptr old) t
      in (map_option (out_sigset (argat as 2)) old, t1))"

text \<open>
  \<open>newosproc\<close>: the attribute object is opaque; the new thread starts with every signal blocked
  and the creating thread's mask is put back before the result is looked at.
\<close>

definition newosproc :: "'w libc \<Rightarrow> u32 \<Rightarrow> 'w thr \<Rightarrow> unit outcome \<times> 'w thr" where
  "newosproc L mp t =
     (let ((r1, as1), t1) = sysvicall1 L ''libc_pthread_attr_init'' (AHandle 0) t
      in if r1 \<noteq> 0 then (Throw ''pthread_attr_init'', t1)
         else (let a1 = argat as1 0;
                   ((r2, as2), t2) = sysvicall2 L ''libc_pthread_attr_setstacksize'' a1 (AWord 0x200000) t1
               in if r2 \<noteq> 0 then (Throw ''pthread_attr_setstacksize'', t2)
                  else (let a2 = argat as2 0;
                            ((r3, as3), t3) = sysvicall2 L ''libc_pthread_attr_setdetachstate'' a2 (AWord 1) t2
                        in if r3 \<noteq> 0 then (Throw ''pthread_attr_setdetachstate'', t3)
                           else (let a3 = argat as3 0;
                                     (oset, t4) = sigprocmask L SIG_SETMASK (Some sigset_all) (Some sigset_none) t3;
                                     ((ret, as4), t5) = sysvicall4 L ''libc_pthread_create''
                                        (AU32s [0]) a3 (AFn ''tstart'') (AWord mp) t4;
                                     (ign, t6) = sigprocmask L SIG_SETMASK oset None t5
                                 in if ret \<noteq> 0 then (Throw ''newosproc'', t6) else (Ret (), t6)))))"

definition raise_sig :: "'w libc \<Rightarrow> u32 \<Rightarrow> 'w thr \<Rightarrow> 'w thr" where
  "raise_sig L sig t =
     (let (pid, t1) = sysvicall0 L ''libc_getpid'' t in snd (sysvicall2 L ''libc_kill'' (AWord pid) (AWord sig) t1))"

section \<open>Signals\<close>

definition SA_SIGINFO :: u32 where "SA_SIGINFO = 2"
definition SA_ONSTACK :: u32 where "SA_ONSTACK = 0"
definition SA_RESTART :: u32 where "SA_RESTART = 0"

definition out_sigact :: "carg \<Rightarrow> sigactiont \<Rightarrow> sigactiont" where
  "out_sigact a old = (case a of ASigact s \<Rightarrow> s | _ \<Rightarrow> old)"

definition sigact_zero :: sigactiont where
  "sigact_zero = \<lparr>sa_handler = 0, sa_flags = 0, sa_mask = sigset_none\<rparr>"

definition sigaction :: "'w libc \<Rightarrow> u32 \<Rightarrow> sigactiont option \<Rightarrow> sigactiont option \<Rightarrow> 'w thr \<Rightarrow> sigactiont option \<times> 'w thr" where
  "sigaction L sig new old t =
     (let ptr = (\<lambda>x. case x of None \<Rightarrow> ANull | Some s \<Rightarrow> ASigact s);
          ((r, as), t1) = sysvicall3 L ''libc_sigaction'' (AWord sig) (ptr new) (ptr old) t
      in (map_option (out_sigact (argat as 2)) old, t1))"

text \<open>The addresses of \<open>sighandler\<close> and \<open>sigtramp\<close> are parameters.\<close>

definition setsig :: "'w libc \<Rightarrow> uintptr \<Rightarrow> uintptr \<Rightarrow> u32 \<Rightarrow> uintptr \<Rightarrow> 'w thr \<Rightarrow> 'w thr" where
  "setsig L sighandler sigtramp i fn t =
     snd (sigaction L i (Some \<lparr>sa_handler = (if fn = sighandler then sigtramp else fn),
                               sa_flags = SA_SIGINFO OR SA_ONSTACK OR SA_RESTART, sa_mask = sigset_all\<rparr>) None t)"

definition setsigstack :: "'w libc \<Rightarrow> u32 \<Rightarrow> 'w thr \<Rightarrow> 'w thr" where
  "setsigstack L i t =
     (let (old, t1) = sigaction L i None (Some sigact_zero) t;
          sa = the old;
          h = sa_handler sa
      in if h = 0 \<or> h = 1 \<or> sa_flags sa AND SA_ONSTACK \<noteq> 0 then t1
         else snd (sigaction L i (Some (sa\<lparr>sa_flags := sa_flags sa OR SA_ONSTACK\<rparr>)) None t1))"

definition getsig :: "'w libc \<Rightarrow> u32 \<Rightarrow> 'w thr \<Rightarrow> uintptr \<times> 'w thr" where
  "getsig L i t = (let (old, t1) = sigaction L i None (Some sigact_zero) t in (sa_handler (the old), t1))"

text \<open>
  \<open>sigaddset\<close> and \<open>sigdelset\<close> on the two words; signal numbers start at 1. An index beyond the
  two words is Go's index panic.
\<close>

definition sigaddset :: "sigset \<Rightarrow> int \<Rightarrow> sigset outcome" where
  "sigaddset m i =
     (let w = go_div (i - 1) 32; b = push_bit (unat (uptr (i - 1) AND 31)) 1
      in if w = 0 then Ret (m\<lparr>ss_bits0 := ss_bits0 m OR b\<rparr>)
         else if w = 1 then Ret (m\<lparr>ss_bits1 := ss_bits1 m OR b\<rparr>)
         else Throw ''index out of range'')"

definition sigdelset :: "sigset \<Rightarrow> int \<Rightarrow> sigset outcome" where
  "sigdelset m i =
     (let w = go_div (i - 1) 32; b = push_bit (unat (uptr (i - 1) AND 31)) 1
      in if w = 0 then Ret (m\<lparr>ss_bits0 := ss_bits0 m AND NOT b\<rparr>)
         else if w = 1 then Ret (m\<lparr>ss_bits1 := ss_bits1 m AND NOT b\<rparr>)
         else Throw ''index out of range'')"

text \<open>The table of signals: flags by number; a number that is not listed has flags 0.\<close>

datatype sigflag = SigNotify | SigKill | SigThrow | SigPanic | SigDefault | SigUnblock

definition sigtable :: "(nat \<times> sigflag list) list" where
  "sigtable =
    [(0, []), (1, [SigNotify, SigKill]), (2, [SigNotify, SigKill]), (3, [SigNotify, SigThrow]),
     (4, [SigThrow, SigUnblock]), (5, [SigThrow, SigUnblock]), (6, [SigNotify, SigThrow]), (7, [SigThrow]),
     (8, [SigPanic, SigUnblock]), (9, []), (10, [SigPanic, SigUnblock]), (11, [SigPanic, SigUnblock]),
     (12, [SigThrow]), (13, [SigNotify]), (14, [SigNotify]), (15, [SigNotify, SigKill]), (16, [SigNotify]),
     (17, [SigNotify]), (18, [SigNotify, SigUnblock]), (19, [SigNotify]), (20, [SigNotify]), (21, [SigNotify]),
     (22, [SigNotify]), (23, []), (24, [SigNotify, SigDefault]), (25, [SigNotify, SigDefault]),
     (26, [SigNotify, SigDefault]), (27, [SigNotify, SigDefault]), (28, [SigNotify]),
     (29, [SigNotify, SigUnblock]), (30, [SigNotify]), (31, [SigNotify]), (NSIG - 1, [SigNotify])]"

definition sigtable_len :: nat where
  "sigtable_len = Suc (fold (\<lambda>p m. max (fst p) m) sigtable 0)"

definition sigflags :: "nat \<Rightarrow> sigflag list" where
  "sigflags i = (case map_of sigtable i of None \<Rightarrow> [] | Some f \<Rightarrow> f)"

section \<open>The address space\<close>

definition rt_mmap ::
  "'w libc \<Rightarrow> uintptr \<Rightarrow> uintptr \<Rightarrow> int \<Rightarrow> int \<Rightarrow> int \<Rightarrow> u32 \<Rightarrow> 'w thr \<Rightarrow> (uintptr \<times> u32) \<times> 'w thr" where
  "rt_mmap L addr n prot flags fd off t =
     (let ((r, as), t1) = rt_sysvicall6 L ''libc_mmap'' (AWord addr) (AWord n) (U prot) (U flags) (U fd) (AWord off) t
      in if r = NOT 0 then ((0, perrno_val t1), t1) else ((r, 0), t1))"

definition rt_munmap :: "'w libc \<Rightarrow> uintptr \<Rightarrow> uintptr \<Rightarrow> 'w thr \<Rightarrow> 'w thr" where
  "rt_munmap L addr n t = snd (sysvicall2 L ''libc_munmap'' (AWord addr) (AWord n) t)"

definition sysAllocOS :: "'w libc \<Rightarrow> uintptr \<Rightarrow> 'w thr \<Rightarrow> uintptr \<times> 'w thr" where
  "sysAllocOS L n t =
     (let ((v, err), t1) = rt_mmap L 0 n (PROT_READ OR PROT_WRITE) (MAP_ANON OR MAP_PRIVATE) (-1) 0 t
      in if err \<noteq> 0 then (0, t1) else (v, t1))"

definition sysFreeOS :: "'w libc \<Rightarrow> uintptr \<Rightarrow> uintptr \<Rightarrow> 'w thr \<Rightarrow> 'w thr" where
  "sysFreeOS L v n t = rt_munmap L v n t"

definition sysFaultOS :: "'w libc \<Rightarrow> uintptr \<Rightarrow> uintptr \<Rightarrow> 'w thr \<Rightarrow> 'w thr" where
  "sysFaultOS L v n t = snd (rt_mmap L v n PROT_NONE (MAP_ANON OR MAP_PRIVATE OR MAP_FIXED) (-1) 0 t)"

definition sysReserveOS :: "'w libc \<Rightarrow> uintptr \<Rightarrow> uintptr \<Rightarrow> 'w thr \<Rightarrow> uintptr \<times> 'w thr" where
  "sysReserveOS L v n t =
     (let ((p, err), t1) = rt_mmap L v n PROT_NONE (MAP_ANON OR MAP_PRIVATE OR qnxMAP_LAZY) (-1) 0 t
      in if err \<noteq> 0 then (0, t1) else (p, t1))"

definition sysMapOS :: "'w libc \<Rightarrow> uintptr \<Rightarrow> uintptr \<Rightarrow> 'w thr \<Rightarrow> unit outcome \<times> 'w thr" where
  "sysMapOS L v n t =
     (let ((p, err), t1) = rt_mmap L v n (PROT_READ OR PROT_WRITE) (MAP_ANON OR MAP_FIXED OR MAP_PRIVATE) (-1) 0 t
      in if err = 12 then (Throw ''runtime: out of memory'', t1)
         else if p \<noteq> v \<or> err \<noteq> 0 then (Throw ''runtime: cannot map pages in arena address space'', t1)
         else (Ret (), t1))"

lemmas [libcall_defs] = perrno_val_def rt_fcntl_def rt_mmap_def rt_munmap_def sigprocmask_def sigaction_def

section \<open>Lemmas\<close>

text \<open>The trace of a runtime call, whatever its arity.\<close>

lemma sysvicall_trace [simp]:
  "t_calls (snd (sysvicall0 L fn t)) = t_calls t @ [(fn, [])]"
  "t_calls (snd (sysvicall1 L fn a1 t)) = t_calls t @ [(fn, [a1])]"
  "t_calls (snd (sysvicall1Err L fn a1 t)) = t_calls t @ [(fn, [a1])]"
  "t_calls (snd (sysvicall2 L fn a1 a2 t)) = t_calls t @ [(fn, [a1, a2])]"
  "t_calls (snd (sysvicall3 L fn a1 a2 a3 t)) = t_calls t @ [(fn, [a1, a2, a3])]"
  "t_calls (snd (sysvicall3Err L fn a1 a2 a3 t)) = t_calls t @ [(fn, [a1, a2, a3])]"
  "t_calls (snd (sysvicall4 L fn a1 a2 a3 a4 t)) = t_calls t @ [(fn, [a1, a2, a3, a4])]"
  by (simp_all add: sysvicall0_def sysvicall1_def sysvicall1Err_def sysvicall2_def sysvicall2Err_def sysvicall3_def
      sysvicall3Err_def sysvicall4_def sysvicallN_def libcall_leave_def libcall_enter_def asmsysvicall6_def
      libcall_init_def Let_def case_prod_beta)

lemma sigprocmask_trace [simp]:
  "t_calls (snd (sigprocmask L how new old t)) = t_calls t @ [(''libc_sigprocmask'',
     [AWord how, case new of None \<Rightarrow> ANull | Some s \<Rightarrow> ASigset s, case old of None \<Rightarrow> ANull | Some s \<Rightarrow> ASigset s])]"
  by (simp add: sigprocmask_def Let_def case_prod_beta)

text \<open>Membership of a signal number in a set.\<close>

definition sig_in :: "sigset \<Rightarrow> nat \<Rightarrow> bool" where
  "sig_in m i = (if i \<le> 32 then bit (ss_bits0 m) (i - 1) else bit (ss_bits1 m) (i - 33))"

lemma sig_index:
  assumes "1 \<le> i" and "i \<le> 64"
  shows "go_div (int i - 1) 32 = int ((i - 1) div 32)" and "unat (uptr (int i - 1) AND 31) = (i - 1) mod 32"
proof -
  have e: "int i - 1 = int (i - 1)" using assms by simp
  show "go_div (int i - 1) 32 = int ((i - 1) div 32)"
    unfolding e by (simp add: go_div_nonneg zdiv_int)
  have "uptr (int (i - 1)) = (of_nat (i - 1) :: u32)" by (simp add: uptr_def)
  moreover have "(31 :: u32) = mask 5" by (simp add: mask_eq_exp_minus_1)
  ultimately have "uptr (int i - 1) AND 31 = take_bit 5 (of_nat (i - 1))"
    unfolding e by (simp only: take_bit_eq_mask)
  then have "unat (uptr (int i - 1) AND 31) = take_bit 5 (unat (of_nat (i - 1) :: u32))"
    by (simp only: unsigned_take_bit_eq)
  also have "unat (of_nat k :: u32) = k" if "k < 64" for k
    using that by (simp add: unat_of_nat take_bit_eq_mod)
  from this [of "i - 1"] have "unat (of_nat (i - 1) :: u32) = i - 1" using assms by simp
  finally show "unat (uptr (int i - 1) AND 31) = (i - 1) mod 32" by (simp add: take_bit_eq_mod)
qed

lemma sig_word:
  fixes i :: nat
  assumes "1 \<le> i" and "i \<le> 64"
  shows "(i - 1) div 32 = (if i \<le> 32 then 0 else 1)" and "(i - 1) mod 32 = (if i \<le> 32 then i - 1 else i - 33)"
proof -
  have "(i - 1) div 32 = 0 \<and> (i - 1) mod 32 = i - 1" if "i \<le> 32" using that assms by simp
  moreover have "(i - 1) div 32 = 1 \<and> (i - 1) mod 32 = i - 33" if "\<not> i \<le> 32"
  proof -
    have "i - 1 = 32 * 1 + (i - 33)" "i - 33 < 32" using that assms by auto
    then show ?thesis by (metis div_mult_self4 mod_mult_self4 div_less mod_less add.commute add_0 zero_neq_numeral mult.commute)
  qed
  ultimately show "(i - 1) div 32 = (if i \<le> 32 then 0 else 1)" and "(i - 1) mod 32 = (if i \<le> 32 then i - 1 else i - 33)"
    by auto
qed

section \<open>Properties\<close>

text \<open>The absolute deadline a timed park passes to \<open>sem_timedwait\<close> is exactly the clock reading
  plus the timeout, with nanoseconds in [0, 10^9), for every non-negative timeout that does not leave
  the 32-bit second count.\<close>

theorem sem_deadline_exact:
  assumes "0 \<le> ns" and "ns < 2 ^ 62" and "0 \<le> ts_Nsec now" and "ts_Nsec now < 1000000000" and "0 \<le> ts_Sec now"
    and "ts_Sec now + ns div 1000000000 + 1 < 2 ^ 31"
  shows "ts_Sec (sem_deadline ns now) * 1000000000 + ts_Nsec (sem_deadline ns now)
      = ts_Sec now * 1000000000 + ts_Nsec now + ns
    \<and> 0 \<le> ts_Nsec (sem_deadline ns now) \<and> ts_Nsec (sem_deadline ns now) < 1000000000"
proof -
  let ?q = "ns div 1000000000" and ?r = "ns mod 1000000000"
  have q: "0 \<le> ?q" "0 \<le> ?r" "?r < 1000000000" "?q * 1000000000 + ?r = ns" using assms(1) by auto
  have r2: "?r + ts_Nsec now < 2000000000" using q assms by linarith
  have i: "int64 (?q + ts_Sec now) = ?q + ts_Sec now" "int64 (?r + ts_Nsec now) = ?r + ts_Nsec now"
    using q assms r2 by (auto intro!: int64_id)
  have d: "go_div ns 1000000000 = ?q" "go_mod ns 1000000000 = ?r"
    using assms(1) by (simp_all add: go_div_nonneg go_mod_nonneg)
  show ?thesis
  proof (cases "?r + ts_Nsec now \<ge> 1000000000")
    case True
    have "int32 (?q + ts_Sec now + 1) = ?q + ts_Sec now + 1"
      "int32 (?r + ts_Nsec now - 1000000000) = ?r + ts_Nsec now - 1000000000"
      using q assms True r2 by (auto intro!: int32_id)
    with True i d q r2 assms show ?thesis by (simp add: sem_deadline_def Let_def)
  next
    case False
    have "int32 (?q + ts_Sec now) = ?q + ts_Sec now" "int32 (?r + ts_Nsec now) = ?r + ts_Nsec now"
      using q assms False by (auto intro!: int32_id)
    with False i d q assms show ?thesis by (simp add: sem_deadline_def Let_def)
  qed
qed

theorem sem_deadline_exact_witness:
  "ts_Nsec (sem_deadline 1500000000 \<lparr>ts_Sec = 100, ts_Nsec = 700000000\<rparr>) < 1000000000"
  using sem_deadline_exact [of 1500000000 "\<lparr>ts_Sec = 100, ts_Nsec = 700000000\<rparr>"] by simp

text \<open>The corrected wall clock is the system clock plus the offset, normalised, as long as the sum
  is not negative; a negative sum yields negative nanoseconds.\<close>

theorem walltime_exact:
  assumes "0 \<le> ts_Nsec ts" and "ts_Nsec ts < 1000000000" and "- (2 ^ 31) \<le> ts_Sec ts" and "ts_Sec ts < 2 ^ 31"
    and "- (2 ^ 62) \<le> off" and "off < 2 ^ 62"
    and "walltime_of (setQnxWallOffset off) ts = (sec, nsec)"
  shows "sec * 1000000000 + nsec = ts_Sec ts * 1000000000 + ts_Nsec ts + off
    \<and> (0 \<le> ts_Sec ts * 1000000000 + ts_Nsec ts + off \<and> off \<noteq> 0 \<longrightarrow> 0 \<le> nsec \<and> nsec < 1000000000)
    \<and> (ts_Sec ts * 1000000000 + ts_Nsec ts + off < 0 \<and> off \<noteq> 0 \<longrightarrow> nsec \<le> 0)"
proof -
  let ?B = "1000000000 :: int"
  define c where "c = ts_Sec ts * ?B + ts_Nsec ts"
  have c: "- (2 ^ 31) * ?B \<le> c" "c < 2 ^ 31 * ?B" using assms(1-4) by (auto simp: c_def)
  have "sint (setQnxWallOffset off) = int64 off"
    by (simp add: setQnxWallOffset_def int64_def signed_of_int)
  then have off: "sint (setQnxWallOffset off) = off" using assms(5,6) by (simp add: int64_id)
  show ?thesis
  proof (cases "off = 0")
    case True
    with off assms(7) show ?thesis by (auto simp: walltime_of_def)
  next
    case False
    have "int64 c = c" "int64 (c + off) = c + off" using c assms(5,6) by (auto intro!: int64_id)
    then have eq: "sec = go_div (c + off) ?B" "nsec = int32 (go_mod (c + off) ?B)"
      using off False assms(7) by (auto simp: walltime_of_def Let_def c_def)
    show ?thesis
    proof (cases "0 \<le> c + off")
      case True
      have "0 \<le> (c + off) mod ?B" "(c + off) mod ?B < ?B" by simp_all
      moreover have "int32 ((c + off) mod ?B) = (c + off) mod ?B" using calculation by (intro int32_id) auto
      ultimately have ns: "sec = (c + off) div ?B" "nsec = (c + off) mod ?B" "0 \<le> nsec" "nsec < ?B"
        using eq True by (auto simp: go_div_nonneg go_mod_nonneg)
      have "(c + off) div ?B * ?B + (c + off) mod ?B = c + off" by simp
      with ns True show ?thesis unfolding c_def by simp
    next
      case neg: False
      have m: "0 \<le> - (c + off) mod ?B" "- (c + off) mod ?B < ?B" by simp_all
      have g: "go_mod (c + off) ?B = - (- (c + off) mod ?B)" using neg by (simp add: go_mod_neg)
      have "int32 (go_mod (c + off) ?B) = go_mod (c + off) ?B" by (intro int32_id) (use m in \<open>simp_all add: g\<close>)
      with eq have ns: "nsec = go_mod (c + off) ?B" by simp
      have "nsec \<le> 0" using ns g m by linarith
      moreover have "sec * ?B + nsec = c + off" using eq(1) ns go_div_mod [of "c + off" ?B] by simp
      ultimately show ?thesis using neg unfolding c_def by simp
    qed
  qed
qed

theorem walltime_exact_witness:
  "fst (walltime_of (setQnxWallOffset 1600000000000000000) \<lparr>ts_Sec = 5, ts_Nsec = 0\<rparr>) = 1600000005"
proof -
  obtain sec nsec where w: "walltime_of (setQnxWallOffset 1600000000000000000) \<lparr>ts_Sec = 5, ts_Nsec = 0\<rparr> = (sec, nsec)"
    by fastforce
  have "sec * 1000000000 + nsec = 1600000005 * 1000000000 \<and> 0 \<le> nsec \<and> nsec < 1000000000"
    using walltime_exact [OF _ _ _ _ _ _ w] by simp
  then have "sec = 1600000005" by presburger
  with w show ?thesis by simp
qed

text \<open>Signal masks are sets: adding a signal number between 1 and 64 makes it a member and deleting
  it removes it, every other number keeps its membership, no index is out of range, and the table that
  \<open>initsig\<close> indexes has one entry per signal number.\<close>

theorem sigset_ops:
  assumes "1 \<le> i" and "i \<le> 64"
  shows "\<exists>m1 m2. sigaddset m (int i) = Ret m1 \<and> sigdelset m (int i) = Ret m2
    \<and> (\<forall>j. 1 \<le> j \<and> j \<le> 64 \<longrightarrow> sig_in m1 j = (j = i \<or> sig_in m j) \<and> sig_in m2 j = (j \<noteq> i \<and> sig_in m j))
    \<and> sigtable_len = NSIG"
proof -
  note ix = sig_index [OF assms] sig_word [OF assms]
  have len: "sigtable_len = NSIG" by (simp add: sigtable_len_def sigtable_def)
  have b: "bit (push_bit k 1 :: u32) n \<longleftrightarrow> n = k" if "k < 32" "n < 32" for k n
    using that by (auto simp: bit_simps)
  show ?thesis
  proof (cases "i \<le> 32")
    case True
    have "sigaddset m (int i) = Ret (m\<lparr>ss_bits0 := ss_bits0 m OR push_bit (i - 1) 1\<rparr>)"
      and "sigdelset m (int i) = Ret (m\<lparr>ss_bits0 := ss_bits0 m AND NOT (push_bit (i - 1) 1)\<rparr>)"
      using True ix by (simp_all add: sigaddset_def sigdelset_def Let_def)
    then show ?thesis using len True assms b [of "i - 1"]
      by (auto simp: sig_in_def bit_or_iff bit_and_iff bit_not_iff)
  next
    case False
    have "sigaddset m (int i) = Ret (m\<lparr>ss_bits1 := ss_bits1 m OR push_bit (i - 33) 1\<rparr>)"
      and "sigdelset m (int i) = Ret (m\<lparr>ss_bits1 := ss_bits1 m AND NOT (push_bit (i - 33) 1)\<rparr>)"
      using False ix by (simp_all add: sigaddset_def sigdelset_def Let_def)
    then show ?thesis using len False assms b [of "i - 33"]
      by (auto simp: sig_in_def bit_or_iff bit_and_iff bit_not_iff)
  qed
qed

theorem sigset_ops_witness:
  "\<exists>m1. sigaddset sigset_none 33 = Ret m1 \<and> sig_in m1 33 \<and> \<not> sig_in m1 1"
proof -
  have n: "\<not> sig_in sigset_none j" for j by (simp add: sig_in_def sigset_none_def)
  obtain m1 m2 where "sigaddset sigset_none (int 33) = Ret m1"
    "\<forall>j. 1 \<le> j \<and> j \<le> 64 \<longrightarrow> sig_in m1 j = (j = 33 \<or> sig_in sigset_none j) \<and> sig_in m2 j = (j \<noteq> 33 \<and> sig_in sigset_none j)"
    using sigset_ops [of 33 sigset_none] by auto
  then show ?thesis using n by (intro exI [of _ m1]) auto
qed

text \<open>A thread is created with every signal blocked, and the creator's mask is back in place when
  \<open>newosproc\<close> ends, whether the creation succeeded or \<open>newosproc\<close> throws because it failed.\<close>

theorem newosproc_masks:
  assumes "newosproc L mp t = (r, t')" and "r = Ret () \<or> r = Throw ''newosproc''"
  shows "\<exists>pre oset attr. t_calls t' = t_calls t @ pre
      @ [(''libc_sigprocmask'', [AWord SIG_SETMASK, ASigset sigset_all, ASigset sigset_none]),
         (''libc_pthread_create'', [AU32s [0], attr, AFn ''tstart'', AWord mp]),
         (''libc_sigprocmask'', [AWord SIG_SETMASK, ASigset oset, ANull])]
      \<and> length pre = 3"
proof -
  obtain r1 as1 t1 where c1: "sysvicall1 L ''libc_pthread_attr_init'' (AHandle 0) t = ((r1, as1), t1)" by (metis prod.collapse)
  obtain r2 as2 t2 where c2: "sysvicall2 L ''libc_pthread_attr_setstacksize'' (argat as1 0) (AWord 0x200000) t1 = ((r2, as2), t2)"
    by (metis prod.collapse)
  obtain r3 as3 t3 where c3: "sysvicall2 L ''libc_pthread_attr_setdetachstate'' (argat as2 0) (AWord 1) t2 = ((r3, as3), t3)"
    by (metis prod.collapse)
  obtain o4 t4 where c4: "sigprocmask L SIG_SETMASK (Some sigset_all) (Some sigset_none) t3 = (o4, t4)" by (metis prod.collapse)
  then obtain oset where o4: "o4 = Some oset" by (auto simp: sigprocmask_def Let_def case_prod_beta)
  obtain r5 as5 t5 where c5: "sysvicall4 L ''libc_pthread_create'' (AU32s [0]) (argat as3 0) (AFn ''tstart'') (AWord mp) t4 = ((r5, as5), t5)"
    by (metis prod.collapse)
  from assms c1 c2 c3 c4 c5 o4 have z: "r1 = 0" "r2 = 0" "r3 = 0"
    by (auto simp: newosproc_def Let_def split: if_splits)
  then have "t' = snd (sigprocmask L SIG_SETMASK (Some oset) None t5)"
    using assms(1) c1 c2 c3 c4 c5 o4 by (auto simp: newosproc_def Let_def case_prod_beta split: if_splits)
  then have "t_calls t' = t_calls t5 @ [(''libc_sigprocmask'', [AWord SIG_SETMASK, ASigset oset, ANull])]" by simp
  moreover have "t_calls t5 = t_calls t4 @ [(''libc_pthread_create'', [AU32s [0], argat as3 0, AFn ''tstart'', AWord mp])]"
    using c5 sysvicall_trace(7) by (metis snd_conv)
  moreover have "t_calls t4 = t_calls t3 @ [(''libc_sigprocmask'', [AWord SIG_SETMASK, ASigset sigset_all, ASigset sigset_none])]"
    using c4 sigprocmask_trace [of L SIG_SETMASK "Some sigset_all" "Some sigset_none" t3] by simp
  moreover have "t_calls t3 = t_calls t @ [(''libc_pthread_attr_init'', [AHandle 0]),
      (''libc_pthread_attr_setstacksize'', [argat as1 0, AWord 0x200000]),
      (''libc_pthread_attr_setdetachstate'', [argat as2 0, AWord 1])]"
    using sysvicall_trace(2) [of L "''libc_pthread_attr_init''" "AHandle 0" t]
      sysvicall_trace(4) [of L "''libc_pthread_attr_setstacksize''" "argat as1 0" "AWord 0x200000" t1]
      sysvicall_trace(4) [of L "''libc_pthread_attr_setdetachstate''" "argat as2 0" "AWord 1" t2] c1 c2 c3
    by simp
  ultimately show ?thesis by (intro exI) auto
qed

theorem newosproc_masks_witness:
  "\<exists>pre oset attr. t_calls (snd (newosproc (\<lambda>fn as e w. (0, 0, 0, as, w)) 0x100 (thr_of (0 :: nat)))) = [] @ pre
      @ [(''libc_sigprocmask'', [AWord SIG_SETMASK, ASigset sigset_all, ASigset sigset_none]),
         (''libc_pthread_create'', [AU32s [0], attr, AFn ''tstart'', AWord 0x100]),
         (''libc_sigprocmask'', [AWord SIG_SETMASK, ASigset oset, ANull])] \<and> length pre = 3"
proof -
  let ?L = "\<lambda>fn as e w. (0, 0, 0, as, w)"
  let ?r = "newosproc ?L 0x100 (thr_of (0 :: nat))"
  have z: "fst (fst (sysvicall1 ?L f a t)) = 0" "fst (fst (sysvicall2 ?L f a b t)) = 0"
    "fst (fst (sysvicall4 ?L f a b c d t)) = 0" for f a b c d and t :: "nat thr"
    by (simp_all add: libcall_defs)
  have run: "?r = (fst ?r, snd ?r)" by (simp only: prod.collapse)
  have ok: "fst ?r = Ret ()" by (simp add: newosproc_def Let_def case_prod_beta z)
  have e: "t_calls (thr_of (0 :: nat)) = []" by (simp add: thr_of_def)
  from newosproc_masks [OF run disjI1 [OF ok]] show ?thesis unfolding e .
qed

text \<open>Mapping memory never lies: \<open>sysMapOS\<close> returns only when the kernel mapped exactly the pages
  asked for, and throws otherwise, with the out-of-memory message exactly when \<open>mmap\<close> failed with
  \<open>ENOMEM\<close>.\<close>

theorem mapping_checked:
  assumes "rt_sysvicall6 L ''libc_mmap'' (AWord v) (AWord n) (U (PROT_READ OR PROT_WRITE))
      (U (MAP_ANON OR MAP_FIXED OR MAP_PRIVATE)) (U (-1)) (AWord 0) t = ((r, as), t1)"
    and "v \<noteq> NOT 0" and "v \<noteq> 0"
  shows "(fst (sysMapOS L v n t) = Ret () \<longleftrightarrow> r = v)
    \<and> (fst (sysMapOS L v n t) = Throw ''runtime: out of memory'' \<longleftrightarrow> r = NOT 0 \<and> perrno_val t1 = 12)"
  using assms by (auto simp: sysMapOS_def rt_mmap_def Let_def)

theorem mapping_checked_witness:
  "fst (sysMapOS (\<lambda>fn as e w. (0x10000, 0, 0, as, w)) 0x10000 4096 (thr_of ())) = Ret ()"
proof -
  let ?L = "\<lambda>fn as e w. (0x10000, 0, 0, as, w)"
  let ?c = "rt_sysvicall6 ?L ''libc_mmap'' (AWord 0x10000) (AWord 4096) (U (PROT_READ OR PROT_WRITE))
      (U (MAP_ANON OR MAP_FIXED OR MAP_PRIVATE)) (U (-1)) (AWord 0) (thr_of ())"
  have "fst (fst ?c) = 0x10000" by (simp add: libcall_defs)
  then have "?c = ((0x10000, snd (fst ?c)), snd ?c)" by (metis prod.collapse)
  from mapping_checked [OF this] show ?thesis by simp
qed

text \<open>\<open>readRandom\<close> always reports a full buffer: its count is the buffer's length whatever
  \<open>/dev/random\<close> delivered, so the caller's test for a short read never fires.\<close>

theorem readRandom_reports_full:
  "fst (fst (readRandom L r t)) = int (length r)"
  by (simp add: readRandom_def Let_def case_prod_beta)

end
