(* ===== verification/Poll_Desc.thy ===== *)
theory Poll_Desc
  imports Qnx_Types
begin

text \<open>
  The platform-independent half of the network poller, \<open>runtime/netpoll.go\<close>: the descriptor
  \<open>pollDesc\<close> with its two binary semaphores and its summary word \<open>atomicInfo\<close>, deadlines and
  their timers, and the operations \<open>internal/poll\<close> calls. Each function is one sequential
  execution: its compare-and-swap loops succeed at the first attempt, since every caller either
  holds the descriptor's lock or is the only one to change the word. Theory \<open>Poll_Runtime\<close> runs a
  waiter on one semaphore against an arbitrary rest of the program. Timers are
  modelled by what \<open>modify\<close> and \<open>stop\<close> leave behind: the pending call, or none.
\<close>

section \<open>The descriptor\<close>

datatype gsem = PdNil | PdReady | PdWait | PdG nat

datatype deadline_fn = DRead | DWrite | DBoth

record timer =
  tm_when :: int
  tm_fn :: deadline_fn
  tm_seq :: u32

record pollDesc =
  pd_fd :: u32
  pd_fdseq :: u32
  pd_atomicInfo :: u32
  pd_rg :: gsem
  pd_wg :: gsem
  pd_closing :: bool
  pd_rrun :: bool
  pd_wrun :: bool
  pd_user :: u32
  pd_rseq :: u32
  pd_rt :: "timer option"
  pd_rd :: int
  pd_wseq :: u32
  pd_wt :: "timer option"
  pd_wd :: int

abbreviation pollNoError :: int where "pollNoError \<equiv> 0"
abbreviation pollErrClosing :: int where "pollErrClosing \<equiv> 1"
abbreviation pollErrTimeout :: int where "pollErrTimeout \<equiv> 2"
abbreviation pollErrNotPollable :: int where "pollErrNotPollable \<equiv> 3"

abbreviation pollClosing :: u32 where "pollClosing \<equiv> 1"
abbreviation pollEventErr :: u32 where "pollEventErr \<equiv> 2"
abbreviation pollExpiredReadDeadline :: u32 where "pollExpiredReadDeadline \<equiv> 4"
abbreviation pollExpiredWriteDeadline :: u32 where "pollExpiredWriteDeadline \<equiv> 8"
abbreviation pollFDSeq :: nat where "pollFDSeq \<equiv> 16"
abbreviation pollFDSeqMask :: u32 where "pollFDSeqMask \<equiv> 0xFFFFF"

text \<open>The modes: the characters r and w, and their sum.\<close>

abbreviation mode_r :: int where "mode_r \<equiv> 114"
abbreviation mode_w :: int where "mode_w \<equiv> 119"
abbreviation mode_rw :: int where "mode_rw \<equiv> 233"

definition info_closing :: "u32 \<Rightarrow> bool" where "info_closing i \<longleftrightarrow> i AND pollClosing \<noteq> 0"
definition info_eventErr :: "u32 \<Rightarrow> bool" where "info_eventErr i \<longleftrightarrow> i AND pollEventErr \<noteq> 0"
definition info_expiredRead :: "u32 \<Rightarrow> bool" where "info_expiredRead i \<longleftrightarrow> i AND pollExpiredReadDeadline \<noteq> 0"
definition info_expiredWrite :: "u32 \<Rightarrow> bool" where "info_expiredWrite i \<longleftrightarrow> i AND pollExpiredWriteDeadline \<noteq> 0"

section \<open>The summary word\<close>

definition pd_info_bits :: "pollDesc \<Rightarrow> u32" where
  "pd_info_bits pd =
     (if pd_closing pd then pollClosing else 0)
     OR (if pd_rd pd < 0 then pollExpiredReadDeadline else 0)
     OR (if pd_wd pd < 0 then pollExpiredWriteDeadline else 0)
     OR push_bit pollFDSeq (pd_fdseq pd AND pollFDSeqMask)"

definition publishInfo :: "pollDesc \<Rightarrow> pollDesc" where
  "publishInfo pd = pd\<lparr>pd_atomicInfo := (pd_atomicInfo pd AND pollEventErr) OR pd_info_bits pd\<rparr>"

definition setEventErr :: "bool \<Rightarrow> u32 \<Rightarrow> pollDesc \<Rightarrow> pollDesc" where
  "setEventErr b seq pd =
     (let mSeq = seq AND pollFDSeqMask;
          x = pd_atomicInfo pd;
          xSeq = drop_bit pollFDSeq x AND pollFDSeqMask
      in if seq \<noteq> 0 \<and> xSeq \<noteq> mSeq then pd
         else if (x AND pollEventErr \<noteq> 0) \<noteq> b then pd\<lparr>pd_atomicInfo := x XOR pollEventErr\<rparr>
         else pd)"

definition netpollcheckerr :: "pollDesc \<Rightarrow> int \<Rightarrow> int" where
  "netpollcheckerr pd mode =
     (let info = pd_atomicInfo pd
      in if info_closing info then pollErrClosing
         else if (mode = mode_r \<and> info_expiredRead info) \<or> (mode = mode_w \<and> info_expiredWrite info)
         then pollErrTimeout
         else if mode = mode_r \<and> info_eventErr info then pollErrNotPollable
         else pollNoError)"

section \<open>The semaphores\<close>

definition gpp :: "int \<Rightarrow> pollDesc \<Rightarrow> gsem" where
  "gpp mode pd = (if mode = mode_w then pd_wg pd else pd_rg pd)"

definition set_gpp :: "int \<Rightarrow> gsem \<Rightarrow> pollDesc \<Rightarrow> pollDesc" where
  "set_gpp mode v pd = (if mode = mode_w then pd\<lparr>pd_wg := v\<rparr> else pd\<lparr>pd_rg := v\<rparr>)"

definition netpollunblock :: "int \<Rightarrow> bool \<Rightarrow> int \<Rightarrow> pollDesc \<Rightarrow> nat option \<times> int \<times> pollDesc" where
  "netpollunblock mode ioready delta pd =
     (let old = gpp mode pd
      in if old = PdReady then (None, delta, pd)
         else if old = PdNil \<and> \<not> ioready then (None, delta, pd)
         else (let pd' = set_gpp mode (if ioready then PdReady else PdNil) pd
               in case old of PdG g \<Rightarrow> (Some g, delta - 1, pd') | _ \<Rightarrow> (None, delta, pd')))"

text \<open>\<open>toRun.push\<close> puts the goroutine in front.\<close>

definition gpush :: "nat option \<Rightarrow> nat list \<Rightarrow> nat list" where
  "gpush g toRun = (case g of None \<Rightarrow> toRun | Some x \<Rightarrow> x # toRun)"

definition netpollready :: "nat list \<Rightarrow> int \<Rightarrow> pollDesc \<Rightarrow> int \<times> nat list \<times> pollDesc" where
  "netpollready toRun mode pd =
     (let (rg, delta1, pd1) = (if mode = mode_r \<or> mode = mode_rw then netpollunblock mode_r True 0 pd else (None, 0, pd));
          (wg, delta2, pd2) = (if mode = mode_w \<or> mode = mode_rw then netpollunblock mode_w True delta1 pd1
                               else (None, delta1, pd1))
      in (delta2, gpush wg (gpush rg toRun), pd2))"

definition netpollAdjustWaiters :: "int \<Rightarrow> u32 \<Rightarrow> u32" where
  "netpollAdjustWaiters delta waiters = (if delta \<noteq> 0 then waiters + word_of_int delta else waiters)"

definition netpollAnyWaiters :: "u32 \<Rightarrow> bool" where
  "netpollAnyWaiters waiters \<longleftrightarrow> waiters > 0"

section \<open>Operations of internal/poll\<close>

text \<open>Opening: the reset that \<open>poll_runtime_pollOpen\<close> does under the descriptor's lock.\<close>

definition blocked :: "gsem \<Rightarrow> bool" where
  "blocked s \<longleftrightarrow> s \<noteq> PdNil \<and> s \<noteq> PdReady"

definition pollOpen_reset :: "u32 \<Rightarrow> pollDesc \<Rightarrow> pollDesc outcome" where
  "pollOpen_reset fd pd =
     (if blocked (pd_wg pd) then Throw ''runtime: blocked write on free polldesc''
      else if blocked (pd_rg pd) then Throw ''runtime: blocked read on free polldesc''
      else (let pd1 = pd\<lparr>pd_fd := fd, pd_fdseq := (if pd_fdseq pd = 0 then 1 else pd_fdseq pd), pd_closing := False\<rparr>;
                pd2 = setEventErr False 0 pd1;
                pd3 = pd2\<lparr>pd_rseq := pd_rseq pd2 + 1, pd_rg := PdNil, pd_rd := 0,
                          pd_wseq := pd_wseq pd2 + 1, pd_wg := PdNil, pd_wd := 0\<rparr>
            in Ret (publishInfo pd3)))"

text \<open>Closing: the checks of \<open>poll_runtime_pollClose\<close>, and what \<open>pollcache.free\<close> changes.\<close>

definition pollClose_check :: "pollDesc \<Rightarrow> unit outcome" where
  "pollClose_check pd =
     (if \<not> pd_closing pd then Throw ''runtime: close polldesc w/o unblock''
      else if blocked (pd_wg pd) then Throw ''runtime: blocked write on closing polldesc''
      else if blocked (pd_rg pd) then Throw ''runtime: blocked read on closing polldesc''
      else Ret ())"

definition pollcache_free :: "pollDesc \<Rightarrow> pollDesc" where
  "pollcache_free pd = publishInfo (pd\<lparr>pd_fdseq := (pd_fdseq pd + 1) AND 0xFFFFFFFF\<rparr>)"

definition poll_runtime_pollReset :: "int \<Rightarrow> pollDesc \<Rightarrow> int \<times> pollDesc" where
  "poll_runtime_pollReset mode pd =
     (let errcode = netpollcheckerr pd mode
      in if errcode \<noteq> pollNoError then (errcode, pd)
         else if mode = mode_r then (pollNoError, pd\<lparr>pd_rg := PdNil\<rparr>)
         else if mode = mode_w then (pollNoError, pd\<lparr>pd_wg := PdNil\<rparr>)
         else (pollNoError, pd))"

text \<open>\<open>netpollgoready\<close> of what an unblocking returned, in the order r, w.\<close>

definition readied :: "nat option \<Rightarrow> nat option \<Rightarrow> nat list" where
  "readied rg wg = (case rg of None \<Rightarrow> [] | Some g \<Rightarrow> [g]) @ (case wg of None \<Rightarrow> [] | Some g \<Rightarrow> [g])"

definition arm_read :: "int \<Rightarrow> bool \<Rightarrow> pollDesc \<Rightarrow> pollDesc" where
  "arm_read rd0 combo0 pd =
     (let combo = pd_rd pd > 0 \<and> pd_rd pd = pd_wd pd;
          rtf = (if combo then DBoth else DRead)
      in if \<not> pd_rrun pd
         then (if pd_rd pd > 0
               then pd\<lparr>pd_rt := Some \<lparr>tm_when = pd_rd pd, tm_fn = rtf, tm_seq = pd_rseq pd\<rparr>, pd_rrun := True\<rparr>
               else pd)
         else if pd_rd pd \<noteq> rd0 \<or> combo \<noteq> combo0
         then (let pd1 = pd\<lparr>pd_rseq := pd_rseq pd + 1\<rparr>
               in if pd_rd pd1 > 0
                  then pd1\<lparr>pd_rt := Some \<lparr>tm_when = pd_rd pd1, tm_fn = rtf, tm_seq = pd_rseq pd1\<rparr>\<rparr>
                  else pd1\<lparr>pd_rt := None, pd_rrun := False\<rparr>)
         else pd)"

definition arm_write :: "int \<Rightarrow> bool \<Rightarrow> pollDesc \<Rightarrow> pollDesc" where
  "arm_write wd0 combo0 pd =
     (let combo = pd_rd pd > 0 \<and> pd_rd pd = pd_wd pd
      in if \<not> pd_wrun pd
         then (if pd_wd pd > 0 \<and> \<not> combo
               then pd\<lparr>pd_wt := Some \<lparr>tm_when = pd_wd pd, tm_fn = DWrite, tm_seq = pd_wseq pd\<rparr>, pd_wrun := True\<rparr>
               else pd)
         else if pd_wd pd \<noteq> wd0 \<or> combo \<noteq> combo0
         then (let pd1 = pd\<lparr>pd_wseq := pd_wseq pd + 1\<rparr>
               in if pd_wd pd1 > 0 \<and> \<not> combo
                  then pd1\<lparr>pd_wt := Some \<lparr>tm_when = pd_wd pd1, tm_fn = DWrite, tm_seq = pd_wseq pd1\<rparr>\<rparr>
                  else pd1\<lparr>pd_wt := None, pd_wrun := False\<rparr>)
         else pd)"

definition deadline_at :: "int \<Rightarrow> int \<Rightarrow> int" where
  "deadline_at now d =
     (if d > 0 then (let d' = int64 (d + now) in if d' \<le> 0 then 2 ^ 63 - 1 else d') else d)"

definition set_deadlines :: "int \<Rightarrow> int \<Rightarrow> pollDesc \<Rightarrow> pollDesc" where
  "set_deadlines d mode pd =
     (let pd1 = (if mode = mode_r \<or> mode = mode_rw then pd\<lparr>pd_rd := d\<rparr> else pd)
      in if mode = mode_w \<or> mode = mode_rw then pd1\<lparr>pd_wd := d\<rparr> else pd1)"

definition unblock_expired :: "pollDesc \<Rightarrow> nat list \<times> int \<times> pollDesc" where
  "unblock_expired pd =
     (let (rg, delta1, pd1) = (if pd_rd pd < 0 then netpollunblock mode_r False 0 pd else (None, 0, pd));
          (wg, delta2, pd2) = (if pd_wd pd < 0 then netpollunblock mode_w False delta1 pd1 else (None, delta1, pd1))
      in (readied rg wg, delta2, pd2))"

definition poll_runtime_pollSetDeadline ::
  "int \<Rightarrow> int \<Rightarrow> int \<Rightarrow> pollDesc \<Rightarrow> u32 \<Rightarrow> nat list \<times> pollDesc \<times> u32" where
  "poll_runtime_pollSetDeadline now d mode pd waiters =
     (if pd_closing pd then ([], pd, waiters)
      else
        let combo0 = pd_rd pd > 0 \<and> pd_rd pd = pd_wd pd;
            pd1 = publishInfo (set_deadlines (deadline_at now d) mode pd);
            pd2 = arm_write (pd_wd pd) combo0 (arm_read (pd_rd pd) combo0 pd1);
            (gs, delta, pd3) = unblock_expired pd2
        in (gs, pd3, netpollAdjustWaiters delta waiters))"

definition unblock_both :: "pollDesc \<Rightarrow> nat list \<times> int \<times> pollDesc" where
  "unblock_both pd =
     (let (rg, delta1, pd1) = netpollunblock mode_r False 0 pd;
          (wg, delta2, pd2) = netpollunblock mode_w False delta1 pd1
      in (readied rg wg, delta2, pd2))"

definition stop_timers :: "pollDesc \<Rightarrow> pollDesc" where
  "stop_timers pd =
     (let pd1 = (if pd_rrun pd then pd\<lparr>pd_rt := None, pd_rrun := False\<rparr> else pd)
      in if pd_wrun pd1 then pd1\<lparr>pd_wt := None, pd_wrun := False\<rparr> else pd1)"

definition poll_runtime_pollUnblock :: "pollDesc \<Rightarrow> u32 \<Rightarrow> (nat list \<times> pollDesc \<times> u32) outcome" where
  "poll_runtime_pollUnblock pd waiters =
     (if pd_closing pd then Throw ''runtime: unblock on closing polldesc''
      else
        let pd1 = publishInfo (pd\<lparr>pd_closing := True, pd_rseq := pd_rseq pd + 1, pd_wseq := pd_wseq pd + 1\<rparr>);
            (gs, delta, pd2) = unblock_both pd1
        in Ret (gs, stop_timers pd2, netpollAdjustWaiters delta waiters))"

definition netpolldeadlineimpl ::
  "u32 \<Rightarrow> bool \<Rightarrow> bool \<Rightarrow> pollDesc \<Rightarrow> u32 \<Rightarrow> (nat list \<times> pollDesc \<times> u32) outcome" where
  "netpolldeadlineimpl seq rd wr pd waiters =
     (let currentSeq = (if \<not> rd then pd_wseq pd else pd_rseq pd)
      in if seq \<noteq> currentSeq then Ret ([], pd, waiters)
         else if rd \<and> (pd_rd pd \<le> 0 \<or> \<not> pd_rrun pd) then Throw ''runtime: inconsistent read deadline''
         else
           let (rg, delta1, pd1) = (if rd then netpollunblock mode_r False 0 (publishInfo (pd\<lparr>pd_rd := -1\<rparr>))
                                    else (None, 0, pd))
           in if wr \<and> (pd_wd pd1 \<le> 0 \<or> \<not> pd_wrun pd1 \<and> \<not> rd) then Throw ''runtime: inconsistent write deadline''
              else
                let (wg, delta2, pd2) = (if wr then netpollunblock mode_w False delta1 (publishInfo (pd1\<lparr>pd_wd := -1\<rparr>))
                                         else (None, delta1, pd1))
                in Ret (readied rg wg, pd2, netpollAdjustWaiters delta2 waiters))"

text \<open>The timer callbacks: \<open>netpollDeadline\<close>, \<open>netpollReadDeadline\<close>, \<open>netpollWriteDeadline\<close>.\<close>

definition netpollDeadlineFn :: "deadline_fn \<Rightarrow> u32 \<Rightarrow> pollDesc \<Rightarrow> u32 \<Rightarrow> (nat list \<times> pollDesc \<times> u32) outcome" where
  "netpollDeadlineFn f seq pd waiters =
     (case f of DBoth \<Rightarrow> netpolldeadlineimpl seq True True pd waiters
      | DRead \<Rightarrow> netpolldeadlineimpl seq True False pd waiters
      | DWrite \<Rightarrow> netpolldeadlineimpl seq False True pd waiters)"

text \<open>The runtime fires a timer by taking it off the heap and running its function.\<close>

definition fire_read_timer :: "pollDesc \<Rightarrow> u32 \<Rightarrow> (nat list \<times> pollDesc \<times> u32) outcome" where
  "fire_read_timer pd waiters =
     (case pd_rt pd of None \<Rightarrow> Ret ([], pd, waiters)
      | Some tm \<Rightarrow> netpollDeadlineFn (tm_fn tm) (tm_seq tm) (pd\<lparr>pd_rt := None\<rparr>) waiters)"

definition fire_write_timer :: "pollDesc \<Rightarrow> u32 \<Rightarrow> (nat list \<times> pollDesc \<times> u32) outcome" where
  "fire_write_timer pd waiters =
     (case pd_wt pd of None \<Rightarrow> Ret ([], pd, waiters)
      | Some tm \<Rightarrow> netpollDeadlineFn (tm_fn tm) (tm_seq tm) (pd\<lparr>pd_wt := None\<rparr>) waiters)"

section \<open>Blocking\<close>

text \<open>
  \<open>netpollblock\<close> gives up the processor in the middle, so it is three pieces: up to the decision
  to park, the commit that the scheduler runs, and what follows when the goroutine runs again.
\<close>

datatype block_step = BReady | BPrepared | BDoubleWait

definition netpollblock_prepare :: "int \<Rightarrow> pollDesc \<Rightarrow> block_step \<times> pollDesc" where
  "netpollblock_prepare mode pd =
     (case gpp mode pd of
        PdReady \<Rightarrow> (BReady, set_gpp mode PdNil pd)
      | PdNil \<Rightarrow> (BPrepared, set_gpp mode PdWait pd)
      | _ \<Rightarrow> (BDoubleWait, pd))"

definition netpollblockcommit :: "int \<Rightarrow> nat \<Rightarrow> pollDesc \<Rightarrow> u32 \<Rightarrow> bool \<times> pollDesc \<times> u32" where
  "netpollblockcommit mode g pd waiters =
     (if gpp mode pd = PdWait then (True, set_gpp mode (PdG g) pd, netpollAdjustWaiters 1 waiters)
      else (False, pd, waiters))"

definition netpollblock_finish :: "int \<Rightarrow> pollDesc \<Rightarrow> bool outcome \<times> pollDesc" where
  "netpollblock_finish mode pd =
     (let old = gpp mode pd; pd' = set_gpp mode PdNil pd
      in case old of PdG g \<Rightarrow> (Throw ''runtime: corrupted polldesc'', pd')
         | _ \<Rightarrow> (Ret (old = PdReady), pd'))"

section \<open>The summary word, bit by bit\<close>

lemma info_bits:
  "info_closing i \<longleftrightarrow> bit i 0" "info_eventErr i \<longleftrightarrow> bit i 1"
  "info_expiredRead i \<longleftrightarrow> bit i 2" "info_expiredWrite i \<longleftrightarrow> bit i 3"
  using and_exp_eq_0_iff_not_bit [of i 0] and_exp_eq_0_iff_not_bit [of i 1]
    and_exp_eq_0_iff_not_bit [of i 2] and_exp_eq_0_iff_not_bit [of i 3]
  by (simp_all add: info_closing_def info_eventErr_def info_expiredRead_def info_expiredWrite_def)

text \<open>The summary agrees with the fields it summarises.\<close>

definition info_ok :: "pollDesc \<Rightarrow> bool" where
  "info_ok pd \<longleftrightarrow> (info_closing (pd_atomicInfo pd) \<longleftrightarrow> pd_closing pd)
     \<and> (info_expiredRead (pd_atomicInfo pd) \<longleftrightarrow> pd_rd pd < 0)
     \<and> (info_expiredWrite (pd_atomicInfo pd) \<longleftrightarrow> pd_wd pd < 0)"

lemma publishInfo_bits:
  "bit (pd_atomicInfo (publishInfo pd)) 0 = pd_closing pd"
  "bit (pd_atomicInfo (publishInfo pd)) 1 = bit (pd_atomicInfo pd) 1"
  "bit (pd_atomicInfo (publishInfo pd)) 2 = (pd_rd pd < 0)"
  "bit (pd_atomicInfo (publishInfo pd)) 3 = (pd_wd pd < 0)"
  by (simp_all add: publishInfo_def pd_info_bits_def bit_simps)

lemma publishInfo_ok: "info_ok (publishInfo pd)"
proof -
  have "pd_closing (publishInfo pd) = pd_closing pd" "pd_rd (publishInfo pd) = pd_rd pd" "pd_wd (publishInfo pd) = pd_wd pd"
    by (simp_all add: publishInfo_def)
  then show ?thesis by (simp only: info_ok_def info_bits publishInfo_bits simp_thms)
qed

lemma setEventErr_other_bits:
  "n \<noteq> 1 \<Longrightarrow> bit (pd_atomicInfo (setEventErr b seq pd)) n = bit (pd_atomicInfo pd) n"
proof -
  assume "n \<noteq> 1"
  then have "\<not> bit (2 :: u32) n" using bit_exp_iff [of 1 n, where 'a = u32] by simp
  then show ?thesis by (auto simp: setEventErr_def Let_def bit_simps)
qed

lemma setEventErr_ok: "info_ok pd \<Longrightarrow> info_ok (setEventErr b seq pd)"
proof -
  assume "info_ok pd"
  moreover have "pd_closing (setEventErr b seq pd) = pd_closing pd" "pd_rd (setEventErr b seq pd) = pd_rd pd"
    "pd_wd (setEventErr b seq pd) = pd_wd pd"
    by (simp_all add: setEventErr_def Let_def)
  ultimately show ?thesis by (simp add: info_ok_def info_bits setEventErr_other_bits)
qed

section \<open>The invariant of a descriptor\<close>

text \<open>
  A pending timer carries the current sequence number and the current deadline, the read timer
  serves both directions exactly when the deadlines coincide, and, until the descriptor is
  closing, a deadline in the future always has a timer that will expire it.
\<close>

definition rt_ok :: "pollDesc \<Rightarrow> bool" where
  "rt_ok pd \<longleftrightarrow> (pd_rt pd = None \<longrightarrow> pd_closing pd \<or> pd_rd pd \<le> 0)
     \<and> (\<forall>tm. pd_rt pd = Some tm \<longrightarrow> pd_rrun pd \<and> tm_seq tm = pd_rseq pd \<and> tm_when tm = pd_rd pd \<and> pd_rd pd > 0
         \<and> tm_fn tm = (if pd_rd pd = pd_wd pd then DBoth else DRead))"

definition wt_ok :: "pollDesc \<Rightarrow> bool" where
  "wt_ok pd \<longleftrightarrow> (pd_wt pd = None \<longrightarrow> pd_closing pd \<or> pd_wd pd \<le> 0 \<or> pd_rd pd = pd_wd pd)
     \<and> (\<forall>tm. pd_wt pd = Some tm \<longrightarrow> pd_wrun pd \<and> tm_seq tm = pd_wseq pd \<and> tm_when tm = pd_wd pd \<and> pd_wd pd > 0
         \<and> tm_fn tm = DWrite)"

definition pd_inv :: "pollDesc \<Rightarrow> bool" where
  "pd_inv pd \<longleftrightarrow> info_ok pd \<and> rt_ok pd \<and> wt_ok pd
     \<and> (pd_rd pd > 0 \<and> pd_rd pd = pd_wd pd \<longrightarrow> \<not> pd_wrun pd)"

lemmas pd_inv_defs = pd_inv_def rt_ok_def wt_ok_def info_ok_def

lemma pd_inv_gpp [simp]:
  "pd_inv (pd\<lparr>pd_rg := v\<rparr>) = pd_inv pd" "pd_inv (pd\<lparr>pd_wg := v\<rparr>) = pd_inv pd" "pd_inv (set_gpp mode v pd) = pd_inv pd"
  by (simp_all add: pd_inv_defs set_gpp_def)

lemma netpollunblock_inv: "netpollunblock mode io delta pd = (g, delta', pd') \<Longrightarrow> pd_inv pd' = pd_inv pd"
  by (auto simp: netpollunblock_def Let_def split: if_splits gsem.splits)

lemma netpollunblock_fields:
  "netpollunblock mode io delta pd = (g, delta', pd') \<Longrightarrow>
     pd_rd pd' = pd_rd pd \<and> pd_wd pd' = pd_wd pd \<and> pd_wrun pd' = pd_wrun pd \<and> pd_rrun pd' = pd_rrun pd
     \<and> pd_closing pd' = pd_closing pd \<and> pd_atomicInfo pd' = pd_atomicInfo pd \<and> pd_user pd' = pd_user pd
     \<and> pd_rt pd' = pd_rt pd \<and> pd_wt pd' = pd_wt pd \<and> pd_rseq pd' = pd_rseq pd \<and> pd_wseq pd' = pd_wseq pd"
  by (auto simp: netpollunblock_def set_gpp_def Let_def split: if_splits gsem.splits)

text \<open>After an unblocking the semaphore holds no goroutine, and a goroutine that was there is returned.\<close>

lemma netpollunblock_effect:
  "netpollunblock mode io delta pd = (g, delta', pd') \<Longrightarrow>
     gpp mode pd' = (if io \<or> gpp mode pd = PdReady then PdReady else PdNil)
     \<and> g = (case gpp mode pd of PdG x \<Rightarrow> Some x | _ \<Rightarrow> None)
     \<and> delta' = delta - (case gpp mode pd of PdG x \<Rightarrow> 1 | _ \<Rightarrow> 0)"
  by (auto simp: netpollunblock_def set_gpp_def gpp_def Let_def split: if_splits gsem.splits)

lemma publishInfo_fields [simp]:
  "pd_rd (publishInfo pd) = pd_rd pd" "pd_wd (publishInfo pd) = pd_wd pd" "pd_rrun (publishInfo pd) = pd_rrun pd"
  "pd_wrun (publishInfo pd) = pd_wrun pd" "pd_rt (publishInfo pd) = pd_rt pd" "pd_wt (publishInfo pd) = pd_wt pd"
  "pd_rseq (publishInfo pd) = pd_rseq pd" "pd_wseq (publishInfo pd) = pd_wseq pd"
  "pd_closing (publishInfo pd) = pd_closing pd" "pd_rg (publishInfo pd) = pd_rg pd" "pd_wg (publishInfo pd) = pd_wg pd"
  by (simp_all add: publishInfo_def)

section \<open>Preservation\<close>

lemma arm_read_ok:
  assumes "rt_ok (pd\<lparr>pd_rd := rd0, pd_wd := wd0\<rparr>)" and "combo0 = (rd0 > 0 \<and> rd0 = wd0)"
  shows "rt_ok (arm_read rd0 combo0 pd)"
  using assms by (cases "pd_rt pd"; cases "pd_rrun pd") (auto simp: rt_ok_def arm_read_def Let_def)

lemma arm_read_fields [simp]:
  "pd_wt (arm_read rd0 c pd) = pd_wt pd" "pd_wrun (arm_read rd0 c pd) = pd_wrun pd" "pd_wseq (arm_read rd0 c pd) = pd_wseq pd"
  "pd_rd (arm_read rd0 c pd) = pd_rd pd" "pd_wd (arm_read rd0 c pd) = pd_wd pd" "pd_closing (arm_read rd0 c pd) = pd_closing pd"
  "pd_atomicInfo (arm_read rd0 c pd) = pd_atomicInfo pd" "pd_rg (arm_read rd0 c pd) = pd_rg pd" "pd_wg (arm_read rd0 c pd) = pd_wg pd"
  by (simp_all add: arm_read_def Let_def)

lemma arm_write_ok:
  assumes "wt_ok (pd\<lparr>pd_rd := rd0, pd_wd := wd0\<rparr>)" and "combo0 = (rd0 > 0 \<and> rd0 = wd0)"
    and "rd0 > 0 \<and> rd0 = wd0 \<longrightarrow> \<not> pd_wrun pd"
  shows "wt_ok (arm_write wd0 combo0 pd) \<and> (pd_rd pd > 0 \<and> pd_rd pd = pd_wd pd \<longrightarrow> \<not> pd_wrun (arm_write wd0 combo0 pd))"
  using assms by (cases "pd_wt pd"; cases "pd_wrun pd") (auto simp: wt_ok_def arm_write_def Let_def)

lemma arm_write_fields [simp]:
  "pd_rt (arm_write wd0 c pd) = pd_rt pd" "pd_rrun (arm_write wd0 c pd) = pd_rrun pd" "pd_rseq (arm_write wd0 c pd) = pd_rseq pd"
  "pd_rd (arm_write wd0 c pd) = pd_rd pd" "pd_wd (arm_write wd0 c pd) = pd_wd pd" "pd_closing (arm_write wd0 c pd) = pd_closing pd"
  "pd_atomicInfo (arm_write wd0 c pd) = pd_atomicInfo pd" "pd_rg (arm_write wd0 c pd) = pd_rg pd" "pd_wg (arm_write wd0 c pd) = pd_wg pd"
  by (simp_all add: arm_write_def Let_def)

lemma rt_ok_cong:
  "pd_rt pd' = pd_rt pd \<Longrightarrow> pd_rrun pd' = pd_rrun pd \<Longrightarrow> pd_rseq pd' = pd_rseq pd \<Longrightarrow> pd_rd pd' = pd_rd pd
     \<Longrightarrow> pd_wd pd' = pd_wd pd \<Longrightarrow> pd_closing pd' = pd_closing pd \<Longrightarrow> rt_ok pd' = rt_ok pd"
  by (simp add: rt_ok_def)

lemma wt_ok_cong:
  "pd_wt pd' = pd_wt pd \<Longrightarrow> pd_wrun pd' = pd_wrun pd \<Longrightarrow> pd_wseq pd' = pd_wseq pd \<Longrightarrow> pd_rd pd' = pd_rd pd
     \<Longrightarrow> pd_wd pd' = pd_wd pd \<Longrightarrow> pd_closing pd' = pd_closing pd \<Longrightarrow> wt_ok pd' = wt_ok pd"
  by (simp add: wt_ok_def)

text \<open>Two descriptors that differ in nothing but the goroutines on their semaphores.\<close>

definition same_but_g :: "pollDesc \<Rightarrow> pollDesc \<Rightarrow> bool" where
  "same_but_g pd pd' \<longleftrightarrow> pd'\<lparr>pd_rg := PdNil, pd_wg := PdNil\<rparr> = pd\<lparr>pd_rg := PdNil, pd_wg := PdNil\<rparr>"

lemma same_but_g_fields:
  "same_but_g pd pd' \<Longrightarrow>
     pd_rd pd' = pd_rd pd \<and> pd_wd pd' = pd_wd pd \<and> pd_wrun pd' = pd_wrun pd \<and> pd_rrun pd' = pd_rrun pd
     \<and> pd_closing pd' = pd_closing pd \<and> pd_atomicInfo pd' = pd_atomicInfo pd \<and> pd_user pd' = pd_user pd
     \<and> pd_rt pd' = pd_rt pd \<and> pd_wt pd' = pd_wt pd \<and> pd_rseq pd' = pd_rseq pd \<and> pd_wseq pd' = pd_wseq pd
     \<and> pd_fd pd' = pd_fd pd"
  by (cases pd; cases pd') (simp add: same_but_g_def)

lemma same_but_g_inv: "same_but_g pd pd' \<Longrightarrow> pd_inv pd' = pd_inv pd"
  by (metis same_but_g_def pd_inv_gpp(1,2))

lemma netpollunblock_same: "netpollunblock mode io delta pd = (g, delta', pd') \<Longrightarrow> same_but_g pd pd'"
  by (auto simp: netpollunblock_def set_gpp_def same_but_g_def Let_def split: if_splits gsem.splits)

lemma same_but_g_trans: "same_but_g a b \<Longrightarrow> same_but_g b c \<Longrightarrow> same_but_g a c"
  by (simp add: same_but_g_def)

lemma same_but_g_refl [simp]: "same_but_g a a"
  by (simp add: same_but_g_def)

lemma unblock_both_same: "unblock_both pd = (gs, delta, pd') \<Longrightarrow> same_but_g pd pd'"
  by (auto simp: unblock_both_def Let_def split: prod.splits dest!: netpollunblock_same intro: same_but_g_trans)

lemma unblock_expired_same: "unblock_expired pd = (gs, delta, pd') \<Longrightarrow> same_but_g pd pd'"
  by (auto simp: unblock_expired_def Let_def split: prod.splits if_splits dest!: netpollunblock_same intro: same_but_g_trans)

lemma setDeadline_inv:
  assumes inv: "pd_inv pd" and run: "poll_runtime_pollSetDeadline now d mode pd w = (gs, pd', w')"
  shows "pd_inv pd'"
proof (cases "pd_closing pd")
  case True
  with assms show ?thesis by (simp add: poll_runtime_pollSetDeadline_def)
next
  case False
  define c0 where "c0 = (pd_rd pd > 0 \<and> pd_rd pd = pd_wd pd)"
  define pd2 where "pd2 = set_deadlines (deadline_at now d) mode pd"
  define pd3 where "pd3 = publishInfo pd2"
  define pd4 where "pd4 = arm_read (pd_rd pd) c0 pd3"
  define pd5 where "pd5 = arm_write (pd_wd pd) c0 pd4"
  have eq2: "pd2\<lparr>pd_rd := pd_rd pd, pd_wd := pd_wd pd\<rparr> = pd" by (simp add: pd2_def set_deadlines_def Let_def)
  from inv have "rt_ok pd" "wt_ok pd" and nw: "pd_rd pd > 0 \<and> pd_rd pd = pd_wd pd \<longrightarrow> \<not> pd_wrun pd"
    by (simp_all add: pd_inv_def)
  then have "rt_ok (pd2\<lparr>pd_rd := pd_rd pd, pd_wd := pd_wd pd\<rparr>)" "wt_ok (pd2\<lparr>pd_rd := pd_rd pd, pd_wd := pd_wd pd\<rparr>)"
    by (simp_all add: eq2)
  then have r3: "rt_ok (pd3\<lparr>pd_rd := pd_rd pd, pd_wd := pd_wd pd\<rparr>)" and w3: "wt_ok (pd3\<lparr>pd_rd := pd_rd pd, pd_wd := pd_wd pd\<rparr>)"
    by (simp_all add: pd3_def rt_ok_def wt_ok_def)
  have r4: "rt_ok pd4" unfolding pd4_def by (rule arm_read_ok [OF r3]) (simp add: c0_def)
  have w4: "wt_ok (pd4\<lparr>pd_rd := pd_rd pd, pd_wd := pd_wd pd\<rparr>)"
    using w3 by (simp add: pd4_def wt_ok_def)
  have "pd_wrun pd4 = pd_wrun pd" by (simp add: pd4_def pd3_def pd2_def set_deadlines_def Let_def)
  then have w5: "wt_ok pd5 \<and> (pd_rd pd4 > 0 \<and> pd_rd pd4 = pd_wd pd4 \<longrightarrow> \<not> pd_wrun pd5)"
    unfolding pd5_def by (intro arm_write_ok [OF w4]) (use nw in \<open>auto simp: c0_def\<close>)
  have r5: "rt_ok pd5" using r4 rt_ok_cong [of pd5 pd4] by (simp add: pd5_def)
  have "info_ok pd3" unfolding pd3_def by (rule publishInfo_ok)
  then have "info_ok pd5" by (simp add: pd5_def pd4_def info_ok_def)
  with w5 r5 have "pd_inv pd5" by (simp add: pd_inv_def pd5_def)
  moreover obtain gs' delta pd6 where u: "unblock_expired pd5 = (gs', delta, pd6)" by (metis prod.collapse)
  moreover have "pd' = pd6"
    using run False u unfolding poll_runtime_pollSetDeadline_def Let_def c0_def pd2_def pd3_def pd4_def pd5_def by simp
  ultimately show ?thesis using same_but_g_inv [OF unblock_expired_same] by blast
qed

lemma unblock_inv:
  assumes "pd_inv pd" and "poll_runtime_pollUnblock pd w = Ret (gs, pd', w')"
  shows "pd_inv pd' \<and> pd_closing pd' \<and> \<not> pd_rrun pd' \<and> \<not> pd_wrun pd'"
proof -
  define p1 where "p1 = publishInfo (pd\<lparr>pd_closing := True, pd_rseq := pd_rseq pd + 1, pd_wseq := pd_wseq pd + 1\<rparr>)"
  obtain gs' delta p2 where u: "unblock_both p1 = (gs', delta, p2)" by (metis prod.collapse)
  have f: "pd_closing p1" "pd_rrun p1 = pd_rrun pd" "pd_wrun p1 = pd_wrun pd" "pd_rt p1 = pd_rt pd" "pd_wt p1 = pd_wt pd"
    "info_ok p1" by (simp_all add: p1_def publishInfo_ok)
  have s: "same_but_g p1 p2" by (rule unblock_both_same [OF u])
  have "pd' = stop_timers p2"
    using assms(2) u by (auto simp: poll_runtime_pollUnblock_def Let_def p1_def split: if_splits)
  moreover have "info_ok p2" "pd_closing p2" using f s by (auto simp: info_ok_def dest: same_but_g_fields)
  moreover have "\<not> pd_rrun p2 \<longrightarrow> pd_rt p2 = None"
    using assms(1) f same_but_g_fields [OF s] by (cases "pd_rt pd") (auto simp: pd_inv_def rt_ok_def)
  moreover have "\<not> pd_wrun p2 \<longrightarrow> pd_wt p2 = None"
    using assms(1) f same_but_g_fields [OF s] by (cases "pd_wt pd") (auto simp: pd_inv_def wt_ok_def)
  ultimately show ?thesis by (auto simp: pd_inv_def rt_ok_def wt_ok_def info_ok_def stop_timers_def Let_def)
qed

text \<open>The three pieces of a wait, freeing, resetting, readiness, the error bit and opening on the invariant.\<close>

lemma block_inv:
  "pd_inv (snd (netpollblock_prepare mode pd)) = pd_inv pd"
  "pd_inv (fst (snd (netpollblockcommit mode g pd w))) = pd_inv pd"
  "pd_inv (snd (netpollblock_finish mode pd)) = pd_inv pd"
  by (simp_all add: netpollblock_prepare_def netpollblockcommit_def netpollblock_finish_def Let_def split: gsem.split)

lemma free_inv: "pd_inv pd \<Longrightarrow> pd_inv (pollcache_free pd)"
  using publishInfo_ok [of "pd\<lparr>pd_fdseq := (pd_fdseq pd + 1) AND 0xFFFFFFFF\<rparr>"]
  by (simp add: pollcache_free_def pd_inv_def rt_ok_def wt_ok_def)

lemma reset_inv: "pd_inv pd \<Longrightarrow> pd_inv (snd (poll_runtime_pollReset mode pd))"
  by (simp add: poll_runtime_pollReset_def Let_def)

lemma ready_inv: "pd_inv pd \<Longrightarrow> pd_inv (snd (snd (netpollready toRun mode pd)))"
  by (auto simp: netpollready_def Let_def split: prod.splits if_splits dest!: netpollunblock_inv)

lemma setEventErr_inv: "pd_inv pd \<Longrightarrow> pd_inv (setEventErr b seq pd)"
  using setEventErr_ok [of pd b seq] by (auto simp: pd_inv_def rt_ok_def wt_ok_def setEventErr_def Let_def)

lemma openReset_inv:
  assumes "pd_inv pd" and "\<not> pd_rrun pd" and "\<not> pd_wrun pd" and "pollOpen_reset fd pd = Ret pd'"
  shows "pd_inv pd' \<and> \<not> pd_closing pd'"
proof -
  from assms have "pd_rt pd = None" "pd_wt pd = None"
    by (cases "pd_rt pd"; cases "pd_wt pd"; auto simp: pd_inv_def rt_ok_def wt_ok_def)+
  moreover from assms(2-) obtain p where "pd' = publishInfo p" "pd_rt p = pd_rt pd" "pd_wt p = pd_wt pd" "pd_rd p = 0" "pd_wd p = 0"
      "\<not> pd_wrun p" "\<not> pd_closing p"
    by (auto simp: pollOpen_reset_def setEventErr_def Let_def split: if_splits)
  ultimately show ?thesis using publishInfo_ok [of p] by (simp add: pd_inv_def rt_ok_def wt_ok_def)
qed

text \<open>A callback whose sequence number is not the current one does nothing.\<close>

lemma stale_seq:
  "seq \<noteq> (if f = DWrite then pd_wseq pd else pd_rseq pd) \<Longrightarrow> netpollDeadlineFn f seq pd w = Ret ([], pd, w)"
  by (cases f) (simp_all add: netpollDeadlineFn_def netpolldeadlineimpl_def)

lemma deadlineimpl_read:
  assumes "info_ok pd" and "pd_rd pd > 0" and "pd_rrun pd" and "wt_ok pd" and "pd_rt pd = None"
    and "both \<longrightarrow> pd_wd pd = pd_rd pd \<and> \<not> pd_wrun pd" and "\<not> both \<longrightarrow> pd_wd pd \<noteq> pd_rd pd"
  shows "\<exists>gs pd' w'. netpolldeadlineimpl (pd_rseq pd) True both pd w = Ret (gs, pd', w') \<and> pd_inv pd' \<and> pd_rd pd' = -1
    \<and> \<not> blocked (pd_rg pd') \<and> pd_wd pd' = (if both then -1 else pd_wd pd)
    \<and> (both \<longrightarrow> \<not> blocked (pd_wg pd')) \<and> (\<not> both \<longrightarrow> pd_wg pd' = pd_wg pd)
    \<and> set gs = {g. pd_rg pd = PdG g \<or> both \<and> pd_wg pd = PdG g}"
proof -
  obtain rg d1 pd1 where u1: "netpollunblock mode_r False 0 (publishInfo (pd\<lparr>pd_rd := -1\<rparr>)) = (rg, d1, pd1)"
    by (metis prod.collapse)
  note f1 = netpollunblock_fields [OF u1] and e1 = netpollunblock_effect [OF u1]
  have i1: "info_ok (publishInfo (pd\<lparr>pd_rd := -1\<rparr>))" by (rule publishInfo_ok)
  have b1: "\<not> blocked (pd_rg pd1)" using e1 by (auto simp: blocked_def gpp_def split: if_splits)
  have g1: "rg = (case pd_rg pd of PdG g \<Rightarrow> Some g | _ \<Rightarrow> None)" using e1 by (simp add: gpp_def)
  have w1: "pd_wg pd1 = pd_wg pd" using u1 by (auto simp: netpollunblock_def set_gpp_def Let_def split: if_splits gsem.splits)
  show ?thesis
  proof (cases both)
    case False
    have "pd_inv pd1"
      using i1 f1 assms False by (auto simp: pd_inv_def info_ok_def rt_ok_def wt_ok_def)
    with False u1 assms f1 b1 g1 w1 show ?thesis
      by (auto simp: netpolldeadlineimpl_def Let_def readied_def split: option.splits gsem.splits)
  next
    case True
    obtain wg d2 pd2 where u2: "netpollunblock mode_w False d1 (publishInfo (pd1\<lparr>pd_wd := -1\<rparr>)) = (wg, d2, pd2)"
      by (metis prod.collapse)
    note f2 = netpollunblock_fields [OF u2] and e2 = netpollunblock_effect [OF u2]
    have rg2: "pd_rg pd2 = pd_rg pd1" using u2 by (auto simp: netpollunblock_def set_gpp_def Let_def split: if_splits gsem.splits)
    have b2: "\<not> blocked (pd_wg pd2)" using e2 by (auto simp: blocked_def gpp_def split: if_splits)
    have g2: "wg = (case pd_wg pd of PdG g \<Rightarrow> Some g | _ \<Rightarrow> None)" using e2 by (simp add: gpp_def w1)
    have "info_ok (publishInfo (pd1\<lparr>pd_wd := -1\<rparr>))" by (rule publishInfo_ok)
    then have "pd_inv pd2"
      using f1 f2 assms True by (auto simp: pd_inv_def info_ok_def rt_ok_def wt_ok_def)
    with True u1 u2 assms f1 f2 b1 rg2 b2 have
      "netpolldeadlineimpl (pd_rseq pd) True both pd w = Ret (readied rg wg, pd2, netpollAdjustWaiters d2 w)
        \<and> pd_inv pd2 \<and> pd_rd pd2 = -1 \<and> pd_wd pd2 = -1 \<and> \<not> blocked (pd_rg pd2) \<and> \<not> blocked (pd_wg pd2)"
      by (auto simp: netpolldeadlineimpl_def Let_def)
    moreover have "set (readied rg wg) = {g. pd_rg pd = PdG g \<or> pd_wg pd = PdG g}"
      by (auto simp: readied_def g1 g2 split: gsem.splits)
    ultimately show ?thesis using True by auto
  qed
qed

lemma deadlineimpl_write:
  assumes "info_ok pd" and "pd_wd pd > 0" and "pd_wrun pd" and "rt_ok pd" and "pd_wt pd = None" and "pd_rd pd \<noteq> pd_wd pd"
  shows "\<exists>gs pd' w'. netpolldeadlineimpl (pd_wseq pd) False True pd w = Ret (gs, pd', w') \<and> pd_inv pd' \<and> pd_wd pd' = -1
    \<and> pd_rd pd' = pd_rd pd \<and> pd_rg pd' = pd_rg pd \<and> \<not> blocked (pd_wg pd') \<and> set gs = {g. pd_wg pd = PdG g}"
proof -
  obtain wg d2 pd2 where u2: "netpollunblock mode_w False 0 (publishInfo (pd\<lparr>pd_wd := -1\<rparr>)) = (wg, d2, pd2)"
    by (metis prod.collapse)
  note f2 = netpollunblock_fields [OF u2] and e2 = netpollunblock_effect [OF u2]
  have "info_ok (publishInfo (pd\<lparr>pd_wd := -1\<rparr>))" by (rule publishInfo_ok)
  then have "pd_inv pd2"
    using f2 assms by (auto simp: pd_inv_def info_ok_def rt_ok_def wt_ok_def)
  moreover have "\<not> blocked (pd_wg pd2)" using e2 by (auto simp: blocked_def gpp_def split: if_splits)
  moreover have "wg = (case pd_wg pd of PdG g \<Rightarrow> Some g | _ \<Rightarrow> None)" using e2 by (simp add: gpp_def)
  moreover have "pd_rg pd2 = pd_rg pd" using u2 by (auto simp: netpollunblock_def set_gpp_def Let_def split: if_splits gsem.splits)
  ultimately show ?thesis
    using u2 assms f2 by (auto simp: netpolldeadlineimpl_def Let_def readied_def split: option.splits gsem.splits)
qed

lemma fire_read_ok:
  assumes "pd_inv pd" and "pd_rt pd = Some tm"
  shows "\<exists>gs pd' w'. fire_read_timer pd w = Ret (gs, pd', w') \<and> pd_inv pd' \<and> pd_rd pd' = -1
    \<and> \<not> blocked (pd_rg pd') \<and> pd_wd pd' = (if pd_rd pd = pd_wd pd then -1 else pd_wd pd)
    \<and> (pd_rd pd = pd_wd pd \<longrightarrow> \<not> blocked (pd_wg pd')) \<and> (pd_rd pd \<noteq> pd_wd pd \<longrightarrow> pd_wg pd' = pd_wg pd)
    \<and> set gs = {g. pd_rg pd = PdG g \<or> pd_rd pd = pd_wd pd \<and> pd_wg pd = PdG g}"
proof -
  let ?p = "pd\<lparr>pd_rt := None\<rparr>" and ?both = "pd_rd pd = pd_wd pd"
  from assms have r: "pd_rrun pd" "tm_seq tm = pd_rseq pd" "pd_rd pd > 0" "tm_fn tm = (if ?both then DBoth else DRead)"
    "?both \<longrightarrow> \<not> pd_wrun pd" "info_ok ?p" "wt_ok ?p"
    by (auto simp: pd_inv_def rt_ok_def wt_ok_def info_ok_def)
  have "\<exists>gs pd' w'. netpolldeadlineimpl (pd_rseq ?p) True ?both ?p w = Ret (gs, pd', w') \<and> pd_inv pd' \<and> pd_rd pd' = -1
    \<and> \<not> blocked (pd_rg pd') \<and> pd_wd pd' = (if ?both then -1 else pd_wd ?p)
    \<and> (?both \<longrightarrow> \<not> blocked (pd_wg pd')) \<and> (\<not> ?both \<longrightarrow> pd_wg pd' = pd_wg ?p)
    \<and> set gs = {g. pd_rg ?p = PdG g \<or> ?both \<and> pd_wg ?p = PdG g}"
    by (rule deadlineimpl_read) (use r in auto)
  moreover have "fire_read_timer pd w = netpolldeadlineimpl (pd_rseq ?p) True ?both ?p w"
    using r assms(2) by (simp add: fire_read_timer_def netpollDeadlineFn_def)
  ultimately show ?thesis by (simp split del: if_split cong del: if_weak_cong)
qed

lemma fire_write_ok:
  assumes "pd_inv pd" and "pd_wt pd = Some tm"
  shows "\<exists>gs pd' w'. fire_write_timer pd w = Ret (gs, pd', w') \<and> pd_inv pd' \<and> pd_wd pd' = -1
    \<and> pd_rd pd' = pd_rd pd \<and> pd_rg pd' = pd_rg pd \<and> \<not> blocked (pd_wg pd') \<and> set gs = {g. pd_wg pd = PdG g}"
proof -
  let ?p = "pd\<lparr>pd_wt := None\<rparr>"
  from assms have r: "pd_wrun pd" "tm_seq tm = pd_wseq pd" "pd_wd pd > 0" "tm_fn tm = DWrite" "pd_rd pd \<noteq> pd_wd pd"
    "info_ok ?p" "rt_ok ?p"
    by (auto simp: pd_inv_def rt_ok_def wt_ok_def info_ok_def)
  have "\<exists>gs pd' w'. netpolldeadlineimpl (pd_wseq ?p) False True ?p w = Ret (gs, pd', w') \<and> pd_inv pd' \<and> pd_wd pd' = -1
    \<and> pd_rd pd' = pd_rd ?p \<and> pd_rg pd' = pd_rg ?p \<and> \<not> blocked (pd_wg pd') \<and> set gs = {g. pd_wg ?p = PdG g}"
    by (rule deadlineimpl_write) (use r in auto)
  moreover have "fire_write_timer pd w = netpolldeadlineimpl (pd_wseq ?p) False True ?p w"
    using r assms(2) by (simp add: fire_write_timer_def netpollDeadlineFn_def)
  ultimately show ?thesis by simp
qed

lemma fire_inv:
  assumes "pd_inv pd"
  shows "fire_read_timer pd w = Ret (gs, pd', w') \<Longrightarrow> pd_inv pd'"
    and "fire_write_timer pd w = Ret (gs, pd', w') \<Longrightarrow> pd_inv pd'"
proof -
  show "pd_inv pd'" if "fire_read_timer pd w = Ret (gs, pd', w')"
  proof (cases "pd_rt pd")
    case None
    then show ?thesis using that assms by (simp add: fire_read_timer_def)
  next
    case (Some tm)
    from fire_read_ok [OF assms this, of w] that show ?thesis by auto
  qed
  show "pd_inv pd'" if "fire_write_timer pd w = Ret (gs, pd', w')"
  proof (cases "pd_wt pd")
    case None
    then show ?thesis using that assms by (simp add: fire_write_timer_def)
  next
    case (Some tm)
    from fire_write_ok [OF assms this, of w] that show ?thesis by auto
  qed
qed

section \<open>Properties\<close>

text \<open>A descriptor as \<open>pollOpen\<close> hands it out, for the witnesses.\<close>

definition pd_fresh :: pollDesc where
  "pd_fresh = \<lparr>pd_fd = 5, pd_fdseq = 1, pd_atomicInfo = 0x10000, pd_rg = PdNil, pd_wg = PdNil, pd_closing = False,
     pd_rrun = False, pd_wrun = False, pd_user = 1, pd_rseq = 1, pd_rt = None, pd_rd = 0, pd_wseq = 1, pd_wt = None, pd_wd = 0\<rparr>"

lemma pd_fresh_inv: "pd_inv pd_fresh"
  by (simp add: pd_inv_defs pd_fresh_def info_closing_def info_expiredRead_def info_expiredWrite_def)

text \<open>C31: A deadline timer does its work and never trips the runtime's consistency checks: firing the
  pending timer of either direction does not throw, and its deadline becomes the expired one. The read timer of
  two coinciding deadlines expires both and leaves nobody parked in either direction, otherwise a timer touches only
  its own direction; the goroutines made ready are exactly those that were parked in the directions it serves.\<close>

theorem deadline_timers_fire:
  assumes "pd_inv pd"
  shows "(pd_rt pd \<noteq> None \<longrightarrow> (\<exists>gs pd' w'. fire_read_timer pd w = Ret (gs, pd', w') \<and> pd_inv pd' \<and> pd_rd pd' = -1
            \<and> \<not> blocked (pd_rg pd') \<and> pd_wd pd' = (if pd_rd pd = pd_wd pd then -1 else pd_wd pd)
            \<and> (pd_rd pd = pd_wd pd \<longrightarrow> \<not> blocked (pd_wg pd')) \<and> (pd_rd pd \<noteq> pd_wd pd \<longrightarrow> pd_wg pd' = pd_wg pd)
            \<and> set gs = {g. pd_rg pd = PdG g \<or> pd_rd pd = pd_wd pd \<and> pd_wg pd = PdG g}))
    \<and> (pd_wt pd \<noteq> None \<longrightarrow> (\<exists>gs pd' w'. fire_write_timer pd w = Ret (gs, pd', w') \<and> pd_inv pd' \<and> pd_wd pd' = -1
            \<and> pd_rd pd' = pd_rd pd \<and> pd_rg pd' = pd_rg pd \<and> \<not> blocked (pd_wg pd') \<and> set gs = {g. pd_wg pd = PdG g}))"
  using fire_read_ok [OF assms] fire_write_ok [OF assms] by blast

text \<open>The fresh descriptor with a reader parked on it and a read deadline pending.\<close>

definition pd_parked :: pollDesc where
  "pd_parked = pd_fresh\<lparr>pd_rg := PdG 7, pd_rd := 150, pd_rrun := True,
     pd_rt := Some \<lparr>tm_when = 150, tm_fn = DRead, tm_seq = 1\<rparr>\<rparr>"

text \<open>Both deadlines pending at the same time, with a reader and a writer parked.\<close>

definition pd_parked2 :: pollDesc where
  "pd_parked2 = pd_fresh\<lparr>pd_rg := PdG 7, pd_wg := PdG 8, pd_rd := 150, pd_wd := 150, pd_rrun := True,
     pd_rt := Some \<lparr>tm_when = 150, tm_fn = DBoth, tm_seq = 1\<rparr>\<rparr>"

theorem deadline_timers_fire_witness:
  "\<exists>gs pd' w'. fire_read_timer pd_parked2 1 = Ret (gs, pd', w') \<and> pd_rd pd' = -1 \<and> pd_wd pd' = -1 \<and> set gs = {7, 8}"
proof -
  have "pd_inv pd_parked2"
    by (simp add: pd_inv_defs pd_fresh_def pd_parked2_def info_closing_def info_expiredRead_def info_expiredWrite_def)
  from deadline_timers_fire [OF this, of 1] show ?thesis by (auto simp: pd_parked2_def)
qed

lemma publishInfo_seq: "drop_bit pollFDSeq (pd_atomicInfo (publishInfo pd)) = pd_fdseq pd AND 0xFFFF"
proof -
  have m: "(0xFFFF :: u32) = mask 16" "(pollFDSeqMask :: u32) = mask 20" by (simp_all add: mask_eq_exp_minus_1)
  have b: "\<not> bit (1 :: u32) (16 + k)" "\<not> bit (2 :: u32) (16 + k)" "\<not> bit (4 :: u32) (16 + k)" "\<not> bit (8 :: u32) (16 + k)" for k
    using bit_exp_iff [of 0 "16 + k", where 'a = u32] bit_exp_iff [of 1 "16 + k", where 'a = u32]
      bit_exp_iff [of 2 "16 + k", where 'a = u32] bit_exp_iff [of 3 "16 + k", where 'a = u32] by simp_all
  show ?thesis
    unfolding m publishInfo_def pd_info_bits_def by (rule bit_eqI) (auto simp: bit_simps, (use b in \<open>fastforce\<close>)+)
qed

text \<open>The sequence numbers \<open>setEventErr\<close> accepts.\<close>

definition seq_matches :: "u32 \<Rightarrow> pollDesc \<Rightarrow> bool" where
  "seq_matches seq pd \<longleftrightarrow> seq = 0 \<or> seq AND pollFDSeqMask = pd_fdseq pd AND 0xFFFF"

lemma setEventErr_bit:
  "bit (pd_atomicInfo (setEventErr b seq (publishInfo pd))) 1 = (if seq_matches seq pd then b else bit (pd_atomicInfo pd) 1)"
proof -
  let ?p = "publishInfo pd"
  have q: "drop_bit pollFDSeq (pd_atomicInfo ?p) AND pollFDSeqMask = pd_fdseq pd AND 0xFFFF"
    unfolding publishInfo_seq by (simp add: and.assoc)
  have t: "(x AND pollEventErr \<noteq> 0) = bit x 1" for x :: u32 using and_exp_eq_0_iff_not_bit [of x 1] by simp
  have x: "bit (x XOR pollEventErr) 1 = (\<not> bit x 1)" for x :: u32 by (simp add: bit_xor_iff)
  have "setEventErr b seq ?p = (if seq_matches seq pd \<and> bit (pd_atomicInfo ?p) 1 \<noteq> b
      then ?p\<lparr>pd_atomicInfo := pd_atomicInfo ?p XOR pollEventErr\<rparr> else ?p)"
    unfolding setEventErr_def Let_def q t seq_matches_def by auto
  then have "bit (pd_atomicInfo (setEventErr b seq ?p)) 1 = (if seq_matches seq pd \<and> bit (pd_atomicInfo ?p) 1 \<noteq> b
      then bit (pd_atomicInfo ?p XOR pollEventErr) 1 else bit (pd_atomicInfo ?p) 1)" by simp
  then show ?thesis unfolding x publishInfo_bits by auto
qed

lemma checkerr_bits:
  "netpollcheckerr pd mode =
    (if bit (pd_atomicInfo pd) 0 then pollErrClosing
     else if mode = mode_r \<and> bit (pd_atomicInfo pd) 2 \<or> mode = mode_w \<and> bit (pd_atomicInfo pd) 3 then pollErrTimeout
     else if mode = mode_r \<and> bit (pd_atomicInfo pd) 1 then pollErrNotPollable else pollNoError)"
  by (simp add: netpollcheckerr_def Let_def info_bits)


text \<open>A deadline the user puts in the future never wraps into the past: the stored deadline is
  the sum with the current time, or the largest time when the sum overflows 64 bits.\<close>

theorem deadline_no_wrap:
  assumes "0 < d" and "d < 2 ^ 63" and "0 \<le> now" and "now < 2 ^ 63"
  shows "deadline_at now d = min (now + d) (2 ^ 63 - 1)"
proof (cases "d + now < 2 ^ 63")
  case True
  then have "int64 (d + now) = d + now" using assms by (intro int64_id) auto
  with True assms show ?thesis by (simp add: deadline_at_def Let_def min_def)
next
  case False
  have "(d + now) mod 2 ^ 64 = d + now" using assms by (intro mod_pos_pos_trivial) auto
  moreover have "(d + now) div 2 ^ 63 = 1"
    by (rule int_div_pos_eq [where r = "d + now - 2 ^ 63"]) (use False assms in auto)
  ultimately have "int64 (d + now) = d + now - 2 ^ 64"
    using False assms by (simp add: int64_def signed_take_bit_eq_take_bit_minus take_bit_eq_mod bit_iff_odd)
  with False assms show ?thesis by (simp add: deadline_at_def Let_def min_def)
qed

theorem deadline_no_wrap_witness: "deadline_at 10 (2 ^ 63 - 5) = 2 ^ 63 - 1"
  using deadline_no_wrap [of "2 ^ 63 - 5" 10] by simp

text \<open>A timer that was replaced cannot act: when setting a deadline changes or stops the pending
  read timer, or the descriptor is unblocked for closing, the old timer's sequence number is no longer
  current, and running its callback changes nothing.\<close>

theorem stale_timer_ignored:
  assumes "pd_inv pd" and "pd_rt pd = Some tm"
    and "(pd' = fst (snd (poll_runtime_pollSetDeadline now d mode pd w)) \<and> pd_rt pd' \<noteq> Some tm)
      \<or> (\<exists>gs w'. poll_runtime_pollUnblock pd w = Ret (gs, pd', w'))"
  shows "netpollDeadlineFn (tm_fn tm) (tm_seq tm) pd' w2 = Ret ([], pd', w2)"
proof -
  from assms(1,2) have s: "tm_seq tm = pd_rseq pd" and run: "pd_rrun pd" and fn: "tm_fn tm \<noteq> DWrite"
    by (auto simp: pd_inv_def rt_ok_def)
  have "pd_rseq pd' = pd_rseq pd + 1"
    using assms(3)
  proof (elim disjE exE)
    assume a: "pd' = fst (snd (poll_runtime_pollSetDeadline now d mode pd w)) \<and> pd_rt pd' \<noteq> Some tm"
    then have opn: "\<not> pd_closing pd" using assms(2) by (auto simp: poll_runtime_pollSetDeadline_def)
    define c0 where "c0 = (pd_rd pd > 0 \<and> pd_rd pd = pd_wd pd)"
    define p1 where "p1 = publishInfo (set_deadlines (deadline_at now d) mode pd)"
    define p2 where "p2 = arm_write (pd_wd pd) c0 (arm_read (pd_rd pd) c0 p1)"
    obtain gs delta p3 where u: "unblock_expired p2 = (gs, delta, p3)" by (metis prod.collapse)
    have "pd' = p3" using a opn u unfolding poll_runtime_pollSetDeadline_def Let_def c0_def p1_def p2_def by simp
    with same_but_g_fields [OF unblock_expired_same [OF u]]
    have f: "pd_rt pd' = pd_rt (arm_read (pd_rd pd) c0 p1)" "pd_rseq pd' = pd_rseq (arm_read (pd_rd pd) c0 p1)"
      by (simp_all add: p2_def)
    have "pd_rrun p1" "pd_rt p1 = Some tm" "pd_rseq p1 = pd_rseq pd"
      using run assms(2) by (simp_all add: p1_def set_deadlines_def Let_def)
    with a f show ?thesis by (auto simp: arm_read_def Let_def split: if_splits)
  next
    fix gs w' assume a: "poll_runtime_pollUnblock pd w = Ret (gs, pd', w')"
    define p1 where "p1 = publishInfo (pd\<lparr>pd_closing := True, pd_rseq := pd_rseq pd + 1, pd_wseq := pd_wseq pd + 1\<rparr>)"
    obtain gs' delta p2 where u: "unblock_both p1 = (gs', delta, p2)" by (metis prod.collapse)
    have "pd' = stop_timers p2" using a u by (auto simp: poll_runtime_pollUnblock_def Let_def p1_def split: if_splits)
    with same_but_g_fields [OF unblock_both_same [OF u]] show ?thesis by (simp add: stop_timers_def Let_def p1_def)
  qed
  then have "tm_seq tm \<noteq> pd_rseq pd'" using s by simp
  with fn show ?thesis
    by (cases "tm_fn tm") (simp_all add: netpollDeadlineFn_def netpolldeadlineimpl_def)
qed

theorem stale_timer_ignored_witness:
  "netpollDeadlineFn DRead 1 (fst (snd (poll_runtime_pollSetDeadline 100 900 mode_r pd_parked 1))) 1
     = Ret ([], fst (snd (poll_runtime_pollSetDeadline 100 900 mode_r pd_parked 1)), 1)"
proof -
  let ?tm = "\<lparr>tm_when = 150, tm_fn = DRead, tm_seq = 1\<rparr>"
  have i: "pd_inv pd_parked"
    by (simp add: pd_inv_defs pd_fresh_def pd_parked_def info_closing_def info_expiredRead_def info_expiredWrite_def)
  have "pd_rt (fst (snd (poll_runtime_pollSetDeadline 100 900 mode_r pd_parked 1))) \<noteq> Some ?tm"
    by (simp add: poll_runtime_pollSetDeadline_def pd_parked_def pd_fresh_def set_deadlines_def deadline_at_def Let_def
        arm_read_def arm_write_def unblock_expired_def int64_def publishInfo_def)
  moreover have t: "pd_rt pd_parked = Some ?tm" by (simp add: pd_parked_def)
  ultimately have "netpollDeadlineFn (tm_fn ?tm) (tm_seq ?tm) (fst (snd (poll_runtime_pollSetDeadline 100 900 mode_r pd_parked 1))) 1
     = Ret ([], fst (snd (poll_runtime_pollSetDeadline 100 900 mode_r pd_parked 1)), 1)"
    by (intro stale_timer_ignored [OF i t, where now = 100 and d = 900 and mode = mode_r and w = 1]) simp
  then show ?thesis by simp
qed

text \<open>The sequence number that guards \<open>setEventErr\<close> is kept in 16 bits, not in the 20 its comment
  and its mask announce: on a descriptor whose \<open>fdseq\<close> is 0x10000, marking an error for exactly that
  sequence number has no effect.\<close>

theorem eventErr_seq_truncated:
  "pd_fdseq (publishInfo (pd_fresh\<lparr>pd_fdseq := 0x10000\<rparr>)) = 0x10000
   \<and> setEventErr True 0x10000 (publishInfo (pd_fresh\<lparr>pd_fdseq := 0x10000\<rparr>)) = publishInfo (pd_fresh\<lparr>pd_fdseq := 0x10000\<rparr>)"
  by (simp add: publishInfo_def setEventErr_def pd_info_bits_def pd_fresh_def Let_def push_bit_eq_mult)

end
