(* ===== verification/Qnx_Netpoll.thy ===== *)
theory Qnx_Netpoll
  imports Qnx_Os Poll_Desc
begin

text \<open>
  \<open>runtime/netpoll_qnx.go\<close>: the network poller of the port, built on \<open>poll(2)\<close> with a self-pipe.
  This theory models each function as one sequential execution, from the state before it takes its
  locks to the state after it released them. The slices \<open>pfds\<close> and \<open>pds\<close> are lists, a \<open>*pollDesc\<close> is an index into a
  heap of descriptors. The loop that drains the pipe and the \<open>goto retry\<close> take fuel.
\<close>

section \<open>State\<close>

abbreviation POLLIN :: u16 where "POLLIN \<equiv> 0x0005"
abbreviation POLLOUT :: u16 where "POLLOUT \<equiv> 0x0002"
abbreviation POLLERR :: u16 where "POLLERR \<equiv> 0x0020"
abbreviation POLLHUP :: u16 where "POLLHUP \<equiv> 0x0040"
abbreviation pollNoWakeCapMs :: u32 where "pollNoWakeCapMs \<equiv> 10"

record 'w netpoll =
  np_pfds :: "pollfd list"
  np_pds :: "nat option list"
  np_mtxpoll :: bool
  np_mtxset :: bool
  np_rdwake :: int
  np_wrwake :: int
  np_pendingUpdates :: int
  np_wakeSig :: u32
  np_heap :: "nat \<Rightarrow> pollDesc"
  np_thr :: "'w thr"

definition lock_mtxpoll :: "'w netpoll \<Rightarrow> 'w netpoll" where "lock_mtxpoll s = s\<lparr>np_mtxpoll := True\<rparr>"
definition unlock_mtxpoll :: "'w netpoll \<Rightarrow> 'w netpoll" where "unlock_mtxpoll s = s\<lparr>np_mtxpoll := False\<rparr>"
definition lock_mtxset :: "'w netpoll \<Rightarrow> 'w netpoll" where "lock_mtxset s = s\<lparr>np_mtxset := True\<rparr>"
definition unlock_mtxset :: "'w netpoll \<Rightarrow> 'w netpoll" where "unlock_mtxset s = s\<lparr>np_mtxset := False\<rparr>"

section \<open>Operations\<close>

definition netpollinit :: "'w libc \<Rightarrow> 'w netpoll \<Rightarrow> 'w netpoll" where
  "netpollinit L s =
     (let ((r, w, errno), t) = nonblockingPipe L (np_thr s);
          s1 = (if errno \<noteq> 0 then s\<lparr>np_thr := t, np_rdwake := -1, np_wrwake := -1\<rparr>
                else s\<lparr>np_thr := t, np_rdwake := r, np_wrwake := w\<rparr>)
      in s1\<lparr>np_pfds := [\<lparr>pf_fd = np_rdwake s1, pf_events = POLLIN, pf_revents = 0\<rparr>], np_pds := [None]\<rparr>)"

definition netpollIsPollDescriptor :: "u32 \<Rightarrow> 'w netpoll \<Rightarrow> bool" where
  "netpollIsPollDescriptor fd s \<longleftrightarrow> fd = uptr (np_rdwake s) \<or> fd = uptr (np_wrwake s)"

definition wake_byte :: "'w libc \<Rightarrow> 'w netpoll \<Rightarrow> 'w netpoll" where
  "wake_byte L s = s\<lparr>np_thr := snd (write1 L (uptr (np_wrwake s)) [0] 1 (np_thr s))\<rparr>"

definition netpollwakeup :: "'w libc \<Rightarrow> 'w netpoll \<Rightarrow> 'w netpoll" where
  "netpollwakeup L s =
     (if np_wrwake s < 0 then s
      else if np_pendingUpdates s = 0 then wake_byte L (s\<lparr>np_pendingUpdates := 1\<rparr>)
      else s)"

definition set_user :: "nat \<Rightarrow> nat \<Rightarrow> (nat \<Rightarrow> pollDesc) \<Rightarrow> nat \<Rightarrow> pollDesc" where
  "set_user pd i h = h(pd := (h pd)\<lparr>pd_user := of_nat i\<rparr>)"

text \<open>The locking prologue of every change: wake a poller that is blocked, then take over.\<close>

definition netpoll_enter :: "'w libc \<Rightarrow> 'w netpoll \<Rightarrow> 'w netpoll" where
  "netpoll_enter L s = unlock_mtxpoll (lock_mtxset (netpollwakeup L (lock_mtxpoll s)))"

definition netpollopen :: "'w libc \<Rightarrow> u32 \<Rightarrow> nat \<Rightarrow> 'w netpoll \<Rightarrow> int \<times> 'w netpoll" where
  "netpollopen L fd pd s =
     (let s1 = netpoll_enter L s;
          s2 = s1\<lparr>np_heap := set_user pd (length (np_pfds s1)) (np_heap s1),
                  np_pfds := np_pfds s1 @ [\<lparr>pf_fd = toint fd, pf_events = 0, pf_revents = 0\<rparr>],
                  np_pds := np_pds s1 @ [Some pd]\<rparr>
      in (0, unlock_mtxset s2))"

fun find_fd :: "int \<Rightarrow> pollfd list \<Rightarrow> nat \<Rightarrow> nat option" where
  "find_fd fd [] i = None"
| "find_fd fd (p # ps) i = (if pf_fd p = fd then Some i else find_fd fd ps (i + 1))"

text \<open>The last element moves into the hole and the slice shrinks by one.\<close>

definition swap_remove :: "nat \<Rightarrow> 'a list \<Rightarrow> 'a list" where
  "swap_remove i xs = butlast (xs[i := last xs])"

definition netpollclose :: "'w libc \<Rightarrow> u32 \<Rightarrow> 'w netpoll \<Rightarrow> int outcome \<times> 'w netpoll" where
  "netpollclose L fd s =
     (let s1 = netpoll_enter L s
      in case find_fd (toint fd) (np_pfds s1) 0 of
           None \<Rightarrow> (Ret 0, unlock_mtxset s1)
         | Some i \<Rightarrow>
             (let s2 = s1\<lparr>np_pfds := swap_remove i (np_pfds s1)\<rparr>
              in case last (np_pds s2) of
                   None \<Rightarrow> (Throw ''nil pointer dereference'', s2)
                 | Some pd \<Rightarrow>
                     (Ret 0, unlock_mtxset (s2\<lparr>np_heap := set_user pd i (np_heap s2),
                                                np_pds := swap_remove i (np_pds s2)\<rparr>))))"

definition or_events :: "u16 \<Rightarrow> pollfd \<Rightarrow> pollfd" where
  "or_events e p = p\<lparr>pf_events := pf_events p OR e\<rparr>"

definition netpollarm :: "'w libc \<Rightarrow> nat \<Rightarrow> int \<Rightarrow> 'w netpoll \<Rightarrow> unit outcome \<times> 'w netpoll" where
  "netpollarm L pd mode s =
     (let s1 = netpoll_enter L s;
          i = unat (pd_user (np_heap s1 pd));
          e = (if mode = mode_r then POLLIN else if mode = mode_w then POLLOUT else 0)
      in if (mode = mode_r \<or> mode = mode_w) \<and> i \<ge> length (np_pfds s1)
         then (Throw ''index out of range'', s1)
         else if mode = mode_r \<or> mode = mode_w
         then (Ret (), unlock_mtxset (s1\<lparr>np_pfds := (np_pfds s1)[i := or_events e (np_pfds s1 ! i)]\<rparr>))
         else (Ret (), unlock_mtxset s1))"

definition netpollBreak :: "'w libc \<Rightarrow> 'w netpoll \<Rightarrow> 'w netpoll" where
  "netpollBreak L s =
     (if np_wrwake s < 0 then s
      else if np_wakeSig s \<noteq> 0 then s
      else wake_byte L (s\<lparr>np_wakeSig := 1\<rparr>))"

section \<open>netpoll\<close>

text \<open>The timeout for a non-zero delay, in milliseconds; all ones means "block".\<close>

definition netpoll_timeout :: "int \<Rightarrow> int \<Rightarrow> u32" where
  "netpoll_timeout wrwake delay =
     (let timeout = (if delay < 0 then NOT 0
                     else if delay < 1000000 then 1
                     else if delay < 1000000000000000 then uptr (go_div delay 1000000)
                     else 1000000000)
      in if wrwake < 0 \<and> (timeout = NOT 0 \<or> timeout > pollNoWakeCapMs) then pollNoWakeCapMs else timeout)"

definition rt_poll :: "'w libc \<Rightarrow> pollfd list \<Rightarrow> u32 \<Rightarrow> 'w thr \<Rightarrow> (int \<times> int \<times> pollfd list) \<times> 'w thr" where
  "rt_poll L pfds timeout t =
     (let ((r, err, as), t1) = sysvicall3Err L ''libc_poll'' (APollfds pfds) (AWord (of_nat (length pfds))) (AWord timeout) t
      in ((toint r, toint err, out_pollfds (argat as 0) pfds), t1))"

fun drain :: "nat \<Rightarrow> 'w libc \<Rightarrow> int \<Rightarrow> 'w thr \<Rightarrow> 'w thr option" where
  "drain 0 L rdwake t = None"
| "drain (Suc fuel) L rdwake t =
     (let ((n, b), t1) = rt_read L rdwake [0] 1 t in if n = 1 then drain fuel L rdwake t1 else Some t1)"

definition ev_mode :: "pollfd \<Rightarrow> int" where
  "ev_mode p = (if pf_revents p AND (POLLIN OR POLLHUP OR POLLERR) \<noteq> 0 then mode_r else 0)
     + (if pf_revents p AND (POLLOUT OR POLLHUP OR POLLERR) \<noteq> 0 then mode_w else 0)"

definition disarm :: "pollfd \<Rightarrow> pollfd" where
  "disarm p =
     (let p1 = (if pf_revents p AND (POLLIN OR POLLHUP OR POLLERR) \<noteq> 0
                then p\<lparr>pf_events := pf_events p AND NOT POLLIN\<rparr> else p)
      in if pf_revents p AND (POLLOUT OR POLLHUP OR POLLERR) \<noteq> 0
         then p1\<lparr>pf_events := pf_events p1 AND NOT POLLOUT\<rparr> else p1)"

text \<open>The loop over the descriptors that stops when \<open>n\<close> ready ones have been seen.\<close>

fun np_dispatch ::
  "(nat option \<times> pollfd) list \<Rightarrow> int \<Rightarrow> (nat \<Rightarrow> pollDesc) \<Rightarrow> nat list \<Rightarrow> int
     \<Rightarrow> (pollfd list \<times> (nat \<Rightarrow> pollDesc) \<times> nat list \<times> int) outcome" where
  "np_dispatch [] n h toRun delta = Ret ([], h, toRun, delta)"
| "np_dispatch ((pd, p) # rest) n h toRun delta =
     (if \<not> n > 0 then Ret (p # map snd rest, h, toRun, delta)
      else
        let mode = ev_mode p; p' = disarm p
        in if mode \<noteq> 0
           then (case pd of
                   None \<Rightarrow> Throw ''nil pointer dereference''
                 | Some i \<Rightarrow>
                     (let pd1 = setEventErr (pf_revents p = POLLERR) 0 (h i);
                          (d, toRun', pd2) = netpollready toRun mode pd1
                      in case np_dispatch rest (n - 1) (h(i := pd2)) toRun' (delta + d) of
                           Throw e \<Rightarrow> Throw e
                         | Ret (ps, h', tr, dl) \<Rightarrow> Ret (p' # ps, h', tr, dl)))
           else (case np_dispatch rest n h toRun delta of
                   Throw e \<Rightarrow> Throw e
                 | Ret (ps, h', tr, dl) \<Rightarrow> Ret (p' # ps, h', tr, dl)))"

definition wake_ready :: "pollfd \<Rightarrow> bool" where
  "wake_ready p \<longleftrightarrow> pf_revents p AND (POLLIN OR POLLHUP OR POLLERR) \<noteq> 0"

text \<open>What follows a successful \<open>poll\<close>: the wake pipe, then the descriptors.\<close>

definition netpoll_events :: "nat \<Rightarrow> 'w libc \<Rightarrow> int \<Rightarrow> int \<Rightarrow> 'w netpoll \<Rightarrow> ((nat list \<times> int) outcome \<times> 'w netpoll) option" where
  "netpoll_events fuel L delay n s =
     (let woken = n \<noteq> 0 \<and> wake_ready (hd (np_pfds s));
          after = (if woken \<and> delay \<noteq> 0
                   then map_option (\<lambda>t. s\<lparr>np_thr := t, np_wakeSig := 0\<rparr>) (drain fuel L (np_rdwake s) (np_thr s))
                   else Some s)
      in case after of
           None \<Rightarrow> None
         | Some s1 \<Rightarrow>
             (case np_dispatch (tl (zip (np_pds s1) (np_pfds s1))) (if woken then n - 1 else n) (np_heap s1) [] 0 of
                Throw e \<Rightarrow> Some (Throw e, s1)
              | Ret (ps, h, toRun, delta) \<Rightarrow>
                  Some (Ret (toRun, delta), unlock_mtxset (s1\<lparr>np_pfds := hd (np_pfds s1) # ps, np_heap := h\<rparr>))))"

fun netpoll_retry :: "nat \<Rightarrow> 'w libc \<Rightarrow> int \<Rightarrow> u32 \<Rightarrow> 'w netpoll \<Rightarrow> ((nat list \<times> int) outcome \<times> 'w netpoll) option" where
  "netpoll_retry 0 L delay timeout s = None"
| "netpoll_retry (Suc fuel) L delay timeout s =
     (let s1 = unlock_mtxpoll ((lock_mtxset (lock_mtxpoll s))\<lparr>np_pendingUpdates := 0\<rparr>);
          ((n, e, ps), t) = rt_poll L (np_pfds s1) timeout (np_thr s1);
          s2 = s1\<lparr>np_pfds := ps, np_thr := t\<rparr>
      in if n < 0
         then (if e \<noteq> 4 then Some (Throw ''poll failed'', s2)
               else (let s3 = unlock_mtxset s2
                     in if timeout > 0 then Some (Ret ([], 0), s3) else netpoll_retry fuel L delay timeout s3))
         else netpoll_events fuel L delay n s2)"

definition netpoll :: "nat \<Rightarrow> 'w libc \<Rightarrow> int \<Rightarrow> 'w netpoll \<Rightarrow> ((nat list \<times> int) outcome \<times> 'w netpoll) option" where
  "netpoll fuel L delay s =
     (if delay = 0 then Some (Ret ([], 0), s)
      else netpoll_retry fuel L delay (netpoll_timeout (np_wrwake s) delay) s)"

section \<open>The table of descriptors\<close>

lemma swap_remove_length [simp]: "length (swap_remove i xs) = length xs - 1"
  by (simp add: swap_remove_def)

lemma swap_remove_nth:
  assumes "j < length xs - 1"
  shows "swap_remove i xs ! j = (if j = i then last xs else xs ! j)"
  using assms by (simp add: swap_remove_def nth_butlast)

text \<open>
  The invariant of the two slices: same length, slot 0 for the wake pipe, and the \<open>user\<close> cookie of
  every registered descriptor is its index.
\<close>

definition np_ok :: "'w netpoll \<Rightarrow> bool" where
  "np_ok s \<longleftrightarrow> length (np_pds s) = length (np_pfds s) \<and> 0 < length (np_pfds s) \<and> length (np_pfds s) < 2 ^ 31
     \<and> np_pds s ! 0 = None \<and> pf_fd (np_pfds s ! 0) = np_rdwake s
     \<and> (\<forall>i < length (np_pfds s). 0 < i \<longrightarrow> (\<exists>pd. np_pds s ! i = Some pd \<and> unat (pd_user (np_heap s pd)) = i))"

text \<open>What is registered for a descriptor: its \<open>pollfd\<close>, if it has one.\<close>

definition np_reg :: "'w netpoll \<Rightarrow> nat \<Rightarrow> pollfd option" where
  "np_reg s pd = map_of (tl (zip (np_pds s) (np_pfds s))) (Some pd)"

lemma np_ok_index:
  assumes "np_ok s" and "i < length (np_pfds s)" and "np_pds s ! i = Some pd"
  shows "0 < i \<and> unat (pd_user (np_heap s pd)) = i"
proof -
  have "0 < i" using assms by (cases i) (auto simp: np_ok_def)
  with assms show ?thesis unfolding np_ok_def by force
qed

lemma np_ok_inj:
  "np_ok s \<Longrightarrow> i < length (np_pfds s) \<Longrightarrow> j < length (np_pfds s) \<Longrightarrow> np_pds s ! i = Some pd \<Longrightarrow> np_pds s ! j = Some pd \<Longrightarrow> i = j"
  using np_ok_index by metis

lemma np_ok_distinct:
  assumes "np_ok s"
  shows "distinct (map fst (tl (zip (np_pds s) (np_pfds s))))"
proof -
  let ?Z = "zip (np_pds s) (np_pfds s)"
  have len: "length ?Z = length (np_pfds s)" using assms by (simp add: np_ok_def)
  have "inj_on (\<lambda>i. np_pds s ! i) {1..<length (np_pfds s)}"
  proof (rule inj_onI)
    fix i j assume a: "i \<in> {1..<length (np_pfds s)}" "j \<in> {1..<length (np_pfds s)}" "np_pds s ! i = np_pds s ! j"
    then obtain q where "np_pds s ! i = Some q" using assms unfolding np_ok_def by force
    show "i = j" by (rule np_ok_inj [OF assms, of i j q]) (use a \<open>np_pds s ! i = Some q\<close> in auto)
  qed
  moreover have "map fst (tl ?Z) = map (\<lambda>i. np_pds s ! i) [1..<length (np_pfds s)]"
    by (rule nth_equalityI) (use len assms in \<open>auto simp: nth_tl np_ok_def\<close>)
  ultimately show ?thesis by (simp add: distinct_map)
qed

lemma np_reg_set: "np_ok s \<Longrightarrow> np_reg s pd = Some p \<longleftrightarrow> (Some pd, p) \<in> set (tl (zip (np_pds s) (np_pfds s)))"
  by (simp add: np_reg_def np_ok_distinct)

lemma np_reg_iff:
  assumes "np_ok s"
  shows "np_reg s pd = Some p \<longleftrightarrow> (\<exists>i < length (np_pfds s). np_pds s ! i = Some pd \<and> np_pfds s ! i = p)"
proof -
  let ?Z = "zip (np_pds s) (np_pfds s)"
  have len: "length ?Z = length (np_pfds s)" using assms by (simp add: np_ok_def)
  have "np_reg s pd = Some p \<longleftrightarrow> (Some pd, p) \<in> set (tl ?Z)"
    by (rule np_reg_set [OF assms])
  also have "\<dots> \<longleftrightarrow> (\<exists>i < length (np_pfds s). np_pds s ! i = Some pd \<and> np_pfds s ! i = p)"
  proof
    assume "(Some pd, p) \<in> set (tl ?Z)"
    then obtain k where "k < length (tl ?Z)" "tl ?Z ! k = (Some pd, p)" by (metis in_set_conv_nth)
    with len assms show "\<exists>i < length (np_pfds s). np_pds s ! i = Some pd \<and> np_pfds s ! i = p"
      by (intro exI [of _ "Suc k"]) (auto simp: nth_tl np_ok_def)
  next
    assume "\<exists>i < length (np_pfds s). np_pds s ! i = Some pd \<and> np_pfds s ! i = p"
    then obtain i where i: "i < length (np_pfds s)" "np_pds s ! i = Some pd" "np_pfds s ! i = p" by blast
    with np_ok_index [OF assms] have "0 < i" by blast
    with i len assms have "tl ?Z ! (i - 1) = (Some pd, p)" "i - 1 < length (tl ?Z)" by (auto simp: nth_tl np_ok_def)
    then show "(Some pd, p) \<in> set (tl ?Z)" by (metis nth_mem)
  qed
  finally show ?thesis .
qed

lemma np_reg_None:
  "np_ok s \<Longrightarrow> np_reg s pd = None \<longleftrightarrow> Some pd \<notin> set (np_pds s)"
  using np_reg_iff [of s pd] by (auto simp: in_set_conv_nth np_ok_def) (metis option.exhaust)+

lemma np_reg_eqI:
  assumes "np_ok s" and "\<And>p. f = Some p \<longleftrightarrow> (\<exists>i < length (np_pfds s). np_pds s ! i = Some pd \<and> np_pfds s ! i = p)"
  shows "np_reg s pd = f"
  using np_reg_iff [OF assms(1), of pd] assms(2) by (metis option.exhaust)

text \<open>The locking prologue and the wake-up change neither the slices nor the heap.\<close>

lemma netpoll_enter_fields [simp]:
  "np_pfds (netpoll_enter L s) = np_pfds s" "np_pds (netpoll_enter L s) = np_pds s"
  "np_heap (netpoll_enter L s) = np_heap s" "np_rdwake (netpoll_enter L s) = np_rdwake s"
  "np_wrwake (netpoll_enter L s) = np_wrwake s"
  "\<not> np_mtxpoll (netpoll_enter L s)" "np_mtxset (netpoll_enter L s)"
  by (simp_all add: netpoll_enter_def lock_mtxpoll_def unlock_mtxpoll_def lock_mtxset_def netpollwakeup_def wake_byte_def)

lemma unlock_mtxset_fields [simp]:
  "np_pfds (unlock_mtxset s) = np_pfds s" "np_pds (unlock_mtxset s) = np_pds s" "np_heap (unlock_mtxset s) = np_heap s"
  "np_rdwake (unlock_mtxset s) = np_rdwake s" "np_wrwake (unlock_mtxset s) = np_wrwake s"
  "\<not> np_mtxset (unlock_mtxset s)" "np_mtxpoll (unlock_mtxset s) = np_mtxpoll s"
  by (simp_all add: unlock_mtxset_def)

lemma set_user_other [simp]: "q \<noteq> pd \<Longrightarrow> set_user pd i h q = h q"
  by (simp add: set_user_def)

lemma set_user_same: "i < 2 ^ 32 \<Longrightarrow> unat (pd_user (set_user pd i h pd)) = i"
  by (simp add: set_user_def unat_of_nat take_bit_nat_eq_self)

section \<open>Opening\<close>

lemma netpollopen_ok:
  assumes "np_ok s" and "np_reg s pd = None" and "length (np_pfds s) + 1 < 2 ^ 31"
  shows "np_ok (snd (netpollopen L fd pd s))"
    and "np_reg (snd (netpollopen L fd pd s)) = (np_reg s)(pd \<mapsto> \<lparr>pf_fd = toint fd, pf_events = 0, pf_revents = 0\<rparr>)"
proof -
  let ?s' = "snd (netpollopen L fd pd s)" and ?n = "length (np_pfds s)"
  let ?p = "\<lparr>pf_fd = toint fd, pf_events = 0, pf_revents = 0\<rparr>"
  have f: "np_pfds ?s' = np_pfds s @ [?p]" "np_pds ?s' = np_pds s @ [Some pd]"
    "np_heap ?s' = set_user pd ?n (np_heap s)" "np_rdwake ?s' = np_rdwake s"
    by (simp_all add: netpollopen_def Let_def)
  have fresh: "Some pd \<notin> set (np_pds s)" using assms by (simp add: np_reg_None)
  have len: "length (np_pds s) = ?n" using assms(1) by (simp add: np_ok_def)
  show ok: "np_ok ?s'"
    unfolding np_ok_def f
  proof (intro conjI allI impI)
    fix i assume i: "i < length (np_pfds s @ [?p])" "0 < i"
    show "\<exists>q. (np_pds s @ [Some pd]) ! i = Some q \<and> unat (pd_user (set_user pd ?n (np_heap s) q)) = i"
    proof (cases "i = ?n")
      case True
      then have "(np_pds s @ [Some pd]) ! i = Some pd" using len by (metis nth_append_length)
      moreover have "unat (pd_user (set_user pd ?n (np_heap s) pd)) = i"
        using True assms(3) set_user_same [of ?n pd "np_heap s"] by simp
      ultimately show ?thesis by blast
    next
      case False
      with i have il: "i < ?n" by simp
      with i(2) assms(1) obtain q where q: "np_pds s ! i = Some q" "unat (pd_user (np_heap s q)) = i"
        unfolding np_ok_def by blast
      with fresh len i False have "q \<noteq> pd" by (auto simp: in_set_conv_nth)
      with q i False len show ?thesis by (simp add: nth_append)
    qed
  qed (use assms len in \<open>auto simp: np_ok_def nth_append\<close>)
  show "np_reg ?s' = (np_reg s)(pd \<mapsto> ?p)"
  proof
    fix q
    show "np_reg ?s' q = ((np_reg s)(pd \<mapsto> ?p)) q"
    proof (rule np_reg_eqI [OF ok])
      fix p
      have "np_reg s q = Some p \<longleftrightarrow> (\<exists>i < ?n. np_pds s ! i = Some q \<and> np_pfds s ! i = p)"
        by (rule np_reg_iff [OF assms(1)])
      moreover have "q = pd \<Longrightarrow> \<not> (\<exists>i < ?n. np_pds s ! i = Some q)" using fresh len by (auto simp: in_set_conv_nth)
      ultimately show "((np_reg s)(pd \<mapsto> ?p)) q = Some p \<longleftrightarrow>
          (\<exists>i < length (np_pfds ?s'). np_pds ?s' ! i = Some q \<and> np_pfds ?s' ! i = p)"
        unfolding f using len by (auto simp: less_Suc_eq nth_append)
    qed
  qed
qed

section \<open>Closing and arming\<close>

lemma find_fd_Some:
  "find_fd fd ps k = Some i \<Longrightarrow> k \<le> i \<and> i - k < length ps \<and> pf_fd (ps ! (i - k)) = fd"
proof (induction ps arbitrary: k)
  case (Cons p ps)
  show ?case
  proof (cases "pf_fd p = fd")
    case False
    with Cons have "k + 1 \<le> i \<and> i - (k + 1) < length ps \<and> pf_fd (ps ! (i - (k + 1))) = fd" by simp
    then show ?thesis by (auto simp: nth_Cons')
  qed (use Cons in auto)
qed simp

lemma find_fd_None: "find_fd fd ps k = None \<longleftrightarrow> fd \<notin> pf_fd ` set ps"
  by (induction ps arbitrary: k) auto

lemma find_fd_0:
  assumes "np_ok s" and "toint fd \<noteq> np_rdwake s" and "find_fd (toint fd) (np_pfds s) 0 = Some i"
  shows "0 < i" and "i < length (np_pfds s)" and "pf_fd (np_pfds s ! i) = toint fd"
proof -
  from find_fd_Some [OF assms(3)] show i: "i < length (np_pfds s)" and e: "pf_fd (np_pfds s ! i) = toint fd" by simp_all
  from assms(1,2) e show "0 < i" by (cases i) (auto simp: np_ok_def)
qed

lemma netpollclose_ok:
  assumes ok: "np_ok s" and fd: "toint fd \<noteq> np_rdwake s" and i: "find_fd (toint fd) (np_pfds s) 0 = Some i"
  shows "\<exists>pd s'. np_pds s ! i = Some pd \<and> netpollclose L fd s = (Ret 0, s') \<and> np_ok s'
    \<and> np_reg s' = (np_reg s)(pd := None) \<and> \<not> np_mtxset s' \<and> \<not> np_mtxpoll s'"
proof -
  let ?n = "length (np_pfds s)"
  note i0 = find_fd_0 [OF ok fd i]
  have len: "length (np_pds s) = ?n" and n2: "2 \<le> ?n" using ok i0 by (auto simp: np_ok_def)
  obtain pd where pd: "np_pds s ! i = Some pd" using ok i0 unfolding np_ok_def by blast
  have "?n - 1 < ?n" "0 < ?n - 1" using n2 by simp_all
  then obtain q where q: "np_pds s ! (?n - 1) = Some q" using ok unfolding np_ok_def by blast
  have ne: "np_pds s \<noteq> []" "np_pfds s \<noteq> []" using len n2 by auto
  have lq: "last (np_pds s) = Some q" using last_conv_nth [OF ne(1)] q len by simp
  have lp: "last (np_pfds s) = np_pfds s ! (?n - 1)" by (rule last_conv_nth [OF ne(2)])
  define s' where "s' = snd (netpollclose L fd s)"
  have run: "netpollclose L fd s = (Ret 0, s')" and f: "np_pfds s' = swap_remove i (np_pfds s)"
    "np_pds s' = swap_remove i (np_pds s)" "np_heap s' = set_user q i (np_heap s)" "np_rdwake s' = np_rdwake s"
    "\<not> np_mtxset s'" "\<not> np_mtxpoll s'"
    using i lq by (simp_all add: netpollclose_def Let_def s'_def)
  have nth: "np_pds s' ! j = (if j = i then Some q else np_pds s ! j)"
    "np_pfds s' ! j = (if j = i then np_pfds s ! (?n - 1) else np_pfds s ! j)" if "j < ?n - 1" for j
    using that len lq lp by (simp_all add: f swap_remove_nth)
  have uq: "j = ?n - 1" if "j < ?n" "np_pds s ! j = Some q" for j
    by (rule np_ok_inj [OF ok that(1) _ that(2) q]) (use n2 in simp)
  have ok': "np_ok s'"
    unfolding np_ok_def
  proof (intro conjI allI impI)
    fix j assume j: "j < length (np_pfds s')" "0 < j"
    then have jn: "j < ?n - 1" by (simp add: f)
    show "\<exists>x. np_pds s' ! j = Some x \<and> unat (pd_user (np_heap s' x)) = j"
    proof (cases "j = i")
      case True
      with nth(1) [OF jn] have "np_pds s' ! j = Some q" by simp
      moreover have "unat (pd_user (np_heap s' q)) = j"
        unfolding f True by (rule set_user_same) (use i0 ok in \<open>auto simp: np_ok_def\<close>)
      ultimately show ?thesis by blast
    next
      case False
      from jn have "j < ?n" by simp
      with j(2) ok obtain x where x: "np_pds s ! j = Some x" "unat (pd_user (np_heap s x)) = j"
        unfolding np_ok_def by blast
      have "x \<noteq> q" using uq [OF \<open>j < ?n\<close>] x(1) jn by auto
      with x nth(1) [OF jn] False show ?thesis by (simp add: f)
    qed
  qed (use ok n2 len i0 nth [of 0] in \<open>auto simp: f np_ok_def\<close>)
  moreover have "np_reg s' = (np_reg s)(pd := None)"
  proof
    fix x
    show "np_reg s' x = ((np_reg s)(pd := None)) x"
    proof (rule np_reg_eqI [OF ok'])
      fix p
      have old: "np_reg s x = Some p \<longleftrightarrow> (\<exists>j < ?n. np_pds s ! j = Some x \<and> np_pfds s ! j = p)"
        by (rule np_reg_iff [OF ok])
      have "(\<exists>j < ?n - 1. np_pds s' ! j = Some x \<and> np_pfds s' ! j = p)
          \<longleftrightarrow> (\<exists>j < ?n. j \<noteq> i \<and> np_pds s ! j = Some x \<and> np_pfds s ! j = p)"
      proof
        assume "\<exists>j < ?n - 1. np_pds s' ! j = Some x \<and> np_pfds s' ! j = p"
        then obtain j where j: "j < ?n - 1" "np_pds s' ! j = Some x" "np_pfds s' ! j = p" by blast
        show "\<exists>j < ?n. j \<noteq> i \<and> np_pds s ! j = Some x \<and> np_pfds s ! j = p"
        proof (cases "j = i")
          case True
          with j nth [OF j(1)] q n2 show ?thesis by (intro exI [of _ "?n - 1"]) auto
        next
          case False
          with j nth [OF j(1)] show ?thesis by (intro exI [of _ j]) auto
        qed
      next
        assume "\<exists>j < ?n. j \<noteq> i \<and> np_pds s ! j = Some x \<and> np_pfds s ! j = p"
        then obtain j where j: "j < ?n" "j \<noteq> i" "np_pds s ! j = Some x" "np_pfds s ! j = p" by blast
        show "\<exists>j < ?n - 1. np_pds s' ! j = Some x \<and> np_pfds s' ! j = p"
        proof (cases "j = ?n - 1")
          case True
          with j i0 have "i < ?n - 1" by simp
          with True j nth [of i] q show ?thesis by (intro exI [of _ i]) auto
        next
          case False
          with j have "j < ?n - 1" by simp
          with j nth [of j] show ?thesis by (intro exI [of _ j]) auto
        qed
      qed
      moreover have "j < ?n \<and> np_pds s ! j = Some x \<Longrightarrow> (x = pd) = (j = i)" for j
        using np_ok_inj [OF ok, of j i] i0 pd by auto
      ultimately show "((np_reg s)(pd := None)) x = Some p \<longleftrightarrow>
          (\<exists>j < length (np_pfds s'). np_pds s' ! j = Some x \<and> np_pfds s' ! j = p)"
        using old by (auto simp: f)
    qed
  qed
  ultimately show ?thesis using pd run f by blast
qed

definition mode_events :: "int \<Rightarrow> u16" where
  "mode_events mode = (if mode = mode_r then POLLIN else POLLOUT)"

lemma netpollarm_ok:
  assumes ok: "np_ok s" and reg: "np_reg s pd = Some p" and mode: "mode = mode_r \<or> mode = mode_w"
  shows "\<exists>s'. netpollarm L pd mode s = (Ret (), s') \<and> np_ok s'
    \<and> np_reg s' = (np_reg s)(pd \<mapsto> or_events (mode_events mode) p) \<and> \<not> np_mtxset s' \<and> \<not> np_mtxpoll s'"
proof -
  from reg np_reg_iff [OF ok] obtain i where i: "i < length (np_pfds s)" "np_pds s ! i = Some pd" "np_pfds s ! i = p" by blast
  with np_ok_index [OF ok] have u: "unat (pd_user (np_heap s pd)) = i" "0 < i" by blast+
  define s' where "s' = snd (netpollarm L pd mode s)"
  have run: "netpollarm L pd mode s = (Ret (), s')" and f: "np_pfds s' = (np_pfds s)[i := or_events (mode_events mode) p]"
    "np_pds s' = np_pds s" "np_heap s' = np_heap s" "np_rdwake s' = np_rdwake s" "\<not> np_mtxset s'" "\<not> np_mtxpoll s'"
    using i u mode by (auto simp: netpollarm_def Let_def s'_def mode_events_def)
  have ok': "np_ok s'" using ok u by (auto simp: np_ok_def f)
  moreover have "np_reg s' = (np_reg s)(pd \<mapsto> or_events (mode_events mode) p)"
  proof
    fix x
    show "np_reg s' x = ((np_reg s)(pd \<mapsto> or_events (mode_events mode) p)) x"
    proof (rule np_reg_eqI [OF ok'])
      fix v
      have "j < length (np_pfds s) \<Longrightarrow> np_pds s ! j = Some x \<Longrightarrow> (x = pd) = (j = i)" for j
        using np_ok_inj [OF ok, of j i] i by auto
      then show "((np_reg s)(pd \<mapsto> or_events (mode_events mode) p)) x = Some v \<longleftrightarrow>
          (\<exists>j < length (np_pfds s'). np_pds s' ! j = Some x \<and> np_pfds s' ! j = v)"
        using np_reg_iff [OF ok, of x v] i by (auto simp: f nth_list_update)
    qed
  qed
  ultimately show ?thesis using run f by blast
qed

section \<open>The interface the generic poller relies on\<close>

text \<open>
  \<open>runtime/netpoll.go\<close> asks of a platform that opening registers a descriptor, arming adds to its
  events, closing removes it, and none of them disturbs another descriptor.
\<close>

locale platform_poller =
  fixes ok :: "'s \<Rightarrow> bool"
    and room :: "'s \<Rightarrow> bool"
    and own :: "'s \<Rightarrow> u32 \<Rightarrow> bool"
    and reg :: "'s \<Rightarrow> nat \<Rightarrow> 'e option"
    and fd_of :: "'e \<Rightarrow> int"
    and entry :: "u32 \<Rightarrow> 'e"
    and arm_ev :: "int \<Rightarrow> 'e \<Rightarrow> 'e"
    and openp :: "u32 \<Rightarrow> nat \<Rightarrow> 's \<Rightarrow> 's"
    and armp :: "nat \<Rightarrow> int \<Rightarrow> 's \<Rightarrow> 's"
    and closep :: "u32 \<Rightarrow> 's \<Rightarrow> 's"
  assumes open_law: "ok s \<Longrightarrow> reg s pd = None \<Longrightarrow> room s \<Longrightarrow> ok (openp fd pd s) \<and> reg (openp fd pd s) = (reg s)(pd \<mapsto> entry fd)"
    and arm_law: "ok s \<Longrightarrow> reg s pd = Some e \<Longrightarrow> mode = mode_r \<or> mode = mode_w
      \<Longrightarrow> ok (armp pd mode s) \<and> reg (armp pd mode s) = (reg s)(pd \<mapsto> arm_ev mode e)"
    and close_law: "ok s \<Longrightarrow> \<not> own s fd \<Longrightarrow> reg s pd = Some e \<Longrightarrow> fd_of e = toint fd
      \<Longrightarrow> (\<And>q e'. reg s q = Some e' \<Longrightarrow> fd_of e' = toint fd \<Longrightarrow> q = pd)
      \<Longrightarrow> ok (closep fd s) \<and> reg (closep fd s) = (reg s)(pd := None)"
    and own_open: "own (openp fd pd s) = own s"
    and own_arm: "own (armp pd mode s) = own s"
    and fd_entry: "fd_of (entry fd) = toint fd"
    and fd_arm: "fd_of (arm_ev mode e) = fd_of e"
begin

lemma arm_all:
  assumes "ok s" and "reg s pd = Some e" and "\<forall>m \<in> set modes. m = mode_r \<or> m = mode_w"
  shows "\<exists>e'. ok (fold (armp pd) modes s) \<and> reg (fold (armp pd) modes s) = (reg s)(pd \<mapsto> e') \<and> fd_of e' = fd_of e
    \<and> own (fold (armp pd) modes s) = own s"
  using assms
proof (induction modes arbitrary: s e)
  case Nil
  then show ?case by (intro exI [of _ e]) (simp add: fun_upd_idem)
next
  case (Cons m ms)
  then have a: "ok (armp pd m s) \<and> reg (armp pd m s) = (reg s)(pd \<mapsto> arm_ev m e)" by (intro arm_law) auto
  then have "reg (armp pd m s) pd = Some (arm_ev m e)" by simp
  moreover have "\<forall>m \<in> set ms. m = mode_r \<or> m = mode_w" using Cons.prems(3) by simp
  ultimately obtain e' where
    "ok (fold (armp pd) ms (armp pd m s)) \<and> reg (fold (armp pd) ms (armp pd m s)) = (reg (armp pd m s))(pd \<mapsto> e')
      \<and> fd_of e' = fd_of (arm_ev m e) \<and> own (fold (armp pd) ms (armp pd m s)) = own (armp pd m s)"
    using Cons.IH [of "armp pd m s" "arm_ev m e"] a by blast
  with a show ?case by (intro exI [of _ e']) (simp add: fd_arm own_arm)
qed

text \<open>The life of a descriptor leaves the other registrations as they were.\<close>

lemma session:
  assumes "ok s" and "room s" and "\<not> own s fd" and "reg s pd = None"
    and "\<And>q e. reg s q = Some e \<Longrightarrow> fd_of e \<noteq> toint fd" and "\<forall>m \<in> set modes. m = mode_r \<or> m = mode_w"
  shows "ok (closep fd (fold (armp pd) modes (openp fd pd s)))
    \<and> reg (closep fd (fold (armp pd) modes (openp fd pd s))) = reg s"
proof -
  have o: "ok (openp fd pd s) \<and> reg (openp fd pd s) = (reg s)(pd \<mapsto> entry fd)"
    using assms by (intro open_law)
  then have "reg (openp fd pd s) pd = Some (entry fd)" by simp
  from arm_all [OF _ this assms(6)] o obtain e' where a: "ok (fold (armp pd) modes (openp fd pd s))"
    "reg (fold (armp pd) modes (openp fd pd s)) = (reg s)(pd \<mapsto> e')" "fd_of e' = toint fd"
    "own (fold (armp pd) modes (openp fd pd s)) = own s" by (auto simp: fd_entry own_open)
  have "ok (closep fd (fold (armp pd) modes (openp fd pd s)))
      \<and> reg (closep fd (fold (armp pd) modes (openp fd pd s))) = (reg (fold (armp pd) modes (openp fd pd s)))(pd := None)"
    by (rule close_law [of _ _ _ e']) (use a assms(3,5) in \<open>auto split: if_splits\<close>)
  with a(2) assms(4) show ?thesis by auto
qed

end

definition np_room :: "'w netpoll \<Rightarrow> bool" where
  "np_room s \<longleftrightarrow> length (np_pfds s) + 1 < 2 ^ 31"

definition np_own :: "'w netpoll \<Rightarrow> u32 \<Rightarrow> bool" where
  "np_own s fd \<longleftrightarrow> toint fd = np_rdwake s"

definition np_entry :: "u32 \<Rightarrow> pollfd" where
  "np_entry fd = \<lparr>pf_fd = toint fd, pf_events = 0, pf_revents = 0\<rparr>"

lemma netpollarm_rdwake: "np_rdwake (snd (netpollarm L pd mode s)) = np_rdwake s"
  by (simp add: netpollarm_def Let_def)

lemma netpollopen_rdwake: "np_rdwake (snd (netpollopen L fd pd s)) = np_rdwake s"
  by (simp add: netpollopen_def Let_def)

lemma netpollclose_law:
  assumes ok: "np_ok s" and fd: "\<not> np_own s fd" and reg: "np_reg s pd = Some e" "pf_fd e = toint fd"
    and uniq: "\<And>q e'. np_reg s q = Some e' \<Longrightarrow> pf_fd e' = toint fd \<Longrightarrow> q = pd"
  shows "np_ok (snd (netpollclose L fd s)) \<and> np_reg (snd (netpollclose L fd s)) = (np_reg s)(pd := None)"
proof -
  from reg np_reg_iff [OF ok] obtain j where "j < length (np_pfds s)" "np_pfds s ! j = e" by blast
  with reg(2) obtain i where i: "find_fd (toint fd) (np_pfds s) 0 = Some i"
    using find_fd_None [of "toint fd" "np_pfds s" 0] by (metis image_eqI nth_mem option.exhaust)
  from fd have fd': "toint fd \<noteq> np_rdwake s" by (simp add: np_own_def)
  note i0 = find_fd_0 [OF ok fd' i]
  from netpollclose_ok [OF ok fd' i, of L] obtain q s' where q: "np_pds s ! i = Some q" and c: "netpollclose L fd s = (Ret 0, s')"
    "np_ok s'" "np_reg s' = (np_reg s)(q := None)" by blast
  have "np_reg s q = Some (np_pfds s ! i)" using np_reg_iff [OF ok] i0 q by blast
  with uniq i0 have "q = pd" by blast
  with c show ?thesis by simp
qed

interpretation qnx_poller: platform_poller np_ok np_room np_own np_reg pf_fd np_entry
  "\<lambda>mode. or_events (mode_events mode)" "\<lambda>fd pd s. snd (netpollopen L fd pd s)"
  "\<lambda>pd mode s. snd (netpollarm L pd mode s)" "\<lambda>fd s. snd (netpollclose L fd s)" for L :: "'w libc"
proof (unfold_locales, goal_cases)
  case (1 s pd fd)
  then show ?case using netpollopen_ok [of s pd L fd] by (simp add: np_room_def np_entry_def)
next
  case (2 s pd e mode)
  then show ?case using netpollarm_ok [of s pd e mode L] by force
next
  case (3 s fd pd e)
  then show ?case by (intro netpollclose_law)
next
  case (4 fd pd s)
  then show ?case by (simp add: np_own_def fun_eq_iff netpollopen_rdwake)
next
  case (5 pd mode s)
  then show ?case by (simp add: np_own_def fun_eq_iff netpollarm_rdwake)
next
  case (6 fd)
  then show ?case by (simp add: np_entry_def)
next
  case (7 mode e)
  then show ?case by (simp add: or_events_def)
qed

section \<open>Dispatching events\<close>

text \<open>The goroutine parked on a semaphore, and what a notification of a mode makes of a descriptor.\<close>

definition parked :: "gsem \<Rightarrow> nat set" where
  "parked v = (case v of PdG g \<Rightarrow> {g} | _ \<Rightarrow> {})"

definition notified :: "pollfd \<Rightarrow> pollDesc \<Rightarrow> pollDesc" where
  "notified p pd = snd (snd (netpollready [] (ev_mode p) (setEventErr (pf_revents p = POLLERR) 0 pd)))"

definition woken_by :: "pollfd \<Rightarrow> pollDesc \<Rightarrow> nat set" where
  "woken_by p pd = (if ev_mode p = mode_r \<or> ev_mode p = mode_rw then parked (pd_rg pd) else {})
     \<union> (if ev_mode p = mode_w \<or> ev_mode p = mode_rw then parked (pd_wg pd) else {})"

lemma ev_mode_cases: "ev_mode p = 0 \<or> ev_mode p = mode_r \<or> ev_mode p = mode_w \<or> ev_mode p = mode_rw"
  by (simp add: ev_mode_def)

lemma disarm_idle: "ev_mode p = 0 \<Longrightarrow> disarm p = p"
  by (auto simp: ev_mode_def disarm_def Let_def split: if_splits)

lemma setEventErr_sems [simp]: "pd_rg (setEventErr b q pd) = pd_rg pd" "pd_wg (setEventErr b q pd) = pd_wg pd"
  by (simp_all add: setEventErr_def Let_def)

lemma netpollready_spec:
  "\<exists>new. netpollready toRun (ev_mode p) (setEventErr (pf_revents p = POLLERR) 0 pd) = (- int (length new), new @ toRun, notified p pd)
     \<and> set new = woken_by p pd"
proof -
  define q where "q = setEventErr (pf_revents p = POLLERR) 0 pd"
  have s: "pd_rg q = pd_rg pd" "pd_wg q = pd_wg pd" by (simp_all add: q_def)
  have "\<exists>new. netpollready toRun (ev_mode p) q = (- int (length new), new @ toRun, snd (snd (netpollready [] (ev_mode p) q)))
     \<and> set new = woken_by p pd"
    using ev_mode_cases [of p]
    by (cases "pd_rg q"; cases "pd_wg q"; elim disjE)
      (simp_all add: netpollready_def netpollunblock_def gpp_def set_gpp_def gpush_def woken_by_def parked_def s [symmetric] Let_def)
  then show ?thesis unfolding notified_def q_def .
qed

definition entry_ids :: "(nat option \<times> pollfd) list \<Rightarrow> nat list" where
  "entry_ids Z = map (the \<circ> fst) Z"

definition ready_entries :: "(nat option \<times> pollfd) list \<Rightarrow> (nat option \<times> pollfd) list" where
  "ready_entries Z = filter (\<lambda>z. ev_mode (snd z) \<noteq> 0) Z"

lemma np_dispatch_spec:
  assumes "\<forall>z \<in> set Z. fst z \<noteq> None" and "distinct (entry_ids Z)" and "int (length (ready_entries Z)) \<le> n"
  shows "\<exists>h' new. np_dispatch Z n h toRun delta = Ret (map (disarm \<circ> snd) Z, h', new @ toRun, delta - int (length new))
    \<and> (\<forall>i. i \<notin> set (entry_ids Z) \<longrightarrow> h' i = h i)
    \<and> (\<forall>i p. (Some i, p) \<in> set Z \<longrightarrow> h' i = (if ev_mode p \<noteq> 0 then notified p (h i) else h i))
    \<and> set new = (\<Union>(i, p) \<in> {(i, p). (Some i, p) \<in> set Z}. if ev_mode p \<noteq> 0 then woken_by p (h i) else {})"
  using assms
proof (induction Z arbitrary: n h toRun delta)
  case Nil
  then show ?case by simp
next
  case (Cons z Z)
  obtain i p where z: "z = (Some i, p)" using Cons.prems(1) by (cases z) auto
  from Cons.prems(2) z have i: "i \<notin> set (entry_ids Z)" "distinct (entry_ids Z)" by (simp_all add: entry_ids_def)
  have pz: "\<forall>z \<in> set Z. fst z \<noteq> None" using Cons.prems(1) by simp
  have iZ: "(Some i, p') \<notin> set Z" for p' using i(1) by (force simp: entry_ids_def image_iff)
  have split_set: "{(j, q). (Some j, q) \<in> set (z # Z)} = insert (i, p) {(j, q). (Some j, q) \<in> set Z}" using z by auto
  show ?case
  proof (cases "n > 0")
    case False
    with Cons.prems(3) have "length (ready_entries (z # Z)) = 0" by linarith
    then have "ready_entries (z # Z) = []" by (simp only: length_0_conv)
    then have idle: "\<forall>y \<in> set (z # Z). ev_mode (snd y) = 0" unfolding ready_entries_def filter_empty_conv by blast
    then have "map (disarm \<circ> snd) (z # Z) = map snd (z # Z)" by (simp add: disarm_idle)
    with False z idle show ?thesis
      by (intro exI [of _ h] exI [of _ "[]"]) (force simp: disarm_idle)
  next
    case True
    show ?thesis
    proof (cases "ev_mode p = 0")
      case idle: True
      with Cons.prems(3) z have "int (length (ready_entries Z)) \<le> n" by (simp add: ready_entries_def)
      from Cons.IH [OF pz i(2) this, of h toRun delta] obtain h' new where
        r: "np_dispatch Z n h toRun delta = Ret (map (disarm \<circ> snd) Z, h', new @ toRun, delta - int (length new))"
        and o: "\<forall>j. j \<notin> set (entry_ids Z) \<longrightarrow> h' j = h j"
        and m: "\<forall>j q. (Some j, q) \<in> set Z \<longrightarrow> h' j = (if ev_mode q \<noteq> 0 then notified q (h j) else h j)"
        and g: "set new = (\<Union>(j, q) \<in> {(j, q). (Some j, q) \<in> set Z}. if ev_mode q \<noteq> 0 then woken_by q (h j) else {})"
        by blast
      show ?thesis
      proof (intro exI conjI)
        show "np_dispatch (z # Z) n h toRun delta = Ret (map (disarm \<circ> snd) (z # Z), h', new @ toRun, delta - int (length new))"
          using r z idle True by (simp add: Let_def)
        show "\<forall>j. j \<notin> set (entry_ids (z # Z)) \<longrightarrow> h' j = h j" using o by (simp add: entry_ids_def)
        show "\<forall>j q. (Some j, q) \<in> set (z # Z) \<longrightarrow> h' j = (if ev_mode q \<noteq> 0 then notified q (h j) else h j)"
          using m z o i(1) idle by auto
        show "set new = (\<Union>(j, q) \<in> {(j, q). (Some j, q) \<in> set (z # Z)}. if ev_mode q \<noteq> 0 then woken_by q (h j) else {})"
          unfolding split_set g using idle by simp
      qed
    next
      case busy: False
      obtain new1 where e: "netpollready toRun (ev_mode p) (setEventErr (pf_revents p = POLLERR) 0 (h i))
          = (- int (length new1), new1 @ toRun, notified p (h i))" and s1: "set new1 = woken_by p (h i)"
        using netpollready_spec [of toRun p "h i"] by blast
      let ?h = "h(i := notified p (h i))"
      from busy Cons.prems(3) z have "int (length (ready_entries Z)) \<le> n - 1" by (simp add: ready_entries_def)
      from Cons.IH [OF pz i(2) this, of ?h "new1 @ toRun" "delta - int (length new1)"] obtain h' new where
        r: "np_dispatch Z (n - 1) ?h (new1 @ toRun) (delta - int (length new1))
            = Ret (map (disarm \<circ> snd) Z, h', new @ new1 @ toRun, delta - int (length new1) - int (length new))"
        and o: "\<forall>j. j \<notin> set (entry_ids Z) \<longrightarrow> h' j = ?h j"
        and m: "\<forall>j q. (Some j, q) \<in> set Z \<longrightarrow> h' j = (if ev_mode q \<noteq> 0 then notified q (?h j) else ?h j)"
        and g: "set new = (\<Union>(j, q) \<in> {(j, q). (Some j, q) \<in> set Z}. if ev_mode q \<noteq> 0 then woken_by q (?h j) else {})"
        by blast
      have same: "(Some j, q) \<in> set Z \<Longrightarrow> ?h j = h j" for j q using iZ by auto
      show ?thesis
      proof (intro exI conjI)
        show "np_dispatch (z # Z) n h toRun delta
            = Ret (map (disarm \<circ> snd) (z # Z), h', (new @ new1) @ toRun, delta - int (length (new @ new1)))"
          using r z busy True e by (simp add: Let_def)
        show "\<forall>j. j \<notin> set (entry_ids (z # Z)) \<longrightarrow> h' j = h j" using o z by (simp add: entry_ids_def)
        show "\<forall>j q. (Some j, q) \<in> set (z # Z) \<longrightarrow> h' j = (if ev_mode q \<noteq> 0 then notified q (h j) else h j)"
          using m z o i(1) busy same by auto
        have "(\<Union>(j, q) \<in> {(j, q). (Some j, q) \<in> set Z}. if ev_mode q \<noteq> 0 then woken_by q (?h j) else {})
            = (\<Union>(j, q) \<in> {(j, q). (Some j, q) \<in> set Z}. if ev_mode q \<noteq> 0 then woken_by q (h j) else {})"
        proof (rule SUP_cong [OF refl])
          fix x assume "x \<in> {(j, q). (Some j, q) \<in> set Z}"
          then obtain j q where "x = (j, q)" "(Some j, q) \<in> set Z" by blast
          then show "(case x of (j, q) \<Rightarrow> if ev_mode q \<noteq> 0 then woken_by q (?h j) else {})
              = (case x of (j, q) \<Rightarrow> if ev_mode q \<noteq> 0 then woken_by q (h j) else {})"
            using same [of j q] by simp
        qed
        then show "set (new @ new1) = (\<Union>(j, q) \<in> {(j, q). (Some j, q) \<in> set (z # Z)}. if ev_mode q \<noteq> 0 then woken_by q (h j) else {})"
          unfolding split_set using g s1 busy by auto
      qed
    qed
  qed
qed

section \<open>A whole \<open>netpoll\<close>\<close>

lemma notified_user [simp]: "pd_user (notified p pd) = pd_user pd"
  using ev_mode_cases [of p]
  by (cases "pd_rg pd"; cases "pd_wg pd"; elim disjE)
    (simp_all add: notified_def netpollready_def netpollunblock_def gpp_def set_gpp_def gpush_def setEventErr_def Let_def)

lemma disarm_fd [simp]: "pf_fd (disarm p) = pf_fd p"
  by (simp add: disarm_def Let_def)

text \<open>Documented behaviour of \<open>poll(2)\<close>: it writes \<open>revents\<close> only and returns how many entries have any.\<close>

definition poll_result :: "pollfd list \<Rightarrow> int \<Rightarrow> pollfd list \<Rightarrow> bool" where
  "poll_result pfds n ps \<longleftrightarrow> map (\<lambda>p. (pf_fd p, pf_events p)) ps = map (\<lambda>p. (pf_fd p, pf_events p)) pfds
     \<and> (n \<ge> 0 \<longrightarrow> n = int (length (filter (\<lambda>p. pf_revents p \<noteq> 0) ps)))"

text \<open>Swapping in the array \<open>poll\<close> filled keeps the table in order.\<close>

lemma np_ok_pfds:
  assumes "np_ok s" and "map pf_fd ps = map pf_fd (np_pfds s)"
  shows "np_ok (s\<lparr>np_pfds := ps, np_thr := t\<rparr>)"
proof -
  have "length ps = length (np_pfds s)" using assms(2) by (metis length_map)
  moreover have "pf_fd (ps ! 0) = pf_fd (np_pfds s ! 0)"
    using assms calculation by (metis np_ok_def nth_map)
  ultimately show ?thesis using assms(1) by (simp add: np_ok_def)
qed

lemma length_filter_mono: "(\<And>x. P x \<Longrightarrow> Q x) \<Longrightarrow> length (filter P xs) \<le> length (filter Q xs)"
  by (induction xs) (auto simp: le_SucI)

lemma ready_count:
  "ps \<noteq> [] \<Longrightarrow> length qs = length ps \<Longrightarrow>
   length (ready_entries (tl (zip qs ps))) + (if wake_ready (hd ps) then 1 else 0) \<le> length (filter (\<lambda>p. pf_revents p \<noteq> 0) ps)"
proof (cases ps; cases qs)
  fix p ps' q qs' assume e: "ps = p # ps'" "qs = q # qs'" "length qs = length ps"
  have "length (ready_entries (zip qs' ps')) \<le> length (filter (\<lambda>p. pf_revents p \<noteq> 0) (map snd (zip qs' ps')))"
    unfolding ready_entries_def filter_map length_map comp_def
    by (rule length_filter_mono) (auto simp: ev_mode_def)
  with e show ?thesis by (auto simp: wake_ready_def)
qed simp_all


text \<open>
  What a successful poll owes its callers, between the table with the polled \<open>revents\<close> and the state
  after, said with the bits alone. An entry is readable (writable) when it reports input (output), an error or
  a hang-up. It stays registered, without the bit of each direction that fired, and its descriptor is ready in
  these directions, with the error flag set exactly for a bare \<open>POLLERR\<close>; everything else is untouched. The
  goroutines returned are the ones parked in a direction that fired.
\<close>

definition readable :: "pollfd \<Rightarrow> bool" where
  "readable p \<longleftrightarrow> pf_revents p AND 0x65 \<noteq> 0"

definition writable :: "pollfd \<Rightarrow> bool" where
  "writable p \<longleftrightarrow> pf_revents p AND 0x62 \<noteq> 0"

definition spent :: "pollfd \<Rightarrow> pollfd" where
  "spent p = p\<lparr>pf_events := (pf_events p AND NOT (if readable p then 0x5 else 0)) AND NOT (if writable p then 0x2 else 0)\<rparr>"

definition served :: "pollfd \<Rightarrow> pollDesc \<Rightarrow> pollDesc" where
  "served p d = d\<lparr>pd_rg := (if readable p then PdReady else pd_rg d), pd_wg := (if writable p then PdReady else pd_wg d),
     pd_atomicInfo := (if \<not> readable p \<and> \<not> writable p then pd_atomicInfo d
       else if pf_revents p = POLLERR then pd_atomicInfo d OR pollEventErr else pd_atomicInfo d AND NOT pollEventErr)\<rparr>"

definition delivers :: "'w netpoll \<Rightarrow> nat list \<Rightarrow> 'w netpoll \<Rightarrow> bool" where
  "delivers s toRun s' \<longleftrightarrow>
     (\<forall>pd. np_reg s' pd = map_option spent (np_reg s pd)
       \<and> np_heap s' pd = (case np_reg s pd of Some p \<Rightarrow> served p (np_heap s pd) | None \<Rightarrow> np_heap s pd))
     \<and> set toRun = {g. \<exists>pd p. np_reg s pd = Some p
          \<and> (readable p \<and> pd_rg (np_heap s pd) = PdG g \<or> writable p \<and> pd_wg (np_heap s pd) = PdG g)}"

lemma ev_mode_bits: "ev_mode p = (if readable p then mode_r else 0) + (if writable p then mode_w else 0)"
  by (simp add: ev_mode_def readable_def writable_def)

lemma disarm_spent: "disarm p = spent p"
  by (simp add: disarm_def spent_def readable_def writable_def Let_def)

lemma woken_by_bits:
  "g \<in> woken_by p d \<longleftrightarrow> readable p \<and> pd_rg d = PdG g \<or> writable p \<and> pd_wg d = PdG g"
  by (auto simp: woken_by_def ev_mode_bits parked_def split: gsem.splits)

lemma single_bit:
  fixes x t :: u32
  assumes t: "\<And>n. bit t n \<longleftrightarrow> n = k"
  shows "x AND t \<noteq> 0 \<Longrightarrow> x XOR t = x AND NOT t" and "x AND t = 0 \<Longrightarrow> x XOR t = x OR t"
    and "x AND t \<noteq> 0 \<Longrightarrow> x OR t = x" and "x AND t = 0 \<Longrightarrow> x AND NOT t = x"
proof -
  have "x AND t = 0 \<longleftrightarrow> \<not> bit x k"
    using bit_imp_le_length [of t k] by (auto simp: bit_eq_iff [where ?'a = u32] bit_and_iff t)
  then show "x AND t \<noteq> 0 \<Longrightarrow> x XOR t = x AND NOT t" "x AND t = 0 \<Longrightarrow> x XOR t = x OR t"
    "x AND t \<noteq> 0 \<Longrightarrow> x OR t = x" "x AND t = 0 \<Longrightarrow> x AND NOT t = x"
    by (auto simp: bit_eq_iff [where ?'a = u32] bit_and_iff bit_or_iff bit_xor_iff bit_not_iff t)
qed

lemma bit_two: "bit (2 :: u32) n \<longleftrightarrow> n = 1"
  using bit_exp_iff [of 1 n, where ?'a = u32] by auto

lemmas info_flip = single_bit [of pollEventErr, OF bit_two]

lemma setEventErr_0:
  "setEventErr b 0 d = d\<lparr>pd_atomicInfo := if b then pd_atomicInfo d OR pollEventErr else pd_atomicInfo d AND NOT pollEventErr\<rparr>"
  using info_flip [of "pd_atomicInfo d"] by (cases d) (auto simp: setEventErr_def Let_def)

lemma served_idle: "ev_mode p = 0 \<Longrightarrow> served p d = d"
  by (simp add: served_def ev_mode_bits split: if_splits)

lemma notified_served: "ev_mode p \<noteq> 0 \<Longrightarrow> notified p d = served p d"
  by (cases "pd_rg d"; cases "pd_wg d")
    (simp_all add: notified_def served_def ev_mode_bits setEventErr_0 netpollready_def netpollunblock_def gpp_def set_gpp_def gpush_def
      Let_def split: if_splits)

lemma np_ok_update:
  assumes ok: "np_ok s" and f: "np_pds s' = np_pds s" "np_rdwake s' = np_rdwake s"
    "map pf_fd (np_pfds s') = map pf_fd (np_pfds s)" "\<And>pd. pd_user (np_heap s' pd) = pd_user (np_heap s pd)"
  shows "np_ok s'"
proof -
  have "length (np_pfds s') = length (np_pfds s)" using f(3) by (metis length_map)
  moreover have "pf_fd (np_pfds s' ! 0) = pf_fd (np_pfds s ! 0)" using ok f(3) calculation by (metis np_ok_def nth_map)
  ultimately show ?thesis using ok f(1,2,4) by (simp add: np_ok_def)
qed

lemma np_reg_map:
  assumes "np_pds s' = np_pds s" and "np_pfds s' = hd (np_pfds s) # map f (tl (np_pfds s))" and "np_ok s"
  shows "np_reg s' pd = map_option f (np_reg s pd)"
proof -
  obtain p ps q qs where e: "np_pfds s = p # ps" "np_pds s = q # qs"
    using assms(3) by (cases "np_pfds s"; cases "np_pds s") (auto simp: np_ok_def)
  have "map_of (zip qs (map f ps)) x = map_option f (map_of (zip qs ps) x)" for x
    by (simp add: zip_map2 map_of_map)
  then show ?thesis using assms(1,2) e by (simp add: np_reg_def)
qed

lemma netpoll_events_ok:
  assumes ok: "np_ok s" and n: "n = int (length (filter (\<lambda>p. pf_revents p \<noteq> 0) (np_pfds s)))"
    and run: "netpoll_events fuel L delay n s = Some (r, s')"
  shows "\<exists>toRun. r = Ret (toRun, - int (length toRun)) \<and> delivers s toRun s' \<and> np_ok s'
    \<and> \<not> np_mtxset s' \<and> np_mtxpoll s' = np_mtxpoll s"
proof -
  let ?Z = "tl (zip (np_pds s) (np_pfds s))"
  define woken where "woken \<longleftrightarrow> n \<noteq> 0 \<and> wake_ready (hd (np_pfds s))"
  have len: "length (np_pds s) = length (np_pfds s)" "np_pfds s \<noteq> []" using ok by (auto simp: np_ok_def)
  define after where "after = (if woken \<and> delay \<noteq> 0
    then map_option (\<lambda>t. s\<lparr>np_thr := t, np_wakeSig := 0\<rparr>) (drain fuel L (np_rdwake s) (np_thr s)) else Some s)"
  have ev: "netpoll_events fuel L delay n s = (case after of None \<Rightarrow> None
      | Some s1 \<Rightarrow> (case np_dispatch (tl (zip (np_pds s1) (np_pfds s1))) (if woken then n - 1 else n) (np_heap s1) [] 0 of
          Throw e \<Rightarrow> Some (Throw e, s1)
        | Ret (ps, h, toRun, delta) \<Rightarrow>
            Some (Ret (toRun, delta), unlock_mtxset (s1\<lparr>np_pfds := hd (np_pfds s1) # ps, np_heap := h\<rparr>))))"
    unfolding netpoll_events_def woken_def after_def Let_def ..
  with run obtain s1 where a: "after = Some s1" by (cases after) simp_all
  then have s1: "np_pds s1 = np_pds s" "np_pfds s1 = np_pfds s" "np_heap s1 = np_heap s"
    "np_rdwake s1 = np_rdwake s" "np_mtxpoll s1 = np_mtxpoll s"
    by (auto simp: after_def split: if_splits)
  have "fst z \<noteq> None" if z: "z \<in> set ?Z" for z
  proof -
    from z obtain k where "k < length ?Z" "z = ?Z ! k" by (metis in_set_conv_nth)
    with len have "fst z = np_pds s ! Suc k" "Suc k < length (np_pfds s)" by (auto simp: nth_tl)
    with ok show ?thesis by (auto simp: np_ok_def)
  qed
  note some = this
  have "inj_on the (set (map fst ?Z))"
  proof (rule inj_onI)
    fix x y assume "x \<in> set (map fst ?Z)" "y \<in> set (map fst ?Z)" and e: "the x = the y"
    then have "x \<noteq> None" "y \<noteq> None" using some by auto
    with e show "x = y" by auto
  qed
  with np_ok_distinct [OF ok] have "distinct (entry_ids ?Z)"
    unfolding entry_ids_def map_map [symmetric] by (simp only: distinct_map simp_thms)
  moreover from some have "\<forall>z \<in> set ?Z. fst z \<noteq> None" by blast
  moreover have "int (length (ready_entries ?Z)) \<le> (if woken then n - 1 else n)"
    using ready_count [OF len(2) len(1)] n by (auto simp: woken_def)
  ultimately obtain h' toRun where
    r: "np_dispatch ?Z (if woken then n - 1 else n) (np_heap s) [] 0 = Ret (map (disarm \<circ> snd) ?Z, h', toRun, - int (length toRun))"
    and o: "\<forall>i. i \<notin> set (entry_ids ?Z) \<longrightarrow> h' i = np_heap s i"
    and m: "\<forall>i p. (Some i, p) \<in> set ?Z \<longrightarrow> h' i = (if ev_mode p \<noteq> 0 then notified p (np_heap s i) else np_heap s i)"
    and g: "set toRun = (\<Union>(i, p) \<in> {(i, p). (Some i, p) \<in> set ?Z}. if ev_mode p \<noteq> 0 then woken_by p (np_heap s i) else {})"
    using np_dispatch_spec [of ?Z "if woken then n - 1 else n" "np_heap s" "[]" 0] by auto
  have "map (disarm \<circ> snd) ?Z = map disarm (tl (np_pfds s))"
    using len by (cases "np_pfds s"; cases "np_pds s") (simp_all flip: map_map)
  with run ev a r s1 have res: "r = Ret (toRun, - int (length toRun))"
    and s': "s' = unlock_mtxset (s1\<lparr>np_pfds := hd (np_pfds s) # map disarm (tl (np_pfds s)), np_heap := h'\<rparr>)"
    by simp_all
  have f: "np_pds s' = np_pds s" "np_pfds s' = hd (np_pfds s) # map disarm (tl (np_pfds s))" "np_heap s' = h'"
    "np_rdwake s' = np_rdwake s" using s1 by (simp_all add: s')
  have hp: "h' pd = (case np_reg s pd of Some p \<Rightarrow> if ev_mode p \<noteq> 0 then notified p (np_heap s pd) else np_heap s pd
      | None \<Rightarrow> np_heap s pd)" for pd
  proof (cases "np_reg s pd")
    case None
    then have "pd \<notin> set (entry_ids ?Z)"
      using some np_reg_set [OF ok, of pd] by (auto simp: entry_ids_def)
    with o None show ?thesis by simp
  next
    case (Some p)
    with m np_reg_set [OF ok, of pd p] show ?thesis by auto
  qed
  have "map pf_fd (np_pfds s') = map pf_fd (np_pfds s)" using len f(2) by (cases "np_pfds s") simp_all
  then have "np_ok s'"
    by (rule np_ok_update [OF ok f(1) f(4)]) (simp add: f(3) hp split: option.split)
  moreover have "set toRun = {g. \<exists>pd p. np_reg s pd = Some p \<and> ev_mode p \<noteq> 0 \<and> g \<in> woken_by p (np_heap s pd)}"
    unfolding g np_reg_set [OF ok] by (auto split: if_splits; blast)
  then have "set toRun = {g. \<exists>pd p. np_reg s pd = Some p \<and> g \<in> woken_by p (np_heap s pd)}"
    by (auto simp: woken_by_def; metis)
  then have "delivers s toRun s'"
    unfolding delivers_def woken_by_bits [symmetric] using np_reg_map [OF f(1) f(2) ok] hp f(3)
    by (simp add: disarm_spent [abs_def] notified_served served_idle split: option.split)
  ultimately show ?thesis using res s1 by (auto simp: s')
qed

section \<open>Properties\<close>

lemma timeout_ms:
  assumes "1000000 \<le> delay" and "delay < 1000000000000000"
  shows "uint (uptr (go_div delay 1000000)) = delay div 1000000"
proof -
  have "0 \<le> delay div 1000000" "delay div 1000000 < 1000000000" using assms by auto
  then show ?thesis using assms by (simp add: go_div_nonneg uptr_def uint_word_of_int)
qed

lemma netpoll_timeout_pos:
  assumes "delay \<noteq> 0"
  shows "0 < netpoll_timeout wrwake delay"
proof -
  have "uptr (go_div delay 1000000) \<noteq> 0" if "1000000 \<le> delay" "delay < 1000000000000000"
  proof
    assume "uptr (go_div delay 1000000) = 0"
    with timeout_ms [OF that] have "delay div 1000000 = 0" by simp
    with that show False by (simp add: div_pos_pos_trivial pos_imp_zdiv_pos_iff flip: not_less)
  qed
  then show ?thesis using assms by (auto simp: netpoll_timeout_def Let_def word_neq_0_conv [symmetric] not_less)
qed

text \<open>C39: The timeout of a poll in milliseconds. It is never zero, so an interrupted poll returns to the
  scheduler instead of retrying. With a wake pipe a negative delay blocks and a positive one is the
  delay rounded down, but at least one millisecond and at most 10^9; without a pipe it never exceeds
  \<open>pollNoWakeCapMs\<close>.\<close>

theorem netpoll_timeout_bounds:
  assumes "delay \<noteq> 0"
  shows "0 < netpoll_timeout wrwake delay
    \<and> (wrwake < 0 \<longrightarrow> netpoll_timeout wrwake delay \<le> pollNoWakeCapMs)
    \<and> (0 \<le> wrwake \<and> delay < 0 \<longrightarrow> netpoll_timeout wrwake delay = NOT 0)
    \<and> (0 \<le> wrwake \<and> 0 < delay \<longrightarrow> uint (netpoll_timeout wrwake delay)
         = max 1 (if delay < 1000000000000000 then delay div 1000000 else 1000000000))"
proof (intro conjI impI)
  show "0 < netpoll_timeout wrwake delay" by (rule netpoll_timeout_pos [OF assms])
  show "wrwake < 0 \<Longrightarrow> netpoll_timeout wrwake delay \<le> pollNoWakeCapMs"
    by (auto simp: netpoll_timeout_def Let_def not_less)
  show "0 \<le> wrwake \<and> delay < 0 \<Longrightarrow> netpoll_timeout wrwake delay = NOT 0"
    by (simp add: netpoll_timeout_def)
  assume w: "0 \<le> wrwake \<and> 0 < delay"
  show "uint (netpoll_timeout wrwake delay) = max 1 (if delay < 1000000000000000 then delay div 1000000 else 1000000000)"
  proof (cases "delay < 1000000")
    case False
    then have "1 \<le> delay div 1000000" by auto
    with False w timeout_ms [of delay] show ?thesis by (simp add: netpoll_timeout_def)
  qed (use w in \<open>simp add: netpoll_timeout_def\<close>)
qed

theorem netpoll_timeout_bounds_witness:
  "netpoll_timeout (- 1) 2500000000 \<le> pollNoWakeCapMs \<and> uint (netpoll_timeout 5 2500000) = 2"
  using netpoll_timeout_bounds [of 2500000000 "- 1"] netpoll_timeout_bounds [of 2500000 5] by simp

text \<open>C2: A poll that returns hands over everything that became ready and nothing else: the goroutines
  parked on the descriptors with events, the count of them (negated) as the change of the number of
  waiters, the fired bits of each ready descriptor disarmed, its error state noted, every other
  descriptor as it was; both locks are free again. An interrupted poll returns nothing and changes no
  descriptor; any other failure throws.\<close>

theorem netpoll_delivers:
  assumes ok: "np_ok s" and delay: "delay \<noteq> 0" and run: "netpoll fuel L delay s = Some (r, s')"
    and poll: "rt_poll L (np_pfds s) (netpoll_timeout (np_wrwake s) delay) (np_thr s) = ((n, e, ps), t)"
    and doc: "poll_result (np_pfds s) n ps"
  shows "if n < 0
    then (if e = 4 then r = Ret ([], 0) \<and> np_ok s' \<and> np_heap s' = np_heap s \<and> \<not> np_mtxset s' \<and> \<not> np_mtxpoll s'
          else r = Throw ''poll failed'')
    else \<exists>toRun. r = Ret (toRun, - int (length toRun)) \<and> delivers (s\<lparr>np_pfds := ps\<rparr>) toRun s'
      \<and> np_ok s' \<and> \<not> np_mtxset s' \<and> \<not> np_mtxpoll s'"
proof -
  obtain k where k: "fuel = Suc k" using run delay by (cases fuel) (simp_all add: netpoll_def)
  let ?to = "netpoll_timeout (np_wrwake s) delay"
  define s1 where "s1 = unlock_mtxpoll ((lock_mtxset (lock_mtxpoll s))\<lparr>np_pendingUpdates := 0\<rparr>)"
  have f: "np_pfds s1 = np_pfds s" "np_pds s1 = np_pds s" "np_heap s1 = np_heap s" "np_rdwake s1 = np_rdwake s"
    "\<not> np_mtxpoll s1" "np_thr s1 = np_thr s"
    by (simp_all add: s1_def unlock_mtxpoll_def lock_mtxset_def lock_mtxpoll_def)
  define s2 where "s2 = s1\<lparr>np_pfds := ps, np_thr := t\<rparr>"
  have "map fst (map (\<lambda>p. (pf_fd p, pf_events p)) ps) = map fst (map (\<lambda>p. (pf_fd p, pf_events p)) (np_pfds s))"
    using doc by (simp only: poll_result_def)
  then have "map pf_fd ps = map pf_fd (np_pfds s)" by (simp add: comp_def)
  then have ok2: "np_ok s2" by (intro np_ok_update [OF ok]) (simp_all add: s2_def f)
  have res: "Some (r, s') = (if n < 0
         then (if e \<noteq> 4 then Some (Throw ''poll failed'', s2) else Some (Ret ([], 0), unlock_mtxset s2))
         else netpoll_events k L delay n s2)"
    using run delay poll netpoll_timeout_pos [OF delay]
    by (auto simp: netpoll_def k s1_def [symmetric] f(1,6) s2_def [symmetric] Let_def)
  have up: "np_heap s2 = np_heap s" "\<not> np_mtxpoll s2" "np_pfds s2 = ps" by (simp_all add: s2_def f)
  show ?thesis
  proof (cases "n < 0")
    case True
    have "np_ok (unlock_mtxset s2)" by (rule np_ok_update [OF ok2]) simp_all
    with True res up show ?thesis by (auto split: if_splits)
  next
    case False
    with doc have "n = int (length (filter (\<lambda>p. pf_revents p \<noteq> 0) (np_pfds s2)))" by (simp add: up poll_result_def)
    moreover have "netpoll_events k L delay n s2 = Some (r, s')" using res False by simp
    ultimately obtain toRun where
      "r = Ret (toRun, - int (length toRun))" "delivers s2 toRun s'" "np_ok s'" "\<not> np_mtxset s'" "np_mtxpoll s' = np_mtxpoll s2"
      using netpoll_events_ok [OF ok2] by blast
    moreover have "np_reg s2 = np_reg (s\<lparr>np_pfds := ps\<rparr>)" "np_heap s2 = np_heap (s\<lparr>np_pfds := ps\<rparr>)"
      by (simp_all add: fun_eq_iff np_reg_def s2_def f)
    then have "delivers s2 toRun s' = delivers (s\<lparr>np_pfds := ps\<rparr>) toRun s'" by (simp only: delivers_def)
    ultimately show ?thesis using False up by auto
  qed
qed

text \<open>A poller of one descriptor, number 7, that always reports it readable.\<close>

definition ready7 :: "unit libc" where
  "ready7 fn as e w = (case as of
     APollfds ps # as' \<Rightarrow>
       (1, e, 0, APollfds (map (\<lambda>p. p\<lparr>pf_revents := if pf_fd p = 7 then 1 else 0\<rparr>) ps) # as', w)
   | _ \<Rightarrow> (0, e, 0, as, w))"

definition one_waiter :: "unit netpoll" where
  "one_waiter = \<lparr>np_pfds = [\<lparr>pf_fd = 4, pf_events = POLLIN, pf_revents = 0\<rparr>, \<lparr>pf_fd = 7, pf_events = POLLIN, pf_revents = 0\<rparr>],
     np_pds = [None, Some 0], np_mtxpoll = False, np_mtxset = False, np_rdwake = 4, np_wrwake = 5,
     np_pendingUpdates = 0, np_wakeSig = 0,
     np_heap = (\<lambda>pd. pd_fresh\<lparr>pd_rg := PdG 42\<rparr>), np_thr = thr_of ()\<rparr>"

lemma one_waiter_ok: "np_ok one_waiter"
proof -
  have "\<exists>pd. [None, Some 0] ! i = Some pd \<and> unat (pd_user (pd_fresh\<lparr>pd_rg := PdG 42\<rparr>)) = i" if "i < 2" "0 < i" for i :: nat
  proof -
    from that have "i = 1" by linarith
    then show ?thesis by (simp add: pd_fresh_def)
  qed
  then show ?thesis by (simp add: np_ok_def one_waiter_def)
qed

lemma one_waiter_polled:
  "fst (rt_poll ready7 (np_pfds one_waiter) (netpoll_timeout (np_wrwake one_waiter) (- 1)) t)
    = (1, toint 0, [\<lparr>pf_fd = 4, pf_events = POLLIN, pf_revents = 0\<rparr>, \<lparr>pf_fd = 7, pf_events = POLLIN, pf_revents = 1\<rparr>])"
  if "has_errno t"
  using that by (simp add: rt_poll_def libcall_defs has_errno_def ready7_def one_waiter_def argat_def out_pollfds_def Let_def
      toint_def)

theorem netpoll_delivers_witness:
  "\<exists>toRun s'. netpoll 1 ready7 (- 1) one_waiter = Some (Ret (toRun, - int (length toRun)), s') \<and> 42 \<in> set toRun \<and> np_ok s'"
proof -
  have e: "has_errno (np_thr one_waiter)" by (simp add: one_waiter_def thr_of_def has_errno_def)
  let ?ps = "[\<lparr>pf_fd = 4, pf_events = POLLIN, pf_revents = 0\<rparr>, \<lparr>pf_fd = 7, pf_events = POLLIN, pf_revents = 1\<rparr>]"
  from one_waiter_polled [OF e] obtain t where
    p: "rt_poll ready7 (np_pfds one_waiter) (netpoll_timeout (np_wrwake one_waiter) (- 1)) (np_thr one_waiter) = ((1, toint 0, ?ps), t)"
    by (cases "rt_poll ready7 (np_pfds one_waiter) (netpoll_timeout (np_wrwake one_waiter) (- 1)) (np_thr one_waiter)") auto
  have "netpoll 1 ready7 (- 1) one_waiter \<noteq> None"
  proof -
    have "netpoll_events 0 ready7 (- 1) 1 s \<noteq> None" if "np_pfds s = ?ps" for s
      using that by (simp add: netpoll_events_def wake_ready_def split: outcome.split)
    then show ?thesis using p
      by (simp add: netpoll_def unlock_mtxpoll_def lock_mtxset_def lock_mtxpoll_def Let_def)
  qed
  then obtain r s' where run: "netpoll 1 ready7 (- 1) one_waiter = Some (r, s')" by auto
  have doc: "poll_result (np_pfds one_waiter) 1 ?ps" by (simp add: poll_result_def one_waiter_def)
  from netpoll_delivers [OF one_waiter_ok _ run p doc] obtain toRun where
    r: "r = Ret (toRun, - int (length toRun))" and d: "delivers (one_waiter\<lparr>np_pfds := ?ps\<rparr>) toRun s'" and "np_ok s'"
    by auto
  have "42 \<in> set toRun"
    using d by (simp add: delivers_def np_reg_def one_waiter_def readable_def)
  with r run \<open>np_ok s'\<close> show ?thesis by blast
qed

text \<open>The loop that empties the pipe ends when reading a byte makes the pipe shorter.\<close>

lemma drain_returns:
  assumes dec: "\<forall>t b t1. rt_read L rd [0] 1 t = ((1, b), t1) \<longrightarrow> pipe (t_world t1) < (pipe (t_world t) :: nat)"
  shows "\<exists>t'. \<forall>fuel > pipe (t_world t). drain fuel L rd t = Some t'"
proof (induction "pipe (t_world t)" arbitrary: t rule: less_induct)
  case less
  obtain n b t1 where r: "rt_read L rd [0] 1 t = ((n, b), t1)" by (cases "rt_read L rd [0] 1 t") auto
  show ?case
  proof (cases "n = 1")
    case True
    with dec r have lt: "pipe (t_world t1) < pipe (t_world t)" by blast
    from less [OF this] obtain t' where t': "\<forall>fuel > pipe (t_world t1). drain fuel L rd t1 = Some t'" by blast
    have "drain fuel L rd t = Some t'" if "fuel > pipe (t_world t)" for fuel
      using that t' lt r True by (cases fuel) simp_all
    then show ?thesis by blast
  next
    case False
    have "drain fuel L rd t = Some t1" if "fuel > pipe (t_world t)" for fuel
      using that r False by (cases fuel) simp_all
    then show ?thesis by blast
  qed
qed

text \<open>C30: \<open>netpoll\<close> returns: when every byte read from the wake pipe shortens it, some amount of fuel
  is enough for any delay, and more fuel does not change the result. An interrupted poll is never
  retried, since the timeout is positive.\<close>

theorem netpoll_returns:
  assumes dec: "\<forall>t b t1. rt_read L (np_rdwake s) [0] 1 t = ((1, b), t1) \<longrightarrow> pipe (t_world t1) < (pipe (t_world t) :: nat)"
  shows "\<exists>k res. \<forall>fuel \<ge> k. netpoll fuel L delay s = Some res"
proof (cases "delay = 0")
  case False
  let ?to = "netpoll_timeout (np_wrwake s) delay"
  define s1 where "s1 = unlock_mtxpoll ((lock_mtxset (lock_mtxpoll s))\<lparr>np_pendingUpdates := 0\<rparr>)"
  have rd: "np_rdwake s1 = np_rdwake s" by (simp add: s1_def unlock_mtxpoll_def lock_mtxset_def lock_mtxpoll_def)
  obtain n e ps t where p: "rt_poll L (np_pfds s1) ?to (np_thr s1) = ((n, e, ps), t)"
    by (cases "rt_poll L (np_pfds s1) ?to (np_thr s1)") auto
  define s2 where "s2 = s1\<lparr>np_pfds := ps, np_thr := t\<rparr>"
  have ev: "\<exists>res. \<forall>fuel > pipe (t_world t). netpoll_events fuel L delay n s2 = Some res"
  proof -
    have "np_rdwake s2 = np_rdwake s" "np_thr s2 = t" by (simp_all add: s2_def rd)
    with drain_returns [of L "np_rdwake s" pipe t, OF dec] obtain t' where
      "\<forall>fuel > pipe (t_world t). drain fuel L (np_rdwake s2) (np_thr s2) = Some t'" by auto
    then show ?thesis
      by (auto simp: netpoll_events_def Let_def split: outcome.split)
  qed
  then obtain res where res: "\<forall>fuel > pipe (t_world t). netpoll_events fuel L delay n s2 = Some res" by blast
  have "\<exists>out. \<forall>fuel \<ge> Suc (Suc (pipe (t_world t))). netpoll fuel L delay s = Some out"
  proof -
    have step: "netpoll (Suc k) L delay s = (if n < 0
         then (if e \<noteq> 4 then Some (Throw ''poll failed'', s2) else Some (Ret ([], 0), unlock_mtxset s2))
         else netpoll_events k L delay n s2)" for k
      using False p netpoll_timeout_pos [OF False]
      by (simp add: netpoll_def s1_def [symmetric] s2_def [symmetric] Let_def)
    define out where "out = (if n < 0 then (if e \<noteq> 4 then (Throw ''poll failed'', s2) else (Ret ([], 0), unlock_mtxset s2)) else res)"
    have "netpoll fuel L delay s = Some out" if "fuel \<ge> Suc (Suc (pipe (t_world t)))" for fuel
      using that res step by (cases fuel) (auto simp: out_def)
    then show ?thesis by blast
  qed
  then show ?thesis by blast
qed (simp add: netpoll_def)

text \<open>A world that is the number of bytes in the wake pipe.\<close>

definition pipe_libc :: "nat libc" where
  "pipe_libc fn as e w = (if fn = ''libc_read'' then (if w = 0 then (- 1, 0, 11, as, w) else (1, 0, 0, as, w - 1)) else (0, e, 0, as, w))"

theorem netpoll_returns_witness:
  "\<exists>k res. \<forall>fuel \<ge> k. netpoll fuel pipe_libc (- 1)
     \<lparr>np_pfds = [\<lparr>pf_fd = 4, pf_events = POLLIN, pf_revents = 0\<rparr>], np_pds = [None], np_mtxpoll = False, np_mtxset = False,
      np_rdwake = 4, np_wrwake = 5, np_pendingUpdates = 0, np_wakeSig = 0, np_heap = (\<lambda>pd. pd_fresh), np_thr = thr_of 3\<rparr> = Some res"
proof (rule netpoll_returns [where pipe = id], intro allI impI)
  fix t b and t1 :: "nat thr"
  assume "rt_read pipe_libc (np_rdwake \<lparr>np_pfds = [\<lparr>pf_fd = 4, pf_events = POLLIN, pf_revents = 0\<rparr>], np_pds = [None],
    np_mtxpoll = False, np_mtxset = False, np_rdwake = 4, np_wrwake = 5, np_pendingUpdates = 0, np_wakeSig = 0,
    np_heap = (\<lambda>pd. pd_fresh), np_thr = thr_of 3\<rparr>) [0] 1 t = ((1, b), t1)"
  then show "id (t_world t1) < id (t_world t)"
    by (auto simp: rt_read_def libcall_defs pipe_libc_def Let_def toint_def int32_id split: if_splits)
qed

text \<open>Initialisation leaves a sound, empty table whatever \<open>pipe\<close> does. When no pipe can be made both
  wake descriptors are -1, and then waking and breaking make no call at all and leave the state as it is.\<close>

theorem netpollinit_degrades:
  "np_ok (netpollinit L s) \<and> np_reg (netpollinit L s) = Map.empty
    \<and> (snd (snd (fst (nonblockingPipe L (np_thr s)))) \<noteq> 0 \<longrightarrow>
        np_rdwake (netpollinit L s) = - 1 \<and> np_wrwake (netpollinit L s) = - 1
        \<and> netpollwakeup L' (netpollinit L s) = netpollinit L s \<and> netpollBreak L' (netpollinit L s) = netpollinit L s)"
  by (auto simp: netpollinit_def np_ok_def np_reg_def netpollwakeup_def netpollBreak_def Let_def case_prod_beta)

theorem netpollinit_degrades_witness:
  "np_wrwake (netpollinit (\<lambda>fn as e w. (- 1, 0, 89, as, w)) one_waiter) = - 1"
proof -
  have "snd (snd (fst (nonblockingPipe (\<lambda>fn as e w. (- 1, 0, 89, as, w)) (np_thr one_waiter)))) \<noteq> 0"
    by (simp add: nonblockingPipe_def rt_pipe_def libcall_defs one_waiter_def thr_of_def has_errno_def toint_def)
  then show ?thesis using netpollinit_degrades [of "\<lambda>fn as e w. (- 1, 0, 89, as, w)" one_waiter] by blast
qed

text \<open>Closing a registered descriptor removes exactly its registration: the table stays sound, so the
  descriptor that moved into the hole has its new index as cookie, every other registration is kept, and
  the locks are free.\<close>

theorem netpollclose_exact:
  assumes "np_ok s" and "np_reg s pd = Some p" and "toint fd = pf_fd p" and "toint fd \<noteq> np_rdwake s"
    and "\<forall>q p'. np_reg s q = Some p' \<and> pf_fd p' = pf_fd p \<longrightarrow> q = pd"
  shows "np_ok (snd (netpollclose L fd s)) \<and> np_reg (snd (netpollclose L fd s)) = (np_reg s)(pd := None)"
  by (rule netpollclose_law [OF assms(1) _ assms(2) assms(3) [symmetric]]) (use assms in \<open>auto simp: np_own_def\<close>)

lemma one_waiter_reg: "np_reg one_waiter = [0 \<mapsto> \<lparr>pf_fd = 7, pf_events = POLLIN, pf_revents = 0\<rparr>]"
  by (auto simp: np_reg_def one_waiter_def)

lemma one_waiter_fields [simp]: "np_rdwake one_waiter = 4" "length (np_pfds one_waiter) = 2"
  by (simp_all add: one_waiter_def)

theorem netpollclose_exact_witness: "np_reg (snd (netpollclose ready7 7 one_waiter)) = Map.empty"
  using netpollclose_exact [OF one_waiter_ok, of 0 _ 7 ready7]
  by (simp add: one_waiter_reg toint_def)

text \<open>C27: The life of a descriptor - opened, armed any number of times in either direction, closed -
  leaves the registrations of all the others as they were before, and the table sound.\<close>

theorem descriptor_life:
  assumes "np_ok s" and "length (np_pfds s) + 1 < 2 ^ 31" and "toint fd \<noteq> np_rdwake s" and "np_reg s pd = None"
    and "\<forall>q p. np_reg s q = Some p \<longrightarrow> pf_fd p \<noteq> toint fd" and "\<forall>m \<in> set modes. m = mode_r \<or> m = mode_w"
    and "s' = fold (\<lambda>m s. snd (netpollarm L pd m s)) modes (snd (netpollopen L fd pd s))"
  shows "np_ok (snd (netpollclose L fd s')) \<and> np_reg (snd (netpollclose L fd s')) = np_reg s"
  unfolding assms(7)
  by (rule qnx_poller.session) (use assms in \<open>auto simp: np_room_def np_own_def\<close>)

theorem descriptor_life_witness:
  "\<exists>s'. s' = fold (\<lambda>m s. snd (netpollarm ready7 1 m s)) [mode_w, mode_r] (snd (netpollopen ready7 9 1 one_waiter))
    \<and> np_reg (snd (netpollclose ready7 9 s')) = np_reg one_waiter"
  using descriptor_life [OF one_waiter_ok, of 9 1 "[mode_w, mode_r]" _ ready7]
  by (simp add: one_waiter_reg toint_def)

end
