(* ===== verification/Poll_Runtime.thy ===== *)
theory Poll_Runtime
  imports Qnx_Netpoll
begin

text \<open>
  The entry points of \<open>runtime/netpoll.go\<close> that \<open>internal/poll\<close> is linked to, composed of the descriptor
  operations of theory \<open>Poll_Desc\<close>, the QNX poller of theory \<open>Qnx_Netpoll\<close>, the cache of descriptors and
  the counter of waiters. A goroutine that waits gives way to the rest of the program at two points:
  between announcing that it will wait and parking, and while it is parked. What the rest of the program
  does there is the parameter \<open>env\<close>. Releasing a goroutine (\<open>goready\<close>) appends it to a list.
\<close>

section \<open>State\<close>

record 'w pollrt =
  pr_np :: "'w netpoll"
  pr_first :: "nat list"
  pr_next :: nat
  pr_waiters :: u32
  pr_ready :: "nat list"
  pr_inited :: bool

type_synonym ('w, 'z) rt = "('w, 'z) pollrt_scheme"

text \<open>The points where other goroutines run.\<close>

datatype yield = YPrepared | YParked | YSema bool | YClosed

type_synonym ('w, 'z) env = "yield \<Rightarrow> ('w, 'z) rt \<Rightarrow> ('w, 'z) rt"

definition pd_at :: "('w, 'z) rt \<Rightarrow> nat \<Rightarrow> pollDesc" where
  "pd_at s pd = np_heap (pr_np s) pd"

definition pd_store :: "nat \<Rightarrow> pollDesc \<Rightarrow> ('w, 'z) rt \<Rightarrow> ('w, 'z) rt" where
  "pd_store pd d s = s\<lparr>pr_np := (pr_np s)\<lparr>np_heap := (np_heap (pr_np s))(pd := d)\<rparr>\<rparr>"

text \<open>Memory from \<open>persistentalloc\<close> is zero.\<close>

definition pd_zero :: pollDesc where
  "pd_zero = \<lparr>pd_fd = 0, pd_fdseq = 0, pd_atomicInfo = 0, pd_rg = PdNil, pd_wg = PdNil, pd_closing = False,
     pd_rrun = False, pd_wrun = False, pd_user = 0, pd_rseq = 0, pd_rt = None, pd_rd = 0, pd_wseq = 0, pd_wt = None, pd_wd = 0\<rparr>"

section \<open>Initialisation and the cache\<close>

definition netpollGenericInit :: "'w libc \<Rightarrow> ('w, 'z) rt \<Rightarrow> ('w, 'z) rt" where
  "netpollGenericInit L s = (if \<not> pr_inited s then s\<lparr>pr_np := netpollinit L (pr_np s), pr_inited := True\<rparr> else s)"

definition netpollinited :: "('w, 'z) rt \<Rightarrow> bool" where "netpollinited s = pr_inited s"

definition poll_runtime_pollServerInit :: "'w libc \<Rightarrow> ('w, 'z) rt \<Rightarrow> ('w, 'z) rt" where
  "poll_runtime_pollServerInit L s = netpollGenericInit L s"

definition poll_runtime_isPollServerDescriptor :: "u32 \<Rightarrow> ('w, 'z) rt \<Rightarrow> bool" where
  "poll_runtime_isPollServerDescriptor fd s = netpollIsPollDescriptor fd (pr_np s)"

text \<open>\<open>blk\<close> is \<open>pollBlockSize / pdSize\<close>; the descriptors of a block are pushed in ascending order.\<close>

definition pollcache_alloc :: "nat \<Rightarrow> ('w, 'z) rt \<Rightarrow> nat \<times> ('w, 'z) rt" where
  "pollcache_alloc blk s =
     (let n = (if blk = 0 then 1 else blk);
          s1 = (if pr_first s = []
                then s\<lparr>pr_first := rev [pr_next s..<pr_next s + n], pr_next := pr_next s + n,
                       pr_np := (pr_np s)\<lparr>np_heap := (\<lambda>i. if pr_next s \<le> i \<and> i < pr_next s + n then pd_zero
                                                          else np_heap (pr_np s) i)\<rparr>\<rparr>
                else s)
      in (hd (pr_first s1), s1\<lparr>pr_first := tl (pr_first s1)\<rparr>))"

definition pollcache_release :: "nat \<Rightarrow> ('w, 'z) rt \<Rightarrow> ('w, 'z) rt" where
  "pollcache_release pd s =
     (let s1 = pd_store pd (pollcache_free (pd_at s pd)) s in s1\<lparr>pr_first := pd # pr_first s1\<rparr>)"

section \<open>Opening and closing\<close>

definition poll_runtime_pollOpen :: "nat \<Rightarrow> 'w libc \<Rightarrow> u32 \<Rightarrow> ('w, 'z) rt \<Rightarrow> (nat option \<times> int) outcome \<times> ('w, 'z) rt" where
  "poll_runtime_pollOpen blk L fd s =
     (let (pd, s1) = pollcache_alloc blk s
      in case pollOpen_reset fd (pd_at s1 pd) of
           Throw e \<Rightarrow> (Throw e, s1)
         | Ret d \<Rightarrow>
             (let s2 = pd_store pd d s1;
                  (errno, np) = netpollopen L fd pd (pr_np s2);
                  s3 = s2\<lparr>pr_np := np\<rparr>
              in if errno \<noteq> 0 then (Ret (None, errno), pollcache_release pd s3) else (Ret (Some pd, 0), s3)))"

definition poll_runtime_pollClose :: "'w libc \<Rightarrow> nat \<Rightarrow> ('w, 'z) rt \<Rightarrow> unit outcome \<times> ('w, 'z) rt" where
  "poll_runtime_pollClose L pd s =
     (case pollClose_check (pd_at s pd) of
        Throw e \<Rightarrow> (Throw e, s)
      | Ret _ \<Rightarrow>
          (case netpollclose L (pd_fd (pd_at s pd)) (pr_np s) of
             (Throw e, np) \<Rightarrow> (Throw e, s\<lparr>pr_np := np\<rparr>)
           | (Ret _, np) \<Rightarrow> (Ret (), pollcache_release pd (s\<lparr>pr_np := np\<rparr>))))"

section \<open>Waiting\<close>

definition rt_pollReset :: "nat \<Rightarrow> int \<Rightarrow> ('w, 'z) rt \<Rightarrow> int \<times> ('w, 'z) rt" where
  "rt_pollReset pd mode s = (let (r, d) = poll_runtime_pollReset mode (pd_at s pd) in (r, pd_store pd d s))"

text \<open>\<open>netpollblock\<close> by goroutine \<open>g\<close>.\<close>

definition netpollblock :: "('w, 'z) env \<Rightarrow> nat \<Rightarrow> nat \<Rightarrow> int \<Rightarrow> bool \<Rightarrow> ('w, 'z) rt \<Rightarrow> bool outcome \<times> ('w, 'z) rt" where
  "netpollblock env g pd mode waitio s =
     (case netpollblock_prepare mode (pd_at s pd) of
        (BReady, d) \<Rightarrow> (Ret True, pd_store pd d s)
      | (BDoubleWait, d) \<Rightarrow> (Throw ''runtime: double wait'', s)
      | (BPrepared, d) \<Rightarrow>
          (let s1 = env YPrepared (pd_store pd d s);
               s2 = (if waitio \<or> netpollcheckerr (pd_at s1 pd) mode = pollNoError
                     then (let (r, d1, w) = netpollblockcommit mode g (pd_at s1 pd) (pr_waiters s1)
                           in if r then env YParked (pd_store pd d1 (s1\<lparr>pr_waiters := w\<rparr>)) else s1)
                     else s1);
               (res, d2) = netpollblock_finish mode (pd_at s2 pd)
           in (res, pd_store pd d2 s2)))"

fun pollWait_loop :: "nat \<Rightarrow> ('w, 'z) env \<Rightarrow> nat \<Rightarrow> nat \<Rightarrow> int \<Rightarrow> ('w, 'z) rt \<Rightarrow> (int outcome \<times> ('w, 'z) rt) option" where
  "pollWait_loop 0 env g pd mode s = None"
| "pollWait_loop (Suc fuel) env g pd mode s =
     (case netpollblock env g pd mode False s of
        (Throw e, s1) \<Rightarrow> Some (Throw e, s1)
      | (Ret True, s1) \<Rightarrow> Some (Ret pollNoError, s1)
      | (Ret False, s1) \<Rightarrow>
          (let errcode = netpollcheckerr (pd_at s1 pd) mode
           in if errcode \<noteq> pollNoError then Some (Ret errcode, s1) else pollWait_loop fuel env g pd mode s1))"

definition poll_runtime_pollWait ::
  "nat \<Rightarrow> ('w, 'z) env \<Rightarrow> 'w libc \<Rightarrow> nat \<Rightarrow> nat \<Rightarrow> int \<Rightarrow> ('w, 'z) rt \<Rightarrow> (int outcome \<times> ('w, 'z) rt) option" where
  "poll_runtime_pollWait fuel env L g pd mode s =
     (let errcode = netpollcheckerr (pd_at s pd) mode
      in if errcode \<noteq> pollNoError then Some (Ret errcode, s)
         else (case netpollarm L pd mode (pr_np s) of
                 (Throw e, np) \<Rightarrow> Some (Throw e, s\<lparr>pr_np := np\<rparr>)
               | (Ret _, np) \<Rightarrow> pollWait_loop fuel env g pd mode (s\<lparr>pr_np := np\<rparr>)))"

section \<open>Deadlines and unblocking\<close>

definition rt_pollSetDeadline :: "'w libc \<Rightarrow> nat \<Rightarrow> int \<Rightarrow> int \<Rightarrow> ('w, 'z) rt \<Rightarrow> ('w, 'z) rt" where
  "rt_pollSetDeadline L pd d mode s =
     (let (now, t) = (if \<not> pd_closing (pd_at s pd) \<and> d > 0 then nanotime1 L (np_thr (pr_np s)) else (0, np_thr (pr_np s)));
          s1 = s\<lparr>pr_np := (pr_np s)\<lparr>np_thr := t\<rparr>\<rparr>;
          (gs, d', w) = poll_runtime_pollSetDeadline now d mode (pd_at s1 pd) (pr_waiters s1)
      in (pd_store pd d' s1)\<lparr>pr_waiters := w, pr_ready := pr_ready s1 @ gs\<rparr>)"

definition rt_pollUnblock :: "nat \<Rightarrow> ('w, 'z) rt \<Rightarrow> unit outcome \<times> ('w, 'z) rt" where
  "rt_pollUnblock pd s =
     (case poll_runtime_pollUnblock (pd_at s pd) (pr_waiters s) of
        Throw e \<Rightarrow> (Throw e, s)
      | Ret (gs, d, w) \<Rightarrow> (Ret (), (pd_store pd d s)\<lparr>pr_waiters := w, pr_ready := pr_ready s @ gs\<rparr>))"

lemmas [poll_defs] = pd_at_def pd_store_def netpollGenericInit_def pollcache_alloc_def pollcache_release_def
  poll_runtime_pollOpen_def poll_runtime_pollClose_def rt_pollReset_def netpollblock_def poll_runtime_pollWait_def
  rt_pollSetDeadline_def rt_pollUnblock_def

section \<open>The invariant of the whole\<close>

text \<open>A descriptor in the cache: nobody parked on it, no timer running.\<close>

definition pd_idle :: "pollDesc \<Rightarrow> bool" where
  "pd_idle d \<longleftrightarrow> \<not> blocked (pd_rg d) \<and> \<not> blocked (pd_wg d) \<and> \<not> pd_rrun d \<and> \<not> pd_wrun d \<and> pd_rt d = None \<and> pd_wt d = None"

definition reg_ok :: "('w, 'z) rt \<Rightarrow> nat \<Rightarrow> pollfd \<Rightarrow> bool" where
  "reg_ok s pd e \<longleftrightarrow> pd_inv (pd_at s pd) \<and> pf_fd e = toint (pd_fd (pd_at s pd)) \<and> pf_fd e \<noteq> np_rdwake (pr_np s)
     \<and> pd < pr_next s \<and> pd \<notin> set (pr_first s)
     \<and> (\<forall>q e'. np_reg (pr_np s) q = Some e' \<and> q \<noteq> pd \<longrightarrow> pf_fd e' \<noteq> pf_fd e)"

definition prt_ok :: "('w, 'z) rt \<Rightarrow> bool" where
  "prt_ok s \<longleftrightarrow> np_ok (pr_np s) \<and> distinct (pr_first s)
     \<and> (\<forall>pd \<in> set (pr_first s). pd < pr_next s \<and> pd_idle (pd_at s pd))
     \<and> (\<forall>pd e. np_reg (pr_np s) pd = Some e \<longrightarrow> reg_ok s pd e)"

lemma prt_okD:
  assumes "prt_ok s"
  shows "np_ok (pr_np s)" "distinct (pr_first s)" "pd \<in> set (pr_first s) \<Longrightarrow> pd < pr_next s"
    "pd \<in> set (pr_first s) \<Longrightarrow> pd_idle (pd_at s pd)" "np_reg (pr_np s) pd = Some e \<Longrightarrow> reg_ok s pd e"
  using assms unfolding prt_ok_def by blast+

lemma prt_okI:
  assumes "np_ok (pr_np s)" "distinct (pr_first s)" "\<And>pd. pd \<in> set (pr_first s) \<Longrightarrow> pd < pr_next s"
    "\<And>pd. pd \<in> set (pr_first s) \<Longrightarrow> pd_idle (pd_at s pd)" "\<And>pd e. np_reg (pr_np s) pd = Some e \<Longrightarrow> reg_ok s pd e"
  shows "prt_ok s"
  unfolding prt_ok_def using assms by blast

lemma prt_ok_unreg:
  assumes "prt_ok s" and "pr_next s \<le> pd \<or> pd \<in> set (pr_first s)"
  shows "np_reg (pr_np s) pd = None"
proof (rule ccontr)
  assume "np_reg (pr_np s) pd \<noteq> None"
  then obtain e where "np_reg (pr_np s) pd = Some e" by blast
  from prt_okD(5) [OF assms(1) this] assms(2) show False by (simp add: reg_ok_def)
qed

lemma np_reg_heap [simp]: "np_reg (s\<lparr>np_heap := h\<rparr>) = np_reg s" "np_reg (s\<lparr>np_thr := t\<rparr>) = np_reg s"
  by (simp_all add: fun_eq_iff np_reg_def)

lemma np_ok_heap:
  assumes "np_ok s" and "\<And>pd. np_reg s pd \<noteq> None \<Longrightarrow> pd_user (h pd) = pd_user (np_heap s pd)"
  shows "np_ok (s\<lparr>np_heap := h\<rparr>)"
proof -
  have "pd_user (h pd) = pd_user (np_heap s pd)" if "i < length (np_pfds s)" "np_pds s ! i = Some pd" for i pd
    using assms np_reg_iff [OF assms(1), of pd "np_pfds s ! i"] that by auto
  then show ?thesis using assms(1) unfolding np_ok_def by fastforce
qed

lemma pd_at_store [simp]: "pd_at (pd_store pd d s) q = (if q = pd then d else pd_at s q)"
  by (simp add: pd_at_def pd_store_def)

lemma pd_store_fields [simp]:
  "pr_first (pd_store pd d s) = pr_first s" "pr_next (pd_store pd d s) = pr_next s"
  "np_reg (pr_np (pd_store pd d s)) = np_reg (pr_np s)" "pr_waiters (pd_store pd d s) = pr_waiters s"
  "np_rdwake (pr_np (pd_store pd d s)) = np_rdwake (pr_np s)" "np_pfds (pr_np (pd_store pd d s)) = np_pfds (pr_np s)"
  by (simp_all add: pd_store_def)

text \<open>A registered descriptor changes while its registration stays.\<close>

lemma prt_ok_store:
  assumes ok: "prt_ok s" and reg: "np_reg (pr_np s) pd = Some e" and d: "pd_inv d" "pd_user d = pd_user (pd_at s pd)"
    "pd_fd d = pd_fd (pd_at s pd)"
  shows "prt_ok (pd_store pd d s)"
proof (rule prt_okI)
  have out: "pd \<notin> set (pr_first s)" using prt_okD(5) [OF ok reg] by (simp add: reg_ok_def)
  show "np_ok (pr_np (pd_store pd d s))"
    unfolding pd_store_def using prt_okD(1) [OF ok] d by (simp add: np_ok_heap pd_at_def)
  show "distinct (pr_first (pd_store pd d s))" using prt_okD(2) [OF ok] by simp
  fix q
  show "q \<in> set (pr_first (pd_store pd d s)) \<Longrightarrow> q < pr_next (pd_store pd d s)" using prt_okD(3) [OF ok] by simp
  show "q \<in> set (pr_first (pd_store pd d s)) \<Longrightarrow> pd_idle (pd_at (pd_store pd d s) q)" using prt_okD(4) [OF ok] out by auto
  fix e' assume "np_reg (pr_np (pd_store pd d s)) q = Some e'"
  then have "reg_ok s q e'" by (intro prt_okD(5) [OF ok]) simp
  then show "reg_ok (pd_store pd d s) q e'" using d by (auto simp: reg_ok_def)
qed

text \<open>Taking a descriptor from the cache, growing it when it is empty.\<close>

lemma alloc_ok:
  assumes ok: "prt_ok s" and a: "pollcache_alloc blk s = (pd, s1)"
  shows "prt_ok s1 \<and> np_reg (pr_np s1) = np_reg (pr_np s) \<and> np_reg (pr_np s1) pd = None \<and> pd_idle (pd_at s1 pd)
    \<and> pd \<notin> set (pr_first s1) \<and> pd < pr_next s1 \<and> np_pfds (pr_np s1) = np_pfds (pr_np s)
    \<and> np_rdwake (pr_np s1) = np_rdwake (pr_np s) \<and> (\<forall>q. np_reg (pr_np s) q \<noteq> None \<longrightarrow> pd_at s1 q = pd_at s q)
    \<and> (pr_first s \<noteq> [] \<longrightarrow> pd \<in> set (pr_first s))"
proof (cases "pr_first s")
  case (Cons q qs)
  with a have e: "pd = q" "s1 = s\<lparr>pr_first := qs\<rparr>" by (auto simp: pollcache_alloc_def)
  have at: "pd_at s1 = pd_at s" by (simp add: pd_at_def fun_eq_iff e)
  have d: "q \<notin> set qs" "distinct qs" using prt_okD(2) [OF ok] Cons by simp_all
  have q: "q < pr_next s" "pd_idle (pd_at s q)" using prt_okD(3,4) [OF ok, of q] Cons by simp_all
  have n: "np_reg (pr_np s) q = None" by (rule prt_ok_unreg [OF ok]) (simp add: Cons)
  have "prt_ok s1"
  proof (rule prt_okI)
    fix i assume "i \<in> set (pr_first s1)"
    then have "i \<in> set (pr_first s)" using Cons by (simp add: e)
    then show "i < pr_next s1" "pd_idle (pd_at s1 i)"
      using prt_okD(3,4) [OF ok, of i] by (simp_all only: at) (simp_all add: e)
  next
    fix i p assume "np_reg (pr_np s1) i = Some p"
    then have "reg_ok s i p" by (intro prt_okD(5) [OF ok]) (simp add: e)
    then show "reg_ok s1 i p" unfolding reg_ok_def at using Cons by (auto simp: e)
  qed (use prt_okD(1) [OF ok] d in \<open>simp_all add: e\<close>)
  then show ?thesis using d q n Cons by (simp only: at) (simp add: e)
next
  case Nil
  define n where "n = (if blk = 0 then 1 else blk)"
  have n: "0 < n" by (simp add: n_def)
  define h where "h = (\<lambda>i. if pr_next s \<le> i \<and> i < pr_next s + n then pd_zero else np_heap (pr_np s) i)"
  define s0 where "s0 = s\<lparr>pr_first := rev [pr_next s..<pr_next s + n], pr_next := pr_next s + n, pr_np := (pr_np s)\<lparr>np_heap := h\<rparr>\<rparr>"
  have split: "rev [pr_next s..<pr_next s + n] = (pr_next s + n - 1) # rev [pr_next s..<pr_next s + n - 1]"
    using n by (cases n) simp_all
  have "pollcache_alloc blk s = (hd (pr_first s0), s0\<lparr>pr_first := tl (pr_first s0)\<rparr>)"
    by (simp add: pollcache_alloc_def Nil n_def [symmetric] h_def [symmetric] s0_def Let_def)
  then have e: "pd = pr_next s + n - 1" "s1 = s0\<lparr>pr_first := rev [pr_next s..<pr_next s + n - 1]\<rparr>"
    using a by (auto simp: s0_def split)
  have f: "pr_first s1 = rev [pr_next s..<pd]" "pr_next s1 = Suc pd" "pr_np s1 = (pr_np s)\<lparr>np_heap := h\<rparr>" "\<And>i. pd_at s1 i = h i"
    using n by (simp_all add: e s0_def pd_at_def)
  have le: "pr_next s \<le> pd" using n by (simp add: e)
  have below: "i < pr_next s" if "np_reg (pr_np s) i \<noteq> None" for i
    using prt_ok_unreg [OF ok, of i] that by (cases "i < pr_next s") simp_all
  have keep: "h i = pd_at s i" if "np_reg (pr_np s) i \<noteq> None" for i
    using below [OF that] by (simp add: h_def pd_at_def)
  have fresh: "pd_idle (h i)" if "pr_next s \<le> i" "i \<le> pd" for i
  proof -
    have "i < pr_next s + n" using that n unfolding e by linarith
    with that show ?thesis by (simp add: h_def pd_idle_def pd_zero_def blocked_def)
  qed
  have "prt_ok s1"
  proof (rule prt_okI)
    show "np_ok (pr_np s1)"
      unfolding f by (rule np_ok_heap [OF prt_okD(1) [OF ok]]) (simp add: keep, simp add: pd_at_def)
    fix i assume "i \<in> set (pr_first s1)"
    then show "i < pr_next s1" "pd_idle (pd_at s1 i)" using fresh [of i] by (simp_all add: f)
  next
    fix i p assume "np_reg (pr_np s1) i = Some p"
    then have r: "np_reg (pr_np s) i = Some p" by (simp add: f)
    then have i: "i < pr_next s" "pd_at s1 i = pd_at s i" using below keep by (simp_all add: f)
    with prt_okD(5) [OF ok r] le show "reg_ok s1 i p" unfolding reg_ok_def i(2) by (auto simp: f)
  qed (simp add: f)
  then show ?thesis using prt_ok_unreg [OF ok, of pd] le fresh [of pd] keep Nil by (simp add: f)
qed

text \<open>The reset of a descriptor that comes out of the cache.\<close>

lemma reset_ok:
  assumes "pd_idle d"
  obtains p where "pollOpen_reset fd d = Ret p" "pd_inv p" "pd_rg p = PdNil" "pd_wg p = PdNil" "pd_fd p = fd"
    "\<not> pd_closing p" "\<And>mode. netpollcheckerr p mode = pollNoError"
proof -
  let ?p1 = "d\<lparr>pd_fd := fd, pd_fdseq := (if pd_fdseq d = 0 then 1 else pd_fdseq d), pd_closing := False\<rparr>"
  define p2 where "p2 = setEventErr False 0 ?p1"
  define p3 where "p3 = p2\<lparr>pd_rseq := pd_rseq p2 + 1, pd_rg := PdNil, pd_rd := 0, pd_wseq := pd_wseq p2 + 1, pd_wg := PdNil, pd_wd := 0\<rparr>"
  have r: "pollOpen_reset fd d = Ret (publishInfo p3)"
    using assms by (simp add: pollOpen_reset_def pd_idle_def p2_def p3_def Let_def)
  have f: "pd_fd p3 = fd" "\<not> pd_closing p3" "pd_rt p3 = None" "pd_wt p3 = None" "\<not> pd_rrun p3" "\<not> pd_wrun p3"
    "pd_rd p3 = 0" "pd_wd p3 = 0" "pd_atomicInfo p3 = pd_atomicInfo p2"
    using assms by (simp_all add: p3_def p2_def setEventErr_def pd_idle_def Let_def)
  have e: "\<not> bit (pd_atomicInfo p2) 1"
  proof (cases "bit (pd_atomicInfo d) 1")
    case True
    then have "pd_atomicInfo d AND 2 \<noteq> 0" using and_exp_eq_0_iff_not_bit [of "pd_atomicInfo d" 1] by simp
    with True show ?thesis by (simp add: p2_def setEventErr_def Let_def bit_simps)
  next
    case False
    then have "pd_atomicInfo d AND 2 = 0" using and_exp_eq_0_iff_not_bit [of "pd_atomicInfo d" 1] by simp
    with False show ?thesis by (simp add: p2_def setEventErr_def Let_def)
  qed
  have c: "netpollcheckerr (publishInfo p3) mode = pollNoError" for mode
    using f e by (simp only: netpollcheckerr_def Let_def info_bits publishInfo_bits) simp
  have "pd_inv (publishInfo p3)"
    using f publishInfo_ok [of p3] by (simp add: pd_inv_def rt_ok_def wt_ok_def)
  moreover have "pd_fd (publishInfo p3) = fd" using f by (simp add: publishInfo_def)
  ultimately show ?thesis using that [OF r] f c by (simp add: p3_def)
qed

section \<open>Opening, unblocking, closing\<close>

lemma netpollopen_shape:
  "fst (netpollopen L fd pd s) = 0" "i \<noteq> pd \<Longrightarrow> np_heap (snd (netpollopen L fd pd s)) i = np_heap s i"
  "\<exists>u. np_heap (snd (netpollopen L fd pd s)) pd = (np_heap s pd)\<lparr>pd_user := u\<rparr>"
  by (auto simp: netpollopen_def Let_def set_user_def)

lemma pd_user_irrelevant [simp]:
  "pd_inv (d\<lparr>pd_user := u\<rparr>) = pd_inv d" "pd_idle (d\<lparr>pd_user := u\<rparr>) = pd_idle d"
  "netpollcheckerr (d\<lparr>pd_user := u\<rparr>) mode = netpollcheckerr d mode"
  by (simp_all add: pd_inv_defs pd_idle_def netpollcheckerr_def)

text \<open>A free file descriptor: the poller neither watches nor owns it.\<close>

definition fd_free :: "('w, 'z) rt \<Rightarrow> u32 \<Rightarrow> bool" where
  "fd_free s fd \<longleftrightarrow> toint fd \<noteq> np_rdwake (pr_np s) \<and> (\<forall>q e. np_reg (pr_np s) q = Some e \<longrightarrow> pf_fd e \<noteq> toint fd)"

lemma open_ok:
  assumes ok: "prt_ok s" and fd: "fd_free s fd" and room: "length (np_pfds (pr_np s)) + 1 < 2 ^ 31"
  obtains pd s' where "poll_runtime_pollOpen blk L fd s = (Ret (Some pd, 0), s')" "prt_ok s'"
    "np_reg (pr_np s) pd = None" "np_reg (pr_np s') = (np_reg (pr_np s))(pd \<mapsto> np_entry fd)"
    "pd_fd (pd_at s' pd) = fd" "\<not> pd_closing (pd_at s' pd)" "pd_rg (pd_at s' pd) = PdNil" "pd_wg (pd_at s' pd) = PdNil"
    "\<And>mode. netpollcheckerr (pd_at s' pd) mode = pollNoError"
proof -
  obtain pd s1 where a: "pollcache_alloc blk s = (pd, s1)" by fastforce
  note al = alloc_ok [OF ok a]
  obtain p where p: "pollOpen_reset fd (pd_at s1 pd) = Ret p" "pd_inv p" "pd_rg p = PdNil" "pd_wg p = PdNil" "pd_fd p = fd"
    "\<not> pd_closing p" "\<And>mode. netpollcheckerr p mode = pollNoError" using al reset_ok by metis
  define s2 where "s2 = pd_store pd p s1"
  define s' where "s' = s2\<lparr>pr_np := snd (netpollopen L fd pd (pr_np s2))\<rparr>"
  have run: "poll_runtime_pollOpen blk L fd s = (Ret (Some pd, 0), s')"
    by (simp add: poll_runtime_pollOpen_def a p s2_def s'_def case_prod_beta netpollopen_shape Let_def)
  have r2: "np_reg (pr_np s2) = np_reg (pr_np s)" using al by (simp add: s2_def)
  have ok2: "np_ok (pr_np s2)"
    unfolding s2_def pd_store_def pollrt.simps
  proof (simp, rule np_ok_heap)
    show "np_ok (pr_np s1)" using al prt_okD(1) by blast
    fix q assume "np_reg (pr_np s1) q \<noteq> None"
    then have "q \<noteq> pd" using al by auto
    then show "pd_user (((np_heap (pr_np s1))(pd := p)) q) = pd_user (np_heap (pr_np s1) q)" by simp
  qed
  have n2: "np_reg (pr_np s2) pd = None" and l2: "length (np_pfds (pr_np s2)) + 1 < 2 ^ 31"
    using al room r2 by (auto simp: s2_def)
  have o: "np_ok (pr_np s')" "np_reg (pr_np s') = (np_reg (pr_np s))(pd \<mapsto> np_entry fd)"
    using netpollopen_ok [OF ok2 n2 l2, of L fd] r2 by (simp_all add: s'_def np_entry_def)
  have at: "pd_at s' q = pd_at s1 q" if "q \<noteq> pd" for q
    using that by (simp add: s'_def s2_def pd_at_def netpollopen_shape) (simp add: pd_store_def)
  obtain u where atp: "pd_at s' pd = p\<lparr>pd_user := u\<rparr>"
    using netpollopen_shape(3) [of L fd pd "pr_np s2"] by (auto simp: s'_def s2_def pd_at_def pd_store_def)
  have fl: "pr_first s' = pr_first s1" "pr_next s' = pr_next s1" "np_rdwake (pr_np s') = np_rdwake (pr_np s)"
    using al by (simp_all add: s'_def s2_def netpollopen_rdwake)
  have ok': "prt_ok s'"
  proof (rule prt_okI)
    fix i assume i: "i \<in> set (pr_first s')"
    then have "i \<noteq> pd" using al by (auto simp: fl)
    with i al show "i < pr_next s'" "pd_idle (pd_at s' i)" using prt_okD(3,4) [of s1 i] by (simp_all add: fl at)
  next
    fix i e assume r: "np_reg (pr_np s') i = Some e"
    show "reg_ok s' i e"
    proof (cases "i = pd")
      case True
      then show ?thesis using r fd al p by (auto simp: reg_ok_def o fl atp fd_free_def np_entry_def)
    next
      case False
      then have "np_reg (pr_np s1) i = Some e" using r al by (simp add: o)
      with al prt_okD(5) have "reg_ok s1 i e" by blast
      moreover have "pf_fd e \<noteq> toint fd" using fd r False by (auto simp: fd_free_def o)
      ultimately show ?thesis using False al by (auto simp: reg_ok_def o fl at np_entry_def)
    qed
  qed (use o al prt_okD(2) [of s1] in \<open>simp_all add: fl\<close>)
  have n: "np_reg (pr_np s) pd = None" using al by auto
  show ?thesis by (rule that [OF run ok' n]) (use o p atp in simp_all)
qed

lemma prt_ok_ready [simp]: "prt_ok (s\<lparr>pr_waiters := w, pr_ready := gs\<rparr>) = prt_ok s"
  unfolding prt_ok_def reg_ok_def pd_at_def by simp

lemma unblock_ok:
  assumes ok: "prt_ok s" and reg: "np_reg (pr_np s) pd = Some e" and open': "\<not> pd_closing (pd_at s pd)"
  obtains s' where "rt_pollUnblock pd s = (Ret (), s')" "prt_ok s'" "np_reg (pr_np s') = np_reg (pr_np s)"
    "pd_idle (pd_at s' pd)" "pd_closing (pd_at s' pd)" "pr_first s' = pr_first s" "np_rdwake (pr_np s') = np_rdwake (pr_np s)"
    "\<forall>g. pd_rg (pd_at s pd) = PdG g \<or> pd_wg (pd_at s pd) = PdG g \<longrightarrow> g \<in> set (pr_ready s')"
proof -
  let ?d = "pd_at s pd"
  have ro: "pd_inv ?d" using prt_okD(5) [OF ok reg] by (simp add: reg_ok_def)
  define p1 where "p1 = publishInfo (?d\<lparr>pd_closing := True, pd_rseq := pd_rseq ?d + 1, pd_wseq := pd_wseq ?d + 1\<rparr>)"
  obtain rg d1 p2 where u1: "netpollunblock mode_r False 0 p1 = (rg, d1, p2)" by (metis prod.collapse)
  obtain wg d2 p3 where u2: "netpollunblock mode_w False d1 p2 = (wg, d2, p3)" by (metis prod.collapse)
  define p4 where "p4 = stop_timers p3"
  define w where "w = netpollAdjustWaiters d2 (pr_waiters s)"
  have run: "poll_runtime_pollUnblock ?d (pr_waiters s) = Ret (readied rg wg, p4, w)"
    using open' by (simp add: poll_runtime_pollUnblock_def unblock_both_def Let_def p1_def [symmetric] u1 u2 p4_def w_def)
  note inv = unblock_inv [OF ro run]
  note e1 = netpollunblock_effect [OF u1] and e2 = netpollunblock_effect [OF u2]
  have o: "pd_wg p2 = pd_wg p1" "pd_rg p3 = pd_rg p2"
    using u1 u2 by (auto simp: netpollunblock_def set_gpp_def Let_def split: if_splits gsem.splits)
  have g4: "pd_rg p4 = pd_rg p3" "pd_wg p4 = pd_wg p3" by (simp_all add: p4_def stop_timers_def Let_def)
  have idle: "pd_idle p4"
    using inv e1 e2 o g4 by (cases "pd_rt p4"; cases "pd_wt p4") (auto simp: pd_idle_def blocked_def gpp_def pd_inv_def rt_ok_def wt_ok_def)
  have "same_but_g p1 p3" using netpollunblock_same [OF u1] netpollunblock_same [OF u2] by (rule same_but_g_trans)
  from same_but_g_fields [OF this] have f: "pd_user p4 = pd_user ?d" "pd_fd p4 = pd_fd ?d"
    by (simp_all add: p4_def stop_timers_def Let_def p1_def publishInfo_def)
  define s' where "s' = (pd_store pd p4 s)\<lparr>pr_waiters := w, pr_ready := pr_ready s @ readied rg wg\<rparr>"
  have r: "rt_pollUnblock pd s = (Ret (), s')" by (simp add: rt_pollUnblock_def run s'_def)
  have p1g: "pd_rg p1 = pd_rg ?d" "pd_wg p1 = pd_wg ?d" by (simp_all add: p1_def)
  have gs: "g \<in> set (readied rg wg)" if "pd_rg ?d = PdG g \<or> pd_wg ?d = PdG g" for g
    using that e1 e2 o p1g by (auto simp: readied_def gpp_def)
  have at: "pd_at s' pd = p4" by (simp add: s'_def pd_at_def pd_store_def)
  have "prt_ok (pd_store pd p4 s)" by (rule prt_ok_store [OF ok reg]) (use inv f in simp_all)
  then have ok': "prt_ok s'" by (simp add: s'_def)
  show ?thesis by (rule that [OF r ok']) (use idle inv gs in \<open>auto simp: at\<close>, simp_all add: s'_def)
qed

text \<open>Closing leaves every other descriptor as it is.\<close>

lemma netpollclose_heap: "\<exists>u. np_heap (snd (netpollclose L fd s)) i = (np_heap s i)\<lparr>pd_user := u\<rparr>"
proof -
  have same: "\<exists>u. d = d\<lparr>pd_user := u\<rparr>" for d :: pollDesc by (rule exI [of _ "pd_user d"]) simp
  then show ?thesis by (auto simp: netpollclose_def Let_def set_user_def split: option.splits)
qed

lemma netpollclose_wake: "np_rdwake (snd (netpollclose L fd s)) = np_rdwake s"
  by (simp add: netpollclose_def Let_def split: option.splits)

lemma close_ok:
  assumes ok: "prt_ok s" and reg: "np_reg (pr_np s) pd = Some e" and c: "pd_closing (pd_at s pd)" and idle: "pd_idle (pd_at s pd)"
  obtains s' where "poll_runtime_pollClose L pd s = (Ret (), s')" "prt_ok s'" "np_reg (pr_np s') = (np_reg (pr_np s))(pd := None)"
    "pr_first s' = pd # pr_first s" "np_rdwake (pr_np s') = np_rdwake (pr_np s)"
proof -
  let ?d = "pd_at s pd" and ?c = "netpollclose L (pd_fd (pd_at s pd)) (pr_np s)"
  note ro = prt_okD(5) [OF ok reg, unfolded reg_ok_def]
  have chk: "pollClose_check ?d = Ret ()" using c idle by (simp add: pollClose_check_def pd_idle_def)
  have law: "np_ok (snd ?c) \<and> np_reg (snd ?c) = (np_reg (pr_np s))(pd := None)"
  proof (rule netpollclose_law [OF prt_okD(1) [OF ok] _ reg])
    fix q e' assume "np_reg (pr_np s) q = Some e'" "pf_fd e' = toint (pd_fd ?d)"
    then show "q = pd" using ro by metis
  qed (use ro in \<open>simp_all add: np_own_def\<close>)
  have nt: "fst ?c = Ret 0"
  proof -
    from reg np_reg_iff [OF prt_okD(1) [OF ok]] obtain j where j: "j < length (np_pfds (pr_np s))" "np_pfds (pr_np s) ! j = e" by blast
    with ro have "toint (pd_fd ?d) \<in> pf_fd ` set (np_pfds (pr_np s))" by (metis image_eqI nth_mem)
    then obtain i where i: "find_fd (toint (pd_fd ?d)) (np_pfds (pr_np s)) 0 = Some i"
      using find_fd_None [of "toint (pd_fd ?d)" "np_pfds (pr_np s)" 0] by (metis option.exhaust)
    have "toint (pd_fd ?d) \<noteq> np_rdwake (pr_np s)" using ro by simp
    from netpollclose_ok [OF prt_okD(1) [OF ok] this i, of L] show ?thesis by auto
  qed
  define s1 where "s1 = s\<lparr>pr_np := snd ?c\<rparr>"
  define s' where "s' = pollcache_release pd s1"
  obtain n0 where cc: "?c = (Ret 0, n0)" using nt by (metis prod.collapse)
  have run: "poll_runtime_pollClose L pd s = (Ret (), s')"
    by (simp add: poll_runtime_pollClose_def chk cc s'_def s1_def)
  have h1: "\<exists>u. pd_at s1 i = (pd_at s i)\<lparr>pd_user := u\<rparr>" for i
    using netpollclose_heap [of L "pd_fd ?d" "pr_np s" i] by (simp add: s1_def pd_at_def)
  have f: "pr_first s' = pd # pr_first s" "pr_next s' = pr_next s" "np_reg (pr_np s') = (np_reg (pr_np s))(pd := None)"
    "np_rdwake (pr_np s') = np_rdwake (pr_np s)" "pd_at s' pd = pollcache_free (pd_at s1 pd)"
    using law by (simp_all add: s'_def s1_def pollcache_release_def Let_def netpollclose_wake)
      (simp add: pd_at_def pd_store_def)
  have at: "pd_at s' i = pd_at s1 i" if "i \<noteq> pd" for i
    using that by (simp add: s'_def pollcache_release_def Let_def) (simp add: pd_at_def pd_store_def)
  have "pd_idle (pd_at s' pd)"
    using idle h1 [of pd] by (auto simp: f pollcache_free_def pd_idle_def)
  have ok': "prt_ok s'"
  proof (rule prt_okI)
    have "np_ok (snd ?c)" "np_reg (snd ?c) pd = None" using law by simp_all
    then show "np_ok (pr_np s')"
      unfolding s'_def pollcache_release_def Let_def s1_def
      by (simp add: pd_store_def) (rule np_ok_heap, auto)
    show "distinct (pr_first s')" using ro prt_okD(2) [OF ok] by (simp add: f)
  next
    fix i assume i: "i \<in> set (pr_first s')"
    then show "i < pr_next s'" using ro prt_okD(3) [OF ok, of i] by (auto simp: f)
    show "pd_idle (pd_at s' i)"
    proof (cases "i = pd")
      case False
      then have "pd_idle (pd_at s i)" using i prt_okD(4) [OF ok, of i] by (auto simp: f)
      then show ?thesis using h1 [of i] False by (auto simp: at)
    qed (use \<open>pd_idle (pd_at s' pd)\<close> in simp)
  next
    fix i e' assume r: "np_reg (pr_np s') i = Some e'"
    then have i: "i \<noteq> pd" "np_reg (pr_np s) i = Some e'" by (auto simp: f split: if_splits)
    then have "reg_ok s i e'" using prt_okD(5) [OF ok] by blast
    then show "reg_ok s' i e'" using i h1 [of i] by (auto simp: reg_ok_def f at)
  qed
  show ?thesis by (rule that [OF run ok']) (simp_all add: f)
qed

section \<open>Waiting\<close>

text \<open>
  What the rest of the program may do to the semaphore a goroutine is about to wait on: it never puts a
  goroutine there (only the waiter's own commit does), and a parked goroutine runs again only after an
  unblocking took it out.
\<close>

definition env_ok :: "('w, 'z) env \<Rightarrow> nat \<Rightarrow> int \<Rightarrow> bool" where
  "env_ok env pd mode \<longleftrightarrow>
     (\<forall>s. gpp mode (pd_at s pd) = PdWait \<longrightarrow> gpp mode (pd_at (env YPrepared s) pd) \<in> {PdWait, PdNil, PdReady})
     \<and> (\<forall>s g. gpp mode (pd_at s pd) = PdG g \<longrightarrow> gpp mode (pd_at (env YParked s) pd) \<in> {PdNil, PdReady})"

text \<open>It makes progress: when the goroutine runs again there is readiness or an error to report.\<close>

definition env_wakes :: "('w, 'z) env \<Rightarrow> nat \<Rightarrow> int \<Rightarrow> bool" where
  "env_wakes env pd mode \<longleftrightarrow>
     (\<forall>s. gpp mode (pd_at (env YPrepared s) pd) \<noteq> PdNil \<or> netpollcheckerr (pd_at (env YPrepared s) pd) mode \<noteq> pollNoError)
     \<and> (\<forall>s. gpp mode (pd_at (env YParked s) pd) = PdReady \<or> netpollcheckerr (pd_at (env YParked s) pd) mode \<noteq> pollNoError)"

lemma gpp_set_gpp [simp]: "gpp mode (set_gpp mode v d) = v" "netpollcheckerr (set_gpp mode v d) m = netpollcheckerr d m"
  "pd_inv (set_gpp mode v d) = pd_inv d" "pd_user (set_gpp mode v d) = pd_user d" "pd_fd (set_gpp mode v d) = pd_fd d"
  by (simp_all add: gpp_def set_gpp_def netpollcheckerr_def)

lemma pd_at_waiters [simp]: "pd_at (s\<lparr>pr_waiters := w\<rparr>) = pd_at s"
  by (simp add: fun_eq_iff pd_at_def)

lemma pd_at_store_waiters [simp]: "pd_at (pd_store pd d (s\<lparr>pr_waiters := w\<rparr>)) q = (if q = pd then d else pd_at s q)"
  by simp

lemma netpollblock_ok:
  assumes env: "env_ok env pd mode" and pre: "\<not> blocked (gpp mode (pd_at s pd))"
  obtains b s' where "netpollblock env g pd mode waitio s = (Ret b, s')" "gpp mode (pd_at s' pd) = PdNil"
    "gpp mode (pd_at s pd) = PdReady \<Longrightarrow> b \<and> netpollcheckerr (pd_at s' pd) mode = netpollcheckerr (pd_at s pd) mode"
    "env_wakes env pd mode \<Longrightarrow> b \<or> netpollcheckerr (pd_at s' pd) mode \<noteq> pollNoError"
proof (cases "gpp mode (pd_at s pd) = PdReady")
  case True
  then have "netpollblock env g pd mode waitio s = (Ret True, pd_store pd (set_gpp mode PdNil (pd_at s pd)) s)"
    by (simp add: netpollblock_def netpollblock_prepare_def)
  then show ?thesis by (rule that) simp_all
next
  case False
  then have nil: "gpp mode (pd_at s pd) = PdNil" using pre by (simp add: blocked_def)
  define s1 where "s1 = env YPrepared (pd_store pd (set_gpp mode PdWait (pd_at s pd)) s)"
  have g1: "gpp mode (pd_at s1 pd) \<in> {PdWait, PdNil, PdReady}"
    unfolding s1_def using env by (simp add: env_ok_def)
  define c where "c \<longleftrightarrow> (waitio \<or> netpollcheckerr (pd_at s1 pd) mode = pollNoError) \<and> gpp mode (pd_at s1 pd) = PdWait"
  define s2 where "s2 = (if c then env YParked (pd_store pd (set_gpp mode (PdG g) (pd_at s1 pd)) (s1\<lparr>pr_waiters := netpollAdjustWaiters 1 (pr_waiters s1)\<rparr>)) else s1)"
  have run: "netpollblock env g pd mode waitio s
      = (let (res, d2) = netpollblock_finish mode (pd_at s2 pd) in (res, pd_store pd d2 s2))"
    using nil by (auto simp: netpollblock_def netpollblock_prepare_def netpollblockcommit_def Let_def s1_def [symmetric] s2_def c_def)
  have g2: "gpp mode (pd_at s2 pd) \<in> (if c then {PdNil, PdReady} else {PdWait, PdNil, PdReady})"
    using g1 env by (auto simp: s2_def env_ok_def)
  then have fin: "netpollblock_finish mode (pd_at s2 pd) = (Ret (gpp mode (pd_at s2 pd) = PdReady), set_gpp mode PdNil (pd_at s2 pd))"
    by (auto simp: netpollblock_finish_def Let_def split: if_splits)
  have wake: "gpp mode (pd_at s2 pd) = PdReady \<or> netpollcheckerr (pd_at s2 pd) mode \<noteq> pollNoError"
    if "env_wakes env pd mode"
  proof (cases c)
    case True
    then show ?thesis using that by (simp add: s2_def env_wakes_def)
  next
    case False
    then show ?thesis using that g1 by (auto simp: s2_def c_def env_wakes_def s1_def)
  qed
  show ?thesis
    by (rule that [of "gpp mode (pd_at s2 pd) = PdReady" "pd_store pd (set_gpp mode PdNil (pd_at s2 pd)) s2"])
      (use run fin False wake in auto)
qed

text \<open>When the rest of the program posts no readiness, none is reported.\<close>

definition env_silent :: "('w, 'z) env \<Rightarrow> nat \<Rightarrow> int \<Rightarrow> bool" where
  "env_silent env pd mode \<longleftrightarrow> (\<forall>y s. gpp mode (pd_at s pd) \<noteq> PdReady \<longrightarrow> gpp mode (pd_at (env y s) pd) \<noteq> PdReady)"

lemma silent_block:
  assumes env: "env_silent env pd mode" and pre: "gpp mode (pd_at s pd) \<noteq> PdReady"
    and run: "netpollblock env g pd mode waitio s = (Ret b, s')"
  shows "\<not> b"
proof -
  have e: "gpp mode (pd_at (env y u) pd) \<noteq> PdReady" if "gpp mode (pd_at u pd) \<noteq> PdReady" for y u
    using env that by (simp add: env_silent_def)
  define s1 where "s1 = env YPrepared (pd_store pd (set_gpp mode PdWait (pd_at s pd)) s)"
  have g1: "gpp mode (pd_at s1 pd) \<noteq> PdReady" unfolding s1_def by (rule e) simp
  define s2 where "s2 = (if (waitio \<or> netpollcheckerr (pd_at s1 pd) mode = pollNoError) \<and> gpp mode (pd_at s1 pd) = PdWait
     then env YParked (pd_store pd (set_gpp mode (PdG g) (pd_at s1 pd)) (s1\<lparr>pr_waiters := netpollAdjustWaiters 1 (pr_waiters s1)\<rparr>)) else s1)"
  have g2: "gpp mode (pd_at s2 pd) \<noteq> PdReady" using g1 by (auto simp: s2_def intro!: e)
  have nil: "gpp mode (pd_at s pd) = PdNil"
    using run pre by (auto simp: netpollblock_def netpollblock_prepare_def split: gsem.splits)
  have "netpollblock env g pd mode waitio s
      = (let (res, d2) = netpollblock_finish mode (pd_at s2 pd) in (res, pd_store pd d2 s2))"
    using nil by (auto simp: netpollblock_def netpollblock_prepare_def netpollblockcommit_def Let_def s1_def [symmetric] s2_def)
  with run g2 show ?thesis by (auto simp: netpollblock_finish_def Let_def split: gsem.splits)
qed

lemma checkerr_range: "netpollcheckerr d mode \<in> {0, 1, 2, 3}"
  by (simp add: netpollcheckerr_def Let_def)

lemma pollWait_loop_ok:
  assumes env: "env_ok env pd mode"
  shows "\<not> blocked (gpp mode (pd_at s pd)) \<Longrightarrow> pollWait_loop fuel env g pd mode s = Some (r, s') \<Longrightarrow>
    \<exists>c. r = Ret c \<and> c \<in> {0, 1, 2, 3} \<and> gpp mode (pd_at s' pd) = PdNil \<and> (c \<noteq> pollNoError \<longrightarrow> netpollcheckerr (pd_at s' pd) mode = c)"
proof (induction fuel arbitrary: s)
  case (Suc fuel)
  obtain b s1 where b: "netpollblock env g pd mode False s = (Ret b, s1)" "gpp mode (pd_at s1 pd) = PdNil"
    by (rule netpollblock_ok [OF env Suc.prems(1)])
  show ?case
  proof (cases "b \<or> netpollcheckerr (pd_at s1 pd) mode \<noteq> pollNoError")
    case True
    then show ?thesis using Suc.prems(2) b checkerr_range [of "pd_at s1 pd" mode] by (cases b) auto
  next
    case False
    then show ?thesis using Suc.IH [of s1] Suc.prems(2) b by (simp add: blocked_def)
  qed
qed simp

lemma silent_wait:
  assumes env: "env_ok env pd mode" and sil: "env_silent env pd mode"
  shows "gpp mode (pd_at s pd) = PdNil \<Longrightarrow> pollWait_loop fuel env g pd mode s = Some (r, s') \<Longrightarrow> r \<noteq> Ret pollNoError"
proof (induction fuel arbitrary: s)
  case (Suc fuel)
  have nb: "\<not> blocked (gpp mode (pd_at s pd))" using Suc.prems(1) by (simp add: blocked_def)
  obtain b s1 where b: "netpollblock env g pd mode False s = (Ret b, s1)" "gpp mode (pd_at s1 pd) = PdNil"
    by (rule netpollblock_ok [OF env nb])
  have "\<not> b" by (rule silent_block [OF sil _ b(1)]) (simp add: Suc.prems(1))
  then show ?case using Suc b by (auto simp: Let_def split: if_splits)
qed simp

lemma netpollarm_heap: "np_heap (snd (netpollarm L pd mode np)) = np_heap np"
  by (simp add: netpollarm_def Let_def)

lemma block_keeps_inv:
  assumes env: "\<And>y u. pd_inv (pd_at u i) \<Longrightarrow> pd_inv (pd_at (env y u) i)" and "pd_inv (pd_at s i)"
  shows "pd_inv (pd_at (snd (netpollblock env g i mode waitio s)) i)"
proof -
  note p = block_inv [of mode]
  show ?thesis
    using assms(2)
    by (auto simp: netpollblock_def Let_def netpollblock_prepare_def netpollblockcommit_def netpollblock_finish_def
        split: gsem.splits intro!: env)
qed

lemma wait_keeps_inv:
  assumes env: "\<And>y u. pd_inv (pd_at u i) \<Longrightarrow> pd_inv (pd_at (env y u) i)"
  shows "pd_inv (pd_at s i) \<Longrightarrow> pollWait_loop fuel env g i mode s = Some (r, s') \<Longrightarrow> pd_inv (pd_at s' i)"
proof (induction fuel arbitrary: s)
  case (Suc fuel)
  obtain o1 s1 where b: "netpollblock env g i mode False s = (o1, s1)" by fastforce
  have "pd_inv (pd_at s1 i)" using block_keeps_inv [of i env s g mode False, OF env Suc.prems(1)] b by simp
  with b Suc show ?case by (auto simp: Let_def split: outcome.splits bool.splits if_splits)
qed simp

lemma pollWait_keeps_inv:
  assumes env: "\<And>y u. pd_inv (pd_at u i) \<Longrightarrow> pd_inv (pd_at (env y u) i)" and "pd_inv (pd_at s i)"
    and run: "poll_runtime_pollWait fuel env L g i mode s = Some (r, s')"
  shows "pd_inv (pd_at s' i)"
proof -
  have "pd_at (s\<lparr>pr_np := snd (netpollarm L i mode (pr_np s))\<rparr>) i = pd_at s i"
    by (simp add: pd_at_def netpollarm_heap)
  then have "pd_inv (pd_at (s\<lparr>pr_np := snd (netpollarm L i mode (pr_np s))\<rparr>) i)" using assms(2) by simp
  with wait_keeps_inv [of i env, OF env this] assms(2) run show ?thesis
    by (cases "netpollarm L i mode (pr_np s)")
      (auto simp: poll_runtime_pollWait_def Let_def split: if_splits outcome.splits)
qed

lemma pollClose_keeps_inv:
  assumes "pd_inv (pd_at s i)"
  shows "pd_inv (pd_at (snd (poll_runtime_pollClose L i s)) i)"
proof (cases "pollClose_check (pd_at s i)")
  case (Ret u)
  obtain o1 np where c: "netpollclose L (pd_fd (pd_at s i)) (pr_np s) = (o1, np)" by fastforce
  obtain u where "pd_at (s\<lparr>pr_np := np\<rparr>) i = (pd_at s i)\<lparr>pd_user := u\<rparr>"
    using netpollclose_heap [of L "pd_fd (pd_at s i)" "pr_np s" i] c by (auto simp: pd_at_def)
  then have "pd_inv (pd_at (s\<lparr>pr_np := np\<rparr>) i)" using assms by (simp add: pd_inv_defs)
  then show ?thesis using Ret c free_inv
    by (cases o1) (auto simp: poll_runtime_pollClose_def pollcache_release_def Let_def pd_at_def pd_store_def)
qed (use assms in \<open>simp add: poll_runtime_pollClose_def\<close>)

section \<open>Properties\<close>

text \<open>C17: Opening a descriptor for a file descriptor the poller does not know never fails: it takes an
  unused one (the head of the free list, or a fresh block), registers it, and hands it out with no error
  condition in either direction; unblocking it never throws, expels every waiter, and leaves it ready for
  \<open>pollClose\<close>, which never throws either, restores the registrations there were before and puts the
  descriptor back at the head of the cache. The invariant of the table and the cache holds throughout.\<close>

theorem poll_descriptor_lifecycle:
  assumes "prt_ok s" and "fd_free s fd" and "length (np_pfds (pr_np s)) + 1 < 2 ^ 31"
  shows "\<exists>pd s1 s2 s3. poll_runtime_pollOpen blk L fd s = (Ret (Some pd, 0), s1) \<and> np_reg (pr_np s) pd = None
    \<and> (\<forall>mode. netpollcheckerr (pd_at s1 pd) mode = pollNoError)
    \<and> np_reg (pr_np s1) = (np_reg (pr_np s))(pd \<mapsto> np_entry fd)
    \<and> rt_pollUnblock pd s1 = (Ret (), s2) \<and> poll_runtime_pollClose L' pd s2 = (Ret (), s3)
    \<and> np_reg (pr_np s3) = np_reg (pr_np s) \<and> pr_first s3 = pd # pr_first s1 \<and> prt_ok s1 \<and> prt_ok s2 \<and> prt_ok s3"
proof -
  obtain pd s1 where o: "poll_runtime_pollOpen blk L fd s = (Ret (Some pd, 0), s1)" "prt_ok s1" "np_reg (pr_np s) pd = None"
    "np_reg (pr_np s1) = (np_reg (pr_np s))(pd \<mapsto> np_entry fd)" "\<not> pd_closing (pd_at s1 pd)"
    "\<And>mode. netpollcheckerr (pd_at s1 pd) mode = pollNoError"
    using open_ok [OF assms] by metis
  then have r1: "np_reg (pr_np s1) pd = Some (np_entry fd)" by simp
  obtain s2 where u: "rt_pollUnblock pd s1 = (Ret (), s2)" "prt_ok s2" "np_reg (pr_np s2) = np_reg (pr_np s1)"
    "pd_idle (pd_at s2 pd)" "pd_closing (pd_at s2 pd)" "pr_first s2 = pr_first s1"
    using unblock_ok [OF o(2) r1 o(5)] by metis
  have "np_reg (pr_np s2) pd = Some (np_entry fd)" using u r1 by simp
  then obtain s3 where c: "poll_runtime_pollClose L' pd s2 = (Ret (), s3)" "prt_ok s3"
    "np_reg (pr_np s3) = (np_reg (pr_np s2))(pd := None)" "pr_first s3 = pd # pr_first s2"
    using close_ok [OF u(2) _ u(5,4)] by metis
  have "np_reg (pr_np s3) = np_reg (pr_np s)" using o u c by auto
  with o u c show ?thesis by (intro exI [of _ pd] exI [of _ s1] exI [of _ s2] exI [of _ s3]) simp
qed

text \<open>C14: Waiting for readiness. An error condition is answered at once, with its code and nothing changed. Otherwise, as long
  as the rest of the program keeps to the protocol of the semaphore (\<open>env_ok\<close>), \<open>pollWait\<close> on a registered descriptor
  throws neither for a double wait nor for a corrupted descriptor: every answer it gives is one of the four codes and leaves
  the semaphore empty, a code other than 0 is the error the descriptor reports at that moment, and code 0 is not given
  unless a readiness was posted. A readiness that is already there is consumed at once: the answer is 0 and the semaphore
  is reset to nil, nothing else of the descriptor changing. It answers after one wait when every resumption comes with
  readiness or an error.\<close>

theorem pollWait_answers:
  assumes "prt_ok s" and "np_reg (pr_np s) pd = Some e" and "mode = mode_r \<or> mode = mode_w"
    and "env_ok env pd mode" and "\<not> blocked (gpp mode (pd_at s pd))"
  shows "(netpollcheckerr (pd_at s pd) mode \<noteq> pollNoError \<longrightarrow>
            poll_runtime_pollWait n env L g pd mode s = Some (Ret (netpollcheckerr (pd_at s pd) mode), s))
    \<and> (netpollcheckerr (pd_at s pd) mode = pollNoError \<longrightarrow>
        (\<forall>fuel r s'. poll_runtime_pollWait fuel env L g pd mode s = Some (r, s') \<longrightarrow>
            (\<exists>c. r = Ret c \<and> c \<in> {0, 1, 2, 3} \<and> gpp mode (pd_at s' pd) = PdNil
              \<and> (c \<noteq> pollNoError \<longrightarrow> netpollcheckerr (pd_at s' pd) mode = c)
              \<and> (env_silent env pd mode \<and> gpp mode (pd_at s pd) = PdNil \<longrightarrow> c \<noteq> pollNoError)))
        \<and> (gpp mode (pd_at s pd) = PdReady \<longrightarrow>
            (\<exists>s'. poll_runtime_pollWait (Suc n) env L g pd mode s = Some (Ret pollNoError, s')
              \<and> pd_at s' pd = set_gpp mode PdNil (pd_at s pd)))
        \<and> (env_wakes env pd mode \<longrightarrow> poll_runtime_pollWait (Suc n) env L g pd mode s \<noteq> None))"
proof (cases "netpollcheckerr (pd_at s pd) mode = pollNoError")
  case False
  then show ?thesis by (simp add: poll_runtime_pollWait_def Let_def)
next
  case True
  have "fst (netpollarm L pd mode (pr_np s)) = Ret ()"
    using netpollarm_ok [OF prt_okD(1) [OF assms(1)] assms(2,3), of L] by auto
  then obtain np where arm: "netpollarm L pd mode (pr_np s) = (Ret (), np)" by (metis prod.collapse)
  define s0 where "s0 = s\<lparr>pr_np := np\<rparr>"
  have at: "pd_at s0 = pd_at s" using netpollarm_heap [of L pd mode "pr_np s"] arm by (simp add: s0_def pd_at_def fun_eq_iff)
  have run: "poll_runtime_pollWait fuel env L g pd mode s = pollWait_loop fuel env g pd mode s0" for fuel
    using True arm by (simp add: poll_runtime_pollWait_def s0_def)
  have pre: "\<not> blocked (gpp mode (pd_at s0 pd))" using assms(5) by (simp add: at)
  have 1: "\<exists>c. r = Ret c \<and> c \<in> {0, 1, 2, 3} \<and> gpp mode (pd_at s' pd) = PdNil
        \<and> (c \<noteq> pollNoError \<longrightarrow> netpollcheckerr (pd_at s' pd) mode = c)
        \<and> (env_silent env pd mode \<and> gpp mode (pd_at s pd) = PdNil \<longrightarrow> c \<noteq> pollNoError)"
    if "pollWait_loop fuel env g pd mode s0 = Some (r, s')" for fuel r s'
    using pollWait_loop_ok [OF assms(4) pre that] silent_wait [OF assms(4) _ _ that] by (auto simp: at)
  have 2: "\<exists>s'. pollWait_loop (Suc n) env g pd mode s0 = Some (Ret pollNoError, s') \<and> pd_at s' pd = set_gpp mode PdNil (pd_at s pd)"
    if "gpp mode (pd_at s pd) = PdReady"
    using that by (simp add: netpollblock_def netpollblock_prepare_def at)
  have 3: "pollWait_loop (Suc n) env g pd mode s0 \<noteq> None" if w: "env_wakes env pd mode"
  proof -
    obtain b s1 where "netpollblock env g pd mode False s0 = (Ret b, s1)"
      "env_wakes env pd mode \<Longrightarrow> b \<or> netpollcheckerr (pd_at s1 pd) mode \<noteq> pollNoError"
      using netpollblock_ok [OF assms(4) pre] by metis
    with w show ?thesis by (cases b) auto
  qed
  show ?thesis unfolding run using True 1 2 3 by simp
qed

text \<open>A poller with one registered descriptor, 5, and a cache of one.\<close>

definition prt_one :: "unit pollrt" where
  "prt_one = \<lparr>pr_np = one_waiter\<lparr>np_heap := (\<lambda>i. if i = 0 then pd_fresh\<lparr>pd_fd := 7\<rparr> else pd_zero)\<rparr>,
     pr_first = [2, 1], pr_next = 3, pr_waiters = 0, pr_ready = [], pr_inited = True\<rparr>"

lemma prt_one_reg: "np_reg (pr_np prt_one) = [0 \<mapsto> \<lparr>pf_fd = 7, pf_events = POLLIN, pf_revents = 0\<rparr>]"
  by (simp add: prt_one_def one_waiter_reg)

lemma prt_one_ok: "prt_ok prt_one"
proof (rule prt_okI)
  show "np_ok (pr_np prt_one)"
    unfolding prt_one_def pollrt.simps
  proof (rule np_ok_heap [OF one_waiter_ok])
    fix pd assume "np_reg one_waiter pd \<noteq> None"
    then have "pd = 0" by (simp add: one_waiter_reg split: if_splits)
    then show "pd_user (if pd = 0 then pd_fresh\<lparr>pd_fd := 7\<rparr> else pd_zero) = pd_user (np_heap one_waiter pd)"
      by (simp add: one_waiter_def)
  qed
  fix pd e
  assume "np_reg (pr_np prt_one) pd = Some e"
  then have "pd = 0" "e = \<lparr>pf_fd = 7, pf_events = POLLIN, pf_revents = 0\<rparr>" by (auto simp: prt_one_reg split: if_splits)
  moreover have "pd_inv (pd_fresh\<lparr>pd_fd := 7\<rparr>)" using pd_fresh_inv by (simp add: pd_inv_defs)
  moreover have "toint 7 = 7" by (simp add: toint_def)
  ultimately show "reg_ok prt_one pd e"
    unfolding reg_ok_def prt_one_reg by (auto simp: prt_one_def pd_at_def one_waiter_def split: if_splits)
qed (auto simp: prt_one_def pd_at_def pd_idle_def pd_zero_def blocked_def)

theorem poll_descriptor_lifecycle_witness:
  "\<exists>pd s1 s2 s3. poll_runtime_pollOpen 4 ready7 9 prt_one = (Ret (Some pd, 0), s1)
    \<and> rt_pollUnblock pd s1 = (Ret (), s2) \<and> poll_runtime_pollClose ready7 pd s2 = (Ret (), s3)
    \<and> np_reg (pr_np s3) = [0 \<mapsto> \<lparr>pf_fd = 7, pf_events = POLLIN, pf_revents = 0\<rparr>]"
proof -
  have "toint 9 = 9" by (simp add: toint_def)
  then have "fd_free prt_one 9" by (auto simp: fd_free_def prt_one_reg) (simp add: prt_one_def)
  then show ?thesis
    using poll_descriptor_lifecycle [OF prt_one_ok, of 9 4 ready7 ready7] unfolding prt_one_reg
    by (simp add: prt_one_def) blast
qed

text \<open>The rest of the program as a poller that reports the descriptor readable.\<close>

definition env_notifies :: "(unit, unit) env" where
  "env_notifies y s = pd_store 0 (snd (snd (netpollready [] mode_r (pd_at s 0)))) s"

lemma env_notifies_ok: "env_ok env_notifies 0 mode_r" "env_wakes env_notifies 0 mode_r"
proof -
  have "gpp mode_r (snd (snd (netpollready [] mode_r d))) = PdReady" for d
  proof -
    obtain g dl d' where u: "netpollunblock mode_r True 0 d = (g, dl, d')" by (metis prod.collapse)
    with netpollunblock_effect [OF u] show ?thesis by (simp add: netpollready_def)
  qed
  then show "env_ok env_notifies 0 mode_r" "env_wakes env_notifies 0 mode_r"
    by (simp_all add: env_ok_def env_wakes_def env_notifies_def)
qed

theorem pollWait_answers_witness:
  "\<exists>s'. poll_runtime_pollWait 1 env_notifies ready7 1 0 mode_r (pd_store 0 (set_gpp mode_r PdReady (pd_at prt_one 0)) prt_one)
      = Some (Ret 0, s') \<and> gpp mode_r (pd_at s' 0) = PdNil"
proof -
  let ?s = "pd_store 0 (set_gpp mode_r PdReady (pd_at prt_one 0)) prt_one"
  have reg: "np_reg (pr_np prt_one) 0 = Some \<lparr>pf_fd = 7, pf_events = POLLIN, pf_revents = 0\<rparr>" by (simp add: prt_one_reg)
  have ok: "prt_ok ?s"
    by (rule prt_ok_store [OF prt_one_ok reg]) (use prt_okD(5) [OF prt_one_ok reg] in \<open>simp_all add: reg_ok_def\<close>)
  have n: "netpollcheckerr (pd_at ?s 0) mode_r = pollNoError"
    by (simp add: netpollcheckerr_def prt_one_def pd_at_def pd_store_def pd_fresh_def set_gpp_def
        info_closing_def info_expiredRead_def info_eventErr_def)
  have r: "np_reg (pr_np ?s) 0 = Some \<lparr>pf_fd = 7, pf_events = POLLIN, pf_revents = 0\<rparr>" "gpp mode_r (pd_at ?s 0) = PdReady"
    using reg by simp_all
  then have "\<not> blocked (gpp mode_r (pd_at ?s 0))" by (simp add: blocked_def)
  from pollWait_answers [OF ok r(1) _ env_notifies_ok(1) this, of 0 ready7 1] n r(2)
  show ?thesis by auto
qed

text \<open>C29: The descriptor invariant is kept by every operation: the summary word agrees with closing
  and the two deadlines, a pending timer carries the current sequence number and deadline, the read
  timer serves both directions exactly when the deadlines coincide, and a future deadline always has
  a timer. It holds after setting a deadline, unblocking, resetting, waiting (provided the rest of the program keeps it),
  closing, a readiness notification, a scanning error, opening a descriptor with no timer running, and the firing of either timer; a timer callback
  with a sequence number that is not current changes nothing.\<close>

theorem poll_desc_invariant:
  assumes "pd_inv (pd_at s i)" and "\<And>y u. pd_inv (pd_at u i) \<Longrightarrow> pd_inv (pd_at (env y u) i)"
  shows "pd_inv (pd_at (rt_pollSetDeadline L i d mode s) i)
    \<and> (\<forall>s'. rt_pollUnblock i s = (Ret (), s') \<longrightarrow> pd_inv (pd_at s' i) \<and> pd_closing (pd_at s' i))
    \<and> pd_inv (pd_at (snd (rt_pollReset i mode s)) i)
    \<and> (\<forall>fuel r s'. poll_runtime_pollWait fuel env L g i mode s = Some (r, s') \<longrightarrow> pd_inv (pd_at s' i))
    \<and> pd_inv (pd_at (snd (netpollblock env g i mode waitio s)) i)
    \<and> pd_inv (pd_at (snd (poll_runtime_pollClose L i s)) i)
    \<and> pd_inv (snd (snd (netpollready toRun mode (pd_at s i))))
    \<and> pd_inv (setEventErr b seq (pd_at s i))
    \<and> (\<forall>pd'. \<not> pd_rrun (pd_at s i) \<and> \<not> pd_wrun (pd_at s i) \<and> pollOpen_reset fd (pd_at s i) = Ret pd'
          \<longrightarrow> pd_inv pd' \<and> \<not> pd_closing pd')
    \<and> (\<forall>gs pd' w'. fire_read_timer (pd_at s i) w = Ret (gs, pd', w') \<longrightarrow> pd_inv pd')
    \<and> (\<forall>gs pd' w'. fire_write_timer (pd_at s i) w = Ret (gs, pd', w') \<longrightarrow> pd_inv pd')
    \<and> (\<forall>f sq. sq \<noteq> (if f = DWrite then pd_wseq (pd_at s i) else pd_rseq (pd_at s i))
          \<longrightarrow> netpollDeadlineFn f sq (pd_at s i) w = Ret ([], pd_at s i, w))"
proof -
  note inv = assms(1)
  have "pd_inv (pd_at (rt_pollSetDeadline L i d mode s) i)"
    unfolding rt_pollSetDeadline_def Let_def
    by (auto split: prod.split) (use setDeadline_inv [OF inv] in \<open>simp_all add: pd_at_def pd_store_def\<close>)
  moreover have "pd_inv (pd_at s' i) \<and> pd_closing (pd_at s' i)" if "rt_pollUnblock i s = (Ret (), s')" for s'
    using that unblock_inv [OF inv] by (auto simp: rt_pollUnblock_def pd_at_def pd_store_def split: outcome.splits)
  moreover have "pd_inv (pd_at (snd (rt_pollReset i mode s)) i)"
    using reset_inv [OF inv, of mode] by (simp add: rt_pollReset_def case_prod_beta)
  moreover have "pd_inv pd' \<and> \<not> pd_closing pd'"
    if "\<not> pd_rrun (pd_at s i) \<and> \<not> pd_wrun (pd_at s i) \<and> pollOpen_reset fd (pd_at s i) = Ret pd'" for pd'
    using openReset_inv [OF inv] that by blast
  moreover note block_keeps_inv [of i env, OF assms(2) inv] pollClose_keeps_inv [OF inv] ready_inv [OF inv] setEventErr_inv [OF inv]
  ultimately show ?thesis
    by (intro conjI allI impI) (simp_all add: pollWait_keeps_inv [of i env, OF assms(2) inv] fire_inv [OF inv] stale_seq)
qed

theorem poll_desc_invariant_witness:
  "pd_inv (pd_at (rt_pollSetDeadline ready7 0 50 mode_rw prt_one) 0)"
proof -
  have "pd_inv (pd_at prt_one 0)"
    using prt_okD(5) [OF prt_one_ok, of 0] by (simp add: prt_one_reg reg_ok_def)
  then show ?thesis using poll_desc_invariant [where env = "\<lambda>y s. s" and i = 0 and s = prt_one] by blast
qed

end
