(* ===== verification/Fd_Mutex.thy ===== *)
theory Fd_Mutex
  imports Go_Prelude
begin

text \<open>
  \<open>internal/poll/fd_mutex.go\<close>: the lock that guards the life of a file descriptor, a closed bit, a
  read lock, a write lock and three 20-bit counters packed into one 64-bit word. Each operation is
  modelled by what its successful compare-and-swap does to the word, which is the only step of the
  operation that other goroutines can see; theory \<open>Fd_Sync\<close> interleaves these steps. The second half of
  this theory proves that the packed word implements a record of three flags and three counters.
\<close>

section \<open>The word\<close>

abbreviation mutexClosed :: u64 where "mutexClosed \<equiv> 1"
abbreviation mutexRLock :: u64 where "mutexRLock \<equiv> 2"
abbreviation mutexWLock :: u64 where "mutexWLock \<equiv> 4"
abbreviation mutexRef :: u64 where "mutexRef \<equiv> 8"
definition mutexRefMask :: u64 where "mutexRefMask = push_bit 3 0xFFFFF"
abbreviation mutexRWait :: u64 where "mutexRWait \<equiv> 0x800000"
definition mutexRMask :: u64 where "mutexRMask = push_bit 23 0xFFFFF"
abbreviation mutexWWait :: u64 where "mutexWWait \<equiv> 0x80000000000"
definition mutexWMask :: u64 where "mutexWMask = push_bit 43 0xFFFFF"

definition overflowMsg :: string where
  "overflowMsg = ''too many concurrent operations on a single file or socket (max 1048575)''"

definition mutexBit :: "bool \<Rightarrow> u64" where "mutexBit rd = (if rd then mutexRLock else mutexWLock)"
definition mutexWait :: "bool \<Rightarrow> u64" where "mutexWait rd = (if rd then mutexRWait else mutexWWait)"
definition mutexMask :: "bool \<Rightarrow> u64" where "mutexMask rd = (if rd then mutexRMask else mutexWMask)"

lemmas mutexMask_defs = mutexRefMask_def mutexRMask_def mutexWMask_def

section \<open>Operations\<close>

text \<open>The boolean is what the operation reports; \<open>None\<close> in \<open>rwlock\<close> is "wait for the semaphore".\<close>

definition fdmu_incref :: "u64 \<Rightarrow> (bool \<times> u64) outcome" where
  "fdmu_incref old =
     (if old AND mutexClosed \<noteq> 0 then Ret (False, old)
      else (let new = old + mutexRef in if new AND mutexRefMask = 0 then Throw overflowMsg else Ret (True, new)))"

text \<open>The loop that wakes one waiter after the other; what is left is handed to the next loop.\<close>

lemma mutexWait_le:
  assumes "old AND mutexMask rd \<noteq> 0"
  shows "unat (old - mutexWait rd) < unat old"
proof -
  let ?k = "if rd then 23 else 43 :: nat"
  from assms obtain i where i: "bit (old AND mutexMask rd) i" by (metis bit_eq_iff bit_0_eq bot_apply bot_bool_def)
  moreover have "mutexMask rd = push_bit ?k 0xFFFFF" by (simp add: mutexMask_def mutexMask_defs)
  ultimately have "bit old i" "?k \<le> i" unfolding bit_and_iff bit_push_bit_iff by (simp_all only: bit_and_iff bit_push_bit_iff)
  then have "bit (unat old) i" by (simp add: bit_simps)
  then have "unat old div 2 ^ i \<noteq> 0" by (metis bit_iff_odd even_zero)
  then have "2 ^ i \<le> unat old" by (meson div_less not_le)
  with power_increasing [OF \<open>?k \<le> i\<close>, of "2 :: nat"] have "2 ^ ?k \<le> unat old" by linarith
  moreover have "mutexWait rd \<noteq> 0" "unat (mutexWait rd) = 2 ^ ?k" by (simp_all add: mutexWait_def)
  ultimately have "unat (old - mutexWait rd) = unat old - 2 ^ ?k" by (simp only: unat_sub word_le_nat_alt)
  moreover have "(0 :: nat) < 2 ^ ?k" by simp
  ultimately show ?thesis using \<open>2 ^ ?k \<le> unat old\<close> by linarith
qed

function release_loop :: "bool \<Rightarrow> u64 \<Rightarrow> nat \<times> u64" where
  "release_loop rd old =
     (if old AND mutexMask rd \<noteq> 0
      then (let (n, left) = release_loop rd (old - mutexWait rd) in (Suc n, left))
      else (0, old))"
  by pat_completeness auto
termination by (relation "measure (\<lambda>(rd, old). unat old)") (auto simp: mutexWait_le)

declare release_loop.simps [simp del]

text \<open>Closing also says how many readers and writers it then wakes, one semaphore release each.\<close>

definition fdmu_increfAndClose :: "u64 \<Rightarrow> (bool \<times> u64 \<times> nat \<times> nat) outcome" where
  "fdmu_increfAndClose old =
     (if old AND mutexClosed \<noteq> 0 then Ret (False, old, 0, 0)
      else (let new = (old OR mutexClosed) + mutexRef
            in if new AND mutexRefMask = 0 then Throw overflowMsg
               else (let (nr, old1) = release_loop True old; (nw, old2) = release_loop False old1
                     in Ret (True, new AND NOT (mutexRMask OR mutexWMask), nr, nw))))"

definition fdmu_decref :: "u64 \<Rightarrow> (bool \<times> u64) outcome" where
  "fdmu_decref old =
     (if old AND mutexRefMask = 0 then Throw ''inconsistent poll.fdMutex''
      else (let new = old - mutexRef in Ret (new AND (mutexClosed OR mutexRefMask) = mutexClosed, new)))"

definition fdmu_rwlock :: "bool \<Rightarrow> u64 \<Rightarrow> (bool option \<times> u64) outcome" where
  "fdmu_rwlock rd old =
     (if old AND mutexClosed \<noteq> 0 then Ret (Some False, old)
      else if old AND mutexBit rd = 0
      then (let new = (old OR mutexBit rd) + mutexRef
            in if new AND mutexRefMask = 0 then Throw overflowMsg else Ret (Some True, new))
      else (let new = old + mutexWait rd
            in if new AND mutexMask rd = 0 then Throw overflowMsg else Ret (None, new)))"

text \<open>Unlocking reports whether the descriptor is to be destroyed, and whether it wakes a waiter.\<close>

definition fdmu_rwunlock :: "bool \<Rightarrow> u64 \<Rightarrow> (bool \<times> bool \<times> u64) outcome" where
  "fdmu_rwunlock rd old =
     (if old AND mutexBit rd = 0 \<or> old AND mutexRefMask = 0 then Throw ''inconsistent poll.fdMutex''
      else (let new = (old AND NOT (mutexBit rd)) - mutexRef;
                new' = (if old AND mutexMask rd \<noteq> 0 then new - mutexWait rd else new)
            in Ret (new' AND (mutexClosed OR mutexRefMask) = mutexClosed, old AND mutexMask rd \<noteq> 0, new')))"

section \<open>Flags and counters\<close>

record fdst =
  a_closed :: bool
  a_rlock :: bool
  a_wlock :: bool
  a_ref :: nat
  a_rwait :: nat
  a_wwait :: nat

definition enc :: "fdst \<Rightarrow> nat" where
  "enc a = of_bool (a_closed a) + 2 * of_bool (a_rlock a) + 4 * of_bool (a_wlock a)
     + 8 * a_ref a + 2 ^ 23 * a_rwait a + 2 ^ 43 * a_wwait a"

definition word_of :: "fdst \<Rightarrow> u64" where
  "word_of a = of_nat (enc a)"

definition fdst_ok :: "fdst \<Rightarrow> bool" where
  "fdst_ok a \<longleftrightarrow> a_ref a < 2 ^ 20 \<and> a_rwait a < 2 ^ 20 \<and> a_wwait a < 2 ^ 20"

lemma enc_bound: "fdst_ok a \<Longrightarrow> enc a < 2 ^ 63"
  by (simp add: fdst_ok_def enc_def of_bool_def split: if_splits)

lemma enc_split:
  obtains n m where "enc a = n + 8 * m" "n = of_bool (a_closed a) + 2 * of_bool (a_rlock a) + 4 * of_bool (a_wlock a)"
    "n < 8" "m = a_ref a + 2 ^ 20 * (a_rwait a + 2 ^ 20 * a_wwait a)"
  by (rule that [OF _ refl _ refl]) (auto simp: enc_def algebra_simps)

lemma enc_flags: "odd (enc a) = a_closed a" "odd (enc a div 2) = a_rlock a" "odd (enc a div 4) = a_wlock a"
proof -
  obtain n m where e: "enc a = n + 8 * m" and n: "n = of_bool (a_closed a) + 2 * of_bool (a_rlock a) + 4 * of_bool (a_wlock a)"
    "n < 8" by (rule enc_split)
  have "enc a div 2 = n div 2 + 4 * m" "enc a div 4 = n div 4 + 2 * m" by (auto simp: e)
  then show "odd (enc a) = a_closed a" "odd (enc a div 2) = a_rlock a" "odd (enc a div 4) = a_wlock a"
    unfolding e by (auto simp: n(1))
qed

lemma low_part: "a < (b :: nat) \<Longrightarrow> (a + b * x) mod b = a" "a < b \<Longrightarrow> (a + b * x) div b = x"
  by simp_all

lemma enc_counters:
  "enc a div 2 ^ 3 mod 2 ^ 20 = a_ref a mod 2 ^ 20"
  "a_ref a < 2 ^ 20 \<Longrightarrow> enc a div 2 ^ 23 mod 2 ^ 20 = a_rwait a mod 2 ^ 20"
  "a_ref a < 2 ^ 20 \<Longrightarrow> a_rwait a < 2 ^ 20 \<Longrightarrow> enc a div 2 ^ 43 = a_wwait a"
proof -
  obtain n m where e: "enc a = n + 8 * m" "n < 8" and m: "m = a_ref a + 2 ^ 20 * (a_rwait a + 2 ^ 20 * a_wwait a)"
    by (rule enc_split)
  have d: "enc a div 2 ^ 3 = m" using e by simp
  show "enc a div 2 ^ 3 mod 2 ^ 20 = a_ref a mod 2 ^ 20" unfolding d m by (rule mod_mult_self2)
  assume b: "a_ref a < 2 ^ 20"
  have d2: "m div 2 ^ 20 = a_rwait a + 2 ^ 20 * a_wwait a" unfolding m by (rule low_part(2) [OF b])
  have "enc a div 2 ^ 23 = enc a div 2 ^ 3 div 2 ^ 20" by (simp add: div_mult2_eq flip: power_add)
  then have d23: "enc a div 2 ^ 23 = a_rwait a + 2 ^ 20 * a_wwait a" by (simp only: d d2)
  show "enc a div 2 ^ 23 mod 2 ^ 20 = a_rwait a mod 2 ^ 20" unfolding d23 by (rule mod_mult_self2)
  assume b2: "a_rwait a < 2 ^ 20"
  have "enc a div 2 ^ 43 = enc a div 2 ^ 23 div 2 ^ 20" by (simp add: div_mult2_eq flip: power_add)
  then show "enc a div 2 ^ 43 = a_wwait a" unfolding d23 low_part(2) [OF b2] .
qed

text \<open>Masking and testing a word that is a number.\<close>

lemma word_flag: "(of_nat n :: u64) AND push_bit k 1 = 0 \<longleftrightarrow> even (n div 2 ^ k)" if "k < 64"
proof -
  have "(of_nat n :: u64) AND push_bit k 1 = 0 \<longleftrightarrow> \<not> bit (of_nat n :: u64) k"
    by (simp add: and_exp_eq_0_iff_not_bit push_bit_of_1)
  also have "bit (of_nat n :: u64) k = odd (n div 2 ^ k)" using that by (simp add: bit_of_nat_iff possible_bit_word) (simp add: bit_iff_odd)
  finally show ?thesis by simp
qed

lemma word_field:
  assumes "n < 2 ^ 64"
  shows "(of_nat n :: u64) AND push_bit k 0xFFFFF = push_bit k (of_nat (n div 2 ^ k mod 2 ^ 20))"
proof (rule bit_word_eqI)
  fix i assume i: "i < LENGTH(64)"
  have m: "bit (0xFFFFF :: u64) j \<longleftrightarrow> j < 20" for j
    using bit_mask_iff [where 'a = "64 word" and m = 20 and n = j] by (auto simp: mask_eq_exp_minus_1 bit_imp_le_length)
  have "bit (n div 2 ^ k mod 2 ^ 20) (i - k) \<longleftrightarrow> i - k < 20 \<and> bit n (k + (i - k))"
    by (simp only: bit_take_bit_iff bit_drop_bit_eq flip: take_bit_eq_mod drop_bit_eq_div) (simp add: comp_def)
  then show "bit ((of_nat n :: u64) AND push_bit k 0xFFFFF) i = bit (push_bit k (of_nat (n div 2 ^ k mod 2 ^ 20)) :: u64) i"
    using i unfolding bit_and_iff bit_push_bit_iff m bit_of_nat_iff possible_bit_word by auto
qed


section \<open>The word of a record\<close>

lemma word_of_flags:
  "word_of a AND 1 = 0 \<longleftrightarrow> \<not> a_closed a" "word_of a AND 2 = 0 \<longleftrightarrow> \<not> a_rlock a" "word_of a AND 4 = 0 \<longleftrightarrow> \<not> a_wlock a"
  using word_flag [of 0 "enc a"] word_flag [of 1 "enc a"] word_flag [of 2 "enc a"] enc_flags [of a]
  unfolding word_of_def by auto

text \<open>A counter that has just reached 2^20 is still representable, and reads as zero.\<close>

definition fdst_le :: "fdst \<Rightarrow> bool" where
  "fdst_le a \<longleftrightarrow> a_ref a \<le> 2 ^ 20 \<and> a_rwait a \<le> 2 ^ 20 \<and> a_wwait a \<le> 2 ^ 20"

lemma enc_less: "fdst_le a \<Longrightarrow> enc a < 2 ^ 64"
  by (simp add: fdst_le_def enc_def of_bool_def split: if_splits)

lemma push_bit_of_nat_0: "n < 2 ^ 20 \<Longrightarrow> k \<le> 43 \<Longrightarrow> push_bit k (of_nat n :: u64) = 0 \<longleftrightarrow> n = 0"
proof -
  assume n: "n < 2 ^ 20" and k: "k \<le> 43"
  have "push_bit k (of_nat n :: u64) = of_nat (n * 2 ^ k)" by (simp add: push_bit_eq_mult)
  moreover have "n * 2 ^ k < 2 ^ 20 * 2 ^ k" using n by simp
  moreover have "(2 :: nat) ^ 20 * 2 ^ k \<le> 2 ^ 64" using power_increasing [OF k, of "2 :: nat"] by simp
  ultimately have "n * 2 ^ k < 2 ^ 64" by linarith
  then have "2 ^ 64 dvd n * 2 ^ k \<longleftrightarrow> n = 0" using dvd_imp_le [of "2 ^ 64" "n * 2 ^ k"] by auto
  then show ?thesis unfolding \<open>push_bit k (of_nat n) = of_nat (n * 2 ^ k)\<close> by (simp only: word_of_nat_eq_0_iff) simp
qed

lemma word_of_counters:
  assumes "fdst_le a"
  shows "word_of a AND mutexRefMask = 0 \<longleftrightarrow> a_ref a mod 2 ^ 20 = 0"
    and "a_ref a < 2 ^ 20 \<Longrightarrow> word_of a AND mutexRMask = 0 \<longleftrightarrow> a_rwait a mod 2 ^ 20 = 0"
    and "a_ref a < 2 ^ 20 \<Longrightarrow> a_rwait a < 2 ^ 20 \<Longrightarrow> word_of a AND mutexWMask = 0 \<longleftrightarrow> a_wwait a mod 2 ^ 20 = 0"
  unfolding word_of_def mutexMask_defs word_field [OF enc_less [OF assms]]
  by (simp_all only: enc_counters) (simp_all only: push_bit_of_nat_0 mod_less_divisor zero_less_power zero_less_numeral)

section \<open>What the operations do to the record\<close>

lemma and_not_minus: "w AND NOT b = w - (w AND b)" for w b :: "'a :: len word"
proof -
  have "NOT w AND (w AND b) = 0" by (simp flip: and.assoc)
  then have "w - (w AND b) = w AND NOT (w AND b)" by (rule disjunctive_diff_eq_and_not)
  also have "\<dots> = w AND NOT b" by (rule bit_word_eqI) (auto simp: bit_simps)
  finally show ?thesis by simp
qed

lemma word_of_add:
  "word_of a + 8 = word_of (a\<lparr>a_ref := Suc (a_ref a)\<rparr>)"
  "word_of a + mutexRWait = word_of (a\<lparr>a_rwait := Suc (a_rwait a)\<rparr>)"
  "word_of a + mutexWWait = word_of (a\<lparr>a_wwait := Suc (a_wwait a)\<rparr>)"
  by (simp_all add: word_of_def enc_def algebra_simps)

lemma word_of_sub:
  "0 < a_ref a \<Longrightarrow> word_of a - 8 = word_of (a\<lparr>a_ref := a_ref a - 1\<rparr>)"
  "0 < a_rwait a \<Longrightarrow> word_of a - mutexRWait = word_of (a\<lparr>a_rwait := a_rwait a - 1\<rparr>)"
  "0 < a_wwait a \<Longrightarrow> word_of a - mutexWWait = word_of (a\<lparr>a_wwait := a_wwait a - 1\<rparr>)"
  using word_of_add(1) [of "a\<lparr>a_ref := a_ref a - 1\<rparr>"] word_of_add(2) [of "a\<lparr>a_rwait := a_rwait a - 1\<rparr>"]
    word_of_add(3) [of "a\<lparr>a_wwait := a_wwait a - 1\<rparr>"]
  by (simp_all add: algebra_simps)

lemma word_of_set:
  "\<not> a_closed a \<Longrightarrow> word_of a OR 1 = word_of (a\<lparr>a_closed := True\<rparr>)"
  "\<not> a_rlock a \<Longrightarrow> word_of a OR 2 = word_of (a\<lparr>a_rlock := True\<rparr>)"
  "\<not> a_wlock a \<Longrightarrow> word_of a OR 4 = word_of (a\<lparr>a_wlock := True\<rparr>)"
  using word_of_flags [of a] disjunctive_add_eq_or [of "word_of a" 1] disjunctive_add_eq_or [of "word_of a" 2]
    disjunctive_add_eq_or [of "word_of a" 4]
  by (simp_all add: word_of_def enc_def algebra_simps)

lemma flag_set: "w AND push_bit k 1 \<noteq> 0 \<Longrightarrow> w AND push_bit k 1 = push_bit k 1" for w :: u64
proof -
  have "w AND push_bit k 1 = (if bit w k then push_bit k 1 else 0)" by (rule bit_word_eqI) (auto simp: bit_simps)
  then show "w AND push_bit k 1 \<noteq> 0 \<Longrightarrow> w AND push_bit k 1 = push_bit k 1" by (simp split: if_splits)
qed

lemma clear_flag: "w AND push_bit k 1 \<noteq> 0 \<Longrightarrow> w AND NOT (push_bit k 1) = w - push_bit k 1" for w :: u64
  using flag_set [of w k] by (simp add: and_not_minus)

lemma word_of_clear:
  "a_rlock a \<Longrightarrow> word_of a AND NOT 2 = word_of (a\<lparr>a_rlock := False\<rparr>)"
  "a_wlock a \<Longrightarrow> word_of a AND NOT 4 = word_of (a\<lparr>a_wlock := False\<rparr>)"
  using clear_flag [of "word_of a" 1] clear_flag [of "word_of a" 2] word_of_flags [of a]
  by (simp_all add: word_of_def enc_def)

lemma word_of_masks:
  assumes "fdst_ok a"
  shows "word_of a AND NOT (mutexRMask OR mutexWMask) = word_of (a\<lparr>a_rwait := 0, a_wwait := 0\<rparr>)"
proof -
  have f: "a_ref a < 2 ^ 20" "a_rwait a < 2 ^ 20" "a_wwait a < 2 ^ 20" using assms by (simp_all add: fdst_ok_def)
  then have le: "fdst_le a" "fdst_le (a\<lparr>a_rwait := 0\<rparr>)" by (simp_all add: fdst_le_def)
  have "word_of a AND mutexRMask = of_nat (2 ^ 23 * a_rwait a)"
    unfolding word_of_def mutexMask_defs word_field [OF enc_less [OF le(1)]] enc_counters(2) [OF f(1)] mod_less [OF f(2)]
    by (simp add: push_bit_eq_mult mult.commute)
  then have r: "word_of a AND NOT mutexRMask = word_of (a\<lparr>a_rwait := 0\<rparr>)"
    by (simp only: and_not_minus) (simp add: word_of_def enc_def)
  have "enc (a\<lparr>a_rwait := 0\<rparr>) div 2 ^ 43 mod 2 ^ 20 = a_wwait a"
    using enc_counters(3) [of "a\<lparr>a_rwait := 0\<rparr>"] f by simp
  then have "word_of (a\<lparr>a_rwait := 0\<rparr>) AND mutexWMask = of_nat (2 ^ 43 * a_wwait a)"
    unfolding word_of_def mutexMask_defs word_field [OF enc_less [OF le(2)]]
    by (simp add: push_bit_eq_mult mult.commute)
  then have "word_of (a\<lparr>a_rwait := 0\<rparr>) AND NOT mutexWMask = word_of (a\<lparr>a_rwait := 0, a_wwait := 0\<rparr>)"
    by (simp only: and_not_minus) (simp add: word_of_def enc_def)
  then show ?thesis unfolding r [symmetric] by (simp only: bit.de_Morgan_disj and.assoc)
qed

section \<open>The abstract lock\<close>

definition a_lock :: "bool \<Rightarrow> fdst \<Rightarrow> bool" where "a_lock rd a = (if rd then a_rlock a else a_wlock a)"
definition a_wait :: "bool \<Rightarrow> fdst \<Rightarrow> nat" where "a_wait rd a = (if rd then a_rwait a else a_wwait a)"

definition set_lock :: "bool \<Rightarrow> bool \<Rightarrow> fdst \<Rightarrow> fdst" where
  "set_lock rd b a = (if rd then a\<lparr>a_rlock := b\<rparr> else a\<lparr>a_wlock := b\<rparr>)"

definition set_wait :: "bool \<Rightarrow> nat \<Rightarrow> fdst \<Rightarrow> fdst" where
  "set_wait rd n a = (if rd then a\<lparr>a_rwait := n\<rparr> else a\<lparr>a_wwait := n\<rparr>)"

abbreviation full :: "nat \<Rightarrow> bool" where "full n \<equiv> Suc n = 2 ^ 20"

definition fs_incref :: "fdst \<Rightarrow> (bool \<times> fdst) outcome" where
  "fs_incref a = (if a_closed a then Ret (False, a) else if full (a_ref a) then Throw overflowMsg
     else Ret (True, a\<lparr>a_ref := Suc (a_ref a)\<rparr>))"

definition fs_close :: "fdst \<Rightarrow> (bool \<times> fdst \<times> nat \<times> nat) outcome" where
  "fs_close a = (if a_closed a then Ret (False, a, 0, 0) else if full (a_ref a) then Throw overflowMsg
     else Ret (True, a\<lparr>a_closed := True, a_ref := Suc (a_ref a), a_rwait := 0, a_wwait := 0\<rparr>, a_rwait a, a_wwait a))"

definition fs_decref :: "fdst \<Rightarrow> (bool \<times> fdst) outcome" where
  "fs_decref a = (if a_ref a = 0 then Throw ''inconsistent poll.fdMutex''
     else Ret (a_closed a \<and> a_ref a = 1, a\<lparr>a_ref := a_ref a - 1\<rparr>))"

definition fs_lock :: "bool \<Rightarrow> fdst \<Rightarrow> (bool option \<times> fdst) outcome" where
  "fs_lock rd a = (if a_closed a then Ret (Some False, a)
     else if \<not> a_lock rd a then (if full (a_ref a) then Throw overflowMsg
                              else Ret (Some True, set_lock rd True (a\<lparr>a_ref := Suc (a_ref a)\<rparr>)))
     else if full (a_wait rd a) then Throw overflowMsg else Ret (None, set_wait rd (Suc (a_wait rd a)) a))"

definition fs_unlock :: "bool \<Rightarrow> fdst \<Rightarrow> (bool \<times> bool \<times> fdst) outcome" where
  "fs_unlock rd a = (if \<not> a_lock rd a \<or> a_ref a = 0 then Throw ''inconsistent poll.fdMutex''
     else Ret (a_closed a \<and> a_ref a = 1, a_wait rd a \<noteq> 0,
               set_wait rd (a_wait rd a - 1) (set_lock rd False (a\<lparr>a_ref := a_ref a - 1\<rparr>))))"

lemma word_of_tests:
  assumes "fdst_ok a"
  shows "word_of a AND mutexRefMask = 0 \<longleftrightarrow> a_ref a = 0" "word_of a AND mutexMask rd = 0 \<longleftrightarrow> a_wait rd a = 0"
    "word_of a AND mutexBit rd = 0 \<longleftrightarrow> \<not> a_lock rd a"
  using assms word_of_counters [of a] word_of_flags [of a]
  by (simp_all add: fdst_ok_def fdst_le_def mutexMask_def mutexBit_def a_wait_def a_lock_def)

lemma release_loop_word: "fdst_ok a \<Longrightarrow> release_loop rd (word_of a) = (a_wait rd a, word_of (set_wait rd 0 a))"
proof (induction "a_wait rd a" arbitrary: a)
  case 0
  then have "set_wait rd 0 a = a" by (cases a) (auto simp: set_wait_def a_wait_def)
  with 0 show ?case by (subst release_loop.simps) (simp add: word_of_tests)
next
  case (Suc n)
  let ?b = "set_wait rd (a_wait rd a - 1) a"
  have b: "fdst_ok ?b" "n = a_wait rd ?b" "set_wait rd 0 ?b = set_wait rd 0 a"
    using Suc.prems Suc.hyps(2) by (auto simp: fdst_ok_def set_wait_def a_wait_def)
  have "word_of a - mutexWait rd = word_of ?b"
    using word_of_sub(2,3) [of a] Suc.hyps(2) by (cases rd) (simp_all add: mutexWait_def set_wait_def a_wait_def)
  moreover have "word_of a AND mutexMask rd \<noteq> 0" using Suc.prems Suc.hyps(2) by (simp add: word_of_tests)
  ultimately show ?case
    using Suc.hyps(1) [OF b(2,1)] b(2,3) Suc.hyps(2) by (subst release_loop.simps) simp
qed

lemma ref_overflow: "fdst_ok a \<Longrightarrow> word_of (a\<lparr>a_ref := Suc (a_ref a)\<rparr>) AND mutexRefMask = 0 \<longleftrightarrow> full (a_ref a)"
  using word_of_counters(1) [of "a\<lparr>a_ref := Suc (a_ref a)\<rparr>"]
  by (auto simp: fdst_ok_def fdst_le_def mod_Suc)

lemma wait_overflow:
  "fdst_ok a \<Longrightarrow> word_of (set_wait rd (Suc (a_wait rd a)) a) AND mutexMask rd = 0 \<longleftrightarrow> full (a_wait rd a)"
  using word_of_counters(2,3) [of "set_wait rd (Suc (a_wait rd a)) a"]
  by (auto simp: fdst_ok_def fdst_le_def mod_Suc set_wait_def a_wait_def mutexMask_def split: if_splits)

lemma last_ref:
  assumes "fdst_ok a"
  shows "word_of a AND (mutexClosed OR mutexRefMask) = mutexClosed \<longleftrightarrow> a_closed a \<and> a_ref a = 0"
proof -
  let ?w = "word_of a" and ?m = "mutexClosed OR mutexRefMask"
  have one: "?w AND 1 \<noteq> 0 \<Longrightarrow> ?w AND 1 = 1" using flag_set [of ?w 0] by simp
  have "?w AND ?m = mutexClosed \<longleftrightarrow> ?w AND 1 \<noteq> 0 \<and> ?w AND mutexRefMask = 0"
  proof
    assume e: "?w AND ?m = mutexClosed"
    have "?w AND mutexRefMask = (?w AND ?m) AND mutexRefMask" "?w AND 1 = (?w AND ?m) AND 1"
      by (simp_all only: and.assoc bit.conj_disj_distrib2) (simp_all add: mutexRefMask_def)
    with e show "?w AND 1 \<noteq> 0 \<and> ?w AND mutexRefMask = 0" by (simp add: mutexRefMask_def)
  next
    assume "?w AND 1 \<noteq> 0 \<and> ?w AND mutexRefMask = 0"
    then show "?w AND ?m = mutexClosed" using one by (simp only: bit.conj_disj_distrib) simp
  qed
  then show ?thesis using word_of_tests(1) [OF assms] word_of_flags(1) [of a] by simp
qed

lemma word_of_lock:
  "\<not> a_lock rd a \<Longrightarrow> word_of a OR mutexBit rd = word_of (set_lock rd True a)"
  "a_lock rd a \<Longrightarrow> word_of a AND NOT (mutexBit rd) = word_of (set_lock rd False a)"
  using word_of_set(2,3) [of a] word_of_clear [of a]
  by (cases rd; simp add: mutexBit_def a_lock_def set_lock_def)+

lemma word_of_wait:
  "word_of a + mutexWait rd = word_of (set_wait rd (Suc (a_wait rd a)) a)"
  "a_wait rd a \<noteq> 0 \<Longrightarrow> word_of a - mutexWait rd = word_of (set_wait rd (a_wait rd a - 1) a)"
  using word_of_add(2,3) [of a] word_of_sub(2,3) [of a]
  by (cases rd; simp add: mutexWait_def a_wait_def set_wait_def)+

lemma set_lock_fields [simp]:
  "a_closed (set_lock rd b a) = a_closed a" "a_ref (set_lock rd b a) = a_ref a" "a_wait rd' (set_lock rd b a) = a_wait rd' a"
  "(set_lock rd b a)\<lparr>a_ref := n\<rparr> = set_lock rd b (a\<lparr>a_ref := n\<rparr>)" "fdst_ok (set_lock rd b a) = fdst_ok a"
  by (simp_all add: set_lock_def a_wait_def fdst_ok_def)

lemma set_wait_fields [simp]:
  "a_closed (set_wait rd n a) = a_closed a" "a_ref (set_wait rd n a) = a_ref a" "a_lock rd' (set_wait rd n a) = a_lock rd' a"
  "(set_wait rd n a)\<lparr>a_ref := k\<rparr> = set_wait rd n (a\<lparr>a_ref := k\<rparr>)" "a_wait rd (set_wait rd n a) = n"
  by (simp_all add: set_wait_def a_lock_def a_wait_def)

lemma fdst_tests:
  assumes "fdst_ok a"
  shows "word_of a AND mutexRefMask = 0 \<longleftrightarrow> a_ref a = 0" "word_of a AND mutexMask rd = 0 \<longleftrightarrow> a_wait rd a = 0"
    "word_of a AND mutexBit rd = 0 \<longleftrightarrow> \<not> a_lock rd a" "word_of a AND mutexClosed = 0 \<longleftrightarrow> \<not> a_closed a"
  using word_of_tests [OF assms] word_of_flags(1) [of a] by simp_all

lemma incref_word:
  assumes "fdst_ok a"
  shows "fdmu_incref (word_of a) = map_outcome (map_prod id word_of) (fs_incref a)"
  by (simp add: fdmu_incref_def fs_incref_def fdst_tests [OF assms] word_of_add ref_overflow [OF assms] Let_def)

lemma close_word:
  assumes "fdst_ok a"
  shows "fdmu_increfAndClose (word_of a) = map_outcome (\<lambda>(b, s, nr, nw). (b, word_of s, nr, nw)) (fs_close a)"
proof (cases "a_closed a \<or> full (a_ref a)")
  case True
  with ref_overflow [of "a\<lparr>a_closed := True\<rparr>"] assms show ?thesis
    by (auto simp: fdmu_increfAndClose_def fs_close_def fdst_tests [OF assms] word_of_set word_of_add fdst_ok_def Let_def)
next
  case False
  let ?b = "a\<lparr>a_closed := True, a_ref := Suc (a_ref a)\<rparr>"
  have b: "fdst_ok ?b" "fdst_ok (set_wait True 0 a)" using assms False by (auto simp: fdst_ok_def set_wait_def)
  have "(word_of a OR mutexClosed) + mutexRef = word_of ?b" using False by (simp add: word_of_set word_of_add)
  moreover have "release_loop True (word_of a) = (a_rwait a, word_of (set_wait True 0 a))"
    "release_loop False (word_of (set_wait True 0 a)) = (a_wwait a, word_of (set_wait False 0 (set_wait True 0 a)))"
    using release_loop_word [OF assms, of True] release_loop_word [OF b(2), of False] by (simp_all add: a_wait_def set_wait_def)
  ultimately show ?thesis
    using False word_of_masks [OF b(1)] word_of_tests(1) [OF b(1)]
    by (simp add: fdmu_increfAndClose_def fs_close_def fdst_tests [OF assms] Let_def)
qed

lemma decref_word:
  assumes "fdst_ok a"
  shows "fdmu_decref (word_of a) = map_outcome (map_prod id word_of) (fs_decref a)"
proof (cases "a_ref a = 0")
  case False
  have ok: "fdst_ok (a\<lparr>a_ref := a_ref a - 1\<rparr>)" using assms by (auto simp: fdst_ok_def)
  have "a_ref a - 1 = 0 \<longleftrightarrow> a_ref a = 1" using False by linarith
  with False last_ref [OF ok] show ?thesis
    by (simp add: fdmu_decref_def fs_decref_def fdst_tests [OF assms] word_of_sub Let_def del: One_nat_def)
qed (simp add: fdmu_decref_def fs_decref_def fdst_tests [OF assms])

lemma rwlock_word:
  assumes "fdst_ok a"
  shows "fdmu_rwlock rd (word_of a) = map_outcome (map_prod id word_of) (fs_lock rd a)"
  using ref_overflow [of "set_lock rd True a"] assms
  by (simp add: fdmu_rwlock_def fs_lock_def fdst_tests [OF assms] word_of_lock word_of_add word_of_wait wait_overflow Let_def)

lemma rwunlock_word:
  assumes "fdst_ok a"
  shows "fdmu_rwunlock rd (word_of a) = map_outcome (\<lambda>(b, w, s). (b, w, word_of s)) (fs_unlock rd a)"
proof (cases "a_lock rd a \<and> a_ref a \<noteq> 0")
  case True
  let ?b = "set_lock rd False (a\<lparr>a_ref := a_ref a - 1\<rparr>)"
  have new: "(word_of a AND NOT (mutexBit rd)) - mutexRef = word_of ?b"
    using True word_of_sub(1) [of "set_lock rd False a"] by (simp add: word_of_lock)
  have wt: "a_wait rd ?b = a_wait rd a" by (simp add: a_wait_def set_lock_def)
  let ?c = "set_wait rd (a_wait rd a - 1) ?b"
  have "(if word_of a AND mutexMask rd \<noteq> 0 then word_of ?b - mutexWait rd else word_of ?b) = word_of ?c"
  proof (cases "a_wait rd a = 0")
    case True
    then have "?c = ?b" using wt by (cases a) (auto simp: set_wait_def a_wait_def set_lock_def)
    with True show ?thesis by (simp add: fdst_tests [OF assms])
  next
    case False
    then show ?thesis using word_of_wait(2) [of rd ?b] wt by (simp add: fdst_tests [OF assms])
  qed
  moreover have "fdst_ok ?c" using assms by (auto simp: fdst_ok_def set_wait_def a_wait_def set_lock_def)
  ultimately show ?thesis
    using True last_ref [of ?c] by (simp add: fdmu_rwunlock_def fs_unlock_def fdst_tests [OF assms] new Let_def) auto
qed (auto simp: fdmu_rwunlock_def fs_unlock_def fdst_tests [OF assms])

text \<open>C3: The packed word of \<open>fdMutex\<close> implements a record of a closed flag, two locks and three
  counters: every operation on the word of a record gives the word of what the operation does to the
  record - the same result, the same panics, no carry from one counter into its neighbour - and closing
  counts every waiter it has to wake.\<close>

theorem fdMutex_refines:
  assumes "fdst_ok a"
  shows "fdmu_incref (word_of a) = map_outcome (map_prod id word_of) (fs_incref a)
    \<and> fdmu_increfAndClose (word_of a) = map_outcome (\<lambda>(b, s, nr, nw). (b, word_of s, nr, nw)) (fs_close a)
    \<and> fdmu_decref (word_of a) = map_outcome (map_prod id word_of) (fs_decref a)
    \<and> fdmu_rwlock rd (word_of a) = map_outcome (map_prod id word_of) (fs_lock rd a)
    \<and> fdmu_rwunlock rd (word_of a) = map_outcome (\<lambda>(b, w, s). (b, w, word_of s)) (fs_unlock rd a)"
  by (intro conjI incref_word close_word decref_word rwlock_word rwunlock_word assms)

theorem fdMutex_refines_witness:
  "fdmu_rwlock True (word_of \<lparr>a_closed = False, a_rlock = True, a_wlock = False, a_ref = 1, a_rwait = 5, a_wwait = 1048575\<rparr>)
    = Ret (None, word_of \<lparr>a_closed = False, a_rlock = True, a_wlock = False, a_ref = 1, a_rwait = 6, a_wwait = 1048575\<rparr>)"
proof -
  let ?a = "\<lparr>a_closed = False, a_rlock = True, a_wlock = False, a_ref = 1, a_rwait = 5, a_wwait = 1048575\<rparr>"
  have "fdst_ok ?a" by (simp add: fdst_ok_def)
  from fdMutex_refines [OF this, of True] show ?thesis by (simp add: fs_lock_def a_lock_def a_wait_def set_wait_def)
qed

end
