(* ===== verification/Fd_Prog.thy ===== *)
theory Fd_Prog
  imports Poll_Runtime Fd_Mutex Qnx_Exec Qnx_At
begin

text \<open>
  How the methods of \<open>poll.FD\<close> are modelled: a method is a program over the state of the runtime's poller
  extended by the fields of one descriptor. A program returns, panics, or (where the code loops) runs out of
  fuel; \<open>defer\<close> runs its deferred call whichever way the body ends. The second half is a small program
  logic: partial correctness triples with one rule for each way of composing programs.
\<close>

section \<open>State\<close>

text \<open>The fields of \<open>FD\<close>; \<open>f_rsema\<close> and \<open>f_wsema\<close> are the semaphores of its \<open>fdMutex\<close>.\<close>

record 'w fdrt = "'w pollrt" +
  f_mu :: u64
  f_rsema :: nat
  f_wsema :: nat
  f_Sysfd :: int
  f_ctx :: "nat option"
  f_csema :: nat
  f_isBlocking :: bool
  f_IsStream :: bool
  f_ZeroReadIsEOF :: bool
  f_isFile :: bool

type_synonym 'w fenv = "yield \<Rightarrow> 'w fdrt \<Rightarrow> 'w fdrt"

type_synonym ('w, 'a) prog = "'w fdrt \<Rightarrow> ('a outcome \<times> 'w fdrt) option"

text \<open>The errors the package returns.\<close>

datatype goerror =
  Errno u32
  | EOF
  | ErrUnexpectedEOF
  | ErrFileClosing
  | ErrNetClosing
  | ErrDeadlineExceeded
  | ErrNotPollable
  | ErrNoDeadline
  | ErrWaitUnsupported

abbreviation oserr :: "u32 option \<Rightarrow> goerror option" where "oserr \<equiv> map_option Errno"

section \<open>Composition\<close>

definition retp :: "'a \<Rightarrow> ('w, 'a) prog" where "retp x s = Some (Ret x, s)"

definition panicp :: "string \<Rightarrow> ('w, 'a) prog" where "panicp e s = Some (Throw e, s)"

definition bindp :: "('w, 'a) prog \<Rightarrow> ('a \<Rightarrow> ('w, 'b) prog) \<Rightarrow> ('w, 'b) prog" where
  "bindp m f s = (case m s of None \<Rightarrow> None | Some (Throw e, s1) \<Rightarrow> Some (Throw e, s1) | Some (Ret x, s1) \<Rightarrow> f x s1)"

definition deferp :: "('w, unit) prog \<Rightarrow> ('w, 'a) prog \<Rightarrow> ('w, 'a) prog" where
  "deferp fin m s =
     (case m s of None \<Rightarrow> None
      | Some (r, s1) \<Rightarrow> (case fin s1 of None \<Rightarrow> None | Some (Throw e, s2) \<Rightarrow> Some (Throw e, s2) | Some (Ret u, s2) \<Rightarrow> Some (r, s2)))"

text \<open>\<open>if err := m; err != nil { return onerr(err) }\<close>, then the rest.\<close>

definition guardp :: "('w, 'e option) prog \<Rightarrow> ('e \<Rightarrow> 'a) \<Rightarrow> ('w, 'a) prog \<Rightarrow> ('w, 'a) prog" where
  "guardp m onerr k = bindp m (\<lambda>e. case e of Some err \<Rightarrow> retp (onerr err) | None \<Rightarrow> k)"

text \<open>An endless \<open>for\<close>: the body ends with the next value of its variables, or with what the function returns.\<close>

fun loopp :: "nat \<Rightarrow> ('x \<Rightarrow> ('w, 'x + 'a) prog) \<Rightarrow> 'x \<Rightarrow> ('w, 'a) prog" where
  "loopp 0 b x = (\<lambda>s. None)"
| "loopp (Suc n) b x = bindp (b x) (\<lambda>r. case r of Inl y \<Rightarrow> loopp n b y | Inr v \<Rightarrow> retp v)"

text \<open>A system call by the current thread; a field read; a change of the state; a poller entry point.\<close>

definition sysp :: "('w thr \<Rightarrow> 'a \<times> 'w thr) \<Rightarrow> ('w, 'a) prog" where
  "sysp f s = (let (r, t) = f (np_thr (pr_np s)) in Some (Ret r, s\<lparr>pr_np := (pr_np s)\<lparr>np_thr := t\<rparr>\<rparr>))"

definition getp :: "('w fdrt \<Rightarrow> 'a) \<Rightarrow> ('w, 'a) prog" where "getp f s = Some (Ret (f s), s)"

definition modp :: "('w fdrt \<Rightarrow> 'w fdrt) \<Rightarrow> ('w, unit) prog" where "modp f s = Some (Ret (), f s)"

definition callp :: "('w fdrt \<Rightarrow> 'a outcome \<times> 'w fdrt) \<Rightarrow> ('w, 'a) prog" where "callp f s = Some (f s)"

lemmas prog_defs = retp_def panicp_def bindp_def deferp_def guardp_def sysp_def getp_def modp_def callp_def

section \<open>Triples\<close>

definition triple :: "('w fdrt \<Rightarrow> bool) \<Rightarrow> ('w, 'a) prog \<Rightarrow> ('a outcome \<Rightarrow> 'w fdrt \<Rightarrow> bool) \<Rightarrow> bool" where
  "triple P m Q \<longleftrightarrow> (\<forall>s r s'. P s \<longrightarrow> m s = Some (r, s') \<longrightarrow> Q r s')"

text \<open>A postcondition for values only: a panic satisfies it.\<close>

definition okp :: "('a \<Rightarrow> 's \<Rightarrow> bool) \<Rightarrow> 'a outcome \<Rightarrow> 's \<Rightarrow> bool" where
  "okp Q r s = (case r of Ret x \<Rightarrow> Q x s | Throw e \<Rightarrow> True)"

lemma okp_simps [simp]: "okp Q (Ret x) s = Q x s" "okp Q (Throw e) s"
  by (simp_all add: okp_def)

lemma tripleD: "triple P m Q \<Longrightarrow> P s \<Longrightarrow> m s = Some (r, s') \<Longrightarrow> Q r s'"
  by (simp add: triple_def)

lemma triple_weaken: "triple P m Q \<Longrightarrow> (\<And>s. P' s \<Longrightarrow> P s) \<Longrightarrow> (\<And>r s. Q r s \<Longrightarrow> Q' r s) \<Longrightarrow> triple P' m Q'"
  unfolding triple_def by blast

lemma triple_ret: "(\<And>s. P s \<Longrightarrow> Q (Ret x) s) \<Longrightarrow> triple P (retp x) Q"
  by (simp add: triple_def retp_def)

lemma triple_panic: "(\<And>s. P s \<Longrightarrow> Q (Throw e) s) \<Longrightarrow> triple P (panicp e) Q"
  by (simp add: triple_def panicp_def)

lemma triple_get: "(\<And>s. P s \<Longrightarrow> Q (Ret (f s)) s) \<Longrightarrow> triple P (getp f) Q"
  by (simp add: triple_def getp_def)

lemma triple_mod: "(\<And>s. P s \<Longrightarrow> Q (Ret ()) (f s)) \<Longrightarrow> triple P (modp f) Q"
  by (simp add: triple_def modp_def)

lemma triple_bind:
  assumes "triple P m (\<lambda>r s. case r of Ret x \<Rightarrow> R x s | Throw e \<Rightarrow> Q (Throw e) s)" and "\<And>x. triple (R x) (f x) Q"
  shows "triple P (bindp m f) Q"
  using assms unfolding triple_def bindp_def by (fastforce split: option.splits outcome.splits prod.splits)

lemma triple_guard:
  assumes "triple P m (\<lambda>r s. case r of Ret None \<Rightarrow> R s | Ret (Some e) \<Rightarrow> Q (Ret (onerr e)) s | Throw e \<Rightarrow> Q (Throw e) s)"
    and "triple R k Q"
  shows "triple P (guardp m onerr k) Q"
  unfolding guardp_def
proof (rule triple_bind)
  show "triple P m (\<lambda>r s. case r of Ret x \<Rightarrow> (case x of None \<Rightarrow> R s | Some e \<Rightarrow> Q (Ret (onerr e)) s) | Throw e \<Rightarrow> Q (Throw e) s)"
    by (rule triple_weaken [OF assms(1)]) (auto split: outcome.splits option.splits)
  show "triple (\<lambda>s. case x of None \<Rightarrow> R s | Some e \<Rightarrow> Q (Ret (onerr e)) s)
      (case x of Some err \<Rightarrow> retp (onerr err) | None \<Rightarrow> k) Q" for x
    using assms(2) by (cases x) (simp_all add: triple_ret)
qed

lemma triple_defer:
  assumes "triple P m R" and "\<And>r. triple (R r) fin (\<lambda>u s. case u of Ret x \<Rightarrow> Q r s | Throw e \<Rightarrow> Q (Throw e) s)"
  shows "triple P (deferp fin m) Q"
  using assms unfolding triple_def deferp_def by (fastforce split: option.splits outcome.splits prod.splits)

text \<open>The rule of the loop: an invariant that the body keeps for as long as it goes on.\<close>

lemma triple_loop:
  assumes "\<And>x. triple (I x) (b x) (\<lambda>r s. case r of Ret (Inl y) \<Rightarrow> I y s | Ret (Inr v) \<Rightarrow> Q (Ret v) s | Throw e \<Rightarrow> Q (Throw e) s)"
  shows "triple (I x) (loopp n b x) Q"
proof (induction n arbitrary: x)
  case 0
  show ?case by (simp add: triple_def)
next
  case (Suc n)
  show ?case unfolding loopp.simps
  proof (rule triple_bind)
    show "triple (I x) (b x) (\<lambda>r s. case r of Ret y \<Rightarrow> (case y of Inl z \<Rightarrow> I z s | Inr v \<Rightarrow> Q (Ret v) s) | Throw e \<Rightarrow> Q (Throw e) s)"
      by (rule triple_weaken [OF assms]) (auto split: outcome.splits sum.splits)
    show "triple (\<lambda>s. case y of Inl z \<Rightarrow> I z s | Inr v \<Rightarrow> Q (Ret v) s) (case y of Inl z \<Rightarrow> loopp n b z | Inr v \<Rightarrow> retp v) Q" for y
      using Suc.IH by (cases y) (simp_all add: triple_ret)
  qed
qed

text \<open>More fuel gives the same answer.\<close>

lemma loopp_mono: "loopp n b x s = Some r \<Longrightarrow> n \<le> m \<Longrightarrow> loopp m b x s = Some r"
proof (induction n arbitrary: m x s)
  case (Suc n)
  then obtain k where m: "m = Suc k" "n \<le> k" by (cases m) simp_all
  from Suc.prems(1) show ?case
    unfolding m loopp.simps bindp_def using Suc.IH [OF _ m(2)]
    by (auto split: option.splits outcome.splits sum.splits prod.splits)
qed simp

end
