(* ===== verification/Fd_Unix.thy ===== *)
theory Fd_Unix
  imports Fd_Prog Qnx_Socket
begin

text \<open>
  Package \<open>internal/poll\<close> on QNX: the type \<open>FD\<close> with its reference counting (\<open>fd_mutex.go\<close>), its link to
  the runtime's poller (\<open>fd_poll_runtime.go\<close>), and the methods of \<open>fd_unix.go\<close>, \<open>fd_posix.go\<close>,
  \<open>fd_unixjs.go\<close>, \<open>fd_fsync_posix.go\<close>, \<open>sys_cloexec.go\<close>, \<open>writev.go\<close>, \<open>sockopt.go\<close>, \<open>sockoptip.go\<close>,
  \<open>sockopt_unix.go\<close> and \<open>fstatat_unix.go\<close>, in that order. Every method takes the fuel \<open>n\<close> of its loops,
  what the rest of the program does while it waits (\<open>E\<close>), the goroutine that runs it (\<open>g\<close>) and the C
  library (\<open>L\<close>). A method that fills a buffer also returns the buffer's new contents. A deferred call runs
  after a panic too; after a fatal \<open>throw\<close> of the runtime the program is over and nothing that follows matters.
  \<open>ForkLock\<close> and the cache of I/O vectors have no effect that a caller sees and are left out.
\<close>

section \<open>Errors\<close>

definition errClosing :: "bool \<Rightarrow> goerror" where
  "errClosing isFile = (if isFile then ErrFileClosing else ErrNetClosing)"

definition errnoErr :: "int \<Rightarrow> goerror option" where
  "errnoErr e = (if e = 0 then None else Some (Errno (word_of_int e)))"

definition convertErr :: "int \<Rightarrow> bool \<Rightarrow> ('w, goerror option) prog" where
  "convertErr res isFile =
     (if res = pollNoError then retp None
      else if res = pollErrClosing then retp (Some (errClosing isFile))
      else if res = pollErrTimeout then retp (Some ErrDeadlineExceeded)
      else if res = pollErrNotPollable then retp (Some ErrNotPollable)
      else panicp ''unreachable'')"

definition eofError :: "bool \<Rightarrow> int \<Rightarrow> goerror option \<Rightarrow> goerror option" where
  "eofError zeroReadIsEOF k err = (if k = 0 \<and> err = None \<and> zeroReadIsEOF then Some EOF else err)"

section \<open>The link to the poller\<close>

definition fpd_init :: "nat \<Rightarrow> 'w libc \<Rightarrow> ('w, goerror option) prog" where
  "fpd_init blk L =
     bindp (modp (poll_runtime_pollServerInit L)) (\<lambda>_.
     bindp (getp f_Sysfd) (\<lambda>fd.
     bindp (callp (poll_runtime_pollOpen blk L (uptr fd))) (\<lambda>(ctx, errno).
     if errno \<noteq> 0 then retp (errnoErr errno) else bindp (modp (\<lambda>s. s\<lparr>f_ctx := ctx\<rparr>)) (\<lambda>_. retp None))))"

definition fpd_close :: "'w libc \<Rightarrow> ('w, unit) prog" where
  "fpd_close L =
     bindp (getp f_ctx) (\<lambda>c. case c of None \<Rightarrow> retp ()
       | Some pd \<Rightarrow> bindp (callp (poll_runtime_pollClose L pd)) (\<lambda>_. modp (\<lambda>s. s\<lparr>f_ctx := None\<rparr>)))"

definition fpd_evict :: "('w, unit) prog" where
  "fpd_evict = bindp (getp f_ctx) (\<lambda>c. case c of None \<Rightarrow> retp () | Some pd \<Rightarrow> callp (rt_pollUnblock pd))"

definition fpd_prepare :: "int \<Rightarrow> bool \<Rightarrow> ('w, goerror option) prog" where
  "fpd_prepare mode isFile =
     bindp (getp f_ctx) (\<lambda>c. case c of None \<Rightarrow> retp None
       | Some pd \<Rightarrow> bindp (callp (\<lambda>s. let (res, s1) = rt_pollReset pd mode s in (Ret res, s1))) (\<lambda>res. convertErr res isFile))"

definition fpd_wait :: "nat \<Rightarrow> 'w fenv \<Rightarrow> nat \<Rightarrow> 'w libc \<Rightarrow> int \<Rightarrow> bool \<Rightarrow> ('w, goerror option) prog" where
  "fpd_wait n E g L mode isFile =
     bindp (getp f_ctx) (\<lambda>c. case c of None \<Rightarrow> retp (Some ErrWaitUnsupported)
       | Some pd \<Rightarrow> bindp (poll_runtime_pollWait n E L g pd mode) (\<lambda>res. convertErr res isFile))"

definition prepareRead :: "('w, goerror option) prog" where
  "prepareRead = bindp (getp f_isFile) (fpd_prepare mode_r)"

definition prepareWrite :: "('w, goerror option) prog" where
  "prepareWrite = bindp (getp f_isFile) (fpd_prepare mode_w)"

definition waitRead :: "nat \<Rightarrow> 'w fenv \<Rightarrow> nat \<Rightarrow> 'w libc \<Rightarrow> ('w, goerror option) prog" where
  "waitRead n E g L = bindp (getp f_isFile) (fpd_wait n E g L mode_r)"

definition waitWrite :: "nat \<Rightarrow> 'w fenv \<Rightarrow> nat \<Rightarrow> 'w libc \<Rightarrow> ('w, goerror option) prog" where
  "waitWrite n E g L = bindp (getp f_isFile) (fpd_wait n E g L mode_w)"

section \<open>References and locks\<close>

text \<open>A semaphore: take a unit if there is one, else let the rest of the program run until there is.\<close>

definition sem_acquire :: "bool \<Rightarrow> 'w fenv \<Rightarrow> ('w, unit) prog" where
  "sem_acquire rd E =
     modp (\<lambda>s. let s1 = (if (if rd then f_rsema s else f_wsema s) > 0 then s else E (YSema rd) s)
               in if rd then s1\<lparr>f_rsema := f_rsema s1 - 1\<rparr> else s1\<lparr>f_wsema := f_wsema s1 - 1\<rparr>)"

definition sem_release :: "bool \<Rightarrow> nat \<Rightarrow> ('w, unit) prog" where
  "sem_release rd k = modp (\<lambda>s. if rd then s\<lparr>f_rsema := f_rsema s + k\<rparr> else s\<lparr>f_wsema := f_wsema s + k\<rparr>)"

text \<open>One atomic step on the word.\<close>

definition mup :: "(u64 \<Rightarrow> ('a \<times> u64) outcome) \<Rightarrow> ('w, 'a) prog" where
  "mup f s = (case f (f_mu s) of Throw e \<Rightarrow> Some (Throw e, s) | Ret (x, w) \<Rightarrow> Some (Ret x, s\<lparr>f_mu := w\<rparr>))"

definition fd_destroy :: "'w libc \<Rightarrow> ('w, goerror option) prog" where
  "fd_destroy L =
     bindp (fpd_close L) (\<lambda>_.
     bindp (getp f_Sysfd) (\<lambda>fd.
     bindp (sysp (Close L fd)) (\<lambda>err.
     bindp (modp (\<lambda>s. s\<lparr>f_Sysfd := -1\<rparr>)) (\<lambda>_.
     bindp (modp (\<lambda>s. s\<lparr>f_csema := f_csema s + 1\<rparr>)) (\<lambda>_. retp (oserr err))))))"

definition fd_incref :: "('w, goerror option) prog" where
  "fd_incref = bindp (mup fdmu_incref) (\<lambda>ok. if \<not> ok then getp (\<lambda>s. Some (errClosing (f_isFile s))) else retp None)"

definition fd_decref :: "'w libc \<Rightarrow> ('w, goerror option) prog" where
  "fd_decref L = bindp (mup fdmu_decref) (\<lambda>final. if final then fd_destroy L else retp None)"

definition fd_rwlock :: "nat \<Rightarrow> 'w fenv \<Rightarrow> bool \<Rightarrow> ('w, bool) prog" where
  "fd_rwlock n E rd =
     loopp n (\<lambda>_. bindp (mup (fdmu_rwlock rd)) (\<lambda>r. case r of Some b \<Rightarrow> retp (Inr b)
                   | None \<Rightarrow> bindp (sem_acquire rd E) (\<lambda>_. retp (Inl ())))) ()"

definition fd_rwunlock :: "bool \<Rightarrow> ('w, bool) prog" where
  "fd_rwunlock rd =
     bindp (mup (\<lambda>w. case fdmu_rwunlock rd w of Throw e \<Rightarrow> Throw e | Ret (final, wake, w1) \<Rightarrow> Ret ((final, wake), w1)))
       (\<lambda>(final, wake). bindp (if wake then sem_release rd 1 else retp ()) (\<lambda>_. retp final))"

definition fd_lock :: "nat \<Rightarrow> 'w fenv \<Rightarrow> bool \<Rightarrow> ('w, goerror option) prog" where
  "fd_lock n E rd = bindp (fd_rwlock n E rd) (\<lambda>ok. if \<not> ok then getp (\<lambda>s. Some (errClosing (f_isFile s))) else retp None)"

definition fd_unlock :: "'w libc \<Rightarrow> bool \<Rightarrow> ('w, unit) prog" where
  "fd_unlock L rd = bindp (fd_rwunlock rd) (\<lambda>final. if final then bindp (fd_destroy L) (\<lambda>_. retp ()) else retp ())"

definition readLock :: "nat \<Rightarrow> 'w fenv \<Rightarrow> ('w, goerror option) prog" where "readLock n E = fd_lock n E True"
definition writeLock :: "nat \<Rightarrow> 'w fenv \<Rightarrow> ('w, goerror option) prog" where "writeLock n E = fd_lock n E False"
definition readUnlock :: "'w libc \<Rightarrow> ('w, unit) prog" where "readUnlock L = fd_unlock L True"
definition writeUnlock :: "'w libc \<Rightarrow> ('w, unit) prog" where "writeUnlock L = fd_unlock L False"

definition readWriteLock :: "nat \<Rightarrow> 'w fenv \<Rightarrow> ('w, goerror option) prog" where
  "readWriteLock n E =
     bindp (fd_rwlock n E True) (\<lambda>a.
     bindp (if a then fd_rwlock n E False else retp False) (\<lambda>b.
     if \<not> a \<or> \<not> b then getp (\<lambda>s. Some (errClosing (f_isFile s))) else retp None))"

definition readWriteUnlock :: "'w libc \<Rightarrow> ('w, unit) prog" where
  "readWriteUnlock L = bindp (fd_rwunlock True) (\<lambda>_. fd_unlock L False)"

definition fd_closing :: "'w fdrt \<Rightarrow> bool" where
  "fd_closing s \<longleftrightarrow> f_mu s AND mutexClosed \<noteq> 0"

text \<open>A deferred \<open>decref\<close> drops its error.\<close>

definition decref_deferred :: "'w libc \<Rightarrow> ('w, unit) prog" where
  "decref_deferred L = bindp (fd_decref L) (\<lambda>_. retp ())"

section \<open>Life\<close>

definition FD_Init :: "nat \<Rightarrow> 'w libc \<Rightarrow> string \<Rightarrow> bool \<Rightarrow> ('w, goerror option) prog" where
  "FD_Init blk L net pollable =
     bindp (modp (\<lambda>s. if net = ''file'' then s\<lparr>f_isFile := True\<rparr> else s)) (\<lambda>_.
     if \<not> pollable then bindp (modp (\<lambda>s. s\<lparr>f_isBlocking := True\<rparr>)) (\<lambda>_. retp None)
     else bindp (fpd_init blk L) (\<lambda>err.
            bindp (if err \<noteq> None then modp (\<lambda>s. s\<lparr>f_isBlocking := True\<rparr>) else retp ()) (\<lambda>_. retp err)))"

definition csema_acquire :: "'w fenv \<Rightarrow> ('w, unit) prog" where
  "csema_acquire E = modp (\<lambda>s. let s1 = (if f_csema s > 0 then s else E YClosed s) in s1\<lparr>f_csema := f_csema s1 - 1\<rparr>)"

definition FD_Close :: "'w fenv \<Rightarrow> 'w libc \<Rightarrow> ('w, goerror option) prog" where
  "FD_Close E L =
     bindp (mup (\<lambda>w. case fdmu_increfAndClose w of Throw e \<Rightarrow> Throw e | Ret (ok, w1, nr, nw) \<Rightarrow> Ret ((ok, nr, nw), w1)))
       (\<lambda>(ok, nr, nw).
     if \<not> ok then getp (\<lambda>s. Some (errClosing (f_isFile s)))
     else bindp (sem_release True nr) (\<lambda>_.
          bindp (sem_release False nw) (\<lambda>_.
          bindp fpd_evict (\<lambda>_.
          bindp (fd_decref L) (\<lambda>err.
          bindp (getp f_isBlocking) (\<lambda>b.
          bindp (if \<not> b then csema_acquire E else retp ()) (\<lambda>_. retp err)))))))"

text \<open>The frames that most methods have: a reference, or one of the locks, and a deferred release.\<close>

definition with_ref :: "'w libc \<Rightarrow> (goerror \<Rightarrow> 'a) \<Rightarrow> ('w, 'a) prog \<Rightarrow> ('w, 'a) prog" where
  "with_ref L onerr body = guardp fd_incref onerr (deferp (decref_deferred L) body)"

definition with_read :: "nat \<Rightarrow> 'w fenv \<Rightarrow> 'w libc \<Rightarrow> (goerror \<Rightarrow> 'a) \<Rightarrow> ('w, 'a) prog \<Rightarrow> ('w, 'a) prog" where
  "with_read n E L onerr body = guardp (readLock n E) onerr (deferp (readUnlock L) body)"

definition with_write :: "nat \<Rightarrow> 'w fenv \<Rightarrow> 'w libc \<Rightarrow> (goerror \<Rightarrow> 'a) \<Rightarrow> ('w, 'a) prog \<Rightarrow> ('w, 'a) prog" where
  "with_write n E L onerr body = guardp (writeLock n E) onerr (deferp (writeUnlock L) body)"

text \<open>A system call on \<open>fd.Sysfd\<close>.\<close>

definition onfd :: "(int \<Rightarrow> 'w thr \<Rightarrow> 'a \<times> 'w thr) \<Rightarrow> ('w, 'a) prog" where
  "onfd f = bindp (getp f_Sysfd) (\<lambda>fd. sysp (f fd))"

text \<open>The same, with its error as a value of the package.\<close>

definition onfd_err :: "(int \<Rightarrow> 'w thr \<Rightarrow> u32 option \<times> 'w thr) \<Rightarrow> ('w, goerror option) prog" where
  "onfd_err f = bindp (onfd f) (\<lambda>e. retp (oserr e))"

definition FD_SetBlocking :: "'w libc \<Rightarrow> ('w, goerror option) prog" where
  "FD_SetBlocking L =
     with_ref L Some (bindp (modp (\<lambda>s. s\<lparr>f_isBlocking := True\<rparr>)) (\<lambda>_. onfd_err (\<lambda>fd. SetNonblock L fd False)))"

section \<open>Retrying\<close>

definition ignoringEINTR :: "nat \<Rightarrow> ('w, goerror option) prog \<Rightarrow> ('w, goerror option) prog" where
  "ignoringEINTR n fn = loopp n (\<lambda>_. bindp fn (\<lambda>err. retp (if err \<noteq> Some (Errno EINTR) then Inr err else Inl ()))) ()"

text \<open>With a value: \<open>fn\<close> maps the buffer it is given to a result, an error and the buffer after the call.\<close>

definition ignoringEINTRIO ::
  "nat \<Rightarrow> ('b \<Rightarrow> ('w, 'a \<times> u32 option \<times> 'b) prog) \<Rightarrow> 'b \<Rightarrow> ('w, 'a \<times> u32 option \<times> 'b) prog" where
  "ignoringEINTRIO n fn p =
     loopp n (\<lambda>q. bindp (fn q) (\<lambda>(k, err, q'). retp (if err \<noteq> Some EINTR then Inr (k, err, q') else Inl q'))) p"

text \<open>\<open>if err == EAGAIN && pollable { if err = wait; err == nil { continue } }\<close>: None is \<open>continue\<close>.\<close>

definition wait_eagain :: "('w, goerror option) prog \<Rightarrow> goerror option \<Rightarrow> ('w, goerror option option) prog" where
  "wait_eagain w err =
     bindp (getp f_ctx) (\<lambda>c.
       if err = Some (Errno EAGAIN) \<and> c \<noteq> None
       then bindp w (\<lambda>e. retp (if e = None then None else Some e))
       else retp (Some err))"

definition maxRW :: nat where "maxRW = 2 ^ 30"

text \<open>A slice expression \<open>p[i:j]\<close> with \<open>j\<close> within bounds.\<close>

definition slice :: "nat \<Rightarrow> nat \<Rightarrow> 'a list \<Rightarrow> 'a list" where "slice i j p = take (j - i) (drop i p)"

section \<open>Reading\<close>

definition Read_loop ::
  "nat \<Rightarrow> 'w fenv \<Rightarrow> nat \<Rightarrow> 'w libc \<Rightarrow> gostring \<Rightarrow> bool \<Rightarrow> ('w, int \<times> goerror option \<times> gostring) prog" where
  "Read_loop n E g L p stream =
     (let m = (if stream \<and> length p > maxRW then maxRW else length p)
      in loopp n (\<lambda>q.
           bindp (ignoringEINTRIO n (\<lambda>b. onfd (\<lambda>fd. Read L fd b)) q) (\<lambda>(k, err, q').
           bindp (if err \<noteq> None then wait_eagain (waitRead n E g L) (oserr err) else retp (Some None)) (\<lambda>r.
           case r of None \<Rightarrow> retp (Inl q')
           | Some err' \<Rightarrow>
               (let k' = (if err \<noteq> None then 0 else k)
                in bindp (getp f_ZeroReadIsEOF) (\<lambda>z. retp (Inr (k', eofError z k' err', q' @ drop m p)))))))
         (take m p))"

definition FD_Read :: "nat \<Rightarrow> 'w fenv \<Rightarrow> nat \<Rightarrow> 'w libc \<Rightarrow> gostring \<Rightarrow> ('w, int \<times> goerror option \<times> gostring) prog" where
  "FD_Read n E g L p =
     with_read n E L (\<lambda>e. (0, Some e, p))
      (if length p = 0 then retp (0, None, p)
       else guardp prepareRead (\<lambda>e. (0, Some e, p)) (bindp (getp f_IsStream) (Read_loop n E g L p)))"

definition FD_Pread :: "nat \<Rightarrow> 'w libc \<Rightarrow> gostring \<Rightarrow> int \<Rightarrow> ('w, int \<times> goerror option \<times> gostring) prog" where
  "FD_Pread n L p off =
     guardp fd_incref (\<lambda>e. (0, Some e, p))
      (bindp (getp f_IsStream) (\<lambda>stream.
        (let m = (if stream \<and> length p > maxRW then maxRW else length p)
         in bindp (ignoringEINTRIO n (\<lambda>b. onfd (\<lambda>fd. Pread L fd b off)) (take m p)) (\<lambda>(k, err, q).
            (let k' = (if err \<noteq> None then 0 else k)
             in bindp (fd_decref L) (\<lambda>_.
                bindp (getp f_ZeroReadIsEOF) (\<lambda>z. retp (k', eofError z k' (oserr err), q @ drop m p))))))))"

text \<open>The shape the six datagram receivers share: \<open>call\<close> returns a count, an error, and the rest.\<close>

definition recv_loop ::
  "nat \<Rightarrow> 'w fenv \<Rightarrow> nat \<Rightarrow> 'w libc \<Rightarrow> bool \<Rightarrow> ('x \<Rightarrow> ('w, int \<times> u32 option \<times> 'x \<times> 'a) prog) \<Rightarrow> 'x
     \<Rightarrow> ('w, int \<times> goerror option \<times> 'x \<times> 'a) prog" where
  "recv_loop n E g L zeroes call x =
     loopp n (\<lambda>x.
       bindp (call x) (\<lambda>(k, err, x', a).
       if err = Some EINTR then retp (Inl x')
       else bindp (if err \<noteq> None then wait_eagain (waitRead n E g L) (oserr err) else retp (Some None)) (\<lambda>r.
            case r of None \<Rightarrow> retp (Inl x')
            | Some err' \<Rightarrow>
                (let k' = (if err \<noteq> None \<and> zeroes then 0 else k)
                 in bindp (getp f_ZeroReadIsEOF) (\<lambda>z. retp (Inr (k', eofError z k' err', x', a))))))) x"

definition FD_ReadFrom ::
  "nat \<Rightarrow> 'w fenv \<Rightarrow> nat \<Rightarrow> 'w libc \<Rightarrow> gostring \<Rightarrow> ('w, int \<times> goerror option \<times> gostring \<times> Sockaddr option) prog" where
  "FD_ReadFrom n E g L p =
     with_read n E L (\<lambda>e. (0, Some e, p, None))
      (guardp prepareRead (\<lambda>e. (0, Some e, p, None))
        (recv_loop n E g L True
          (\<lambda>b. bindp (onfd (\<lambda>fd. Recvfrom L fd b 0)) (\<lambda>(k, sa, err, b'). retp (k, err, b', sa))) p))"

definition FD_ReadFromInet4 ::
  "nat \<Rightarrow> 'w fenv \<Rightarrow> nat \<Rightarrow> 'w libc \<Rightarrow> gostring \<Rightarrow> SockaddrInet4
     \<Rightarrow> ('w, int \<times> goerror option \<times> (gostring \<times> SockaddrInet4) \<times> unit) prog" where
  "FD_ReadFromInet4 n E g L p from =
     with_read n E L (\<lambda>e. (0, Some e, (p, from), ()))
      (guardp prepareRead (\<lambda>e. (0, Some e, (p, from), ()))
        (recv_loop n E g L True
          (\<lambda>(b, sa). bindp (onfd (\<lambda>fd. recvfromInet4 L fd b 0 sa)) (\<lambda>(k, err, b', sa'). retp (k, err, (b', sa'), ()))) (p, from)))"

definition FD_ReadFromInet6 ::
  "nat \<Rightarrow> 'w fenv \<Rightarrow> nat \<Rightarrow> 'w libc \<Rightarrow> gostring \<Rightarrow> SockaddrInet6
     \<Rightarrow> ('w, int \<times> goerror option \<times> (gostring \<times> SockaddrInet6) \<times> unit) prog" where
  "FD_ReadFromInet6 n E g L p from =
     with_read n E L (\<lambda>e. (0, Some e, (p, from), ()))
      (guardp prepareRead (\<lambda>e. (0, Some e, (p, from), ()))
        (recv_loop n E g L True
          (\<lambda>(b, sa). bindp (onfd (\<lambda>fd. recvfromInet6 L fd b 0 sa)) (\<lambda>(k, err, b', sa'). retp (k, err, (b', sa'), ()))) (p, from)))"

text \<open>The \<open>recvmsg\<close> wrappers leave the count as the call returned it; the answer's last part is \<open>oobn\<close>,
  the flags and the address.\<close>

definition FD_ReadMsg ::
  "nat \<Rightarrow> 'w fenv \<Rightarrow> nat \<Rightarrow> 'w libc \<Rightarrow> gostring \<Rightarrow> gostring \<Rightarrow> int
     \<Rightarrow> ('w, int \<times> goerror option \<times> unit \<times> int \<times> int \<times> Sockaddr option) prog" where
  "FD_ReadMsg n E g L p oob flags =
     with_read n E L (\<lambda>e. (0, Some e, (), 0, 0, None))
      (guardp prepareRead (\<lambda>e. (0, Some e, (), 0, 0, None))
        (recv_loop n E g L False
          (\<lambda>_. bindp (onfd (\<lambda>fd. Recvmsg L fd p oob flags)) (\<lambda>(k, oobn, fl, sa, err). retp (k, err, (), oobn, fl, sa))) ()))"

definition FD_ReadMsgInet4 ::
  "nat \<Rightarrow> 'w fenv \<Rightarrow> nat \<Rightarrow> 'w libc \<Rightarrow> gostring \<Rightarrow> gostring \<Rightarrow> int \<Rightarrow> SockaddrInet4
     \<Rightarrow> ('w, int \<times> goerror option \<times> SockaddrInet4 \<times> int \<times> int) prog" where
  "FD_ReadMsgInet4 n E g L p oob flags sa4 =
     with_read n E L (\<lambda>e. (0, Some e, sa4, 0, 0))
      (guardp prepareRead (\<lambda>e. (0, Some e, sa4, 0, 0))
        (recv_loop n E g L False
          (\<lambda>sa. bindp (onfd (\<lambda>fd. recvmsgInet4 L fd p oob flags sa)) (\<lambda>(k, oobn, fl, err, sa'). retp (k, err, sa', oobn, fl))) sa4))"

definition FD_ReadMsgInet6 ::
  "nat \<Rightarrow> 'w fenv \<Rightarrow> nat \<Rightarrow> 'w libc \<Rightarrow> gostring \<Rightarrow> gostring \<Rightarrow> int \<Rightarrow> SockaddrInet6
     \<Rightarrow> ('w, int \<times> goerror option \<times> SockaddrInet6 \<times> int \<times> int) prog" where
  "FD_ReadMsgInet6 n E g L p oob flags sa6 =
     with_read n E L (\<lambda>e. (0, Some e, sa6, 0, 0))
      (guardp prepareRead (\<lambda>e. (0, Some e, sa6, 0, 0))
        (recv_loop n E g L False
          (\<lambda>sa. bindp (onfd (\<lambda>fd. recvmsgInet6 L fd p oob flags sa)) (\<lambda>(k, oobn, fl, err, sa'). retp (k, err, sa', oobn, fl))) sa6))"

section \<open>Writing\<close>

text \<open>The part of \<open>p\<close> the next call is given: at most 1 GB on a stream.\<close>

definition chunk_end :: "bool \<Rightarrow> int \<Rightarrow> 'a list \<Rightarrow> int" where
  "chunk_end stream nn p = (if stream \<and> int (length p) - nn > int maxRW then nn + int maxRW else int (length p))"

definition slicep :: "int \<Rightarrow> int \<Rightarrow> gostring \<Rightarrow> (gostring \<Rightarrow> ('w, 'a) prog) \<Rightarrow> ('w, 'a) prog" where
  "slicep i j p k = (if 0 \<le> i \<and> i \<le> j \<and> j \<le> int (length p) then k (slice (nat i) (nat j) p) else panicp ''slice bounds out of range'')"

definition Write_body :: "nat \<Rightarrow> 'w fenv \<Rightarrow> nat \<Rightarrow> 'w libc \<Rightarrow> gostring \<Rightarrow> int \<Rightarrow> ('w, int + int \<times> goerror option) prog" where
  "Write_body n E g L p nn =
     bindp (getp f_IsStream) (\<lambda>stream.
     (let mx = chunk_end stream nn p
      in slicep nn mx p (\<lambda>b.
         bindp (ignoringEINTRIO n (\<lambda>_. bindp (onfd (\<lambda>fd. Write L fd b)) (\<lambda>(k, err). retp (k, err, ()))) ()) (\<lambda>(k, err, _).
         if k > 0 \<and> k > mx - nn then panicp ''invalid return from write''
         else (let nn' = (if k > 0 then nn + k else nn)
               in if nn' = int (length p) then retp (Inr (nn', oserr err))
                  else bindp (wait_eagain (waitWrite n E g L) (oserr err)) (\<lambda>r.
                       case r of None \<Rightarrow> retp (Inl nn')
                       | Some (Some e) \<Rightarrow> retp (Inr (nn', Some e))
                       | Some None \<Rightarrow> if k = 0 then retp (Inr (nn', Some ErrUnexpectedEOF)) else retp (Inl nn')))))))"

definition Write_loop :: "nat \<Rightarrow> 'w fenv \<Rightarrow> nat \<Rightarrow> 'w libc \<Rightarrow> gostring \<Rightarrow> int \<Rightarrow> ('w, int \<times> goerror option) prog" where
  "Write_loop n E g L p = loopp n (Write_body n E g L p)"

definition FD_Write :: "nat \<Rightarrow> 'w fenv \<Rightarrow> nat \<Rightarrow> 'w libc \<Rightarrow> gostring \<Rightarrow> ('w, int \<times> goerror option) prog" where
  "FD_Write n E g L p =
     with_write n E L (\<lambda>e. (0, Some e)) (guardp prepareWrite (\<lambda>e. (0, Some e)) (Write_loop n E g L p 0))"

definition FD_Pwrite :: "nat \<Rightarrow> 'w libc \<Rightarrow> gostring \<Rightarrow> int \<Rightarrow> ('w, int \<times> goerror option) prog" where
  "FD_Pwrite n L p off =
     with_ref L (\<lambda>e. (0, Some e))
      (loopp n (\<lambda>nn.
         bindp (getp f_IsStream) (\<lambda>stream.
         slicep nn (chunk_end stream nn p) p (\<lambda>b.
         bindp (onfd (\<lambda>fd. Pwrite L fd b (int64 (off + nn)))) (\<lambda>(k, err).
         if err = Some EINTR then retp (Inl nn)
         else (let nn' = (if k > 0 then nn + k else nn)
               in if nn' = int (length p) then retp (Inr (nn', oserr err))
                  else if err \<noteq> None then retp (Inr (nn', oserr err))
                  else if k = 0 then retp (Inr (nn', Some ErrUnexpectedEOF))
                  else retp (Inl nn')))))) 0)"

text \<open>The senders of datagrams: one call, repeated until it neither was interrupted nor had to wait.\<close>

definition send_loop ::
  "nat \<Rightarrow> 'w fenv \<Rightarrow> nat \<Rightarrow> 'w libc \<Rightarrow> ('w, 'a \<times> u32 option) prog \<Rightarrow> ('w, 'a \<times> goerror option) prog" where
  "send_loop n E g L call =
     loopp n (\<lambda>_. bindp call (\<lambda>(a, err).
       if err = Some EINTR then retp (Inl ())
       else bindp (wait_eagain (waitWrite n E g L) (oserr err)) (\<lambda>r.
            case r of None \<Rightarrow> retp (Inl ()) | Some err' \<Rightarrow> retp (Inr (a, err'))))) ()"

definition sendto_frame ::
  "nat \<Rightarrow> 'w fenv \<Rightarrow> nat \<Rightarrow> 'w libc \<Rightarrow> gostring \<Rightarrow> (int \<Rightarrow> 'w thr \<Rightarrow> u32 option \<times> 'w thr) \<Rightarrow> ('w, int \<times> goerror option) prog" where
  "sendto_frame n E g L p f =
     with_write n E L (\<lambda>e. (0, Some e))
      (guardp prepareWrite (\<lambda>e. (0, Some e))
        (bindp (send_loop n E g L (bindp (onfd f) (\<lambda>err. retp ((), err)))) (\<lambda>(_, err).
          if err \<noteq> None then retp (0, err) else retp (int (length p), None))))"

definition FD_WriteToInet4 ::
  "nat \<Rightarrow> 'w fenv \<Rightarrow> nat \<Rightarrow> 'w libc \<Rightarrow> gostring \<Rightarrow> SockaddrInet4 \<Rightarrow> ('w, int \<times> goerror option) prog" where
  "FD_WriteToInet4 n E g L p sa = sendto_frame n E g L p (\<lambda>fd. sendtoInet4 L fd p 0 sa)"

definition FD_WriteToInet6 ::
  "nat \<Rightarrow> 'w fenv \<Rightarrow> nat \<Rightarrow> 'w libc \<Rightarrow> gostring \<Rightarrow> SockaddrInet6 \<Rightarrow> ('w, int \<times> goerror option) prog" where
  "FD_WriteToInet6 n E g L p sa = sendto_frame n E g L p (\<lambda>fd. sendtoInet6 L fd p 0 sa)"

definition FD_WriteTo ::
  "nat \<Rightarrow> 'w fenv \<Rightarrow> nat \<Rightarrow> 'w libc \<Rightarrow> gostring \<Rightarrow> GoSockaddr option \<Rightarrow> ('w, int \<times> goerror option) prog" where
  "FD_WriteTo n E g L p sa = sendto_frame n E g L p (\<lambda>fd. Sendto L fd p 0 sa)"

definition sendmsg_frame ::
  "nat \<Rightarrow> 'w fenv \<Rightarrow> nat \<Rightarrow> 'w libc \<Rightarrow> gostring \<Rightarrow> (int \<Rightarrow> 'w thr \<Rightarrow> (int \<times> u32 option) \<times> 'w thr)
     \<Rightarrow> ('w, int \<times> int \<times> goerror option) prog" where
  "sendmsg_frame n E g L oob f =
     with_write n E L (\<lambda>e. (0, 0, Some e))
      (guardp prepareWrite (\<lambda>e. (0, 0, Some e))
        (bindp (send_loop n E g L (onfd f)) (\<lambda>(k, err).
          if err \<noteq> None then retp (k, 0, err) else retp (k, int (length oob), None))))"

definition FD_WriteMsg ::
  "nat \<Rightarrow> 'w fenv \<Rightarrow> nat \<Rightarrow> 'w libc \<Rightarrow> gostring \<Rightarrow> gostring \<Rightarrow> GoSockaddr option \<Rightarrow> ('w, int \<times> int \<times> goerror option) prog" where
  "FD_WriteMsg n E g L p oob sa = sendmsg_frame n E g L oob (\<lambda>fd. SendmsgN L fd p oob sa 0)"

definition FD_WriteMsgInet4 ::
  "nat \<Rightarrow> 'w fenv \<Rightarrow> nat \<Rightarrow> 'w libc \<Rightarrow> gostring \<Rightarrow> gostring \<Rightarrow> SockaddrInet4 option \<Rightarrow> ('w, int \<times> int \<times> goerror option) prog" where
  "FD_WriteMsgInet4 n E g L p oob sa = sendmsg_frame n E g L oob (\<lambda>fd. sendmsgNInet4 L fd p oob sa 0)"

definition FD_WriteMsgInet6 ::
  "nat \<Rightarrow> 'w fenv \<Rightarrow> nat \<Rightarrow> 'w libc \<Rightarrow> gostring \<Rightarrow> gostring \<Rightarrow> SockaddrInet6 option \<Rightarrow> ('w, int \<times> int \<times> goerror option) prog" where
  "FD_WriteMsgInet6 n E g L p oob sa = sendmsg_frame n E g L oob (\<lambda>fd. sendmsgNInet6 L fd p oob sa 0)"

section \<open>Accepting\<close>

text \<open>\<open>accept\<close> of \<open>sys_cloexec.go\<close>: the new descriptor is marked, or closed again.\<close>

definition accept_cloexec ::
  "'w libc \<Rightarrow> int \<Rightarrow> 'w thr \<Rightarrow> (int \<times> Sockaddr option \<times> string \<times> u32 option) \<times> 'w thr" where
  "accept_cloexec L s t =
     (let ((ns, sa, err), t1) = Accept L s t;
          t2 = (if err = None then CloseOnExec L ns t1 else t1)
      in if err \<noteq> None then ((-1, None, ''accept'', err), t2)
         else (let (err2, t3) = SetNonblock L ns True t2
               in if err2 \<noteq> None then (let (ign, t4) = Close L ns t3 in ((-1, None, ''setnonblock'', err2), t4))
                  else ((ns, sa, '''', None), t3)))"

abbreviation ECONNABORTED :: u32 where "ECONNABORTED \<equiv> 253"

definition Accept_loop ::
  "nat \<Rightarrow> 'w fenv \<Rightarrow> nat \<Rightarrow> 'w libc \<Rightarrow> ('w, int \<times> Sockaddr option \<times> string \<times> goerror option) prog" where
  "Accept_loop n E g L =
     loopp n (\<lambda>_.
       bindp (onfd (accept_cloexec L)) (\<lambda>(s, rsa, errcall, err).
       if err = None then retp (Inr (s, rsa, '''', None))
       else if err = Some EINTR then retp (Inl ())
       else if err = Some EAGAIN
       then bindp (wait_eagain (waitRead n E g L) (oserr err)) (\<lambda>r.
              case r of None \<Rightarrow> retp (Inl ()) | Some err' \<Rightarrow> retp (Inr (-1, None, errcall, err')))
       else if err = Some ECONNABORTED then retp (Inl ())
       else retp (Inr (-1, None, errcall, oserr err)))) ()"

definition FD_Accept ::
  "nat \<Rightarrow> 'w fenv \<Rightarrow> nat \<Rightarrow> 'w libc \<Rightarrow> ('w, int \<times> Sockaddr option \<times> string \<times> goerror option) prog" where
  "FD_Accept n E g L =
     with_read n E L (\<lambda>e. (-1, None, '''', Some e)) (guardp prepareRead (\<lambda>e. (-1, None, '''', Some e)) (Accept_loop n E g L))"

section \<open>One call under a reference\<close>

definition FD_Fchmod :: "nat \<Rightarrow> 'w libc \<Rightarrow> u32 \<Rightarrow> ('w, goerror option) prog" where
  "FD_Fchmod n L mode = with_ref L Some (ignoringEINTR n (onfd_err (\<lambda>fd. Fchmod L fd mode)))"

definition FD_Fstat :: "nat \<Rightarrow> 'w libc \<Rightarrow> Stat_t \<Rightarrow> ('w, goerror option \<times> Stat_t) prog" where
  "FD_Fstat n L st =
     with_ref L (\<lambda>e. (Some e, st))
      (bindp (ignoringEINTRIO n (\<lambda>b. bindp (onfd (\<lambda>fd. Fstat L fd b)) (\<lambda>(err, b'). retp ((), err, b'))) st)
        (\<lambda>(_, err, st'). retp (oserr err, st')))"

definition FD_Fstatat :: "nat \<Rightarrow> 'w libc \<Rightarrow> gostring \<Rightarrow> Stat_t \<Rightarrow> int \<Rightarrow> ('w, goerror option \<times> Stat_t) prog" where
  "FD_Fstatat n L name st flags =
     with_ref L (\<lambda>e. (Some e, st))
      (bindp (ignoringEINTRIO n (\<lambda>b. bindp (onfd (\<lambda>fd. Fstatat L fd name b flags)) (\<lambda>(err, b'). retp ((), err, b'))) st)
        (\<lambda>(_, err, st'). retp (oserr err, st')))"

definition FD_Fchown :: "nat \<Rightarrow> 'w libc \<Rightarrow> int \<Rightarrow> int \<Rightarrow> ('w, goerror option) prog" where
  "FD_Fchown n L uid gid = with_ref L Some (ignoringEINTR n (onfd_err (\<lambda>fd. Fchown L fd uid gid)))"

definition FD_Ftruncate :: "nat \<Rightarrow> 'w libc \<Rightarrow> int \<Rightarrow> ('w, goerror option) prog" where
  "FD_Ftruncate n L sz = with_ref L Some (ignoringEINTR n (onfd_err (\<lambda>fd. Ftruncate L fd sz)))"

definition FD_Fsync :: "nat \<Rightarrow> 'w libc \<Rightarrow> ('w, goerror option) prog" where
  "FD_Fsync n L = with_ref L Some (ignoringEINTR n (onfd_err (Fsync L)))"

definition FD_Shutdown :: "'w libc \<Rightarrow> int \<Rightarrow> ('w, goerror option) prog" where
  "FD_Shutdown L how = with_ref L Some (onfd_err (\<lambda>fd. Shutdown L fd how))"

definition FD_Fchdir :: "'w libc \<Rightarrow> ('w, goerror option) prog" where
  "FD_Fchdir L = with_ref L Some (onfd_err (Fchdir L))"

definition FD_Seek :: "'w libc \<Rightarrow> int \<Rightarrow> int \<Rightarrow> ('w, int \<times> goerror option) prog" where
  "FD_Seek L offset whence =
     with_ref L (\<lambda>e. (0, Some e)) (bindp (onfd (\<lambda>fd. Seek L fd offset whence)) (\<lambda>(k, err). retp (k, oserr err)))"

text \<open>The user's function is any program.\<close>

definition FD_RawControl :: "'w libc \<Rightarrow> (uintptr \<Rightarrow> ('w, unit) prog) \<Rightarrow> ('w, goerror option) prog" where
  "FD_RawControl L f = with_ref L Some (bindp (getp f_Sysfd) (\<lambda>fd. bindp (f (uptr fd)) (\<lambda>_. retp None)))"

definition FD_ReadDirent ::
  "nat \<Rightarrow> 'w fenv \<Rightarrow> nat \<Rightarrow> 'w libc \<Rightarrow> gostring \<Rightarrow> ('w, int \<times> goerror option \<times> gostring) prog" where
  "FD_ReadDirent n E g L buf =
     with_ref L (\<lambda>e. (0, Some e, buf))
      (loopp n (\<lambda>q.
         bindp (ignoringEINTRIO n (\<lambda>b. onfd (\<lambda>fd. ReadDirent L fd b)) q) (\<lambda>(k, err, q').
         bindp (if err \<noteq> None then wait_eagain (waitRead n E g L) (oserr err) else retp (Some None)) (\<lambda>r.
         case r of None \<Rightarrow> retp (Inl q')
         | Some err' \<Rightarrow> retp (Inr (if err \<noteq> None then 0 else k, err', q'))))) buf)"

section \<open>Duplicating\<close>

definition dupCloseOnExecOld :: "'w libc \<Rightarrow> int \<Rightarrow> 'w thr \<Rightarrow> (int \<times> string \<times> u32 option) \<times> 'w thr" where
  "dupCloseOnExecOld L fd t =
     (let ((newfd, err), t1) = Dup L fd t
      in if err \<noteq> None then ((-1, ''dup'', err), t1) else ((newfd, '''', None), CloseOnExec L newfd t1))"

text \<open>\<open>F_DUPFD_CLOEXEC\<close> is 0 on QNX 6.5, which disables the fast path.\<close>

definition DupCloseOnExec :: "'w libc \<Rightarrow> int \<Rightarrow> 'w thr \<Rightarrow> (int \<times> string \<times> u32 option) \<times> 'w thr" where
  "DupCloseOnExec L fd t = dupCloseOnExecOld L fd t"

definition FD_Dup :: "'w libc \<Rightarrow> ('w, int \<times> string \<times> goerror option) prog" where
  "FD_Dup L =
     with_ref L (\<lambda>e. (-1, '''', Some e)) (bindp (onfd (DupCloseOnExec L)) (\<lambda>(k, call, err). retp (k, call, oserr err)))"

section \<open>Raw access\<close>

definition FD_WaitWrite :: "nat \<Rightarrow> 'w fenv \<Rightarrow> nat \<Rightarrow> 'w libc \<Rightarrow> ('w, goerror option) prog" where
  "FD_WaitWrite n E g L = waitWrite n E g L"

definition FD_WriteOnce :: "nat \<Rightarrow> 'w fenv \<Rightarrow> 'w libc \<Rightarrow> gostring \<Rightarrow> ('w, int \<times> goerror option) prog" where
  "FD_WriteOnce n E L p =
     with_write n E L (\<lambda>e. (0, Some e))
      (bindp (ignoringEINTRIO n (\<lambda>_. bindp (onfd (\<lambda>fd. Write L fd p)) (\<lambda>(k, err). retp (k, err, ()))) ())
        (\<lambda>(k, err, _). retp (k, oserr err)))"

definition raw_loop ::
  "nat \<Rightarrow> ('w, goerror option) prog \<Rightarrow> (uintptr \<Rightarrow> ('w, bool) prog) \<Rightarrow> ('w, goerror option) prog" where
  "raw_loop n wait f =
     loopp n (\<lambda>_. bindp (getp f_Sysfd) (\<lambda>fd. bindp (f (uptr fd)) (\<lambda>ready.
       if ready then retp (Inr None)
       else bindp wait (\<lambda>e. retp (if e \<noteq> None then Inr e else Inl ()))))) ()"

definition FD_RawRead :: "nat \<Rightarrow> 'w fenv \<Rightarrow> nat \<Rightarrow> 'w libc \<Rightarrow> (uintptr \<Rightarrow> ('w, bool) prog) \<Rightarrow> ('w, goerror option) prog" where
  "FD_RawRead n E g L f = with_read n E L Some (guardp prepareRead Some (raw_loop n (waitRead n E g L) f))"

definition FD_RawWrite :: "nat \<Rightarrow> 'w fenv \<Rightarrow> nat \<Rightarrow> 'w libc \<Rightarrow> (uintptr \<Rightarrow> ('w, bool) prog) \<Rightarrow> ('w, goerror option) prog" where
  "FD_RawWrite n E g L f = with_write n E L Some (guardp prepareWrite Some (raw_loop n (waitWrite n E g L) f))"

section \<open>Vectors\<close>

text \<open>\<open>consume\<close>: what is left of a list of buffers after \<open>k\<close> bytes of it went out.\<close>

fun consume :: "gostring list \<Rightarrow> int \<Rightarrow> gostring list" where
  "consume [] k = []"
| "consume (c # cs) k = (if int (length c) > k then drop (nat k) c # cs else consume cs (k - int (length c)))"

text \<open>The vector of one call: empty buffers are skipped, a buffer over 1 GB on a stream is cut and ends it.\<close>

fun gather :: "bool \<Rightarrow> nat \<Rightarrow> gostring list \<Rightarrow> Iovec list" where
  "gather stream maxVec [] = []"
| "gather stream maxVec (c # cs) =
     (if length c = 0 then gather stream maxVec cs
      else if stream \<and> length c > maxRW then [\<lparr>iov_Base = Some c, iov_Len = of_nat maxRW\<rparr>]
      else \<lparr>iov_Base = Some c, iov_Len = of_nat (length c)\<rparr> # (if maxVec = 1 then [] else gather stream (maxVec - 1) cs))"

definition Writev_loop ::
  "nat \<Rightarrow> 'w fenv \<Rightarrow> nat \<Rightarrow> 'w libc \<Rightarrow> int \<times> goerror option \<times> gostring list \<Rightarrow> ('w, int \<times> goerror option \<times> gostring list) prog" where
  "Writev_loop n E g L =
     loopp n (\<lambda>(k, err, v).
       if v = [] then retp (Inr (k, err, v))
       else bindp (getp f_IsStream) (\<lambda>stream.
         (let iovecs = gather stream 1024 v
          in if iovecs = [] then retp (Inr (k, err, v))
             else bindp (onfd (\<lambda>fd. writev L fd iovecs)) (\<lambda>(w, e).
               (let wrote = (if w = NOT 0 then 0 else w);
                    k' = k + uint wrote; v' = consume v (uint wrote)
                in if e \<noteq> None
                   then (if e = Some EINTR then retp (Inl (k', oserr e, v'))
                         else if e = Some EAGAIN
                         then bindp (waitWrite n E g L) (\<lambda>e'. retp (if e' = None then Inl (k', None, v') else Inr (k', e', v')))
                         else retp (Inr (k', oserr e, v')))
                   else if k' = 0 then retp (Inr (k', Some ErrUnexpectedEOF, v'))
                   else retp (Inl (k', None, v')))))))"

definition FD_Writev ::
  "nat \<Rightarrow> 'w fenv \<Rightarrow> nat \<Rightarrow> 'w libc \<Rightarrow> gostring list \<Rightarrow> ('w, int \<times> goerror option \<times> gostring list) prog" where
  "FD_Writev n E g L v =
     with_write n E L (\<lambda>e. (0, Some e, v))
      (guardp prepareWrite (\<lambda>e. (0, Some e, v)) (Writev_loop n E g L (0, None, v)))"

section \<open>Deadlines and options\<close>

text \<open>\<open>until\<close> is \<open>time.Until(t)\<close>, None for the zero time.\<close>

definition setDeadlineImpl :: "'w libc \<Rightarrow> int option \<Rightarrow> int \<Rightarrow> ('w, goerror option) prog" where
  "setDeadlineImpl L until mode =
     (let d = (case until of None \<Rightarrow> 0 | Some u \<Rightarrow> if u = 0 then -1 else u)
      in with_ref L Some
          (bindp (getp f_ctx) (\<lambda>c. case c of None \<Rightarrow> retp (Some ErrNoDeadline)
             | Some pd \<Rightarrow> bindp (modp (rt_pollSetDeadline L pd d mode)) (\<lambda>_. retp None))))"

definition FD_SetDeadline :: "'w libc \<Rightarrow> int option \<Rightarrow> ('w, goerror option) prog" where
  "FD_SetDeadline L until = setDeadlineImpl L until mode_rw"

definition FD_SetReadDeadline :: "'w libc \<Rightarrow> int option \<Rightarrow> ('w, goerror option) prog" where
  "FD_SetReadDeadline L until = setDeadlineImpl L until mode_r"

definition FD_SetWriteDeadline :: "'w libc \<Rightarrow> int option \<Rightarrow> ('w, goerror option) prog" where
  "FD_SetWriteDeadline L until = setDeadlineImpl L until mode_w"

definition IsPollDescriptor :: "u32 \<Rightarrow> 'w fdrt \<Rightarrow> bool" where
  "IsPollDescriptor fd s = poll_runtime_isPollServerDescriptor fd s"

definition FD_SetsockoptInt :: "'w libc \<Rightarrow> int \<Rightarrow> int \<Rightarrow> int \<Rightarrow> ('w, goerror option) prog" where
  "FD_SetsockoptInt L level name arg = with_ref L Some (onfd_err (\<lambda>fd. SetsockoptInt L fd level name arg))"

definition FD_SetsockoptByte :: "'w libc \<Rightarrow> int \<Rightarrow> int \<Rightarrow> u8 \<Rightarrow> ('w, goerror option) prog" where
  "FD_SetsockoptByte L level name arg = with_ref L Some (onfd_err (\<lambda>fd. SetsockoptByte L fd level name arg))"

definition FD_SetsockoptInet4Addr :: "'w libc \<Rightarrow> int \<Rightarrow> int \<Rightarrow> gostring \<Rightarrow> ('w, goerror option) prog" where
  "FD_SetsockoptInet4Addr L level name arg = with_ref L Some (onfd_err (\<lambda>fd. SetsockoptInet4Addr L fd level name arg))"

definition FD_SetsockoptLinger :: "'w libc \<Rightarrow> int \<Rightarrow> int \<Rightarrow> Linger \<Rightarrow> ('w, goerror option) prog" where
  "FD_SetsockoptLinger L level name l = with_ref L Some (onfd_err (\<lambda>fd. SetsockoptLinger L fd level name l))"

definition FD_SetsockoptIPMreq :: "'w libc \<Rightarrow> int \<Rightarrow> int \<Rightarrow> IPMreq \<Rightarrow> ('w, goerror option) prog" where
  "FD_SetsockoptIPMreq L level name mreq = with_ref L Some (onfd_err (\<lambda>fd. SetsockoptIPMreq L fd level name mreq))"

definition FD_SetsockoptIPv6Mreq :: "'w libc \<Rightarrow> int \<Rightarrow> int \<Rightarrow> IPv6Mreq \<Rightarrow> ('w, goerror option) prog" where
  "FD_SetsockoptIPv6Mreq L level name mreq = with_ref L Some (onfd_err (\<lambda>fd. SetsockoptIPv6Mreq L fd level name mreq))"

definition FD_GetsockoptInt :: "'w libc \<Rightarrow> int \<Rightarrow> int \<Rightarrow> ('w, int \<times> goerror option) prog" where
  "FD_GetsockoptInt L level name =
     with_ref L (\<lambda>e. (-1, Some e)) (bindp (onfd (\<lambda>fd. GetsockoptInt L fd level name)) (\<lambda>(k, err). retp (k, oserr err)))"

end
