(* ===== verification/Fd_Closed.thy ===== *)
theory Fd_Closed
  imports Fd_Unix
begin

text \<open>
  What a method of \<open>FD\<close> does on a descriptor that is already closed, and what closing does: once the closed
  bit is set every method refuses with the closing error and touches nothing; closing a descriptor nobody
  uses unregisters it, closes it once, and leaves it closed.
\<close>

section \<open>Refusal\<close>

lemma closed_incref:
  assumes "f_mu s AND mutexClosed \<noteq> 0"
  shows "fd_incref s = Some (Ret (Some (errClosing (f_isFile s))), s)"
  using assms by (simp add: fd_incref_def prog_defs mup_def fdmu_incref_def)

lemma closed_lock:
  assumes "f_mu s AND mutexClosed \<noteq> 0"
  shows "fd_lock (Suc n) E rd s = Some (Ret (Some (errClosing (f_isFile s))), s)"
  using assms by (simp add: fd_lock_def fd_rwlock_def prog_defs mup_def fdmu_rwlock_def)

lemma closed_frames:
  assumes "f_mu s AND mutexClosed \<noteq> 0"
  shows "with_ref L h b s = Some (Ret (h (errClosing (f_isFile s))), s)"
    and "with_read (Suc n) E L h b s = Some (Ret (h (errClosing (f_isFile s))), s)"
    and "with_write (Suc n) E L h b s = Some (Ret (h (errClosing (f_isFile s))), s)"
  by (simp_all add: with_ref_def with_read_def with_write_def readLock_def writeLock_def guardp_def bindp_def
      closed_incref [OF assms] closed_lock [OF assms] retp_def)

text \<open>C19: Every method that takes a lock or a reference, called on a closed descriptor, returns the closing error of its kind (file or network),
  with a zero or -1 count, no system call made, the user's function of the raw methods not run, the caller's structures and the state as they were; so does a
  second \<open>Close\<close>. The two methods that take neither are left out: \<open>Init\<close>, and \<open>WaitWrite\<close>, which is for a descriptor not yet
  shared.\<close>

theorem closed_fd_refuses:
  assumes "f_mu s AND mutexClosed \<noteq> 0" and "e = errClosing (f_isFile s)"
  shows "FD_Read (Suc n) E g L p s = Some (Ret (0, Some e, p), s)
    \<and> FD_Pread (Suc n) L p off s = Some (Ret (0, Some e, p), s)
    \<and> FD_ReadFrom (Suc n) E g L p s = Some (Ret (0, Some e, p, None), s)
    \<and> FD_ReadFromInet4 (Suc n) E g L p sa4 s = Some (Ret (0, Some e, (p, sa4), ()), s)
    \<and> FD_ReadFromInet6 (Suc n) E g L p sa6 s = Some (Ret (0, Some e, (p, sa6), ()), s)
    \<and> FD_ReadMsg (Suc n) E g L p oob fl s = Some (Ret (0, Some e, (), 0, 0, None), s)
    \<and> FD_ReadMsgInet4 (Suc n) E g L p oob fl sa4 s = Some (Ret (0, Some e, sa4, 0, 0), s)
    \<and> FD_ReadMsgInet6 (Suc n) E g L p oob fl sa6 s = Some (Ret (0, Some e, sa6, 0, 0), s)
    \<and> FD_Write (Suc n) E g L p s = Some (Ret (0, Some e), s)
    \<and> FD_Pwrite (Suc n) L p off s = Some (Ret (0, Some e), s)
    \<and> FD_WriteTo (Suc n) E g L p sa s = Some (Ret (0, Some e), s)
    \<and> FD_WriteToInet4 (Suc n) E g L p sa4 s = Some (Ret (0, Some e), s)
    \<and> FD_WriteToInet6 (Suc n) E g L p sa6 s = Some (Ret (0, Some e), s)
    \<and> FD_WriteMsg (Suc n) E g L p oob sa s = Some (Ret (0, 0, Some e), s)
    \<and> FD_WriteMsgInet4 (Suc n) E g L p oob to4 s = Some (Ret (0, 0, Some e), s)
    \<and> FD_WriteMsgInet6 (Suc n) E g L p oob to6 s = Some (Ret (0, 0, Some e), s)
    \<and> FD_Accept (Suc n) E g L s = Some (Ret (-1, None, '''', Some e), s)
    \<and> FD_Writev (Suc n) E g L v s = Some (Ret (0, Some e, v), s)
    \<and> FD_WriteOnce (Suc n) E L p s = Some (Ret (0, Some e), s)
    \<and> FD_Seek L off wh s = Some (Ret (0, Some e), s)
    \<and> FD_ReadDirent (Suc n) E g L p s = Some (Ret (0, Some e, p), s)
    \<and> FD_Fsync (Suc n) L s = Some (Ret (Some e), s)
    \<and> FD_Fstat (Suc n) L st s = Some (Ret (Some e, st), s)
    \<and> FD_Fstatat (Suc n) L name st fl s = Some (Ret (Some e, st), s)
    \<and> FD_Fchmod (Suc n) L md s = Some (Ret (Some e), s)
    \<and> FD_Fchown (Suc n) L uid gid s = Some (Ret (Some e), s)
    \<and> FD_Ftruncate (Suc n) L sz s = Some (Ret (Some e), s)
    \<and> FD_Shutdown L how s = Some (Ret (Some e), s)
    \<and> FD_Fchdir L s = Some (Ret (Some e), s)
    \<and> FD_Dup L s = Some (Ret (-1, '''', Some e), s)
    \<and> FD_SetDeadline L t s = Some (Ret (Some e), s)
    \<and> FD_SetReadDeadline L t s = Some (Ret (Some e), s)
    \<and> FD_SetWriteDeadline L t s = Some (Ret (Some e), s)
    \<and> FD_SetBlocking L s = Some (Ret (Some e), s)
    \<and> FD_SetsockoptInt L lv nm arg s = Some (Ret (Some e), s)
    \<and> FD_SetsockoptByte L lv nm byt s = Some (Ret (Some e), s)
    \<and> FD_SetsockoptInet4Addr L lv nm addr s = Some (Ret (Some e), s)
    \<and> FD_SetsockoptLinger L lv nm li s = Some (Ret (Some e), s)
    \<and> FD_SetsockoptIPMreq L lv nm mr s = Some (Ret (Some e), s)
    \<and> FD_SetsockoptIPv6Mreq L lv nm mr6 s = Some (Ret (Some e), s)
    \<and> FD_GetsockoptInt L lv nm s = Some (Ret (-1, Some e), s)
    \<and> FD_RawControl L c s = Some (Ret (Some e), s)
    \<and> FD_RawRead (Suc n) E g L f s = Some (Ret (Some e), s)
    \<and> FD_RawWrite (Suc n) E g L f s = Some (Ret (Some e), s)
    \<and> FD_Close E L s = Some (Ret (Some e), s)"
proof -
  have "FD_Close E L s = Some (Ret (Some e), s)"
    using assms by (simp add: FD_Close_def prog_defs mup_def fdmu_increfAndClose_def)
  moreover have "FD_Pread (Suc n) L p off s = Some (Ret (0, Some e, p), s)"
    by (simp add: FD_Pread_def guardp_def bindp_def closed_incref [OF assms(1)] assms(2) retp_def)
  ultimately show ?thesis
    by (simp only: FD_Read_def FD_Write_def FD_Pwrite_def FD_ReadFrom_def FD_ReadFromInet4_def
        FD_ReadFromInet6_def FD_ReadMsg_def FD_ReadMsgInet4_def FD_ReadMsgInet6_def FD_WriteTo_def FD_WriteToInet4_def FD_WriteToInet6_def
        sendto_frame_def FD_WriteMsg_def FD_WriteMsgInet4_def FD_WriteMsgInet6_def sendmsg_frame_def FD_Accept_def
        FD_Writev_def FD_WriteOnce_def FD_Seek_def FD_ReadDirent_def FD_Fsync_def FD_Fstat_def FD_Fstatat_def FD_Fchmod_def
        FD_Fchown_def FD_Ftruncate_def FD_Shutdown_def FD_Fchdir_def FD_Dup_def FD_SetDeadline_def FD_SetReadDeadline_def
        FD_SetWriteDeadline_def setDeadlineImpl_def FD_SetBlocking_def FD_SetsockoptInt_def FD_SetsockoptByte_def
        FD_SetsockoptInet4Addr_def FD_SetsockoptLinger_def FD_SetsockoptIPMreq_def FD_SetsockoptIPv6Mreq_def FD_GetsockoptInt_def
        FD_RawControl_def FD_RawRead_def FD_RawWrite_def Let_def closed_frames [OF assms(1)] assms(2))
qed

text \<open>A descriptor that is not registered with the poller, for the witnesses.\<close>

definition fd_plain :: "'w \<Rightarrow> u64 \<Rightarrow> 'w fdrt" where
  "fd_plain w m = \<lparr>pr_np = \<lparr>np_pfds = [], np_pds = [], np_mtxpoll = False, np_mtxset = False, np_rdwake = -1, np_wrwake = -1,
       np_pendingUpdates = 0, np_wakeSig = 0, np_heap = (\<lambda>i. pd_zero), np_thr = thr_of w\<rparr>,
     pr_first = [], pr_next = 0, pr_waiters = 0, pr_ready = [], pr_inited = False,
     f_mu = m, f_rsema = 0, f_wsema = 0, f_Sysfd = 5, f_ctx = None, f_csema = 0, f_isBlocking = False, f_IsStream = True,
     f_ZeroReadIsEOF = True, f_isFile = True\<rparr>"

lemma fd_plain_fields [simp]:
  "f_mu (fd_plain w m) = m" "f_Sysfd (fd_plain w m) = 5" "f_ctx (fd_plain w m) = None" "f_isFile (fd_plain w m)"
  "f_IsStream (fd_plain w m)" "f_ZeroReadIsEOF (fd_plain w m)" "np_thr (pr_np (fd_plain w m)) = thr_of w"
  "np_wrwake (pr_np (fd_plain w m)) = -1"
  by (simp_all add: fd_plain_def)

theorem closed_fd_refuses_witness:
  "FD_Write 1 (\<lambda>y s. s) 0 ready7 [65, 66] (fd_plain () 1) = Some (Ret (0, Some ErrFileClosing), fd_plain () 1)"
  using closed_fd_refuses [where s = "fd_plain () 1" and e = ErrFileClosing and n = 0 and E = "\<lambda>y s. s" and g = 0
      and L = ready7 and p = "[65, 66]"]
  by (simp add: errClosing_def)

section \<open>Closing\<close>

text \<open>The calls of \<open>close\<close> a thread has made.\<close>

definition closes :: "'w thr \<Rightarrow> (libcFunc \<times> carg list) list" where
  "closes t = filter (\<lambda>c. fst c = ''libc_close'') (t_calls t)"

lemma write1_closes: "closes (snd (write1 L fd p n t)) = closes t"
proof -
  have "t_calls (snd (write1 L fd p n t)) = t_calls t @ [(''libc_write'', [AWord fd, ABuf p, U n])]"
    by (simp add: write1_def sysvicall3_def sysvicall3Err_def libcall_defs case_prod_beta Let_def)
  then show ?thesis by (simp add: closes_def)
qed

lemma enter_closes: "closes (np_thr (netpoll_enter L np)) = closes (np_thr np)"
  by (simp add: netpoll_enter_def netpollwakeup_def wake_byte_def lock_mtxpoll_def unlock_mtxpoll_def lock_mtxset_def write1_closes)

lemma netpollclose_closes: "closes (np_thr (snd (netpollclose L fd np))) = closes (np_thr np)"
  using enter_closes [of L np] by (simp add: netpollclose_def Let_def unlock_mtxset_def split: option.splits)

lemma Close_closes: "closes (snd (Close L fd t)) = closes t @ [(''libc_close'', [W fd])]"
proof -
  have "t_calls (snd (Close L fd t)) = t_calls t @ [(''libc_close'', [W fd])]"
    by (simp add: Close_def err_only_def libcall_defs case_prod_beta Let_def)
  then show ?thesis by (simp add: closes_def)
qed

text \<open>The entry points of the poller leave the fields of the descriptor alone.\<close>

lemma more_fields:
  "pollrt.more s = pollrt.more s' \<Longrightarrow> f_mu s = f_mu s' \<and> f_Sysfd s = f_Sysfd s' \<and> f_ctx s = f_ctx s' \<and> f_csema s = f_csema s'
     \<and> f_isBlocking s = f_isBlocking s' \<and> f_isFile s = f_isFile s' \<and> f_rsema s = f_rsema s' \<and> f_wsema s = f_wsema s'
     \<and> f_IsStream s = f_IsStream s' \<and> f_ZeroReadIsEOF s = f_ZeroReadIsEOF s'"
  by (cases s; cases s') simp

lemma unblock_more: "pollrt.more (snd (rt_pollUnblock pd s)) = pollrt.more s"
  by (simp add: rt_pollUnblock_def pd_store_def split: outcome.splits prod.splits)

lemma close_more: "pollrt.more (snd (poll_runtime_pollClose L pd s)) = pollrt.more s"
  by (simp add: poll_runtime_pollClose_def pollcache_release_def pd_store_def Let_def split: outcome.splits prod.splits)

lemma close_thr: "closes (np_thr (pr_np (snd (poll_runtime_pollClose L pd s)))) = closes (np_thr (pr_np s))"
  using netpollclose_closes [of L "pd_fd (pd_at s pd)" "pr_np s"]
  by (auto simp: poll_runtime_pollClose_def pollcache_release_def pd_store_def Let_def split: outcome.splits prod.splits)

lemma unblock_thr: "np_thr (pr_np (snd (rt_pollUnblock pd s))) = np_thr (pr_np s)"
  by (simp add: rt_pollUnblock_def pd_store_def split: outcome.splits prod.splits)

text \<open>Destruction of a descriptor that \<open>pollUnblock\<close> has made idle.\<close>

lemma destroy_ok:
  assumes ok: "prt_ok s" and c: "f_ctx s = Some pd" and reg: "np_reg (pr_np s) pd = Some e"
    and idle: "pd_closing (pd_at s pd)" "pd_idle (pd_at s pd)"
  obtains s1 err s' where "poll_runtime_pollClose L pd s = (Ret (), s1)"
    "err = fst (Close L (f_Sysfd s) (np_thr (pr_np s1)))" "fd_destroy L s = Some (Ret (oserr err), s')"
    "f_mu s' = f_mu s" "f_Sysfd s' = -1" "f_ctx s' = None" "f_csema s' = f_csema s + 1" "f_isBlocking s' = f_isBlocking s"
    "np_reg (pr_np s') = (np_reg (pr_np s))(pd := None)" "pr_first s' = pd # pr_first s" "pr_ready s' = pr_ready s1"
    "closes (np_thr (pr_np s')) = closes (np_thr (pr_np s)) @ [(''libc_close'', [W (f_Sysfd s)])]"
proof -
  obtain s1 where s1: "poll_runtime_pollClose L pd s = (Ret (), s1)" "np_reg (pr_np s1) = (np_reg (pr_np s))(pd := None)"
    "pr_first s1 = pd # pr_first s" by (rule close_ok [OF ok reg idle])
  have f: "f_mu s1 = f_mu s" "f_Sysfd s1 = f_Sysfd s" "f_csema s1 = f_csema s" "f_isBlocking s1 = f_isBlocking s"
    using more_fields [OF close_more, of L pd s] s1 by simp_all
  obtain err t where t: "Close L (f_Sysfd s) (np_thr (pr_np s1)) = (err, t)" by fastforce
  define s' where "s' = s1\<lparr>f_ctx := None, pr_np := (pr_np s1)\<lparr>np_thr := t\<rparr>, f_Sysfd := -1, f_csema := f_csema s + 1\<rparr>"
  have run: "fd_destroy L s = Some (Ret (oserr err), s')"
    by (simp add: fd_destroy_def fpd_close_def prog_defs c s1(1) f t s'_def)
  have "closes t = closes (np_thr (pr_np s)) @ [(''libc_close'', [W (f_Sysfd s)])]"
    using Close_closes [of L "f_Sysfd s" "np_thr (pr_np s1)"] close_thr [of L pd s] s1(1) t by simp
  then show ?thesis using that [OF s1(1) _ run] s1 f t by (simp add: s'_def)
qed

text \<open>A descriptor in use by nobody but the caller of \<open>Close\<close>, registered with the poller.\<close>

definition fd_idle :: "'w fdrt \<Rightarrow> nat \<Rightarrow> bool" where
  "fd_idle s pd \<longleftrightarrow> prt_ok s \<and> f_ctx s = Some pd \<and> np_reg (pr_np s) pd \<noteq> None \<and> \<not> pd_closing (pd_at s pd)"

text \<open>What \<open>Close\<close> does up to its \<open>decref\<close>.\<close>

definition fd_evicted :: "nat \<Rightarrow> nat \<Rightarrow> nat \<Rightarrow> 'w fdrt \<Rightarrow> 'w fdrt" where
  "fd_evicted pd nr nw s = snd (rt_pollUnblock pd (s\<lparr>f_rsema := f_rsema s + nr, f_wsema := f_wsema s + nw\<rparr>))"

lemma prt_ok_more [simp]: "prt_ok (s\<lparr>f_mu := m\<rparr>) = prt_ok s" "prt_ok (s\<lparr>f_rsema := k\<rparr>) = prt_ok s" "prt_ok (s\<lparr>f_wsema := k\<rparr>) = prt_ok s"
  unfolding prt_ok_def reg_ok_def pd_at_def by simp_all

lemma pd_at_more [simp]: "pd_at (s\<lparr>f_mu := m\<rparr>) = pd_at s" "pd_at (s\<lparr>f_rsema := k\<rparr>) = pd_at s" "pd_at (s\<lparr>f_wsema := k\<rparr>) = pd_at s"
  by (simp_all add: fun_eq_iff pd_at_def)

lemma Close_prefix:
  assumes w: "f_mu s = word_of a" "fdst_ok a" "\<not> a_closed a" "a_ref a < 2 ^ 20 - 1" and s: "fd_idle s pd"
  obtains s1 e where "FD_Close E L s = bindp (fd_decref L) (\<lambda>err. bindp (getp f_isBlocking) (\<lambda>b.
        bindp (if \<not> b then csema_acquire E else retp ()) (\<lambda>_. retp err))) s1"
    "f_mu s1 = word_of (a\<lparr>a_closed := True, a_ref := Suc (a_ref a), a_rwait := 0, a_wwait := 0\<rparr>)"
    "prt_ok s1" "np_reg (pr_np s1) = np_reg (pr_np s)" "np_reg (pr_np s1) pd = Some e" "pd_idle (pd_at s1 pd)" "pd_closing (pd_at s1 pd)"
    "f_ctx s1 = Some pd" "f_Sysfd s1 = f_Sysfd s" "f_csema s1 = f_csema s" "f_isBlocking s1 = f_isBlocking s"
    "f_rsema s1 = f_rsema s + a_rwait a" "f_wsema s1 = f_wsema s + a_wwait a" "pr_first s1 = pr_first s"
    "np_thr (pr_np s1) = np_thr (pr_np s)"
    "\<forall>g. pd_rg (pd_at s pd) = PdG g \<or> pd_wg (pd_at s pd) = PdG g \<longrightarrow> g \<in> set (pr_ready s1)"
proof -
  let ?b = "a\<lparr>a_closed := True, a_ref := Suc (a_ref a), a_rwait := 0, a_wwait := 0\<rparr>"
  define s0 where "s0 = s\<lparr>f_mu := word_of ?b, f_rsema := f_rsema s + a_rwait a, f_wsema := f_wsema s + a_wwait a\<rparr>"
  have "a_ref a \<noteq> 1048575" using w(4) by simp
  then have cl: "fdmu_increfAndClose (f_mu s) = Ret (True, word_of ?b, a_rwait a, a_wwait a)"
    using close_word [OF w(2)] w by (simp add: fs_close_def)
  from s obtain e where reg: "np_reg (pr_np s) pd = Some e" and ctx: "f_ctx s = Some pd" and ok: "prt_ok s"
    and op: "\<not> pd_closing (pd_at s pd)" by (auto simp: fd_idle_def)
  have ok0: "prt_ok s0" "np_reg (pr_np s0) pd = Some e" "\<not> pd_closing (pd_at s0 pd)" using ok reg op by (simp_all add: s0_def)
  obtain s1 where s1: "rt_pollUnblock pd s0 = (Ret (), s1)" "prt_ok s1" "np_reg (pr_np s1) = np_reg (pr_np s0)"
    "pd_idle (pd_at s1 pd)" "pd_closing (pd_at s1 pd)" "pr_first s1 = pr_first s0"
    "\<forall>g. pd_rg (pd_at s0 pd) = PdG g \<or> pd_wg (pd_at s0 pd) = PdG g \<longrightarrow> g \<in> set (pr_ready s1)"
    by (rule unblock_ok [OF ok0])
  have f: "f_mu s1 = f_mu s0 \<and> f_Sysfd s1 = f_Sysfd s0 \<and> f_ctx s1 = f_ctx s0 \<and> f_csema s1 = f_csema s0
     \<and> f_isBlocking s1 = f_isBlocking s0 \<and> f_isFile s1 = f_isFile s0 \<and> f_rsema s1 = f_rsema s0 \<and> f_wsema s1 = f_wsema s0"
    using more_fields [OF unblock_more, of pd s0] s1(1) by simp
  have t: "np_thr (pr_np s1) = np_thr (pr_np s)" using unblock_thr [of pd s0] s1(1) by (simp add: s0_def)
  have "FD_Close E L s = bindp (fd_decref L) (\<lambda>err. bindp (getp f_isBlocking) (\<lambda>b.
        bindp (if \<not> b then csema_acquire E else retp ()) (\<lambda>_. retp err))) s1"
    using s1(1) ctx unfolding s0_def
    by (simp add: FD_Close_def fpd_evict_def sem_release_def bindp_def mup_def cl modp_def getp_def callp_def)
  then show ?thesis by (rule that) (use s1 f t ctx reg in \<open>auto simp: s0_def\<close>)
qed

text \<open>C15: Closing a registered descriptor that nobody else uses: the descriptor leaves the poller, its
  number is closed by exactly one call of \<open>close\<close>, whose verdict is the answer, \<open>Sysfd\<close> becomes -1, the lock
  word keeps only the closed bit, and the semaphore of \<open>Close\<close> is where it was.\<close>

theorem FD_Close_closes_once:
  assumes "fd_idle s pd" and "f_mu s = 0" and "\<not> f_isBlocking s"
  shows "\<exists>err t s'. FD_Close E L s = Some (Ret (oserr err), s') \<and> err = fst (Close L (f_Sysfd s) t)
    \<and> closes (np_thr (pr_np s')) = closes (np_thr (pr_np s)) @ [(''libc_close'', [W (f_Sysfd s)])]
    \<and> f_Sysfd s' = -1 \<and> f_ctx s' = None \<and> f_mu s' = mutexClosed \<and> f_csema s' = f_csema s
    \<and> np_reg (pr_np s') = (np_reg (pr_np s))(pd := None) \<and> pr_first s' = pd # pr_first s"
proof -
  let ?a = "\<lparr>a_closed = False, a_rlock = False, a_wlock = False, a_ref = 0, a_rwait = 0, a_wwait = 0\<rparr>"
  let ?b = "?a\<lparr>a_closed := True, a_ref := Suc 0\<rparr>"
  have a: "word_of ?a = 0" "fdst_ok ?a" "fdst_ok ?b" by (simp_all add: word_of_def enc_def fdst_ok_def)
  obtain s1 e where c: "FD_Close E L s = bindp (fd_decref L) (\<lambda>err. bindp (getp f_isBlocking) (\<lambda>b.
        bindp (if \<not> b then csema_acquire E else retp ()) (\<lambda>_. retp err))) s1" "f_mu s1 = word_of ?b"
    "prt_ok s1" "np_reg (pr_np s1) = np_reg (pr_np s)" "np_reg (pr_np s1) pd = Some e" "pd_idle (pd_at s1 pd)" "pd_closing (pd_at s1 pd)"
    "f_ctx s1 = Some pd" "f_Sysfd s1 = f_Sysfd s" "f_csema s1 = f_csema s" "f_isBlocking s1 = f_isBlocking s" "pr_first s1 = pr_first s"
    "np_thr (pr_np s1) = np_thr (pr_np s)"
    by (rule Close_prefix [of s ?a pd E L]) (use assms a in auto)
  have "word_of (?b\<lparr>a_ref := 0\<rparr>) = mutexClosed" by (simp add: word_of_def enc_def)
  then have d: "fdmu_decref (f_mu s1) = Ret (True, mutexClosed)"
    using decref_word [OF a(3)] c(2) by (simp add: fs_decref_def)
  define s2 where "s2 = s1\<lparr>f_mu := mutexClosed\<rparr>"
  have k: "prt_ok s2" "f_ctx s2 = Some pd" "np_reg (pr_np s2) pd = Some e" "pd_closing (pd_at s2 pd)" "pd_idle (pd_at s2 pd)"
    using c by (simp_all add: s2_def)
  obtain s3 err s' where r: "poll_runtime_pollClose L pd s2 = (Ret (), s3)" "err = fst (Close L (f_Sysfd s2) (np_thr (pr_np s3)))" "fd_destroy L s2 = Some (Ret (oserr err), s')"
    "f_mu s' = f_mu s2" "f_Sysfd s' = -1" "f_ctx s' = None" "f_csema s' = f_csema s2 + 1" "f_isBlocking s' = f_isBlocking s2"
    "np_reg (pr_np s') = (np_reg (pr_np s2))(pd := None)" "pr_first s' = pd # pr_first s2" "pr_ready s' = pr_ready s3"
    "closes (np_thr (pr_np s')) = closes (np_thr (pr_np s2)) @ [(''libc_close'', [W (f_Sysfd s2)])]"
    by (rule destroy_ok [OF k])
  have q: "f_csema s2 = f_csema s" "\<not> f_isBlocking s2" using c(10,11) assms(3) by (simp_all add: s2_def)
  define s4 where "s4 = s'\<lparr>f_csema := f_csema s\<rparr>"
  have run: "FD_Close E L s = Some (Ret (oserr err), s4)"
    using r(3,7,8) q unfolding c(1)
    by (simp add: fd_decref_def bindp_def mup_def d s2_def [symmetric] getp_def csema_acquire_def modp_def retp_def s4_def)
  show ?thesis using run r c by (intro exI [of _ err] exI [of _ "np_thr (pr_np s3)"] exI [of _ s4]) (simp add: s4_def s2_def)
qed

text \<open>C18: Closing a registered descriptor that others still use: every goroutine parked in the poller on it
  is made ready, everyone queued for its locks is released, new users are refused from then on, and
  \<open>Close\<close> itself makes no system call: it waits, and the descriptor stays registered and open for the last user
  to close.\<close>

theorem FD_Close_waits_for_users:
  assumes "fd_idle s pd" and "f_mu s = word_of a" and "fdst_ok a" and "\<not> a_closed a" and "0 < a_ref a" and "a_ref a < 2 ^ 20 - 1"
    and "\<not> f_isBlocking s" and "f_csema s = 0"
  shows "\<exists>s1. FD_Close E L s = Some (Ret None, (E YClosed s1)\<lparr>f_csema := f_csema (E YClosed s1) - 1\<rparr>)
    \<and> f_mu s1 = word_of (a\<lparr>a_closed := True, a_rwait := 0, a_wwait := 0\<rparr>) \<and> fd_closing s1
    \<and> f_rsema s1 = f_rsema s + a_rwait a \<and> f_wsema s1 = f_wsema s + a_wwait a
    \<and> np_thr (pr_np s1) = np_thr (pr_np s) \<and> f_Sysfd s1 = f_Sysfd s \<and> f_ctx s1 = Some pd
    \<and> np_reg (pr_np s1) = np_reg (pr_np s)
    \<and> (\<forall>g. pd_rg (pd_at s pd) = PdG g \<or> pd_wg (pd_at s pd) = PdG g \<longrightarrow> g \<in> set (pr_ready s1))"
proof -
  let ?b = "a\<lparr>a_closed := True, a_ref := Suc (a_ref a), a_rwait := 0, a_wwait := 0\<rparr>"
  obtain s1 e where c: "FD_Close E L s = bindp (fd_decref L) (\<lambda>err. bindp (getp f_isBlocking) (\<lambda>b.
        bindp (if \<not> b then csema_acquire E else retp ()) (\<lambda>_. retp err))) s1" "f_mu s1 = word_of ?b"
    "prt_ok s1" "np_reg (pr_np s1) = np_reg (pr_np s)" "np_reg (pr_np s1) pd = Some e" "pd_idle (pd_at s1 pd)" "pd_closing (pd_at s1 pd)"
    "f_ctx s1 = Some pd" "f_Sysfd s1 = f_Sysfd s" "f_csema s1 = f_csema s" "f_isBlocking s1 = f_isBlocking s"
    "f_rsema s1 = f_rsema s + a_rwait a" "f_wsema s1 = f_wsema s + a_wwait a" "pr_first s1 = pr_first s"
    "np_thr (pr_np s1) = np_thr (pr_np s)"
    "\<forall>g. pd_rg (pd_at s pd) = PdG g \<or> pd_wg (pd_at s pd) = PdG g \<longrightarrow> g \<in> set (pr_ready s1)"
    by (rule Close_prefix [OF assms(2,3,4,6,1), of E L])
  let ?c = "a\<lparr>a_closed := True, a_rwait := 0, a_wwait := 0\<rparr>"
  define w where "w = word_of ?c"
  have b: "fdst_ok ?b" "fdst_ok ?c" using assms(3,6) by (simp_all add: fdst_ok_def)
  then have d: "fdmu_decref (f_mu s1) = Ret (False, w)"
    using decref_word [OF b(1)] c(2) assms(5) by (simp add: fs_decref_def w_def)
  define s2 where "s2 = s1\<lparr>f_mu := w\<rparr>"
  have "FD_Close E L s = Some (Ret None, (E YClosed s2)\<lparr>f_csema := f_csema (E YClosed s2) - 1\<rparr>)"
    unfolding c(1) using c(10,11) assms(7,8)
    by (simp add: fd_decref_def bindp_def mup_def d s2_def getp_def csema_acquire_def modp_def retp_def Let_def)
  moreover have "fd_closing s2" using fdst_tests(4) [OF b(2)] by (simp add: fd_closing_def s2_def w_def)
  ultimately show ?thesis using c by (intro exI [of _ s2]) (simp add: s2_def w_def)
qed

text \<open>A registered descriptor, 7, with a lock word of its own.\<close>

definition fd_seven :: "u64 \<Rightarrow> unit fdrt" where
  "fd_seven m = \<lparr>pr_np = pr_np prt_one, pr_first = pr_first prt_one, pr_next = pr_next prt_one, pr_waiters = 0, pr_ready = [],
     pr_inited = True, f_mu = m, f_rsema = 0, f_wsema = 0, f_Sysfd = 7, f_ctx = Some 0, f_csema = 0, f_isBlocking = False,
     f_IsStream = True, f_ZeroReadIsEOF = True, f_isFile = False\<rparr>"

lemma prt_ok_cong:
  "pr_np s = pr_np s' \<Longrightarrow> pr_first s = pr_first s' \<Longrightarrow> pr_next s = pr_next s' \<Longrightarrow> prt_ok s = prt_ok s'"
  unfolding prt_ok_def reg_ok_def pd_at_def by simp

lemma fd_seven_idle: "fd_idle (fd_seven m) 0"
proof -
  have "prt_ok (fd_seven m)"
    using prt_one_ok prt_ok_cong [of "fd_seven m" prt_one] by (simp add: fd_seven_def)
  then show ?thesis
    using prt_one_reg by (simp add: fd_idle_def fd_seven_def) (simp add: pd_at_def prt_one_def pd_fresh_def)
qed

theorem FD_Close_closes_once_witness:
  "\<exists>err s'. FD_Close (\<lambda>y s. s) ready7 (fd_seven 0) = Some (Ret err, s') \<and> f_mu s' = 1 \<and> np_reg (pr_np s') = Map.empty
    \<and> pr_first s' = [0, 2, 1]"
proof -
  have "f_mu (fd_seven 0) = 0" "\<not> f_isBlocking (fd_seven 0)" by (simp_all add: fd_seven_def)
  from FD_Close_closes_once [OF fd_seven_idle this, of "\<lambda>y s. s" ready7] obtain err s' where
    r: "FD_Close (\<lambda>y s. s) ready7 (fd_seven 0) = Some (Ret (oserr err), s')" "f_mu s' = 1"
      "np_reg (pr_np s') = (np_reg (pr_np (fd_seven 0)))(0 := None)" "pr_first s' = 0 # pr_first (fd_seven 0)" by blast
  have "np_reg (pr_np s') = Map.empty" "pr_first s' = [0, 2, 1]"
    using r(3,4) prt_one_reg by (simp_all add: fd_seven_def) (simp add: prt_one_def)
  with r(1,2) show ?thesis by blast
qed

theorem FD_Close_waits_for_users_witness:
  "\<exists>s1. FD_Close (\<lambda>y s. s\<lparr>f_csema := 1\<rparr>) ready7
      (fd_seven (word_of \<lparr>a_closed = False, a_rlock = True, a_wlock = False, a_ref = 1, a_rwait = 2, a_wwait = 0\<rparr>))
      = Some (Ret None, s1\<lparr>f_csema := 0\<rparr>) \<and> f_rsema s1 = 2"
proof -
  let ?a = "\<lparr>a_closed = False, a_rlock = True, a_wlock = False, a_ref = 1, a_rwait = 2, a_wwait = 0\<rparr>"
  have "f_mu (fd_seven (word_of ?a)) = word_of ?a" "fdst_ok ?a" "\<not> a_closed ?a" "0 < a_ref ?a" "a_ref ?a < 2 ^ 20 - 1"
    "\<not> f_isBlocking (fd_seven (word_of ?a))" "f_csema (fd_seven (word_of ?a)) = 0" "f_rsema (fd_seven (word_of ?a)) = 0"
    by (simp_all add: fd_seven_def fdst_ok_def)
  with FD_Close_waits_for_users [OF fd_seven_idle, of "word_of ?a" ?a "\<lambda>y s. s\<lparr>f_csema := 1\<rparr>" ready7]
  show ?thesis by auto
qed

end
