(* ===== verification/Fd_Frame.thy ===== *)
theory Fd_Frame
  imports Fd_Closed
begin

text \<open>
  What a method of \<open>FD\<close> leaves alone while it runs. The first locale says what an invariant must be closed
  under for a wait in the poller to keep it, the second what it takes for system calls and semaphores as
  well; the methods' bodies then keep it, whatever their loops do. Used with the lock word as invariant this
  gives the balance of the locks, used with the \<open>ctx\<close> of the descriptor the contract of \<open>Read\<close>.
\<close>

named_theorems fd_keeps \<open>programs that keep an invariant\<close>

section \<open>Keeping an invariant\<close>

definition keepsp :: "('w fdrt \<Rightarrow> bool) \<Rightarrow> ('w, 'a) prog \<Rightarrow> bool" where
  "keepsp J m \<longleftrightarrow> triple J m (\<lambda>r. J)"

lemma keepspI: "(\<And>s r s'. J s \<Longrightarrow> m s = Some (r, s') \<Longrightarrow> J s') \<Longrightarrow> keepsp J m"
  by (simp add: keepsp_def triple_def)

lemma keepspD: "keepsp J m \<Longrightarrow> J s \<Longrightarrow> m s = Some (r, s') \<Longrightarrow> J s'"
  by (simp add: keepsp_def triple_def)

lemma keepsp_ret [fd_keeps]: "keepsp J (retp x)" and keepsp_panic [fd_keeps]: "keepsp J (panicp e)"
  and keepsp_get [fd_keeps]: "keepsp J (getp f)"
  by (auto intro!: keepspI simp: prog_defs)

lemma keepsp_bind [fd_keeps]: "keepsp J m \<Longrightarrow> (\<And>x. keepsp J (f x)) \<Longrightarrow> keepsp J (bindp m f)"
  unfolding keepsp_def by (rule triple_bind [of _ _ "\<lambda>x. J"]) (auto elim!: triple_weaken split: outcome.splits)

lemma keepsp_guard [fd_keeps]: "keepsp J m \<Longrightarrow> keepsp J k \<Longrightarrow> keepsp J (guardp m h k)"
  unfolding guardp_def by (intro keepsp_bind) (auto split: option.splits intro: keepsp_ret)

lemma keepsp_loop [fd_keeps]:
  assumes "\<And>x. keepsp J (b x)"
  shows "keepsp J (loopp n b x)"
proof -
  have "triple ((\<lambda>x. J) x) (loopp n b x) (\<lambda>r. J)"
  proof (rule triple_loop)
    show "triple J (b y) (\<lambda>r s. case r of Ret (Inl z) \<Rightarrow> J s | Ret (Inr v) \<Rightarrow> J s | Throw e \<Rightarrow> J s)" for y
      using assms [of y] unfolding keepsp_def by (rule triple_weaken) (auto split: outcome.splits sum.splits)
  qed
  then show ?thesis by (simp add: keepsp_def)
qed

lemma keepsp_if [fd_keeps]: "keepsp J a \<Longrightarrow> keepsp J b \<Longrightarrow> keepsp J (if c then a else b)"
  by simp

lemma keepsp_let [fd_keeps]: "keepsp J (f x) \<Longrightarrow> keepsp J (Let x f)"
  by (simp add: Let_def)

lemma keepsp_prod [fd_keeps]: "(\<And>a b. keepsp J (f a b)) \<Longrightarrow> keepsp J (case x of (a, b) \<Rightarrow> f a b)"
  by (cases x) simp

lemma keepsp_option [fd_keeps]: "keepsp J a \<Longrightarrow> (\<And>x. keepsp J (f x)) \<Longrightarrow> keepsp J (case v of None \<Rightarrow> a | Some x \<Rightarrow> f x)"
  by (cases v) simp_all

lemma keepsp_callp:
  assumes "\<And>s. J s \<Longrightarrow> J (snd (f s))"
  shows "keepsp J (callp f)"
proof (rule keepspI)
  fix s r s' assume "J s" "callp f s = Some (r, s')"
  then show "J s'" using assms [of s] by (simp add: callp_def)
qed

lemma keepsp_slicep [fd_keeps]: "(\<And>b. keepsp J (k b)) \<Longrightarrow> keepsp J (slicep i j p k)"
  by (simp add: slicep_def fd_keeps)

lemma keepsp_convertErr [fd_keeps]: "keepsp J (convertErr res f)"
  by (simp add: convertErr_def fd_keeps)

section \<open>Waiting in the poller\<close>

locale wait_frame =
  fixes J :: "'w fdrt \<Rightarrow> bool" and E :: "'w fenv" and L :: "'w libc"
  assumes env: "J s \<Longrightarrow> J (E y s)"
    and store: "J s \<Longrightarrow> J (pd_store pd d s)"
    and waiters: "J s \<Longrightarrow> J (s\<lparr>pr_waiters := w\<rparr>)"
    and arm: "J s \<Longrightarrow> J (s\<lparr>pr_np := snd (netpollarm L pd mode (pr_np s))\<rparr>)"
begin

lemma block: "J s \<Longrightarrow> J (snd (netpollblock E g pd mode waitio s))"
  by (auto simp: netpollblock_def Let_def split: prod.splits block_step.splits intro!: store env waiters)

lemma wait_loop: "J s \<Longrightarrow> pollWait_loop n E g pd mode s = Some (r, s') \<Longrightarrow> J s'"
proof (induction n arbitrary: s)
  case (Suc n)
  have b: "J (snd (netpollblock E g pd mode False s))" by (rule block [OF Suc.prems(1)])
  obtain o' s1 where k: "netpollblock E g pd mode False s = (o', s1)" by fastforce
  with b Suc show ?case by (auto split: outcome.splits bool.splits if_splits simp: Let_def)
qed simp

lemma pollWait: "J s \<Longrightarrow> poll_runtime_pollWait n E L g pd mode s = Some (r, s') \<Longrightarrow> J s'"
  using arm [of s pd mode] wait_loop
  by (auto simp: poll_runtime_pollWait_def Let_def split: if_splits prod.splits outcome.splits)

lemma keeps_wait [fd_keeps]: "keepsp J (fpd_wait n E g L mode f)"
  unfolding fpd_wait_def by (intro fd_keeps keepspI) (erule (1) pollWait)

lemma keeps_waitRead [fd_keeps]: "keepsp J (waitRead n E g L)" and keeps_waitWrite [fd_keeps]: "keepsp J (waitWrite n E g L)"
  unfolding waitRead_def waitWrite_def by (intro fd_keeps)+

lemma reset: "J s \<Longrightarrow> J (snd (rt_pollReset pd mode s))"
  by (auto simp: rt_pollReset_def split: prod.splits intro: store)

lemma keeps_prepare [fd_keeps]: "keepsp J (fpd_prepare mode f)"
proof -
  have "keepsp J (callp (\<lambda>s. let (res, s1) = rt_pollReset pd mode s in (Ret res, s1)))" for pd
    by (rule keepsp_callp) (simp add: case_prod_beta reset)
  then show ?thesis unfolding fpd_prepare_def by (intro fd_keeps)
qed

lemma keeps_prepares [fd_keeps]: "keepsp J prepareRead" "keepsp J prepareWrite"
  unfolding prepareRead_def prepareWrite_def by (intro fd_keeps)+

lemma keeps_eagain [fd_keeps]: "keepsp J w \<Longrightarrow> keepsp J (wait_eagain w err)"
  unfolding wait_eagain_def by (intro fd_keeps)

end

section \<open>Whole bodies\<close>

locale fd_frame = wait_frame J E L for J :: "'w fdrt \<Rightarrow> bool" and E L +
  assumes sys: "J s \<Longrightarrow> J (s\<lparr>pr_np := (pr_np s)\<lparr>np_thr := t\<rparr>\<rparr>)"
    and sema: "J s \<Longrightarrow> J (s\<lparr>f_rsema := k\<rparr>)" "J s \<Longrightarrow> J (s\<lparr>f_wsema := k\<rparr>)"
    and blocking: "J s \<Longrightarrow> J (s\<lparr>f_isBlocking := b\<rparr>)"
    and ready: "J s \<Longrightarrow> J (s\<lparr>pr_waiters := w, pr_ready := gs\<rparr>)"
begin

lemma keeps_sysp [fd_keeps]: "keepsp J (sysp f)"
  by (rule keepspI) (auto simp: sysp_def split: prod.splits intro: sys)

lemma keeps_onfd [fd_keeps]: "keepsp J (onfd f)" and keeps_onfd_err [fd_keeps]: "keepsp J (onfd_err h)"
  unfolding onfd_err_def onfd_def by (intro fd_keeps)+

lemma keeps_EINTR [fd_keeps]: "keepsp J fn \<Longrightarrow> keepsp J (ignoringEINTR n fn)"
  unfolding ignoringEINTR_def by (intro fd_keeps)

lemma keeps_EINTRIO [fd_keeps]: "(\<And>q. keepsp J (f q)) \<Longrightarrow> keepsp J (ignoringEINTRIO n f p)"
  unfolding ignoringEINTRIO_def by (intro fd_keeps)

lemma keeps_recv_loop [fd_keeps]: "(\<And>x. keepsp J (call x)) \<Longrightarrow> keepsp J (recv_loop n E g L z call x)"
  unfolding recv_loop_def by (intro fd_keeps)

lemma keeps_send_loop [fd_keeps]: "keepsp J call \<Longrightarrow> keepsp J (send_loop n E g L call)"
  unfolding send_loop_def by (intro fd_keeps)

lemma keeps_raw_loop [fd_keeps]: "keepsp J w \<Longrightarrow> (\<And>x. keepsp J (f x)) \<Longrightarrow> keepsp J (raw_loop n w f)"
  unfolding raw_loop_def by (intro fd_keeps)

lemma keeps_blocking [fd_keeps]: "keepsp J (modp (\<lambda>s. s\<lparr>f_isBlocking := b\<rparr>))"
  by (rule keepspI) (auto simp: modp_def intro: blocking)

lemma deadline: "J s \<Longrightarrow> J (rt_pollSetDeadline L pd d mode s)"
  unfolding rt_pollSetDeadline_def Let_def by (auto split: prod.splits intro!: ready store sys)

lemma keeps_deadline [fd_keeps]: "keepsp J (modp (rt_pollSetDeadline L pd d mode))"
  by (rule keepspI) (auto simp: modp_def intro: deadline)

end

section \<open>The rest of the program\<close>

text \<open>
  While a method holds a reference or a lock, other goroutines may change the lock word (their own references and
  waiting), but neither \<open>Sysfd\<close> nor \<open>ctx\<close>, and the flags of the descriptor never change. For statements about one method on its own \<open>alone E\<close> is any such
  behaviour \<open>E\<close> with the effect of other methods of the same descriptor taken out.
\<close>

definition alone :: "'w fenv \<Rightarrow> 'w fenv" where
  "alone E y s = (E y s)\<lparr>f_mu := f_mu s, f_ctx := f_ctx s, f_Sysfd := f_Sysfd s, f_IsStream := f_IsStream s,
     f_ZeroReadIsEOF := f_ZeroReadIsEOF s, f_isFile := f_isFile s\<rparr>"

lemma alone_fields [simp]: "f_mu (alone E y s) = f_mu s" "f_ctx (alone E y s) = f_ctx s" "f_Sysfd (alone E y s) = f_Sysfd s"
  "f_IsStream (alone E y s) = f_IsStream s" "f_ZeroReadIsEOF (alone E y s) = f_ZeroReadIsEOF s"
  by (simp_all add: alone_def)

lemma pd_store_more [simp]: "f_mu (pd_store pd d s) = f_mu s" "f_ctx (pd_store pd d s) = f_ctx s" "f_Sysfd (pd_store pd d s) = f_Sysfd s"
  "f_IsStream (pd_store pd d s) = f_IsStream s" "f_ZeroReadIsEOF (pd_store pd d s) = f_ZeroReadIsEOF s"
  by (simp_all add: pd_store_def)

interpretation mu: fd_frame "\<lambda>s. f_mu s = m" "alone E" L for m E L
  by unfold_locales simp_all

interpretation imm: fd_frame "\<lambda>s. f_ctx s = c \<and> f_ZeroReadIsEOF s = z" "alone E" L for c z E L
  by unfold_locales simp_all

section \<open>The balance of the locks\<close>

text \<open>A descriptor open, with both locks free and nobody queued; other methods may hold references.\<close>

definition fd_quiet :: "fdst \<Rightarrow> bool" where
  "fd_quiet a \<longleftrightarrow> fdst_ok a \<and> \<not> a_closed a \<and> \<not> a_rlock a \<and> \<not> a_wlock a \<and> a_rwait a = 0 \<and> a_wwait a = 0 \<and> a_ref a < 2 ^ 20 - 1"

definition word_locked :: "bool \<Rightarrow> fdst \<Rightarrow> u64" where
  "word_locked rd a = word_of (set_lock rd True (a\<lparr>a_ref := Suc (a_ref a)\<rparr>))"

definition word_ref :: "fdst \<Rightarrow> u64" where
  "word_ref a = word_of (a\<lparr>a_ref := Suc (a_ref a)\<rparr>)"

lemma lock_run:
  assumes "fd_quiet a" and "f_mu s = word_of a"
  shows "fd_lock (Suc n) E rd s = Some (Ret None, s\<lparr>f_mu := word_locked rd a\<rparr>)"
proof -
  have "fdst_ok a" "\<not> a_lock rd a" "\<not> a_closed a" "a_ref a \<noteq> 1048575"
    using assms(1) by (auto simp: fd_quiet_def a_lock_def)
  then have "fdmu_rwlock rd (f_mu s) = Ret (Some True, word_locked rd a)"
    using rwlock_word [of a rd] assms(2) by (simp add: fs_lock_def word_locked_def)
  then show ?thesis by (simp add: fd_lock_def fd_rwlock_def prog_defs mup_def)
qed

lemma unlock_run:
  assumes "fd_quiet a" and "f_mu s = word_locked rd a"
  shows "fd_unlock L rd s = Some (Ret (), s\<lparr>f_mu := word_of a\<rparr>)"
proof -
  let ?b = "set_lock rd True (a\<lparr>a_ref := Suc (a_ref a)\<rparr>)"
  have ok: "fdst_ok ?b" using assms(1) by (simp add: fd_quiet_def fdst_ok_def set_lock_def)
  have b: "a_lock rd ?b" "a_ref ?b = Suc (a_ref a)" "a_wait rd ?b = 0" "\<not> a_closed ?b"
    using assms(1) by (simp_all add: fd_quiet_def set_lock_def a_lock_def a_wait_def)
  have e: "set_wait rd 0 (set_lock rd False (?b\<lparr>a_ref := a_ref a\<rparr>)) = a"
    using assms(1) by (cases a; cases rd) (simp_all add: fd_quiet_def set_lock_def set_wait_def)
  have "fdmu_rwunlock rd (f_mu s) = Ret (False, False, word_of a)"
    using rwunlock_word [OF ok, of rd] assms(2) b e by (simp add: fs_unlock_def word_locked_def)
  then show ?thesis by (simp add: fd_unlock_def fd_rwunlock_def prog_defs mup_def)
qed

lemma incref_run:
  assumes "fd_quiet a" and "f_mu s = word_of a"
  shows "fd_incref s = Some (Ret None, s\<lparr>f_mu := word_ref a\<rparr>)"
proof -
  have "fdst_ok a" "\<not> a_closed a" "a_ref a \<noteq> 1048575" using assms(1) by (auto simp: fd_quiet_def)
  then have "fdmu_incref (f_mu s) = Ret (True, word_ref a)"
    using incref_word [of a] assms(2) by (simp add: fs_incref_def word_ref_def)
  then show ?thesis by (simp add: fd_incref_def prog_defs mup_def)
qed

lemma decref_run:
  assumes "fd_quiet a" and "f_mu s = word_ref a"
  shows "fd_decref L s = Some (Ret None, s\<lparr>f_mu := word_of a\<rparr>)"
proof -
  have "fdst_ok (a\<lparr>a_ref := Suc (a_ref a)\<rparr>)" "\<not> a_closed a" using assms(1) by (simp_all add: fd_quiet_def fdst_ok_def)
  then have "fdmu_decref (f_mu s) = Ret (False, word_of a)"
    using decref_word [of "a\<lparr>a_ref := Suc (a_ref a)\<rparr>"] assms(2) by (simp add: fs_decref_def word_ref_def)
  then show ?thesis by (simp add: fd_decref_def prog_defs mup_def)
qed

text \<open>A method whose body keeps the lock word runs as its body does, with the word restored at the end.\<close>

lemma with_lock_run:
  assumes "fd_quiet a" and "f_mu s = word_of a" and body: "keepsp (\<lambda>s. f_mu s = word_locked rd a) body"
    and run: "guardp (fd_lock (Suc n) E rd) h (deferp (fd_unlock L rd) body) s = Some (r, s')"
  obtains s1 where "body (s\<lparr>f_mu := word_locked rd a\<rparr>) = Some (r, s1)" "s' = s1\<lparr>f_mu := word_of a\<rparr>" "f_mu s1 = word_locked rd a"
proof -
  from run lock_run [OF assms(1,2), of n E rd]
  have d: "deferp (fd_unlock L rd) body (s\<lparr>f_mu := word_locked rd a\<rparr>) = Some (r, s')"
    by (simp add: guardp_def bindp_def)
  then obtain r1 s1 where b: "body (s\<lparr>f_mu := word_locked rd a\<rparr>) = Some (r1, s1)"
    by (auto simp: deferp_def split: option.splits prod.splits)
  have m: "f_mu s1 = word_locked rd a" by (rule keepspD [OF body _ b]) simp
  from d b unlock_run [OF assms(1) m, of L] have "r1 = r" "s' = s1\<lparr>f_mu := word_of a\<rparr>" by (simp_all add: deferp_def)
  with b m show ?thesis by (intro that) simp_all
qed

lemma with_ref_run:
  assumes "fd_quiet a" and "f_mu s = word_of a" and body: "keepsp (\<lambda>s. f_mu s = word_ref a) body"
    and run: "with_ref L h body s = Some (r, s')"
  obtains s1 where "body (s\<lparr>f_mu := word_ref a\<rparr>) = Some (r, s1)" "s' = s1\<lparr>f_mu := word_of a\<rparr>" "f_mu s1 = word_ref a"
proof -
  from run incref_run [OF assms(1,2)]
  have d: "deferp (decref_deferred L) body (s\<lparr>f_mu := word_ref a\<rparr>) = Some (r, s')"
    by (simp add: with_ref_def guardp_def bindp_def)
  then obtain r1 s1 where b: "body (s\<lparr>f_mu := word_ref a\<rparr>) = Some (r1, s1)"
    by (auto simp: deferp_def split: option.splits prod.splits)
  have m: "f_mu s1 = word_ref a" by (rule keepspD [OF body _ b]) simp
  from d b decref_run [OF assms(1) m, of L] have "r1 = r" "s' = s1\<lparr>f_mu := word_of a\<rparr>"
    by (simp_all add: deferp_def decref_deferred_def bindp_def retp_def)
  with b m show ?thesis by (intro that) simp_all
qed

definition restores_mu :: "('w, 'a) prog \<Rightarrow> bool" where
  "restores_mu m \<longleftrightarrow> (\<forall>a s r s'. fd_quiet a \<longrightarrow> f_mu s = word_of a \<longrightarrow> m s = Some (r, s') \<longrightarrow> f_mu s' = f_mu s)"

lemma lock_0: "fd_lock 0 E rd s = None"
  by (simp add: fd_lock_def fd_rwlock_def bindp_def)

lemma balanced_lock:
  assumes "\<And>m. keepsp (\<lambda>s. f_mu s = m) body"
  shows "restores_mu (with_read n E L h body)" "restores_mu (with_write n E L h body)"
proof -
  have "f_mu s' = f_mu s" if "fd_quiet a" "f_mu s = word_of a"
      "guardp (fd_lock n E rd) h (deferp (fd_unlock L rd) body) s = Some (r, s')" for a s r s' rd
  proof (cases n)
    case 0
    then show ?thesis using that(3) by (simp add: guardp_def bindp_def lock_0)
  next
    case (Suc k)
    show ?thesis by (rule with_lock_run [OF that(1,2) assms that(3) [unfolded Suc]]) (simp add: that(2))
  qed
  then show "restores_mu (with_read n E L h body)" "restores_mu (with_write n E L h body)"
    unfolding restores_mu_def with_read_def with_write_def readLock_def writeLock_def readUnlock_def writeUnlock_def by blast+
qed

lemma balanced_ref:
  assumes "\<And>m. keepsp (\<lambda>s. f_mu s = m) body"
  shows "restores_mu (with_ref L h body)"
  unfolding restores_mu_def
proof (intro allI impI)
  fix a s r s' assume h: "fd_quiet a" "f_mu s = word_of a" "with_ref L h body s = Some (r, s')"
  show "f_mu s' = f_mu s" by (rule with_ref_run [OF h(1,2) assms h(3)]) (simp add: h(2))
qed

lemma onfd_returns: "onfd f s = Some (r, s') \<Longrightarrow> \<exists>x. r = Ret x"
  by (auto simp: onfd_def bindp_def getp_def sysp_def split: prod.splits)

lemma EINTRIO_returns:
  assumes "\<And>q s r s'. f q s = Some (r, s') \<Longrightarrow> \<exists>x. r = Ret x"
  shows "ignoringEINTRIO n f p s = Some (r, s') \<Longrightarrow> \<exists>x. r = Ret x"
proof -
  have "triple ((\<lambda>q s. True) p) (ignoringEINTRIO n f p) (\<lambda>r s. \<exists>x. r = Ret x)"
    unfolding ignoringEINTRIO_def
  proof (rule triple_loop)
    fix q
    show "triple (\<lambda>s. True) (bindp (f q) (\<lambda>(k, err, q'). retp (if err \<noteq> Some EINTR then Inr (k, err, q') else Inl q')))
        (\<lambda>r s. case r of Ret (Inl y) \<Rightarrow> True | Ret (Inr v) \<Rightarrow> \<exists>x. Ret v = Ret x | Throw e \<Rightarrow> \<exists>x. Throw e = Ret x)"
    proof (rule triple_bind [where R = "\<lambda>x s. True"])
      show "triple (\<lambda>s. True) (f q) (\<lambda>r s. case r of Ret x \<Rightarrow> True | Throw e \<Rightarrow> case Throw e of
          Ret (Inl y) \<Rightarrow> True | Ret (Inr v) \<Rightarrow> \<exists>x. Ret v = Ret x | Throw e \<Rightarrow> \<exists>x. Throw e = Ret x)"
        using assms by (fastforce simp: triple_def)
    qed (auto intro!: triple_ret split: prod.splits)
  qed
  then show "ignoringEINTRIO n f p s = Some (r, s') \<Longrightarrow> \<exists>x. r = Ret x" by (simp add: triple_def) blast
qed

lemma balanced_Pread: "restores_mu (FD_Pread n L p off)"
  unfolding restores_mu_def
proof (intro allI impI)
  fix a s r s' assume h: "fd_quiet a" "f_mu s = word_of a" "FD_Pread n L p off s = Some (r, s')"
  define s0 where "s0 = s\<lparr>f_mu := word_ref a\<rparr>"
  define m where "m = (if f_IsStream s0 \<and> length p > maxRW then maxRW else length p)"
  define b where "b = ignoringEINTRIO n (\<lambda>b. onfd (\<lambda>fd. Pread L fd b off)) (take m p)"
  have k: "keepsp (\<lambda>s. f_mu s = word_ref a) b" unfolding b_def by (intro fd_keeps)
  define F where "F m = bindp (ignoringEINTRIO n (\<lambda>b. onfd (\<lambda>fd. Pread L fd b off)) (take m p)) (\<lambda>(k, err, q).
      let k' = (if err \<noteq> None then 0 else k)
      in bindp (fd_decref L) (\<lambda>_. bindp (getp f_ZeroReadIsEOF) (\<lambda>z. retp (k', eofError z k' (oserr err), q @ drop m p))))" for m
  have "FD_Pread n L p off = guardp fd_incref (\<lambda>e. (0, Some e, p))
      (bindp (getp f_IsStream) (\<lambda>st. F (if st \<and> length p > maxRW then maxRW else length p)))"
    unfolding FD_Pread_def F_def Let_def ..
  then have run: "FD_Pread n L p off s = F m s0"
    using incref_run [OF h(1,2)] by (simp add: guardp_def bindp_def getp_def s0_def [symmetric] m_def)
  have F: "F m = bindp b (\<lambda>(k, err, q). let k' = (if err \<noteq> None then 0 else k)
      in bindp (fd_decref L) (\<lambda>_. bindp (getp f_ZeroReadIsEOF) (\<lambda>z. retp (k', eofError z k' (oserr err), q @ drop m p))))"
    unfolding F_def b_def ..
  have "F m s0 = Some (r, s')" using run h(3) by simp
  then obtain o1 s1 where r: "b s0 = Some (o1, s1)" unfolding F by (auto simp: bindp_def split: option.splits)
  have "\<exists>x. o1 = Ret x" by (rule EINTRIO_returns [OF _ r [unfolded b_def]]) (erule onfd_returns)
  then obtain x1 x2 x3 where x: "o1 = Ret (x1, x2, x3)" by auto
  have m1: "f_mu s1 = word_ref a" by (rule keepspD [OF k _ r]) (simp add: s0_def)
  from \<open>F m s0 = Some (r, s')\<close> r x decref_run [OF h(1) m1, of L] have "s' = s1\<lparr>f_mu := word_of a\<rparr>"
    unfolding F by (auto simp: bindp_def getp_def retp_def Let_def)
  then show "f_mu s' = f_mu s" by (simp add: h(2))
qed

text \<open>Initialisation touches the lock word as little as the poller does.\<close>

lemma rt_init_more: "pollrt.more (poll_runtime_pollServerInit L s) = pollrt.more s"
  by (simp add: poll_runtime_pollServerInit_def netpollGenericInit_def)

lemma alloc_more: "pollrt.more (snd (pollcache_alloc blk s)) = pollrt.more s"
  by (simp add: pollcache_alloc_def Let_def)

lemma release_more: "pollrt.more (pollcache_release pd s) = pollrt.more s"
  by (simp add: pollcache_release_def pd_store_def Let_def)

lemma open_more: "pollrt.more (snd (poll_runtime_pollOpen blk L fd s)) = pollrt.more s"
proof -
  obtain pd s1 where a: "pollcache_alloc blk s = (pd, s1)" by fastforce
  have m: "pollrt.more s1 = pollrt.more s" using alloc_more [of blk s] a by simp
  show ?thesis
    by (auto simp: poll_runtime_pollOpen_def a Let_def release_more pd_store_def m split: outcome.split prod.split)
qed

lemma keeps_Init [fd_keeps]: "keepsp (\<lambda>s. f_mu s = m) (FD_Init blk L net pollable)"
proof -
  have c: "keepsp (\<lambda>s. f_mu s = m) (callp (\<lambda>s. poll_runtime_pollOpen blk L fd s))" for fd
    by (rule keepsp_callp) (metis open_more more_fields)
  have d: "keepsp (\<lambda>s. f_mu s = m) (modp (poll_runtime_pollServerInit L))"
    by (rule keepspI) (use more_fields [OF rt_init_more] in \<open>auto simp: modp_def\<close>)
  have e: "keepsp (\<lambda>s. f_mu s = m) (modp (\<lambda>s. if net = ''file'' then s\<lparr>f_isFile := True\<rparr> else s))"
    "keepsp (\<lambda>s. f_mu s = m) (modp (\<lambda>s. s\<lparr>f_isBlocking := True\<rparr>))" "keepsp (\<lambda>s. f_mu s = m) (modp (\<lambda>s. s\<lparr>f_ctx := c\<rparr>))" for c
    by (rule keepspI; auto simp: modp_def split: if_splits)+
  show ?thesis unfolding FD_Init_def fpd_init_def by (intro fd_keeps c d e)
qed

lemma balanced_keeps:
  assumes "\<And>m. keepsp (\<lambda>s. f_mu s = m) p"
  shows "restores_mu p"
  unfolding restores_mu_def using keepspD [OF assms] by blast

text \<open>C4: Every method of \<open>FD\<close> other than \<open>Close\<close> gives back what it took: on a descriptor that is open and not locked by others, and
  whatever else the program does meanwhile, it ends - with a result, an error or a panic -
  with the lock word exactly as it was, so no read lock, write lock or reference is leaked on any path. The functions of the user that
  \<open>RawControl\<close>, \<open>RawRead\<close> and \<open>RawWrite\<close> call under the lock or the reference are arbitrary programs that keep the lock word.\<close>

theorem locks_balanced:
  assumes "\<And>m x. keepsp (\<lambda>s. f_mu s = m) (f x)" and "\<And>m x. keepsp (\<lambda>s. f_mu s = m) (c x)"
  shows "restores_mu (FD_Read n (alone E) g L p) \<and> restores_mu (FD_Write n (alone E) g L p)
   \<and> restores_mu (FD_Pread n L p off) \<and> restores_mu (FD_Pwrite n L p off)
   \<and> restores_mu (FD_ReadFrom n (alone E) g L p) \<and> restores_mu (FD_ReadFromInet4 n (alone E) g L p sa4)
   \<and> restores_mu (FD_ReadFromInet6 n (alone E) g L p sa6) \<and> restores_mu (FD_ReadMsg n (alone E) g L p oob fl)
   \<and> restores_mu (FD_ReadMsgInet4 n (alone E) g L p oob fl sa4) \<and> restores_mu (FD_ReadMsgInet6 n (alone E) g L p oob fl sa6)
   \<and> restores_mu (FD_WriteTo n (alone E) g L p sa) \<and> restores_mu (FD_WriteToInet4 n (alone E) g L p sa4)
   \<and> restores_mu (FD_WriteToInet6 n (alone E) g L p sa6) \<and> restores_mu (FD_WriteMsg n (alone E) g L p oob sa)
   \<and> restores_mu (FD_WriteMsgInet4 n (alone E) g L p oob to4) \<and> restores_mu (FD_WriteMsgInet6 n (alone E) g L p oob to6)
   \<and> restores_mu (FD_Accept n (alone E) g L) \<and> restores_mu (FD_Writev n (alone E) g L v)
   \<and> restores_mu (FD_WriteOnce n (alone E) L p) \<and> restores_mu (FD_Seek L off wh) \<and> restores_mu (FD_ReadDirent n (alone E) g L p)
   \<and> restores_mu (FD_Fsync n L) \<and> restores_mu (FD_Fstat n L st) \<and> restores_mu (FD_Fstatat n L name st fl)
   \<and> restores_mu (FD_Fchmod n L md) \<and> restores_mu (FD_Fchown n L uid gid) \<and> restores_mu (FD_Ftruncate n L sz)
   \<and> restores_mu (FD_Shutdown L how) \<and> restores_mu (FD_Fchdir L) \<and> restores_mu (FD_Dup L)
   \<and> restores_mu (FD_SetDeadline L t) \<and> restores_mu (FD_SetReadDeadline L t) \<and> restores_mu (FD_SetWriteDeadline L t)
   \<and> restores_mu (FD_SetBlocking L) \<and> restores_mu (FD_SetsockoptInt L lv nm arg) \<and> restores_mu (FD_SetsockoptByte L lv nm byt)
   \<and> restores_mu (FD_SetsockoptInet4Addr L lv nm addr) \<and> restores_mu (FD_SetsockoptLinger L lv nm li)
   \<and> restores_mu (FD_SetsockoptIPMreq L lv nm mr) \<and> restores_mu (FD_SetsockoptIPv6Mreq L lv nm mr6)
   \<and> restores_mu (FD_GetsockoptInt L lv nm) \<and> restores_mu (FD_RawControl L c)
   \<and> restores_mu (FD_RawRead n (alone E) g L f) \<and> restores_mu (FD_RawWrite n (alone E) g L f)
   \<and> restores_mu (FD_WaitWrite n (alone E) g L) \<and> restores_mu (FD_Init blk L net pollable)"
  unfolding FD_Read_def Read_loop_def FD_Write_def Write_loop_def Write_body_def FD_Pwrite_def FD_ReadFrom_def FD_ReadFromInet4_def
    FD_ReadFromInet6_def FD_ReadMsg_def FD_ReadMsgInet4_def FD_ReadMsgInet6_def FD_WriteTo_def FD_WriteToInet4_def FD_WriteToInet6_def
    sendto_frame_def FD_WriteMsg_def FD_WriteMsgInet4_def FD_WriteMsgInet6_def sendmsg_frame_def FD_Accept_def Accept_loop_def
    FD_Writev_def Writev_loop_def FD_WriteOnce_def FD_Seek_def FD_ReadDirent_def FD_Fsync_def FD_Fstat_def FD_Fstatat_def FD_Fchmod_def
    FD_Fchown_def FD_Ftruncate_def FD_Shutdown_def FD_Fchdir_def FD_Dup_def FD_SetDeadline_def FD_SetReadDeadline_def
    FD_SetWriteDeadline_def setDeadlineImpl_def FD_SetBlocking_def FD_SetsockoptInt_def FD_SetsockoptByte_def
    FD_SetsockoptInet4Addr_def FD_SetsockoptLinger_def FD_SetsockoptIPMreq_def FD_SetsockoptIPv6Mreq_def FD_GetsockoptInt_def
    FD_RawControl_def FD_RawRead_def FD_RawWrite_def FD_WaitWrite_def Let_def
  by (intro conjI balanced_Pread balanced_lock balanced_ref fd_keeps assms | rule balanced_keeps)+

theorem locks_balanced_witness:
  "f_mu (snd (the (FD_RawRead 1 (alone (\<lambda>y s. s)) 0 ready7 (\<lambda>fd. retp True) (fd_plain () 0)))) = 0"
proof -
  let ?a = "\<lparr>a_closed = False, a_rlock = False, a_wlock = False, a_ref = 0, a_rwait = 0, a_wwait = 0\<rparr>"
  let ?m = "FD_RawRead 1 (alone (\<lambda>y s. s)) 0 ready7 (\<lambda>fd. retp True) :: (unit, goerror option) prog"
  have a: "fd_quiet ?a" "word_of ?a = 0" by (simp_all add: fd_quiet_def fdst_ok_def word_of_def enc_def)
  have u: "fd_unlock ready7 True s = Some (Ret (), s\<lparr>f_mu := 0\<rparr>)" if "f_mu s = word_locked True ?a" for s :: "unit fdrt"
    using unlock_run [OF a(1) that] a(2) by simp
  obtain r s' where r: "?m (fd_plain () 0) = Some (r, s')"
    using lock_run [OF a(1), of "fd_plain () 0" 0 "alone (\<lambda>y s. s)" True] a(2)
    by (simp add: FD_RawRead_def with_read_def readLock_def readUnlock_def guardp_def bindp_def deferp_def u prepareRead_def fpd_prepare_def
        raw_loop_def getp_def retp_def)
  have "restores_mu ?m"
    by (insert locks_balanced [where f = "\<lambda>fd. retp True" and c = "\<lambda>fd. retp ()" and n = 1 and E = "\<lambda>y s. s" and g = 0 and L = ready7])
      (simp add: fd_keeps)
  then have "f_mu s' = f_mu (fd_plain () 0 :: unit fdrt)"
    using a r unfolding restores_mu_def by (metis fd_plain_fields(1))
  then show ?thesis using r by simp
qed

section \<open>What Read returns\<close>

lemma keepsp_and: "keepsp J m \<Longrightarrow> (\<And>s x s'. J s \<Longrightarrow> m s = Some (Ret x, s') \<Longrightarrow> Q x) \<Longrightarrow>
    triple J m (\<lambda>r s. case r of Ret x \<Rightarrow> J s \<and> Q x | Throw e \<Rightarrow> True)"
  unfolding keepsp_def triple_def by (auto split: outcome.splits)

text \<open>Errors of the poller are never numbers.\<close>

definition poll_error :: "goerror option \<Rightarrow> bool" where
  "poll_error e \<longleftrightarrow> (\<forall>k. e \<noteq> Some (Errno k)) \<and> e \<noteq> Some EOF"

lemma convertErr_values: "convertErr res f s = Some (Ret e, s') \<Longrightarrow> poll_error e"
  by (auto simp: convertErr_def retp_def panicp_def poll_error_def errClosing_def split: if_splits)

lemma wait_values: "fpd_wait n E g L mode f s = Some (Ret e, s') \<Longrightarrow> poll_error e"
  by (auto simp: fpd_wait_def bindp_def getp_def retp_def poll_error_def split: option.splits outcome.splits prod.splits)
    (auto dest!: convertErr_values simp: poll_error_def)

lemma waitRead_values: "waitRead n E g L s = Some (Ret e, s') \<Longrightarrow> poll_error e"
  by (auto simp: waitRead_def bindp_def getp_def dest: wait_values)

lemma prepareRead_values: "prepareRead s = Some (Ret e, s') \<Longrightarrow> poll_error e"
  by (auto simp: prepareRead_def fpd_prepare_def bindp_def getp_def retp_def callp_def poll_error_def
      split: option.splits outcome.splits prod.splits) (auto dest!: convertErr_values simp: poll_error_def)

lemma lock_values: "fd_lock n E rd s = Some (Ret e, s') \<Longrightarrow> poll_error e"
  by (auto simp: fd_lock_def bindp_def getp_def retp_def poll_error_def errClosing_def split: option.splits outcome.splits prod.splits if_splits)

lemma EINTRIO_values:
  "triple (\<lambda>s. True) (ignoringEINTRIO n f p) (\<lambda>r s. case r of Ret (k, err, q) \<Rightarrow> err \<noteq> Some EINTR | Throw e \<Rightarrow> True)"
proof -
  have "triple ((\<lambda>q s. True) p) (ignoringEINTRIO n f p) (\<lambda>r s. case r of Ret (k, err, q) \<Rightarrow> err \<noteq> Some EINTR | Throw e \<Rightarrow> True)"
    unfolding ignoringEINTRIO_def
    by (rule triple_loop) (auto simp: triple_def bindp_def retp_def split: option.splits outcome.splits prod.splits if_splits)
  then show ?thesis by simp
qed

lemma eagain_values:
  assumes "wait_eagain w (oserr err) s = Some (Ret (Some e), s')" and "\<And>s x s'. w s = Some (Ret x, s') \<Longrightarrow> poll_error x"
    and "err \<noteq> Some EINTR" and "err \<noteq> None"
  shows "e \<noteq> None \<and> e \<noteq> Some (Errno EINTR) \<and> (f_ctx s \<noteq> None \<longrightarrow> e \<noteq> Some (Errno EAGAIN)) \<and> e \<noteq> Some EOF"
  using assms(1,3,4)
  by (auto simp: wait_eagain_def bindp_def getp_def retp_def split: if_splits option.splits outcome.splits prod.splits)
    (use assms(2) in \<open>fastforce simp: poll_error_def\<close>)+

definition read_answer :: "nat option \<Rightarrow> bool \<Rightarrow> bool \<Rightarrow> int \<Rightarrow> goerror option \<Rightarrow> bool" where
  "read_answer ctx zeroIsEOF nobuf k err \<longleftrightarrow>
     (err \<noteq> None \<longrightarrow> k = 0) \<and> err \<noteq> Some (Errno EINTR) \<and> (ctx \<noteq> None \<longrightarrow> err \<noteq> Some (Errno EAGAIN))
     \<and> (err = Some EOF \<longrightarrow> zeroIsEOF \<and> \<not> nobuf) \<and> (k = 0 \<and> err = None \<longrightarrow> nobuf \<or> \<not> zeroIsEOF)"

lemma bindp_Ret:
  "bindp m f s = Some (Ret v, s') \<Longrightarrow> \<exists>x s1. m s = Some (Ret x, s1) \<and> f x s1 = Some (Ret v, s')"
  by (auto simp: bindp_def split: option.splits outcome.splits prod.splits)

lemma guardp_Ret:
  "guardp m h k s = Some (Ret v, s') \<Longrightarrow>
     (\<exists>e. m s = Some (Ret (Some e), s') \<and> v = h e) \<or> (\<exists>s1. m s = Some (Ret None, s1) \<and> k s1 = Some (Ret v, s'))"
  by (auto simp: guardp_def bindp_def retp_def split: option.splits outcome.splits prod.splits)

lemma deferp_Ret: "deferp fin m s = Some (Ret v, s') \<Longrightarrow> \<exists>s1. m s = Some (Ret v, s1)"
  by (auto simp: deferp_def split: option.splits outcome.splits prod.splits)

lemma read_step:
  assumes J: "f_ctx s = c \<and> f_ZeroReadIsEOF s = z"
    and run: "bindp (ignoringEINTRIO n (\<lambda>b. onfd (\<lambda>fd. Read L fd b)) q) (\<lambda>(k, err, q').
         bindp (if err \<noteq> None then wait_eagain (waitRead n (alone E) g L) (oserr err) else retp (Some None)) (\<lambda>r.
         case r of None \<Rightarrow> retp (Inl q')
         | Some err' \<Rightarrow> (let k' = (if err \<noteq> None then 0 else k)
                        in bindp (getp f_ZeroReadIsEOF) (\<lambda>z. retp (Inr (k', eofError z k' err', q' @ t)))))) s = Some (r, s')"
  shows "case r of Ret (Inl q') \<Rightarrow> f_ctx s' = c \<and> f_ZeroReadIsEOF s' = z
    | Ret (Inr (k, err, q')) \<Rightarrow> read_answer c z False k err | Throw e \<Rightarrow> True"
proof (cases r)
  case (Ret v)
  let ?J = "\<lambda>s. f_ctx s = c \<and> f_ZeroReadIsEOF s = z"
  from bindp_Ret [OF run [unfolded Ret]] obtain k err q' s1 where 1: "ignoringEINTRIO n (\<lambda>b. onfd (\<lambda>fd. Read L fd b)) q s = Some (Ret (k, err, q'), s1)"
    and rest: "bindp (if err \<noteq> None then wait_eagain (waitRead n (alone E) g L) (oserr err) else retp (Some None)) (\<lambda>r.
         case r of None \<Rightarrow> retp (Inl q')
         | Some err' \<Rightarrow> (let k' = (if err \<noteq> None then 0 else k)
                        in bindp (getp f_ZeroReadIsEOF) (\<lambda>z. retp (Inr (k', eofError z k' err', q' @ t))))) s1 = Some (Ret v, s')"
    by auto
  have "keepsp ?J (ignoringEINTRIO n (\<lambda>b. onfd (\<lambda>fd. Read L fd b)) q)" by (intro fd_keeps)
  from keepspD [OF this J 1] have J1: "?J s1" .
  have e: "err \<noteq> Some EINTR" using tripleD [OF EINTRIO_values _ 1] by simp
  show ?thesis
  proof (cases err)
    case None
    with rest J1 show ?thesis by (auto simp: Ret bindp_def retp_def getp_def read_answer_def eofError_def)
  next
    case (Some x)
    from bindp_Ret [OF rest] obtain w s2 where w: "(if err \<noteq> None then wait_eagain (waitRead n (alone E) g L) (oserr err) else retp (Some None)) s1
        = Some (Ret w, s2)"
      and r2: "(case w of None \<Rightarrow> retp (Inl q')
         | Some err' \<Rightarrow> (let k' = (if err \<noteq> None then 0 else k)
                        in bindp (getp f_ZeroReadIsEOF) (\<lambda>z. retp (Inr (k', eofError z k' err', q' @ t))))) s2 = Some (Ret v, s')"
      by blast
    from w Some have 2: "wait_eagain (waitRead n (alone E) g L) (oserr err) s1 = Some (Ret w, s2)" by simp
    have "keepsp ?J (wait_eagain (waitRead n (alone E) g L) (oserr err))" by (intro fd_keeps)
    from keepspD [OF this J1 2] have J2: "?J s2" .
    show ?thesis
    proof (cases w)
      case None
      with r2 J2 show ?thesis by (auto simp: Ret retp_def)
    next
      case (Some e')
      have "e' \<noteq> None \<and> e' \<noteq> Some (Errno EINTR) \<and> (f_ctx s1 \<noteq> None \<longrightarrow> e' \<noteq> Some (Errno EAGAIN)) \<and> e' \<noteq> Some EOF"
        by (rule eagain_values [OF 2 [unfolded Some]]) (use waitRead_values e \<open>err = Some x\<close> in auto)
      with r2 J1 Some \<open>err = Some x\<close> show ?thesis by (auto simp: Ret bindp_def retp_def getp_def read_answer_def eofError_def Let_def)
    qed
  qed
qed simp

lemma mup_keeps: "keepsp (\<lambda>s. f_ctx s = c \<and> f_ZeroReadIsEOF s = z) (mup f)"
  by (rule keepspI) (auto simp: mup_def split: outcome.splits)

lemma sem_acquire_keeps: "keepsp (\<lambda>s. f_ctx s = c \<and> f_ZeroReadIsEOF s = z) (sem_acquire rd (alone E))"
  by (rule keepspI) (auto simp: sem_acquire_def modp_def Let_def split: if_splits)

lemma lock_keeps: "keepsp (\<lambda>s. f_ctx s = c \<and> f_ZeroReadIsEOF s = z) (fd_lock n (alone E) rd)"
  unfolding fd_lock_def fd_rwlock_def by (intro fd_keeps mup_keeps sem_acquire_keeps)

lemma Read_loop_answers:
  fixes c z
  defines "J \<equiv> \<lambda>s. f_ctx s = c \<and> f_ZeroReadIsEOF s = z"
    and "A \<equiv> \<lambda>(r :: (int \<times> goerror option \<times> gostring) outcome) (s' :: 'w fdrt).
      case r of Ret (k, err, q) \<Rightarrow> read_answer c z False k err | Throw e \<Rightarrow> True"
  shows "triple J (Read_loop n (alone E) g L p b) A"
proof -
  define m where "m = (if b \<and> length p > maxRW then maxRW else length p)"
  have "triple ((\<lambda>q. J) (take m p)) (Read_loop n (alone E) g L p b) A"
    unfolding Read_loop_def m_def [symmetric] Let_def [of m]
  proof (rule triple_loop, unfold triple_def, intro allI impI)
    fix q s0 r s1
    assume "J s0" and run: "bindp (ignoringEINTRIO n (\<lambda>b. onfd (\<lambda>fd. Read L fd b)) q) (\<lambda>(k, err, q').
       bindp (if err \<noteq> None then wait_eagain (waitRead n (alone E) g L) (oserr err) else retp (Some None)) (\<lambda>r.
       case r of None \<Rightarrow> retp (Inl q')
       | Some err' \<Rightarrow> (let k' = (if err \<noteq> None then 0 else k)
            in bindp (getp f_ZeroReadIsEOF) (\<lambda>z. retp (Inr (k', eofError z k' err', q' @ drop m p)))))) s0 = Some (r, s1)"
    from read_step [OF this [unfolded J_def]]
    show "case r of Ret (Inl q') \<Rightarrow> J s1 | Ret (Inr v) \<Rightarrow> A (Ret v) s1 | Throw e \<Rightarrow> A (Throw e) s1"
      by (auto simp: J_def A_def split: outcome.splits sum.splits)
  qed
  then show ?thesis by simp
qed

lemma poll_error_answer: "poll_error e \<Longrightarrow> e \<noteq> None \<Longrightarrow> read_answer c z nobuf 0 e"
  by (auto simp: poll_error_def read_answer_def)

text \<open>\<open>Read\<close> once it has the lock.\<close>

lemma Read_locked_answers:
  assumes J: "f_ctx s = c \<and> f_ZeroReadIsEOF s = z" and p: "p \<noteq> []"
    and run: "guardp prepareRead (\<lambda>e. (0, Some e, p)) (bindp (getp f_IsStream) (Read_loop n (alone E) g L p)) s = Some (Ret (k, err, q), s')"
  shows "read_answer c z False k err"
  using guardp_Ret [OF run]
proof (elim disjE exE conjE)
  fix e assume "prepareRead s = Some (Ret (Some e), s')" "(k, err, q) = (0, Some e, p)"
  with prepareRead_values [OF this(1)] show ?thesis by (auto intro: poll_error_answer)
next
  fix s1 assume pr: "prepareRead s = Some (Ret None, s1)"
    and "bindp (getp f_IsStream) (Read_loop n (alone E) g L p) s1 = Some (Ret (k, err, q), s')"
  then have "Read_loop n (alone E) g L p (f_IsStream s1) s1 = Some (Ret (k, err, q), s')" by (simp add: bindp_def getp_def)
  from tripleD [OF Read_loop_answers keepspD [OF imm.keeps_prepares(1) J pr] this] show ?thesis by simp
qed

text \<open>C20: The answer of \<open>Read\<close>, whatever the C library and the rest of the program do: an error comes with a count
  of 0; \<open>EINTR\<close> never reaches the caller, nor does \<open>EAGAIN\<close> on a descriptor the poller watches; end of file is
  reported exactly for an empty read into a non-empty buffer where that is what it means; so a caller that sees 0
  bytes and no error asked for none or has a descriptor for which an empty message is a message.\<close>

theorem Read_answers:
  assumes "FD_Read n (alone E) g L p s = Some (Ret (k, err, q), s')"
  shows "read_answer (f_ctx s) (f_ZeroReadIsEOF s) (p = []) k err"
proof -
  from assms have "guardp (fd_lock n (alone E) True) (\<lambda>e. (0, Some e, p)) (deferp (readUnlock L)
      (if length p = 0 then retp (0, None, p)
       else guardp prepareRead (\<lambda>e. (0, Some e, p)) (bindp (getp f_IsStream) (Read_loop n (alone E) g L p)))) s
      = Some (Ret (k, err, q), s')"
    by (simp add: FD_Read_def with_read_def readLock_def)
  from guardp_Ret [OF this] show ?thesis
  proof (elim disjE exE conjE)
    fix e assume "fd_lock n (alone E) True s = Some (Ret (Some e), s')" "(k, err, q) = (0, Some e, p)"
    with lock_values [OF this(1)] show ?thesis by (auto intro: poll_error_answer)
  next
    fix s1 assume l: "fd_lock n (alone E) True s = Some (Ret None, s1)"
      and "deferp (readUnlock L) (if length p = 0 then retp (0, None, p)
       else guardp prepareRead (\<lambda>e. (0, Some e, p)) (bindp (getp f_IsStream) (Read_loop n (alone E) g L p))) s1 = Some (Ret (k, err, q), s')"
    from deferp_Ret [OF this(2)] obtain s2 where b: "(if length p = 0 then retp (0, None, p)
       else guardp prepareRead (\<lambda>e. (0, Some e, p)) (bindp (getp f_IsStream) (Read_loop n (alone E) g L p))) s1
       = Some (Ret (k, err, q), s2)" by blast
    have J: "f_ctx s1 = f_ctx s \<and> f_ZeroReadIsEOF s1 = f_ZeroReadIsEOF s" by (rule keepspD [OF lock_keeps _ l]) simp
    show ?thesis
    proof (cases "p = []")
      case True
      with b show ?thesis by (auto simp: retp_def read_answer_def)
    next
      case False
      with b Read_locked_answers [OF J False] show ?thesis by auto
    qed
  qed
qed

text \<open>A C library whose calls return 0, on a descriptor outside the poller: end of file.\<close>

lemma plain_read:
  "Read_loop (Suc n) E g (\<lambda>fn as e w. (0, 0, 0, as, w)) [1, 2] True (fd_plain (0 :: nat) m)
    = Some (Ret (0, Some EOF, [1, 2]), (fd_plain (0 :: nat) m)\<lparr>pr_np := (pr_np (fd_plain (0 :: nat) m))\<lparr>np_thr :=
        snd (Read (\<lambda>fn as e w. (0, 0, 0, as, w)) 5 [1, 2] (thr_of (0 :: nat)))\<rparr>\<rparr>)"
proof -
  let ?L = "\<lambda>fn as e w. (0, 0, 0, as, w)"
  have "fst (Read ?L 5 [1, 2] (thr_of (0 :: nat))) = (0, None, [1, 2])"
    by (simp add: Read_def sys_read_def int_err_def libcall_defs case_prod_beta Let_def thr_of_def has_errno_def
        bufptr_def argat_def out_buf_def toint_def goerr_def)
  then obtain t where t: "Read ?L 5 [1, 2] (thr_of (0 :: nat)) = ((0, None, [1, 2]), t)" by (metis prod.collapse)
  show ?thesis
    by (simp add: Read_loop_def maxRW_def ignoringEINTRIO_def onfd_def bindp_def getp_def sysp_def retp_def t eofError_def Let_def)
qed

theorem Read_answers_witness:
  "\<exists>err q s'. FD_Read 1 (alone (\<lambda>y s. s)) 0 (\<lambda>fn as e w. (0, 0, 0, as, w)) [1, 2] (fd_plain (0 :: nat) 0) = Some (Ret (0, err, q), s')
    \<and> err = Some EOF \<and> read_answer None True False 0 err"
proof -
  let ?a = "\<lparr>a_closed = False, a_rlock = False, a_wlock = False, a_ref = 0, a_rwait = 0, a_wwait = 0\<rparr>"
  let ?E = "alone (\<lambda>y s. s)" and ?L = "\<lambda>fn as e w. (0, 0, 0, as, w)"
  have a: "fd_quiet ?a" "word_of ?a = 0" by (simp_all add: fd_quiet_def fdst_ok_def word_of_def enc_def)
  define s1 where "s1 = fd_plain (0 :: nat) (word_locked True ?a)"
  define s2 where "s2 = s1\<lparr>pr_np := (pr_np s1)\<lparr>np_thr := snd (Read ?L 5 [1, 2] (thr_of (0 :: nat)))\<rparr>\<rparr>"
  have 1: "fd_lock (Suc 0) ?E True (fd_plain (0 :: nat) 0) = Some (Ret None, s1)"
    using lock_run [OF a(1), of "fd_plain (0 :: nat) 0" 0 ?E True] a(2) by (simp add: s1_def fd_plain_def)
  have 2: "prepareRead s1 = Some (Ret None, s1)"
    by (simp add: prepareRead_def fpd_prepare_def bindp_def getp_def retp_def s1_def)
  have "Read_loop (Suc 0) ?E 0 ?L [1, 2] True s1 = Some (Ret (0, Some EOF, [1, 2]), s2)"
    using plain_read [of 0 ?E 0] by (simp add: s1_def s2_def)
  with 2 have 3: "guardp prepareRead (\<lambda>e. (0, Some e, [1, 2])) (bindp (getp f_IsStream) (Read_loop (Suc 0) ?E 0 ?L [1, 2])) s1
      = Some (Ret (0, Some EOF, [1, 2]), s2)"
    by (simp add: guardp_def bindp_def getp_def) (simp add: s1_def)
  have 4: "fd_unlock ?L True s2 = Some (Ret (), s2\<lparr>f_mu := word_of ?a\<rparr>)"
    by (rule unlock_run [OF a(1)]) (simp add: s2_def s1_def)
  have r: "FD_Read 1 ?E 0 ?L [1, 2] (fd_plain (0 :: nat) 0) = Some (Ret (0, Some EOF, [1, 2]), s2\<lparr>f_mu := word_of ?a\<rparr>)"
    using 1 3 4 by (simp add: FD_Read_def with_read_def readLock_def readUnlock_def guardp_def [of "fd_lock n e r" for n e r] bindp_def [of "fd_lock n e r" for n e r] deferp_def)
  from Read_answers [OF r] r show ?thesis by simp
qed

end
