(* ===== verification/Fd_Stream.thy ===== *)
theory Fd_Stream
  imports Fd_Frame
begin

text \<open>
  What \<open>Write\<close> and \<open>Writev\<close> deliver. The C library is described by an observer \<open>out\<close> of its world: the bytes
  the descriptor has accepted so far. A successful \<open>write\<close> (\<open>writev\<close>) accepts a prefix of what it is given and
  returns its length, a failing one accepts nothing, and a write to another descriptor is not observed.
\<close>

section \<open>The library and the rest of the program\<close>

definition stream_libc :: "'w libc \<Rightarrow> ('w \<Rightarrow> gostring) \<Rightarrow> int \<Rightarrow> bool" where
  "stream_libc L out fd \<longleftrightarrow>
     (\<forall>p w. (let r = L ''libc_write'' [W fd, bufptr p, W (int (length p))] 0 w
        in (c_errno r = 0 \<and> 0 \<le> toint (c_ret r) \<and> toint (c_ret r) \<le> int (length p)
              \<and> out (c_world r) = out w @ take (nat (toint (c_ret r))) p)
         \<or> (c_errno r \<noteq> 0 \<and> toint (c_ret r) = -1 \<and> out (c_world r) = out w)))
     \<and> (\<forall>x rest e w. x \<noteq> W fd \<longrightarrow> out (c_world (L ''libc_write'' (x # rest) e w)) = out w)"

definition others_quiet :: "('w \<Rightarrow> 'a) \<Rightarrow> 'w fenv \<Rightarrow> bool" where
  "others_quiet out E \<longleftrightarrow> (\<forall>y s. out (t_world (np_thr (pr_np (E y s)))) = out (t_world (np_thr (pr_np s)))
     \<and> has_errno (np_thr (pr_np (E y s))) = has_errno (np_thr (pr_np s)) \<and> np_wrwake (pr_np (E y s)) = np_wrwake (pr_np s))"

text \<open>The state of a writer that has got \<open>X\<close> out: its thread has an \<open>errno\<close>, and its descriptor is not the poller's own.\<close>

definition wrote :: "('w \<Rightarrow> gostring) \<Rightarrow> int \<Rightarrow> gostring \<Rightarrow> 'w fdrt \<Rightarrow> bool" where
  "wrote out fd X s \<longleftrightarrow> out (t_world (np_thr (pr_np s))) = X \<and> has_errno (np_thr (pr_np s)) \<and> f_Sysfd s = fd
     \<and> AWord (uptr (np_wrwake (pr_np s))) \<noteq> W fd"

section \<open>Waiting writes nothing\<close>

lemma write1_effect:
  "t_world (snd (write1 L fd p n t)) = c_world (L ''libc_write'' [AWord fd, ABuf p, U n] (if has_errno t then 0 else t_errno t) (t_world t))
   \<and> has_errno (snd (write1 L fd p n t)) = has_errno t"
  by (simp add: write1_def sysvicall3_def sysvicall3Err_def libcall_defs case_prod_beta Let_def has_errno_def)

lemma enter_out:
  assumes "stream_libc L out fd" and "AWord (uptr (np_wrwake np)) \<noteq> W fd"
  shows "out (t_world (np_thr (netpoll_enter L np))) = out (t_world (np_thr np)) \<and> has_errno (np_thr (netpoll_enter L np)) = has_errno (np_thr np)
    \<and> np_wrwake (netpoll_enter L np) = np_wrwake np"
  using assms write1_effect [of L "uptr (np_wrwake np)" "[0]" 1 "np_thr np"]
  by (simp add: netpoll_enter_def netpollwakeup_def wake_byte_def lock_mtxpoll_def unlock_mtxpoll_def lock_mtxset_def stream_libc_def)

lemma arm_out:
  assumes "stream_libc L out fd" and "AWord (uptr (np_wrwake np)) \<noteq> W fd"
  shows "out (t_world (np_thr (snd (netpollarm L pd mode np)))) = out (t_world (np_thr np))
    \<and> has_errno (np_thr (snd (netpollarm L pd mode np))) = has_errno (np_thr np) \<and> np_wrwake (snd (netpollarm L pd mode np)) = np_wrwake np"
  using enter_out [OF assms] by (simp add: netpollarm_def Let_def unlock_mtxset_def)

lemma wrote_waits:
  assumes "stream_libc L out fd" and "others_quiet out E"
  shows "wait_frame (wrote out fd X) (alone E) L"
proof
  fix s y assume J: "wrote out fd X s"
  have "pr_np (alone E y s) = pr_np (E y s)" by (simp add: alone_def)
  then show "wrote out fd X (alone E y s)" using J assms(2) by (simp add: wrote_def others_quiet_def)
  show "wrote out fd X (pd_store pd d s)" for pd d using J by (simp add: wrote_def pd_store_def)
  show "wrote out fd X (s\<lparr>pr_waiters := w\<rparr>)" for w using J by (simp add: wrote_def)
  show "wrote out fd X (s\<lparr>pr_np := snd (netpollarm L pd mode (pr_np s))\<rparr>)" for pd mode
    using J arm_out [OF assms(1), of "pr_np s" pd mode] by (simp add: wrote_def)
qed

section \<open>One write\<close>

lemma sys_write_step:
  assumes "stream_libc L out fd" and "has_errno t" and "Write L fd p t = ((k, err), t')"
  shows "has_errno t' \<and> (err = None \<and> 0 \<le> k \<and> k \<le> int (length p) \<and> out (t_world t') = out (t_world t) @ take (nat k) p
    \<or> err \<noteq> None \<and> k = -1 \<and> out (t_world t') = out (t_world t))"
proof -
  define r where "r = L ''libc_write'' [W fd, bufptr p, W (int (length p))] 0 (t_world t)"
  have "k = toint (c_ret r)" "err = goerr (c_errno r)" "t_world t' = c_world r" "has_errno t'"
    using assms(2,3) unfolding r_def
    by (auto simp: Write_def sys_write_def int_err_def libcall_defs case_prod_beta Let_def has_errno_def)
  moreover have "goerr (c_errno r) = None \<longleftrightarrow> c_errno r = 0" by (simp add: goerr_def)
  ultimately show ?thesis using assms(1) unfolding stream_libc_def Let_def r_def by metis
qed

lemma write_call:
  assumes "stream_libc L out fd" and "wrote out fd X s"
    and "bindp (onfd (\<lambda>fd. Write L fd b)) (\<lambda>(k, err). retp (k, err, ())) s = Some (r, s')"
  obtains k err where "r = Ret (k, err, ())"
    "err = None \<and> 0 \<le> k \<and> k \<le> int (length b) \<and> wrote out fd (X @ take (nat k) b) s' \<or> err \<noteq> None \<and> k = -1 \<and> wrote out fd X s'"
proof -
  obtain k err t where w: "Write L fd b (np_thr (pr_np s)) = ((k, err), t)" by (metis prod.collapse)
  have "f_Sysfd s = fd" "has_errno (np_thr (pr_np s))" using assms(2) by (simp_all add: wrote_def)
  with sys_write_step [OF assms(1) _ w] assms(2,3) w that [of k err] show ?thesis
    by (auto simp: onfd_def bindp_def getp_def sysp_def retp_def wrote_def)
qed

lemma write_EINTR:
  assumes "stream_libc L out fd"
  shows "triple (wrote out fd X) (ignoringEINTRIO n (\<lambda>_. bindp (onfd (\<lambda>fd. Write L fd b)) (\<lambda>(k, err). retp (k, err, ()))) ())
    (\<lambda>r s. case r of Ret (k, err, u) \<Rightarrow> (err = None \<and> 0 \<le> k \<and> k \<le> int (length b) \<and> wrote out fd (X @ take (nat k) b) s
       \<or> err \<noteq> None \<and> k = -1 \<and> wrote out fd X s) | Throw e \<Rightarrow> True)" (is "triple _ _ ?Q")
proof -
  have "triple ((\<lambda>u. wrote out fd X) ()) (ignoringEINTRIO n (\<lambda>_. bindp (onfd (\<lambda>fd. Write L fd b)) (\<lambda>(k, err). retp (k, err, ()))) ()) ?Q"
    unfolding ignoringEINTRIO_def
  proof (rule triple_loop)
    fix u :: unit
    show "triple (wrote out fd X) (bindp (bindp (onfd (\<lambda>fd. Write L fd b)) (\<lambda>(k, err). retp (k, err, ())))
          (\<lambda>(k, err, q'). retp (if err \<noteq> Some EINTR then Inr (k, err, q') else Inl q')))
        (\<lambda>r s. case r of Ret (Inl y) \<Rightarrow> wrote out fd X s | Ret (Inr v) \<Rightarrow> ?Q (Ret v) s | Throw e \<Rightarrow> ?Q (Throw e) s)"
    proof (rule triple_bind [where R = "\<lambda>v s. ?Q (Ret v) s"])
      show "triple (wrote out fd X) (bindp (onfd (\<lambda>fd. Write L fd b)) (\<lambda>(k, err). retp (k, err, ())))
          (\<lambda>r s. case r of Ret x \<Rightarrow> ?Q (Ret x) s | Throw e \<Rightarrow> (case Throw e of Ret (Inl y) \<Rightarrow> wrote out fd X s
              | Ret (Inr v) \<Rightarrow> ?Q (Ret v) s | Throw e \<Rightarrow> ?Q (Throw e) s))"
        unfolding triple_def by (intro allI impI) (erule write_call [OF assms], assumption, auto)
      show "triple (\<lambda>s. ?Q (Ret x) s) (case x of (k, err, q') \<Rightarrow> retp (if err \<noteq> Some EINTR then Inr (k, err, q') else Inl q'))
          (\<lambda>r s. case r of Ret (Inl y) \<Rightarrow> wrote out fd X s | Ret (Inr v) \<Rightarrow> ?Q (Ret v) s | Throw e \<Rightarrow> ?Q (Throw e) s)" for x
        by (cases x) (auto intro!: triple_ret)
    qed
  qed
  then show ?thesis by simp
qed

section \<open>The loop of Write\<close>

definition written :: "('w \<Rightarrow> gostring) \<Rightarrow> int \<Rightarrow> gostring \<Rightarrow> gostring \<Rightarrow> int \<Rightarrow> 'w fdrt \<Rightarrow> bool" where
  "written out fd X p nn s \<longleftrightarrow> 0 \<le> nn \<and> nn \<le> int (length p) \<and> wrote out fd (X @ take (nat nn) p) s"

lemma chunk_end_bounds: "0 \<le> nn \<Longrightarrow> nn \<le> int (length p) \<Longrightarrow> nn \<le> chunk_end st nn p \<and> chunk_end st nn p \<le> int (length p)"
  by (simp add: chunk_end_def)

lemma take_slice:
  assumes "0 \<le> i" "i \<le> j" "j \<le> int (length p)" "0 \<le> k" "k \<le> int (length (slice (nat i) (nat j) p))"
  shows "take (nat i) p @ take (nat k) (slice (nat i) (nat j) p) = take (nat (i + k)) p" and "k \<le> j - i"
proof -
  have l: "length (slice (nat i) (nat j) p) = nat j - nat i" using assms(3) by (simp add: slice_def)
  then show "k \<le> j - i" using assms by linarith
  then have "nat k \<le> nat (j - i)" by (rule nat_mono)
  then have "nat k \<le> nat j - nat i" using assms by (simp add: nat_diff_distrib)
  then have "take (nat k) (slice (nat i) (nat j) p) = take (nat k) (drop (nat i) p)"
    by (simp add: slice_def min_absorb1)
  moreover have "nat (i + k) = nat i + nat k" using assms by (simp add: nat_add_distrib)
  ultimately show "take (nat i) p @ take (nat k) (slice (nat i) (nat j) p) = take (nat (i + k)) p"
    by (simp add: take_add)
qed

lemma Write_step:
  assumes lib: "stream_libc L out fd" and E: "others_quiet out E"
  shows "triple (written out fd X p nn) (Write_body n (alone E) g L p nn)
    (\<lambda>r s. case r of Ret (Inl y) \<Rightarrow> written out fd X p y s
       | Ret (Inr (y, err)) \<Rightarrow> written out fd X p y s \<and> (err = None \<longrightarrow> y = int (length p)) | Throw e \<Rightarrow> True)"
    (is "triple _ _ ?Q")
  unfolding triple_def
proof (intro allI impI)
  fix s r s'
  assume W: "written out fd X p nn s" and run: "Write_body n (alone E) g L p nn s = Some (r, s')"
  show "?Q r s'"
  proof (cases r)
    case (Ret v)
    define mx where "mx = chunk_end (f_IsStream s) nn p"
    define b where "b = slice (nat nn) (nat mx) p"
    have nn: "0 \<le> nn" "nn \<le> mx" "mx \<le> int (length p)" using W chunk_end_bounds [of nn p "f_IsStream s"]
      by (auto simp: written_def mx_def)
    have "bindp (ignoringEINTRIO n (\<lambda>_. bindp (onfd (\<lambda>fd. Write L fd b)) (\<lambda>(k, err). retp (k, err, ()))) ()) (\<lambda>(k, err, _).
           if k > 0 \<and> k > mx - nn then panicp ''invalid return from write''
           else (let nn' = (if k > 0 then nn + k else nn)
                 in if nn' = int (length p) then retp (Inr (nn', oserr err))
                    else bindp (wait_eagain (waitWrite n (alone E) g L) (oserr err)) (\<lambda>r.
                         case r of None \<Rightarrow> retp (Inl nn')
                         | Some (Some e) \<Rightarrow> retp (Inr (nn', Some e))
                         | Some None \<Rightarrow> if k = 0 then retp (Inr (nn', Some ErrUnexpectedEOF)) else retp (Inl nn')))) s = Some (Ret v, s')"
      using run nn Ret by (simp add: Write_body_def bindp_def [of "getp f_IsStream"] getp_def mx_def [symmetric] slicep_def b_def Let_def)
    from bindp_Ret [OF this] obtain k err u s1 where
      1: "ignoringEINTRIO n (\<lambda>_. bindp (onfd (\<lambda>fd. Write L fd b)) (\<lambda>(k, err). retp (k, err, ()))) () s = Some (Ret (k, err, u), s1)"
      and 2: "(if k > 0 \<and> k > mx - nn then panicp ''invalid return from write''
           else (let nn' = (if k > 0 then nn + k else nn)
                 in if nn' = int (length p) then retp (Inr (nn', oserr err))
                    else bindp (wait_eagain (waitWrite n (alone E) g L) (oserr err)) (\<lambda>r.
                         case r of None \<Rightarrow> retp (Inl nn')
                         | Some (Some e) \<Rightarrow> retp (Inr (nn', Some e))
                         | Some None \<Rightarrow> if k = 0 then retp (Inr (nn', Some ErrUnexpectedEOF)) else retp (Inl nn')))) s1 = Some (Ret v, s')"
      by auto
    define nn' where "nn' = (if k > 0 then nn + k else nn)"
    have "wrote out fd (X @ take (nat nn) p) s" using W by (simp add: written_def)
    from tripleD [OF write_EINTR [OF lib] this 1]
    have "err = None \<and> 0 \<le> k \<and> k \<le> int (length b) \<and> wrote out fd (X @ take (nat nn) p @ take (nat k) b) s1
        \<or> err \<noteq> None \<and> k = -1 \<and> wrote out fd (X @ take (nat nn) p) s1" by simp
    then have "written out fd X p nn' s1 \<and> k \<le> mx - nn"
    proof (elim disjE conjE)
      assume e: "0 \<le> k" "k \<le> int (length b)" "wrote out fd (X @ take (nat nn) p @ take (nat k) b) s1"
      note ts = take_slice [OF nn e(1) e(2) [unfolded b_def]]
      have "nn' = nn + k" using e(1) by (simp add: nn'_def)
      then have "wrote out fd (X @ take (nat nn') p) s1" using e(3) ts(1) by (simp only: b_def)
      with \<open>nn' = nn + k\<close> ts(2) nn e(1) show ?thesis by (simp add: written_def)
    next
      assume e: "k = -1" "wrote out fd (X @ take (nat nn) p) s1"
      then have "nn' = nn" by (simp add: nn'_def)
      with e nn show ?thesis by (simp add: written_def)
    qed
    then have W1: "written out fd X p nn' s1" and k: "k \<le> mx - nn" by blast+
    have 3: "(if nn' = int (length p) then retp (Inr (nn', oserr err))
        else bindp (wait_eagain (waitWrite n (alone E) g L) (oserr err)) (\<lambda>r.
             case r of None \<Rightarrow> retp (Inl nn')
             | Some (Some e) \<Rightarrow> retp (Inr (nn', Some e))
             | Some None \<Rightarrow> if k = 0 then retp (Inr (nn', Some ErrUnexpectedEOF)) else retp (Inl nn'))) s1 = Some (Ret v, s')"
      using 2 k unfolding nn'_def Let_def by (simp split: if_splits)
    show ?thesis
    proof (cases "nn' = int (length p)")
      case True
      with 3 W1 show ?thesis by (auto simp: Ret retp_def)
    next
      case False
      with 3 have "bindp (wait_eagain (waitWrite n (alone E) g L) (oserr err)) (\<lambda>r.
             case r of None \<Rightarrow> retp (Inl nn')
             | Some (Some e) \<Rightarrow> retp (Inr (nn', Some e))
             | Some None \<Rightarrow> if k = 0 then retp (Inr (nn', Some ErrUnexpectedEOF)) else retp (Inl nn')) s1 = Some (Ret v, s')" by simp
      from bindp_Ret [OF this] obtain w s2 where 4: "wait_eagain (waitWrite n (alone E) g L) (oserr err) s1 = Some (Ret w, s2)"
        and 5: "(case w of None \<Rightarrow> retp (Inl nn')
             | Some (Some e) \<Rightarrow> retp (Inr (nn', Some e))
             | Some None \<Rightarrow> if k = 0 then retp (Inr (nn', Some ErrUnexpectedEOF)) else retp (Inl nn')) s2 = Some (Ret v, s')" by blast

      have "keepsp (wrote out fd (X @ take (nat nn') p)) (wait_eagain (waitWrite n (alone E) g L) (oserr err))"
        by (intro wait_frame.keeps_eagain [OF wrote_waits [OF lib E]] wait_frame.keeps_waitWrite [OF wrote_waits [OF lib E]])
      from keepspD [OF this _ 4] W1 have W2: "written out fd X p nn' s2" by (simp add: written_def)
      consider "w = None" | "w = Some None" | e where "w = Some (Some e)" by (cases w) auto
      then show ?thesis
      proof cases
        case 2
        then show ?thesis using 5 W2 by (cases "k = 0") (auto simp: Ret retp_def)
      qed (use 5 W2 in \<open>auto simp: Ret retp_def\<close>)
    qed
  qed simp
qed

lemma Write_loop_delivers:
  assumes "stream_libc L out fd" and "others_quiet out E"
  shows "triple (written out fd X p nn) (Write_loop n (alone E) g L p nn)
    (\<lambda>r s. case r of Ret (y, err) \<Rightarrow> written out fd X p y s \<and> (err = None \<longrightarrow> y = int (length p)) | Throw e \<Rightarrow> True)"
  unfolding Write_loop_def
  by (rule triple_loop [where I = "written out fd X p"])
    (rule triple_weaken [OF Write_step [OF assms]], auto split: outcome.splits sum.splits prod.splits)

lemma keeps_mu_Write: "keepsp (\<lambda>s. f_mu s = m) (guardp prepareWrite h (Write_loop n (alone E) g L p nn))"
  unfolding Write_loop_def Write_body_def by (intro fd_keeps)

section \<open>Write comes to an end\<close>

lemma write_call_runs:
  assumes lib: "stream_libc L out fd" and W: "wrote out fd X s"
    and calm: "\<forall>p w. c_errno (L ''libc_write'' [W fd, bufptr p, W (int (length p))] 0 w) \<notin> {EINTR, EAGAIN}"
  obtains k err s1 where
    "ignoringEINTRIO (Suc n) (\<lambda>_. bindp (onfd (\<lambda>fd. Write L fd b)) (\<lambda>(k, err). retp (k, err, ()))) () s = Some (Ret (k, err, ()), s1)"
    "err \<noteq> Some EAGAIN" "k \<le> int (length b)" "\<exists>Y. wrote out fd Y s1" "err = None \<longrightarrow> 0 \<le> k"
proof -
  obtain k err t where w: "Write L fd b (np_thr (pr_np s)) = ((k, err), t)" by (metis prod.collapse)
  define s1 where "s1 = s\<lparr>pr_np := (pr_np s)\<lparr>np_thr := t\<rparr>\<rparr>"
  have f: "f_Sysfd s = fd" "has_errno (np_thr (pr_np s))" using W by (simp_all add: wrote_def)
  have c: "bindp (onfd (\<lambda>fd. Write L fd b)) (\<lambda>(k, err). retp (k, err, ())) s = Some (Ret (k, err, ()), s1)"
    using w f by (simp add: onfd_def bindp_def getp_def sysp_def retp_def s1_def)
  have "err = goerr (c_errno (L ''libc_write'' [W fd, bufptr b, W (int (length b))] 0 (t_world (np_thr (pr_np s)))))"
    using w f(2) by (auto simp: Write_def sys_write_def int_err_def libcall_defs case_prod_beta Let_def has_errno_def)
  with calm have e: "err \<noteq> Some EINTR" "err \<noteq> Some EAGAIN" by (auto simp: goerr_def split: if_splits)
  have k: "k \<le> int (length b)" "\<exists>Y. wrote out fd Y s1" "err = None \<longrightarrow> 0 \<le> k"
    by (rule write_call [OF lib W c]; auto)+
  have "ignoringEINTRIO (Suc n) (\<lambda>_. bindp (onfd (\<lambda>fd. Write L fd b)) (\<lambda>(k, err). retp (k, err, ()))) () s = Some (Ret (k, err, ()), s1)"
    using c e(1) by (simp add: ignoringEINTRIO_def bindp_def [of "bindp m f" for m f] retp_def)
  with e k show ?thesis by (intro that)
qed

lemma Write_body_runs:
  assumes lib: "stream_libc L out fd" and W: "wrote out fd X s"
    and calm: "\<forall>p w. c_errno (L ''libc_write'' [W fd, bufptr p, W (int (length p))] 0 w) \<notin> {EINTR, EAGAIN}"
    and nn: "0 \<le> nn" "nn \<le> int (length p)"
  shows "\<exists>r s1. Write_body (Suc n) E g L p nn s = Some (Ret r, s1)
    \<and> (\<forall>y. r = Inl y \<longrightarrow> nn < y \<and> y \<le> int (length p) \<and> (\<exists>Y. wrote out fd Y s1))"
proof -
  define mx where "mx = chunk_end (f_IsStream s) nn p"
  define b where "b = slice (nat nn) (nat mx) p"
  have m: "nn \<le> mx" "mx \<le> int (length p)" using nn chunk_end_bounds [of nn p "f_IsStream s"] by (auto simp: mx_def)
  obtain k err s1 where c:
    "ignoringEINTRIO (Suc n) (\<lambda>_. bindp (onfd (\<lambda>fd. Write L fd b)) (\<lambda>(k, err). retp (k, err, ()))) () s = Some (Ret (k, err, ()), s1)"
    "err \<noteq> Some EAGAIN" "k \<le> int (length b)" "\<exists>Y. wrote out fd Y s1" "err = None \<longrightarrow> 0 \<le> k"
    by (rule write_call_runs [OF lib W calm, of n b])
  have "length b = nat mx - nat nn" using nn m by (simp add: b_def slice_def)
  with c(3) nn m have k: "k \<le> mx - nn" by linarith
  have w: "wait_eagain (waitWrite (Suc n) E g L) (oserr err) s1 = Some (Ret (Some (oserr err)), s1)"
    using c(2) by (cases err) (auto simp: wait_eagain_def bindp_def getp_def retp_def)
  define nn' where "nn' = (if k > 0 then nn + k else nn)"
  define r where "r = (if nn' = int (length p) then Inr (nn', oserr err) else case err of Some e \<Rightarrow> Inr (nn', Some (Errno e))
      | None \<Rightarrow> if k = 0 then Inr (nn', Some ErrUnexpectedEOF) else Inl nn')"
  have "Write_body (Suc n) E g L p nn s = (if k > 0 \<and> k > mx - nn then panicp ''invalid return from write''
         else (let nn' = (if k > 0 then nn + k else nn)
               in if nn' = int (length p) then retp (Inr (nn', oserr err))
                  else bindp (wait_eagain (waitWrite (Suc n) E g L) (oserr err)) (\<lambda>r.
                       case r of None \<Rightarrow> retp (Inl nn')
                       | Some (Some e) \<Rightarrow> retp (Inr (nn', Some e))
                       | Some None \<Rightarrow> if k = 0 then retp (Inr (nn', Some ErrUnexpectedEOF)) else retp (Inl nn')))) s1"
    using nn m c(1) by (simp add: Write_body_def bindp_def [of "getp f_IsStream"] getp_def slicep_def mx_def [symmetric] b_def [symmetric]
        bindp_def [of "ignoringEINTRIO n f q" for n f q] Let_def)
  also have "\<dots> = Some (Ret r, s1)"
  proof (cases "nn' = int (length p)")
    case True
    then show ?thesis using k by (simp add: nn'_def [symmetric] r_def retp_def)
  next
    case False
    with w k show ?thesis
      by (cases err) (simp_all add: nn'_def [symmetric] r_def retp_def bindp_def [of "wait_eagain w e" for w e])
  qed
  finally have "Write_body (Suc n) E g L p nn s = Some (Ret r, s1)" .
  moreover have "\<forall>y. r = Inl y \<longrightarrow> nn < y \<and> y \<le> int (length p)"
    using c(5) k m by (cases err) (auto simp: r_def nn'_def split: if_splits)
  ultimately show ?thesis using c(4) by blast
qed

lemma Write_loop_returns:
  assumes lib: "stream_libc L out fd"
    and calm: "\<forall>p w. c_errno (L ''libc_write'' [W fd, bufptr p, W (int (length p))] 0 w) \<notin> {EINTR, EAGAIN}"
  shows "wrote out fd X s \<Longrightarrow> 0 \<le> nn \<Longrightarrow> nn \<le> int (length p) \<Longrightarrow> nat (int (length p) - nn) < m \<Longrightarrow>
    \<exists>v s'. loopp m (Write_body (Suc n) E g L p) nn s = Some (Ret v, s')"
proof (induction m arbitrary: s nn X)
  case (Suc m)
  obtain r s1 where r: "Write_body (Suc n) E g L p nn s = Some (Ret r, s1)"
    "\<forall>y. r = Inl y \<longrightarrow> nn < y \<and> y \<le> int (length p) \<and> (\<exists>Y. wrote out fd Y s1)"
    using Write_body_runs [OF lib Suc.prems(1) calm Suc.prems(2,3)] by blast
  show ?case
  proof (cases r)
    case (Inr v)
    with r(1) show ?thesis by (simp add: bindp_def retp_def)
  next
    case (Inl y)
    with r(2) obtain Y where y: "nn < y" "y \<le> int (length p)" "wrote out fd Y s1" by blast
    have "\<exists>v s'. loopp m (Write_body (Suc n) E g L p) y s1 = Some (Ret v, s')"
      by (rule Suc.IH [OF y(3)]) (use y Suc.prems in linarith)+
    with r(1) Inl show ?thesis by (simp add: bindp_def)
  qed
qed simp

lemma prepareWrite_runs:
  "\<exists>e s2. prepareWrite s = Some (Ret e, s2) \<and> np_thr (pr_np s2) = np_thr (pr_np s) \<and> f_Sysfd s2 = f_Sysfd s
     \<and> np_wrwake (pr_np s2) = np_wrwake (pr_np s)"
proof (cases "f_ctx s")
  case (Some pd)
  obtain res d where r: "poll_runtime_pollReset mode_w (pd_at s pd) = (res, d)" by (metis prod.collapse)
  then have "res \<in> {0, 1, 2, 3}" by (auto simp: poll_runtime_pollReset_def netpollcheckerr_def Let_def split: if_splits)
  with r Some show ?thesis
    by (auto simp: prepareWrite_def fpd_prepare_def rt_pollReset_def convertErr_def prog_defs pd_store_def)
qed (simp add: prepareWrite_def fpd_prepare_def prog_defs)

lemma Write_runs:
  assumes "stream_libc L out (f_Sysfd s)" and "has_errno (np_thr (pr_np s))" and "AWord (uptr (np_wrwake (pr_np s))) \<noteq> W (f_Sysfd s)"
    and "\<forall>p w. c_errno (L ''libc_write'' [W (f_Sysfd s), bufptr p, W (int (length p))] 0 w) \<notin> {EINTR, EAGAIN}"
    and "fd_quiet a" and "f_mu s = word_of a" and "length p < n"
  shows "\<exists>nn err s'. FD_Write n (alone E) g L p s = Some (Ret (nn, err), s')"
proof -
  obtain k where n: "n = Suc k" using assms(7) by (cases n) auto
  let ?s1 = "s\<lparr>f_mu := word_locked False a\<rparr>"
  let ?body = "guardp prepareWrite (\<lambda>e. (0, Some e)) (Write_loop (Suc k) (alone E) g L p 0)"
  from prepareWrite_runs [of ?s1] obtain e s2 where pr: "prepareWrite ?s1 = Some (Ret e, s2)" "np_thr (pr_np s2) = np_thr (pr_np s)" "f_Sysfd s2 = f_Sysfd s"
    "np_wrwake (pr_np s2) = np_wrwake (pr_np s)" by auto
  have "\<exists>v s3. ?body ?s1 = Some (Ret v, s3)"
  proof (cases e)
    case None
    have "wrote out (f_Sysfd s) (out (t_world (np_thr (pr_np s)))) s2" using pr assms(2,3) by (simp add: wrote_def)
    then have "\<exists>v s'. loopp (Suc k) (Write_body (Suc k) (alone E) g L p) 0 s2 = Some (Ret v, s')"
      by (rule Write_loop_returns [OF assms(1,4)]) (use assms(7) n in simp_all)
    with pr None show ?thesis by (simp add: guardp_def bindp_def [of prepareWrite] Write_loop_def)
  next
    case (Some x)
    with pr show ?thesis by (simp add: guardp_def bindp_def retp_def)
  qed
  then obtain v s3 where b: "?body ?s1 = Some (Ret v, s3)" by blast
  have m: "f_mu s3 = word_locked False a" by (rule keepspD [OF keeps_mu_Write _ b]) simp
  have "FD_Write n (alone E) g L p s = Some (Ret v, s3\<lparr>f_mu := word_of a\<rparr>)"
    unfolding n using lock_run [OF assms(5,6), of k "alone E" False] b unlock_run [OF assms(5) m, of L]
    by (simp add: FD_Write_def with_write_def writeLock_def writeUnlock_def guardp_def [of "fd_lock n e r" for n e r]
        bindp_def [of "fd_lock n e r" for n e r] deferp_def)
  then show ?thesis by (metis prod.collapse)
qed

text \<open>A library whose world is what descriptor 5 has accepted, at most three bytes a call.\<close>

definition libc3 :: "gostring libc" where
  "libc3 fn as e w = (case as of
     x # ABuf p # rest \<Rightarrow> if fn = ''libc_write'' \<and> x = W 5 then (of_nat (min 3 (length p)), 0, 0, as, w @ take 3 p) else (0, 0, 0, as, w)
   | _ \<Rightarrow> (0, 0, 0, as, w))"

lemma libc3_stream: "stream_libc libc3 id 5"
proof -
  have "toint (of_nat (min 3 n)) = int (min 3 n)" for n
  proof -
    have "min 3 n \<in> {0, 1, 2, 3}" by auto
    then show ?thesis by (auto simp: toint_def)
  qed
  moreover have "take (min 3 (length p)) p = take 3 p" for p :: gostring by (cases "length p \<le> 3") simp_all
  ultimately show ?thesis
    by (simp add: stream_libc_def libc3_def bufptr_def Let_def del: of_nat_min split: list.splits carg.splits) (simp add: toint_def)
qed

lemma libc3_calm: "\<forall>p w. c_errno (libc3 ''libc_write'' [W fd, bufptr p, W (int (length p))] 0 w) \<notin> {EINTR, EAGAIN}"
  by (simp add: libc3_def bufptr_def)

lemma idle_quiet: "others_quiet out (\<lambda>y s. s)"
  by (simp add: others_quiet_def)

section \<open>Properties\<close>

text \<open>C5: \<open>Write\<close> delivers a prefix, in order and without loss or repetition: when it returns \<open>nn\<close> the descriptor
  has accepted exactly the first \<open>nn\<close> bytes of the buffer on top of what it had, however the kernel split
  them, was interrupted or made the goroutine wait, and the error is nil exactly when that is possible, for
  the whole buffer; the write lock is given back.\<close>

theorem Write_delivers:
  assumes "stream_libc L out (f_Sysfd s)" and "others_quiet out E" and "fd_quiet a" and "f_mu s = word_of a"
    and "has_errno (np_thr (pr_np s))" and "AWord (uptr (np_wrwake (pr_np s))) \<noteq> W (f_Sysfd s)"
    and "FD_Write (Suc n) (alone E) g L p s = Some (Ret (nn, err), s')"
  shows "out (t_world (np_thr (pr_np s'))) = out (t_world (np_thr (pr_np s))) @ take (nat nn) p
    \<and> 0 \<le> nn \<and> nn \<le> int (length p) \<and> (err = None \<longrightarrow> nn = int (length p)) \<and> f_mu s' = f_mu s"
proof -
  let ?X = "out (t_world (np_thr (pr_np s)))" and ?fd = "f_Sysfd s"
  let ?body = "guardp prepareWrite (\<lambda>e. (0, Some e)) (Write_loop (Suc n) (alone E) g L p 0)"
  from assms(7) have "guardp (fd_lock (Suc n) (alone E) False) (\<lambda>e. (0, Some e)) (deferp (fd_unlock L False) ?body) s = Some (Ret (nn, err), s')"
    by (simp add: FD_Write_def with_write_def writeLock_def writeUnlock_def)
  then obtain s1 where b: "?body (s\<lparr>f_mu := word_locked False a\<rparr>) = Some (Ret (nn, err), s1)" "s' = s1\<lparr>f_mu := word_of a\<rparr>"
    by (rule with_lock_run [OF assms(3,4) keeps_mu_Write])
  have W0: "wrote out ?fd ?X (s\<lparr>f_mu := word_locked False a\<rparr>)" using assms(5,6) by (simp add: wrote_def)
  from guardp_Ret [OF b(1)] have "written out ?fd ?X p nn s1 \<and> (err = None \<longrightarrow> nn = int (length p))"
  proof (elim disjE exE conjE)
    fix e assume "prepareWrite (s\<lparr>f_mu := word_locked False a\<rparr>) = Some (Ret (Some e), s1)" "(nn, err) = (0, Some e)"
    with keepspD [OF wait_frame.keeps_prepares(2) [OF wrote_waits [OF assms(1,2)]] W0 this(1)] show ?thesis
      by (simp add: written_def)
  next
    fix s2 assume pr: "prepareWrite (s\<lparr>f_mu := word_locked False a\<rparr>) = Some (Ret None, s2)"
      and lp: "Write_loop (Suc n) (alone E) g L p 0 s2 = Some (Ret (nn, err), s1)"
    from keepspD [OF wait_frame.keeps_prepares(2) [OF wrote_waits [OF assms(1,2)]] W0 pr]
    have "written out ?fd ?X p 0 s2" by (simp add: written_def)
    from tripleD [OF Write_loop_delivers [OF assms(1,2)] this lp] show ?thesis by simp
  qed
  with b(2) assms(4) show ?thesis by (simp add: written_def wrote_def)
qed

theorem Write_delivers_witness:
  "\<exists>nn err s'. FD_Write 8 (alone (\<lambda>y s. s)) 0 libc3 [1, 2, 3, 4, 5, 6, 7] (fd_plain [9] 0) = Some (Ret (nn, err), s')
    \<and> t_world (np_thr (pr_np s')) = 9 # take (nat nn) [1, 2, 3, 4, 5, 6, 7]"
proof -
  let ?a = "\<lparr>a_closed = False, a_rlock = False, a_wlock = False, a_ref = 0, a_rwait = 0, a_wwait = 0\<rparr>"
  have a: "fd_quiet ?a" "word_of ?a = 0" by (simp_all add: fd_quiet_def fdst_ok_def word_of_def enc_def)
  let ?s = "fd_plain [9] 0 :: gostring fdrt"
  have f: "f_Sysfd ?s = 5" "f_mu ?s = word_of ?a" "has_errno (np_thr (pr_np ?s))" "AWord (uptr (np_wrwake (pr_np ?s))) \<noteq> W (f_Sysfd ?s)"
    "t_world (np_thr (pr_np ?s)) = [9]"
    using a by (simp_all add: fd_plain_def thr_of_def has_errno_def uptr_def)
  obtain nn err s' where r: "FD_Write (Suc 7) (alone (\<lambda>y s. s)) 0 libc3 [1, 2, 3, 4, 5, 6, 7] ?s = Some (Ret (nn, err), s')"
    using Write_runs [OF _ f(3,4) _ a(1) f(2), of libc3 id "[1, 2, 3, 4, 5, 6, 7]" 8 "\<lambda>y s. s" 0] libc3_stream libc3_calm f(1)
    by auto
  from Write_delivers [OF _ idle_quiet a(1) f(2-4) r, of id] libc3_stream f r show ?thesis by auto
qed

text \<open>C6: \<open>Write\<close> comes to an end: on a descriptor open and unlocked, with a library whose \<open>write\<close> is neither
  interrupted nor made to wait, one iteration more than there are bytes is enough - every call either
  ends the operation or makes progress - and the result is an answer, never a panic.\<close>

theorem Write_returns:
  assumes "stream_libc L out (f_Sysfd s)" and "has_errno (np_thr (pr_np s))" and "AWord (uptr (np_wrwake (pr_np s))) \<noteq> W (f_Sysfd s)"
    and "\<forall>p w. c_errno (L ''libc_write'' [W (f_Sysfd s), bufptr p, W (int (length p))] 0 w) \<notin> {EINTR, EAGAIN}"
    and "fd_quiet a" and "f_mu s = word_of a" and "length p < n"
  shows "\<exists>nn err s'. FD_Write n (alone E) g L p s = Some (Ret (nn, err), s')"
  by (rule Write_runs [OF assms])

theorem Write_returns_witness:
  "\<exists>nn err s'. FD_Write 3 (alone (\<lambda>y s. s)) 0 libc3 [1, 2] (fd_plain [] 0) = Some (Ret (nn, err), s')"
proof -
  let ?a = "\<lparr>a_closed = False, a_rlock = False, a_wlock = False, a_ref = 0, a_rwait = 0, a_wwait = 0\<rparr>"
  have a: "fd_quiet ?a" "word_of ?a = 0" by (simp_all add: fd_quiet_def fdst_ok_def word_of_def enc_def)
  show ?thesis
    by (rule Write_returns [of libc3 id _ ?a])
      (use a libc3_stream libc3_calm [of 5] in \<open>simp_all add: fd_plain_def thr_of_def has_errno_def uptr_def\<close>)
qed

end
