(* ===== verification/Fd_Writev.thy ===== *)
theory Fd_Writev
  imports Fd_Stream
begin

text \<open>
  \<open>Writev\<close> delivers the bytes of its buffers in order. \<open>gather\<close> builds the vector of one call, \<open>consume\<close> drops
  what went out; together they never lose, repeat or reorder a byte, however the kernel splits the vector.
\<close>

section \<open>Vectors\<close>

definition iov_bytes :: "Iovec list \<Rightarrow> gostring" where
  "iov_bytes vs = concat (map (\<lambda>v. case iov_Base v of None \<Rightarrow> [] | Some b \<Rightarrow> take (unat (iov_Len v)) b) vs)"

definition addressable :: "gostring list \<Rightarrow> bool" where
  "addressable v \<longleftrightarrow> (\<forall>c \<in> set v. length c < 2 ^ 32)"

lemma addressable_Cons: "addressable (c # cs) \<longleftrightarrow> length c < 2 ^ 32 \<and> addressable cs"
  by (simp add: addressable_def)

lemma iov_bytes_Cons: "iov_bytes (\<lparr>iov_Base = Some b, iov_Len = l\<rparr> # vs) = take (unat l) b @ iov_bytes vs"
  by (simp add: iov_bytes_def)

lemma unat_len: "length (c :: gostring) < 2 ^ 32 \<Longrightarrow> unat (of_nat (length c) :: u32) = length c"
  by (simp add: unat_of_nat take_bit_nat_eq_self_iff)

lemma take_rest: "\<exists>rest. c @ ds = take n c @ rest"
  by (rule exI [of _ "drop n c @ ds"]) simp

lemma gather_prefix:
  "addressable v \<Longrightarrow> \<exists>rest. concat v = iov_bytes (gather st m v) @ rest"
proof (induction st m v rule: gather.induct)
  case (2 st m c cs)
  note len = unat_len [of c]
  show ?case
  proof (cases "length c = 0 \<or> st \<and> length c > maxRW")
    case True
    then show ?thesis using 2 by (auto simp: addressable_Cons iov_bytes_Cons iov_bytes_def [of "[]"] take_rest)
  next
    case False
    then have g: "gather st m (c # cs) = \<lparr>iov_Base = Some c, iov_Len = of_nat (length c)\<rparr> # (if m = 1 then [] else gather st (m - 1) cs)"
      by auto
    have "\<exists>rest. concat cs = iov_bytes (if m = 1 then [] else gather st (m - 1) cs) @ rest"
      using 2 False by (cases "m = 1") (auto simp: addressable_Cons iov_bytes_def [of "[]"])
    then show ?thesis unfolding g iov_bytes_Cons using 2(3) len by (auto simp: addressable_Cons)
  qed
qed (simp add: iov_bytes_def)

lemma gather_empty: "gather st (Suc m) v = [] \<Longrightarrow> concat v = []"
  by (induction v) (auto split: if_splits)

lemma consume_rest: "0 \<le> k \<Longrightarrow> concat (consume v k) = drop (nat k) (concat v)"
proof (induction v k rule: consume.induct)
  case (2 c cs k)
  show ?case
  proof (cases "int (length c) > k")
    case True
    with 2(2) have "nat k - length c = 0" by linarith
    then show ?thesis using True by simp
  next
    case False
    then have "nat k = length c + nat (k - int (length c))" by linarith
    with 2(1) [OF False] False show ?thesis by simp
  qed
qed simp

lemma consume_addressable: "addressable v \<Longrightarrow> addressable (consume v k)"
  by (induction v k rule: consume.induct) (auto simp: addressable_Cons)

section \<open>One call\<close>

definition vec_libc :: "'w libc \<Rightarrow> ('w \<Rightarrow> gostring) \<Rightarrow> int \<Rightarrow> bool" where
  "vec_libc L out fd \<longleftrightarrow>
     (\<forall>vs w. (let r = L ''libc_writev'' [W fd, AIovs vs, W (int (length vs))] 0 w
        in (c_errno r = 0 \<and> c_ret r \<noteq> NOT 0 \<and> unat (c_ret r) \<le> length (iov_bytes vs)
              \<and> out (c_world r) = out w @ take (unat (c_ret r)) (iov_bytes vs))
         \<or> (c_errno r \<noteq> 0 \<and> c_ret r = NOT 0 \<and> out (c_world r) = out w)))"

definition sent :: "('w \<Rightarrow> gostring) \<Rightarrow> int \<Rightarrow> gostring \<Rightarrow> gostring list \<Rightarrow> int \<Rightarrow> gostring list \<Rightarrow> 'w fdrt \<Rightarrow> bool" where
  "sent out fd X V k v s \<longleftrightarrow> 0 \<le> k \<and> k \<le> int (length (concat V)) \<and> wrote out fd (X @ take (nat k) (concat V)) s
     \<and> concat v = drop (nat k) (concat V) \<and> addressable v"

lemma sent_advance:
  assumes "sent out fd X V k v s" and "concat v = B @ rest" and "j \<le> length B"
    and "wrote out fd (X @ take (nat k) (concat V) @ take j B) s'"
  shows "sent out fd X V (k + int j) (consume v (int j)) s'"
proof -
  have k: "0 \<le> k" "k \<le> int (length (concat V))" "concat v = drop (nat k) (concat V)" "addressable v"
    using assms(1) by (simp_all only: sent_def)
  then have l: "nat k + length B \<le> length (concat V)" using assms(2) by (metis length_append length_drop le_add1 nat_le_iff ordered_cancel_comm_monoid_diff_class.le_diff_conv2 add.commute)
  have n: "nat (k + int j) = nat k + j" using k(1) by simp
  have "take j B = take j (drop (nat k) (concat V))" unfolding k(3) [symmetric] assms(2) using assms(3) by simp
  then have "take (nat k) (concat V) @ take j B = take (nat (k + int j)) (concat V)" unfolding n by (simp add: take_add)
  then have "wrote out fd (X @ take (nat (k + int j)) (concat V)) s'" using assms(4) by simp
  moreover have "concat (consume v (int j)) = drop (nat (k + int j)) (concat V)"
    using consume_rest [of "int j" v] k(3) n by (simp add: add.commute)
  ultimately show ?thesis using k l assms(3) consume_addressable [OF k(4)] by (simp add: sent_def)
qed

lemma writev_step:
  assumes "vec_libc L out fd" and "has_errno t" and "vs \<noteq> []" and "writev L fd vs t = ((w, e), t')"
  shows "has_errno t' \<and> (e = None \<and> w \<noteq> NOT 0 \<and> unat w \<le> length (iov_bytes vs) \<and> out (t_world t') = out (t_world t) @ take (unat w) (iov_bytes vs)
    \<or> e \<noteq> None \<and> w = NOT 0 \<and> out (t_world t') = out (t_world t))"
proof -
  define r where "r = L ''libc_writev'' [W fd, AIovs vs, W (int (length vs))] 0 (t_world t)"
  have "w = c_ret r" "e = goerr (c_errno r)" "t_world t' = c_world r" "has_errno t'"
    using assms(2-4) unfolding r_def
    by (auto simp: writev_def libcall_defs case_prod_beta Let_def has_errno_def)
  moreover have "goerr (c_errno r) = None \<longleftrightarrow> c_errno r = 0" by (simp add: goerr_def)
  ultimately show ?thesis using assms(1) unfolding vec_libc_def Let_def r_def by metis
qed

lemma writev_call:
  assumes "vec_libc L out fd" and "gather st m v \<noteq> []"
  shows "triple (sent out fd X V k v) (onfd (\<lambda>fd. writev L fd (gather st m v)))
    (\<lambda>r s. case r of Ret (w, e) \<Rightarrow> (let j = uint (if w = NOT 0 then 0 else w)
        in sent out fd X V (k + j) (consume v j) s) | Throw e \<Rightarrow> False)"
  unfolding triple_def
proof (intro allI impI)
  fix s r s' assume S: "sent out fd X V k v s" and run: "onfd (\<lambda>fd. writev L fd (gather st m v)) s = Some (r, s')"
  obtain w e t where wv: "writev L fd (gather st m v) (np_thr (pr_np s)) = ((w, e), t)" by (metis prod.collapse)
  have f: "f_Sysfd s = fd" "has_errno (np_thr (pr_np s))" "addressable v" using S by (simp_all add: sent_def wrote_def)
  have r: "r = Ret (w, e)" "s' = s\<lparr>pr_np := (pr_np s)\<lparr>np_thr := t\<rparr>\<rparr>"
    using run wv f(1) by (auto simp: onfd_def bindp_def getp_def sysp_def)
  define j where "j = unat (if w = NOT 0 then 0 else w)"
  obtain rest where g: "concat v = iov_bytes (gather st m v) @ rest" using gather_prefix [OF f(3)] by blast
  have "j \<le> length (iov_bytes (gather st m v)) \<and> wrote out fd (X @ take (nat k) (concat V) @ take j (iov_bytes (gather st m v))) s'"
    using writev_step [OF assms(1) f(2) assms(2) wv] S r(2) by (auto simp: j_def sent_def wrote_def)
  then have "sent out fd X V (k + int j) (consume v (int j)) s'" by (intro sent_advance [OF S g]) simp_all
  moreover have "int j = uint (if w = NOT 0 then 0 else w)" by (simp add: j_def)
  ultimately show "case r of Ret (w, e) \<Rightarrow> (let j = uint (if w = NOT 0 then 0 else w)
        in sent out fd X V (k + j) (consume v j) s') | Throw e \<Rightarrow> False"
    unfolding r(1) Let_def by simp
qed

section \<open>The loop\<close>

lemma Writev_loop_delivers:
  assumes lib: "stream_libc L out fd" "vec_libc L out fd" and E: "others_quiet out E"
  shows "triple (sent out fd X V k v) (Writev_loop n (alone E) g L (k, err, v))
    (\<lambda>r s. case r of Ret (y, err, v') \<Rightarrow> sent out fd X V y v' s \<and> (err = None \<longrightarrow> concat v' = []) | Throw e \<Rightarrow> True)"
    (is "triple _ _ ?Q")
proof -
  let ?I = "\<lambda>(k, err :: goerror option, v). sent out fd X V k v"
  note W = wait_frame.keeps_waitWrite [OF wrote_waits [OF lib(1) E]]
  have wait: "triple (sent out fd X V y v') (waitWrite n (alone E) g L) (\<lambda>r s. sent out fd X V y v' s)" for y v'
    using W [of "X @ take (nat y) (concat V)"] unfolding triple_def keepsp_def sent_def by blast
  have "triple (?I (k, err, v)) (Writev_loop n (alone E) g L (k, err, v)) ?Q"
    unfolding Writev_loop_def
  proof (rule triple_loop [where I = ?I], clarify)
    fix k :: int and err :: "goerror option" and v
    let ?P = "\<lambda>r s. case r of Ret (Inl y) \<Rightarrow> ?I y s | Ret (Inr x) \<Rightarrow> ?Q (Ret x) s | Throw e \<Rightarrow> ?Q (Throw e) s"
    show "triple (sent out fd X V k v) (if v = [] then retp (Inr (k, err, v))
       else bindp (getp f_IsStream) (\<lambda>stream.
         (let iovecs = gather stream 1024 v
          in if iovecs = [] then retp (Inr (k, err, v))
             else bindp (onfd (\<lambda>fd. writev L fd iovecs)) (\<lambda>(w, e).
               (let wrote = (if w = NOT 0 then 0 else w);
                    k' = k + uint wrote; v' = consume v (uint wrote)
                in if e \<noteq> None
                   then (if e = Some EINTR then retp (Inl (k', oserr e, v'))
                         else if e = Some EAGAIN
                         then bindp (waitWrite n (alone E) g L) (\<lambda>e'. retp (if e' = None then Inl (k', None, v') else Inr (k', e', v')))
                         else retp (Inr (k', oserr e, v')))
                   else if k' = 0 then retp (Inr (k', Some ErrUnexpectedEOF, v'))
                   else retp (Inl (k', None, v'))))))) ?P"
    proof (cases "v = []")
      case False
      have tail: "triple (sent out fd X V y v') (if e \<noteq> None
                   then (if e = Some EINTR then retp (Inl (y, oserr e, v'))
                         else if e = Some EAGAIN
                         then bindp (waitWrite n (alone E) g L) (\<lambda>e'. retp (if e' = None then Inl (y, None, v') else Inr (y, e', v')))
                         else retp (Inr (y, oserr e, v')))
                   else if y = 0 then retp (Inr (y, Some ErrUnexpectedEOF, v'))
                   else retp (Inl (y, None, v'))) ?P" for y v' e
      proof -
        have "triple (sent out fd X V y v') (bindp (waitWrite n (alone E) g L) (\<lambda>e'. retp (if e' = None then Inl (y, None, v') else Inr (y, e', v')))) ?P"
          by (rule triple_bind [where R = "\<lambda>_. sent out fd X V y v'"])
            (auto intro!: triple_ret triple_weaken [OF wait] split: outcome.split)
        then show ?thesis by (auto intro!: triple_ret)
      qed
      have call: "triple (sent out fd X V k v) (let iovecs = gather st 1024 v
          in if iovecs = [] then retp (Inr (k, err, v))
             else bindp (onfd (\<lambda>fd. writev L fd iovecs)) (\<lambda>(w, e).
               (let wrote = (if w = NOT 0 then 0 else w);
                    k' = k + uint wrote; v' = consume v (uint wrote)
                in if e \<noteq> None
                   then (if e = Some EINTR then retp (Inl (k', oserr e, v'))
                         else if e = Some EAGAIN
                         then bindp (waitWrite n (alone E) g L) (\<lambda>e'. retp (if e' = None then Inl (k', None, v') else Inr (k', e', v')))
                         else retp (Inr (k', oserr e, v')))
                   else if k' = 0 then retp (Inr (k', Some ErrUnexpectedEOF, v'))
                   else retp (Inl (k', None, v'))))) ?P" for st
      proof (cases "gather st 1024 v = []")
        case True
        with gather_empty [of st 1023 v] show ?thesis by (auto intro!: triple_ret)
      next
        case g: False
        show ?thesis unfolding Let_def if_not_P [OF g]
        proof (rule triple_bind [where R = "\<lambda>(w, e). sent out fd X V (k + uint (if w = NOT 0 then 0 else w)) (consume v (uint (if w = NOT 0 then 0 else w)))"], goal_cases)
          case 1
          show ?case by (rule triple_weaken [OF writev_call [OF lib(2) g]]) (auto simp: Let_def split: outcome.splits)
        next
          case (2 x)
          then show ?case by (cases x) (simp only: prod.case, rule tail)
        qed
      qed
      have "triple (sent out fd X V k v) (bindp (getp f_IsStream) f) ?P" if "\<And>st. triple (sent out fd X V k v) (f st) ?P" for f
        by (rule triple_bind [where R = "\<lambda>_. sent out fd X V k v", OF _ that]) (auto intro!: triple_get)
      from this [OF call] False show ?thesis by simp
    qed (auto intro!: triple_ret)
  qed
  then show ?thesis by simp
qed

lemma keeps_mu_Writev: "keepsp (\<lambda>s. f_mu s = m) (guardp prepareWrite h (Writev_loop n (alone E) g L x))"
  unfolding Writev_loop_def by (intro fd_keeps)

text \<open>The library \<open>libc3\<close> with a \<open>writev\<close> that also accepts at most three bytes a call.\<close>

definition libv :: "gostring libc" where
  "libv fn as e w = (case as of
     x # AIovs vs # rest \<Rightarrow> if fn = ''libc_writev'' \<and> x = W 5
       then (of_nat (min 3 (length (iov_bytes vs))), 0, 0, as, w @ take 3 (iov_bytes vs)) else libc3 fn as e w
   | _ \<Rightarrow> libc3 fn as e w)"

lemma libv_write: "libv ''libc_write'' as e w = libc3 ''libc_write'' as e w"
  by (auto simp: libv_def split: list.split carg.split)

lemma libv_stream: "stream_libc libv id 5"
  using libc3_stream unfolding stream_libc_def libv_write .

lemma libv_vec: "vec_libc libv id 5"
proof -
  have "unat (of_nat (min 3 n) :: u32) = min 3 n \<and> of_nat (min 3 n) \<noteq> (NOT 0 :: u32)" for n
  proof -
    have "min 3 n \<in> {0, 1, 2, 3}" by auto
    then show ?thesis by auto
  qed
  moreover have "take (min 3 (length p)) p = take 3 p" for p :: gostring by (cases "length p \<le> 3") simp_all
  ultimately show ?thesis by (simp add: vec_libc_def libv_def Let_def del: of_nat_min)
qed

section \<open>Properties\<close>

text \<open>C7: \<open>Writev\<close> delivers the concatenation of its buffers, in order and without loss or repetition: when it
  returns \<open>k\<close> the descriptor has accepted exactly the first \<open>k\<close> bytes of it on top of what it had, the buffers
  that are left hold exactly the others, and the error is nil only if nothing is left - whatever mix of empty
  buffers, cut vectors, interruptions and waiting the way there; the write lock is given back.\<close>

theorem Writev_delivers:
  assumes "stream_libc L out (f_Sysfd s)" and "vec_libc L out (f_Sysfd s)" and "others_quiet out E"
    and "fd_quiet a" and "f_mu s = word_of a" and "addressable v"
    and "has_errno (np_thr (pr_np s))" and "AWord (uptr (np_wrwake (pr_np s))) \<noteq> W (f_Sysfd s)"
    and "FD_Writev (Suc n) (alone E) g L v s = Some (Ret (k, err, v'), s')"
  shows "out (t_world (np_thr (pr_np s'))) = out (t_world (np_thr (pr_np s))) @ take (nat k) (concat v)
    \<and> concat v' = drop (nat k) (concat v) \<and> 0 \<le> k \<and> k \<le> int (length (concat v))
    \<and> (err = None \<longrightarrow> k = int (length (concat v))) \<and> f_mu s' = f_mu s"
proof -
  let ?X = "out (t_world (np_thr (pr_np s)))" and ?fd = "f_Sysfd s"
  let ?body = "guardp prepareWrite (\<lambda>e. (0, Some e, v)) (Writev_loop (Suc n) (alone E) g L (0, None, v))"
  from assms(9) have "guardp (fd_lock (Suc n) (alone E) False) (\<lambda>e. (0, Some e, v)) (deferp (fd_unlock L False) ?body) s = Some (Ret (k, err, v'), s')"
    by (simp add: FD_Writev_def with_write_def writeLock_def writeUnlock_def)
  then obtain s1 where b: "?body (s\<lparr>f_mu := word_locked False a\<rparr>) = Some (Ret (k, err, v'), s1)" "s' = s1\<lparr>f_mu := word_of a\<rparr>"
    by (rule with_lock_run [OF assms(4,5) keeps_mu_Writev])
  have W0: "wrote out ?fd ?X (s\<lparr>f_mu := word_locked False a\<rparr>)" using assms(7,8) by (simp add: wrote_def)
  note prep = wait_frame.keeps_prepares(2) [OF wrote_waits [OF assms(1,3)]]
  from guardp_Ret [OF b(1)] have "sent out ?fd ?X v k v' s1 \<and> (err = None \<longrightarrow> concat v' = [])"
  proof (elim disjE exE conjE)
    fix e assume "prepareWrite (s\<lparr>f_mu := word_locked False a\<rparr>) = Some (Ret (Some e), s1)" "(k, err, v') = (0, Some e, v)"
    with keepspD [OF prep W0 this(1)] assms(6) show ?thesis by (simp add: sent_def)
  next
    fix s2 assume pr: "prepareWrite (s\<lparr>f_mu := word_locked False a\<rparr>) = Some (Ret None, s2)"
      and lp: "Writev_loop (Suc n) (alone E) g L (0, None, v) s2 = Some (Ret (k, err, v'), s1)"
    from keepspD [OF prep W0 pr] have "sent out ?fd ?X v 0 v s2" using assms(6) by (simp add: sent_def)
    from tripleD [OF Writev_loop_delivers [OF assms(1-3)] this lp] show ?thesis by simp
  qed
  then have k: "sent out ?fd ?X v k v' s1" "err = None \<longrightarrow> drop (nat k) (concat v) = []" by (auto simp only: sent_def)
  then have "err = None \<longrightarrow> k = int (length (concat v))" by (simp only: drop_eq_Nil) (auto simp: sent_def)
  with k(1) b(2) assms(5) show ?thesis by (simp add: sent_def wrote_def)
qed

theorem Writev_delivers_witness:
  "\<exists>s'. FD_Writev 2 (alone (\<lambda>y s. s)) 0 libv [[1], [], [2, 3]] (fd_plain [9] 0) = Some (Ret (3, None, []), s')
    \<and> t_world (np_thr (pr_np s')) = [9, 1, 2, 3]"
proof -
  let ?a = "\<lparr>a_closed = False, a_rlock = False, a_wlock = False, a_ref = 0, a_rwait = 0, a_wwait = 0\<rparr>"
  let ?E = "alone (\<lambda>y s. s)" and ?v = "[[1], [], [2, 3]] :: gostring list"
  have a: "fd_quiet ?a" "word_of ?a = 0" by (simp_all add: fd_quiet_def fdst_ok_def word_of_def enc_def)
  let ?s = "fd_plain [9] 0 :: gostring fdrt"
  have f: "f_Sysfd ?s = 5" "f_mu ?s = word_of ?a" "has_errno (np_thr (pr_np ?s))" "AWord (uptr (np_wrwake (pr_np ?s))) \<noteq> W (f_Sysfd ?s)"
    using a by (simp_all add: fd_plain_def thr_of_def has_errno_def uptr_def)
  define s1 :: "gostring fdrt" where "s1 = fd_plain [9] (word_locked False ?a)"
  have 1: "fd_lock (Suc 1) ?E False ?s = Some (Ret None, s1)"
    using lock_run [OF a(1), of ?s 1 ?E False] a(2) by (simp add: s1_def fd_plain_def)
  have 2: "prepareWrite s1 = Some (Ret None, s1)"
    by (simp add: prepareWrite_def fpd_prepare_def bindp_def getp_def retp_def s1_def)
  have g: "gather True 1024 ?v = [\<lparr>iov_Base = Some [1], iov_Len = 1\<rparr>, \<lparr>iov_Base = Some [2, 3], iov_Len = 2\<rparr>]"
    by (simp add: maxRW_def)
  obtain t where w: "writev libv 5 (gather True 1024 ?v) (thr_of [9]) = ((3, None), t)"
    unfolding g by (auto simp: writev_def libcall_defs thr_of_def libv_def iov_bytes_def goerr_def case_prod_beta Let_def)
  define s2 where "s2 = s1\<lparr>pr_np := (pr_np s1)\<lparr>np_thr := t\<rparr>\<rparr>"
  have s: "f_IsStream s1" "f_Sysfd s1 = 5" "np_thr (pr_np s1) = thr_of [9]" by (simp_all add: s1_def fd_plain_def)
  have "Writev_loop (Suc 1) ?E 0 libv (0, None, ?v) s1 = Some (Ret (3, None, []), s2)"
    using w [unfolded g] s unfolding Writev_loop_def s2_def
    by (simp add: maxRW_def bindp_def getp_def retp_def onfd_def sysp_def)
  with 2 have 3: "guardp prepareWrite (\<lambda>e. (0, Some e, ?v)) (Writev_loop (Suc 1) ?E 0 libv (0, None, ?v)) s1 = Some (Ret (3, None, []), s2)"
    by (simp add: guardp_def bindp_def)
  have 4: "fd_unlock libv False s2 = Some (Ret (), s2\<lparr>f_mu := word_of ?a\<rparr>)"
    by (rule unlock_run [OF a(1)]) (simp add: s2_def s1_def)
  have r: "FD_Writev (Suc 1) ?E 0 libv ?v ?s = Some (Ret (3, None, []), s2\<lparr>f_mu := word_of ?a\<rparr>)"
    using 1 3 4 by (simp add: FD_Writev_def with_write_def writeLock_def writeUnlock_def guardp_def [of "fd_lock n e r" for n e r]
        bindp_def [of "fd_lock n e r" for n e r] deferp_def)
  have "addressable ?v" by (simp add: addressable_def)
  from Writev_delivers [OF _ _ idle_quiet a(1) f(2) this f(3,4) r, of id] libv_stream libv_vec f(1)
  have "t_world (np_thr (pr_np (s2\<lparr>f_mu := word_of ?a\<rparr>))) = [9, 1, 2, 3]" by (simp add: fd_plain_def thr_of_def)
  with r show ?thesis by (simp add: numeral_2_eq_2)
qed

end
