(* ===== verification/Fd_Accept.thy ===== *)
theory Fd_Accept
  imports Fd_Stream
begin

text \<open>
  Descriptors are not leaked. The C library is described by an observer \<open>opn\<close> of its world: the descriptors
  the process has open. \<open>accept\<close> and \<open>dup\<close> add a new one when they succeed, \<open>close\<close> takes one away, and
  neither \<open>write\<close> nor the flag commands of \<open>fcntl\<close> change the set.
\<close>

section \<open>The library\<close>

definition fds_libc :: "'w libc \<Rightarrow> ('w \<Rightarrow> int set) \<Rightarrow> bool" where
  "fds_libc L opn \<longleftrightarrow>
     (\<forall>fn as w. fn = ''libc_accept'' \<or> fn = ''libc_dup'' \<longrightarrow> (let r = L fn as 0 w
        in if c_errno r = 0 then toint (c_ret r) \<notin> opn w \<and> opn (c_world r) = insert (toint (c_ret r)) (opn w)
           else opn (c_world r) = opn w))
     \<and> (\<forall>r w. opn (c_world (L ''libc_close'' [AWord r] 0 w)) = opn w - {toint r})
     \<and> (\<forall>as w. opn (c_world (L ''libc_write'' as 0 w)) = opn w)
     \<and> (\<forall>fd cmd arg w. cmd \<in> {F_SETFD, F_GETFL, F_SETFL} \<longrightarrow> opn (c_world (L ''libc_fcntl'' [W fd, W cmd, W arg] 0 w)) = opn w)"

definition has_open :: "('w \<Rightarrow> int set) \<Rightarrow> int set \<Rightarrow> 'w thr \<Rightarrow> bool" where
  "has_open opn S t \<longleftrightarrow> opn (t_world t) = S \<and> has_errno t"

lemma errno_call:
  assumes "has_errno t" and "sysvicall6 L fn n as t = ((r1, r2, e, bs), t')" and "n = length as" and "n \<le> 6"
  shows "r1 = c_ret (L fn as 0 (t_world t))" and "e = c_errno (L fn as 0 (t_world t))"
    and "t_world t' = c_world (L fn as 0 (t_world t))" and "has_errno t'" and "bs = c_args (L fn as 0 (t_world t))"
  using assms by (auto simp: libcall_defs case_prod_beta Let_def has_errno_def)

lemma fcntl_open:
  assumes "fds_libc L opn" and "has_open opn S t" and "cmd \<in> {F_SETFD, F_GETFL, F_SETFL}"
  shows "has_open opn S (snd (fcntl L fd cmd arg t))"
proof -
  obtain r1 r2 e as t' where c: "sysvicall6 L ''libc_fcntl'' 3 [W fd, W cmd, W arg] t = ((r1, r2, e, as), t')" by (metis prod.collapse)
  then show ?thesis
    using errno_call [OF _ c, simplified] assms unfolding fds_libc_def has_open_def fcntl_def int_err_def by (auto simp: Let_def)
qed

lemma CloseOnExec_open: "fds_libc L opn \<Longrightarrow> has_open opn S t \<Longrightarrow> has_open opn S (CloseOnExec L fd t)"
  unfolding CloseOnExec_def by (rule fcntl_open) simp_all

lemma SetNonblock_open:
  assumes "fds_libc L opn" and "has_open opn S t"
  shows "has_open opn S (snd (SetNonblock L fd b t))"
  using fcntl_open [OF assms, of F_GETFL fd 0] fcntl_open [OF assms(1), of S "snd (fcntl L fd F_GETFL 0 t)" F_SETFL fd]
  by (auto simp: SetNonblock_def Let_def case_prod_beta)

lemma Close_open:
  assumes "fds_libc L opn" and "has_open opn S t"
  shows "has_open opn (S - {toint r}) (snd (Close L (toint r) t))"
proof -
  obtain r1 r2 e as t' where c: "sysvicall6 L ''libc_close'' 1 [W (toint r)] t = ((r1, r2, e, as), t')" by (metis prod.collapse)
  have "W (toint r) = AWord r" by (simp add: uptr_def toint_def)
  then show ?thesis
    using errno_call [OF _ c, simplified] c assms unfolding fds_libc_def has_open_def Close_def err_only_def by simp
qed

text \<open>A call that makes a descriptor: a new one, open, or an error and the descriptors as they were.\<close>

definition gives_fd :: "('w \<Rightarrow> int set) \<Rightarrow> int set \<Rightarrow> int \<Rightarrow> bool \<Rightarrow> 'w thr \<Rightarrow> bool" where
  "gives_fd opn S k ok t \<longleftrightarrow> (if ok then k \<notin> S \<and> (\<exists>r. k = toint r) \<and> has_open opn (insert k S) t else k = -1 \<and> has_open opn S t)"

lemma Accept_gives:
  assumes "fds_libc L opn" and "has_open opn S t" and "Accept L fd t = ((k, sa, err), t')"
  shows "gives_fd opn S k (err = None) t'"
proof -
  obtain r1 r2 e as t1 where c: "sysvicall6 L ''libc_accept'' 3 [W fd, ARaw zero_rsa, ASocklen SizeofSockaddrAny] t = ((r1, r2, e, as), t1)"
    by (metis prod.collapse)
  have o: "has_open opn (if e = 0 then insert (toint r1) S else S) t1" "e = 0 \<Longrightarrow> toint r1 \<notin> S"
    using errno_call [OF _ c, simplified] assms(1,2) unfolding fds_libc_def has_open_def by (auto simp: Let_def)
  have "has_open opn S (snd (Close L (toint r1) t1))" if "e = 0"
    using Close_open [OF assms(1), of "insert (toint r1) S" t1 r1] o that by simp
  then show ?thesis
    using assms(3) c o by (auto simp: Accept_def gives_fd_def case_prod_beta split: if_splits sum.splits)
qed

lemma accept_cloexec_gives:
  assumes "fds_libc L opn" and "has_open opn S t" and "accept_cloexec L fd t = ((k, sa, call, err), t')"
  shows "gives_fd opn S k (err = None) t'"
proof -
  obtain ns sa1 err1 t1 where a: "Accept L fd t = ((ns, sa1, err1), t1)" by (metis prod.collapse)
  note g = Accept_gives [OF assms(1,2) a]
  show ?thesis
  proof (cases "err1 = None")
    case True
    with g obtain r where r: "ns = toint r" "ns \<notin> S" "has_open opn (insert ns S) t1" by (auto simp: gives_fd_def)
    obtain err2 t3 where n: "SetNonblock L ns True (CloseOnExec L ns t1) = (err2, t3)" by fastforce
    have "has_open opn (insert ns S) t3"
      using SetNonblock_open [OF assms(1) CloseOnExec_open [OF assms(1) r(3)], of ns True ns] n by simp
    then have "has_open opn S (snd (Close L ns t3))" using Close_open [OF assms(1), of "insert ns S" t3 r] r by simp
    moreover note \<open>has_open opn (insert ns S) t3\<close> r(2) assms(3) a True n
    moreover have "\<exists>r. ns = toint r" using r(1) by blast
    ultimately show ?thesis
      by (auto simp: accept_cloexec_def gives_fd_def case_prod_beta Let_def split: if_splits)
  next
    case False
    with g a assms(3) show ?thesis by (auto simp: accept_cloexec_def gives_fd_def)
  qed
qed

section \<open>Waiting opens nothing\<close>

lemma enter_open:
  assumes "fds_libc L opn" "has_open opn S (np_thr np)"
  shows "has_open opn S (np_thr (netpoll_enter L np))"
  using assms write1_effect [of L "uptr (np_wrwake np)" "[0]" 1 "np_thr np"]
  by (auto simp: has_open_def netpoll_enter_def netpollwakeup_def wake_byte_def lock_mtxpoll_def unlock_mtxpoll_def lock_mtxset_def fds_libc_def)

lemma open_waits:
  assumes "fds_libc L opn" and "others_quiet opn E"
  shows "wait_frame (\<lambda>s. has_open opn S (np_thr (pr_np s))) (alone E) L"
proof
  fix s :: "'a fdrt" assume J: "has_open opn S (np_thr (pr_np s))"
  have "pr_np (alone E y s) = pr_np (E y s)" for y by (simp add: alone_def)
  then show "has_open opn S (np_thr (pr_np (alone E y s)))" for y using J assms(2) by (simp add: has_open_def others_quiet_def)
  show "has_open opn S (np_thr (pr_np (pd_store pd d s)))" for pd d using J by (simp add: pd_store_def)
  show "has_open opn S (np_thr (pr_np (s\<lparr>pr_waiters := w\<rparr>)))" for w using J by simp
  from enter_open [OF assms(1) J] show "has_open opn S (np_thr (pr_np (s\<lparr>pr_np := snd (netpollarm L pd mode (pr_np s))\<rparr>)))" for pd mode
    by (simp add: netpollarm_def Let_def unlock_mtxset_def)
qed

section \<open>The loop of Accept\<close>

lemma Accept_call:
  assumes "fds_libc L opn"
  shows "triple (\<lambda>s. has_open opn S (np_thr (pr_np s))) (onfd (accept_cloexec L))
    (\<lambda>r s. case r of Ret (k, sa, call, err) \<Rightarrow> gives_fd opn S k (err = None) (np_thr (pr_np s)) | Throw e \<Rightarrow> False)"
  unfolding triple_def
proof (intro allI impI)
  fix s r s' assume J: "has_open opn S (np_thr (pr_np s))" and run: "onfd (accept_cloexec L) s = Some (r, s')"
  obtain k sa call err t where a: "accept_cloexec L (f_Sysfd s) (np_thr (pr_np s)) = ((k, sa, call, err), t)" by (metis prod.collapse)
  with run have "r = Ret (k, sa, call, err)" "np_thr (pr_np s') = t" by (auto simp: onfd_def bindp_def getp_def sysp_def)
  with accept_cloexec_gives [OF assms J a]
  show "case r of Ret (k, sa, call, err) \<Rightarrow> gives_fd opn S k (err = None) (np_thr (pr_np s')) | Throw e \<Rightarrow> False" by simp
qed

lemma Accept_wait:
  assumes "fds_libc L opn" and "others_quiet opn E"
  shows "triple (\<lambda>s. has_open opn S (np_thr (pr_np s))) (wait_eagain (waitRead n (alone E) g L) (Some (Errno EAGAIN)))
    (\<lambda>r s. case r of Ret v \<Rightarrow> v \<noteq> Some None \<and> has_open opn S (np_thr (pr_np s)) | Throw e \<Rightarrow> True)"
proof -
  note W = open_waits [OF assms, of S]
  have "keepsp (\<lambda>s. has_open opn S (np_thr (pr_np s))) (wait_eagain (waitRead n (alone E) g L) (Some (Errno EAGAIN)))"
    by (intro wait_frame.keeps_eagain [OF W] wait_frame.keeps_waitRead [OF W])
  moreover have "triple (\<lambda>_. True) (wait_eagain (waitRead n (alone E) g L) (Some (Errno EAGAIN))) (\<lambda>r s. r \<noteq> Ret (Some None))"
    by (auto simp: triple_def wait_eagain_def bindp_def getp_def retp_def split: option.splits outcome.splits if_splits)
  ultimately show ?thesis unfolding keepsp_def triple_def by (auto split: outcome.split) blast
qed

lemma Accept_loop_gives:
  assumes lib: "fds_libc L opn" and E: "others_quiet opn E"
  shows "triple (\<lambda>s. has_open opn S (np_thr (pr_np s))) (Accept_loop n (alone E) g L)
    (\<lambda>r s. case r of Ret (k, sa, call, err) \<Rightarrow> gives_fd opn S k (err = None) (np_thr (pr_np s)) | Throw e \<Rightarrow> True)"
    (is "triple ?J _ ?Q")
proof -
  let ?P = "\<lambda>r s. case r of Ret (Inl y) \<Rightarrow> ?J s | Ret (Inr v) \<Rightarrow> ?Q (Ret v) s | Throw e \<Rightarrow> ?Q (Throw e) s"
  have wait: "triple ?J (bindp (wait_eagain (waitRead n (alone E) g L) (Some (Errno EAGAIN))) (\<lambda>r.
           case r of None \<Rightarrow> retp (Inl ()) | Some err' \<Rightarrow> retp (Inr (-1, None, call, err')))) ?P" for call
    by (rule triple_bind [where R = "\<lambda>v s. v \<noteq> Some None \<and> ?J s"], rule triple_weaken [OF Accept_wait [OF lib E]])
      (auto simp: gives_fd_def triple_def retp_def split: outcome.splits option.splits)
  have step: "triple (\<lambda>s. gives_fd opn S k (err = None) (np_thr (pr_np s))) (if err = None then retp (Inr (k, rsa, '''', None))
           else if err = Some EINTR then retp (Inl ())
           else if err = Some EAGAIN
           then bindp (wait_eagain (waitRead n (alone E) g L) (oserr err)) (\<lambda>r.
                  case r of None \<Rightarrow> retp (Inl ()) | Some err' \<Rightarrow> retp (Inr (-1, None, call, err')))
           else if err = Some ECONNABORTED then retp (Inl ())
           else retp (Inr (-1, None, call, oserr err))) ?P" for k rsa call err
  proof (cases "err = Some EAGAIN")
    case True
    then show ?thesis using wait [of call] by (simp add: gives_fd_def) (erule triple_weaken, simp_all)
  qed (auto simp: gives_fd_def intro!: triple_ret)
  have loop: "triple ((\<lambda>_ :: unit. ?J) ()) (loopp n (\<lambda>_. bindp (onfd (accept_cloexec L)) f) ()) ?Q"
    if "\<And>k rsa call err. triple (\<lambda>s. gives_fd opn S k (err = None) (np_thr (pr_np s))) (f (k, rsa, call, err)) ?P" for f
  proof (rule triple_loop)
    show "triple ?J (bindp (onfd (accept_cloexec L)) f)
        (\<lambda>r s. case r of Ret (Inl y) \<Rightarrow> ?J s | Ret (Inr v) \<Rightarrow> ?Q (Ret v) s | Throw e \<Rightarrow> ?Q (Throw e) s)"
    proof (rule triple_bind)
      show "triple ?J (onfd (accept_cloexec L)) (\<lambda>r s. case r of
          Ret x \<Rightarrow> (\<lambda>(k, sa, call, err) s. gives_fd opn S k (err = None) (np_thr (pr_np s))) x s
        | Throw e \<Rightarrow> (case Throw e of Ret (Inl y) \<Rightarrow> ?J s | Ret (Inr v) \<Rightarrow> ?Q (Ret v) s | Throw e \<Rightarrow> ?Q (Throw e) s))"
        by (rule triple_weaken [OF Accept_call [OF lib]]) (auto split: outcome.splits)
      fix x :: "int \<times> Sockaddr option \<times> string \<times> u32 option"
      obtain k rsa call err where x: "x = (k, rsa, call, err)" by (cases x)
      show "triple ((\<lambda>(k, sa, call, err) s. gives_fd opn S k (err = None) (np_thr (pr_np s))) x) (f x)
          (\<lambda>r s. case r of Ret (Inl y) \<Rightarrow> ?J s | Ret (Inr v) \<Rightarrow> ?Q (Ret v) s | Throw e \<Rightarrow> ?Q (Throw e) s)"
        unfolding x prod.case by (rule that)
    qed
  qed
  show ?thesis unfolding Accept_loop_def by (rule loop) (simp only: prod.case, rule step)
qed

lemma keeps_mu_Accept: "keepsp (\<lambda>s. f_mu s = m) (guardp prepareRead h (Accept_loop n (alone E) g L))"
  unfolding Accept_loop_def by (intro fd_keeps)

lemma FD_Accept_run:
  assumes "fd_quiet a" and "f_mu s = word_of a" and "FD_Accept (Suc n) (alone E) g L s = Some (r, s')"
  obtains s1 where "guardp prepareRead (\<lambda>e. (-1, None, '''', Some e)) (Accept_loop (Suc n) (alone E) g L) (s\<lparr>f_mu := word_locked True a\<rparr>) = Some (r, s1)"
    "s' = s1\<lparr>f_mu := word_of a\<rparr>"
proof -
  from assms(3) have "guardp (fd_lock (Suc n) (alone E) True) (\<lambda>e. (-1, None, '''', Some e)) (deferp (fd_unlock L True)
      (guardp prepareRead (\<lambda>e. (-1, None, '''', Some e)) (Accept_loop (Suc n) (alone E) g L))) s = Some (r, s')"
    by (simp add: FD_Accept_def with_read_def readLock_def readUnlock_def)
  from with_lock_run [OF assms(1,2) keeps_mu_Accept this] that show thesis by blast
qed

lemma Accept_body_gives:
  assumes "fds_libc L opn" and "others_quiet opn E" and J: "has_open opn S (np_thr (pr_np s))"
    and run: "guardp prepareRead (\<lambda>e. (-1, None, '''', Some e)) (Accept_loop n (alone E) g L) s = Some (Ret (k, sa, call, err), s1)"
  shows "gives_fd opn S k (err = None) (np_thr (pr_np s1))"
proof -
  note prep = wait_frame.keeps_prepares(1) [OF open_waits [OF assms(1,2)]]
  from guardp_Ret [OF run] show ?thesis
  proof (elim disjE exE conjE)
    fix e assume "prepareRead s = Some (Ret (Some e), s1)" "(k, sa, call, err) = (-1, None, '''', Some e)"
    with keepspD [OF prep J this(1)] show ?thesis by (simp add: gives_fd_def)
  next
    fix s2 assume pr: "prepareRead s = Some (Ret None, s2)" and lp: "Accept_loop n (alone E) g L s2 = Some (Ret (k, sa, call, err), s1)"
    from tripleD [OF Accept_loop_gives [OF assms(1,2)] keepspD [OF prep J pr] lp] show ?thesis by simp
  qed
qed

text \<open>A library whose world is the set of open descriptors; a new descriptor gets number 9 while it is free.\<close>

definition libfd :: "int set libc" where
  "libfd fn as e w =
     (if fn = ''libc_accept'' \<or> fn = ''libc_dup'' \<or> fn = ''libc_socket''
      then (if 9 \<in> w then (NOT 0, 0, 24, as, w)
            else (9, 0, 0, (case as of x # ARaw rsa # rest \<Rightarrow> x # ARaw (rsa[1 := 2]) # rest | _ \<Rightarrow> as), insert 9 w))
      else if fn = ''libc_close'' then (case as of [AWord r] \<Rightarrow> (0, 0, 0, as, w - {toint r}) | _ \<Rightarrow> (0, 0, 0, as, w))
      else (0, 0, 0, as, w))"

lemma libfd_fds: "fds_libc libfd id"
proof -
  have "toint 9 = 9" by (simp add: toint_def)
  then show ?thesis by (simp add: fds_libc_def libfd_def Let_def)
qed

section \<open>Properties\<close>

text \<open>\<open>Accept\<close> leaks no descriptor: when it returns a connection, exactly that descriptor is open beside those
  that were, it is a new one; when it returns an error the open descriptors are those that were - a
  connection whose address cannot be decoded, or that cannot be made non-blocking, has been closed again,
  however often the call was interrupted, retried or made to wait; the read lock is given back.\<close>

theorem Accept_no_leak:
  assumes "fds_libc L opn" and "others_quiet opn E" and "fd_quiet a" and "f_mu s = word_of a"
    and "has_errno (np_thr (pr_np s))" and "FD_Accept (Suc n) (alone E) g L s = Some (Ret (k, sa, call, err), s')"
  shows "opn (t_world (np_thr (pr_np s')))
      = (if err = None then insert k (opn (t_world (np_thr (pr_np s)))) else opn (t_world (np_thr (pr_np s))))
    \<and> (err = None \<longrightarrow> k \<notin> opn (t_world (np_thr (pr_np s)))) \<and> (err \<noteq> None \<longrightarrow> k = -1) \<and> f_mu s' = f_mu s"
proof -
  obtain s1 where run: "guardp prepareRead (\<lambda>e. (-1, None, '''', Some e)) (Accept_loop (Suc n) (alone E) g L) (s\<lparr>f_mu := word_locked True a\<rparr>)
      = Some (Ret (k, sa, call, err), s1)" and s': "s' = s1\<lparr>f_mu := word_of a\<rparr>"
    by (rule FD_Accept_run [OF assms(3,4,6)])
  have "has_open opn (opn (t_world (np_thr (pr_np s)))) (np_thr (pr_np (s\<lparr>f_mu := word_locked True a\<rparr>)))"
    using assms(5) by (simp add: has_open_def)
  from Accept_body_gives [OF assms(1,2) this run] s' assms(4) show ?thesis
    by (auto simp: gives_fd_def has_open_def split: if_splits)
qed

lemma libfd_accepts:
  "\<exists>sa t. accept_cloexec libfd 5 (thr_of {5}) = ((9, sa, '''', None), t)"
proof -
  have t9: "toint 9 = 9" by (simp add: toint_def)
  obtain r1 r2 e as t1 where c: "sysvicall6 libfd ''libc_accept'' 3 [W 5, ARaw zero_rsa, ASocklen SizeofSockaddrAny] (thr_of {5}) = ((r1, r2, e, as), t1)"
    by (metis prod.collapse)
  have "has_errno (thr_of {5 :: int})" "t_world (thr_of {5 :: int}) = {5}" by (simp_all add: thr_of_def has_errno_def)
  with errno_call [OF _ c] have k: "r1 = 9" "e = 0" "argat as 1 = ARaw (zero_rsa[1 := 2])" "has_errno t1"
    by (simp_all add: libfd_def argat_def)
  have "\<exists>sa. anyToSockaddr (zero_rsa[1 := 2]) = Inr sa" by (simp add: anyToSockaddr_def zero_rsa_def sizeof_RawSockaddrAny_def Let_def)
  with c k obtain sa where a: "Accept libfd 5 (thr_of {5}) = ((9, Some sa, None), t1)" "has_errno t1"
    by (auto simp: Accept_def out_raw_def t9)
  show ?thesis using a(2)
    by (simp add: accept_cloexec_def a(1) CloseOnExec_def SetNonblock_def fcntl_def int_err_def libfd_def libcall_defs has_errno_def
        case_prod_beta Let_def goerr_def toint_def)
qed

lemma libfd_FD_Accept:
  "\<exists>sa s'. FD_Accept 1 (alone (\<lambda>y s. s)) 0 libfd ((fd_plain {5} 0)\<lparr>pr_inited := b\<rparr>) = Some (Ret (9, sa, '''', None), s') \<and> pr_first s' = []"
proof -
  let ?a = "\<lparr>a_closed = False, a_rlock = False, a_wlock = False, a_ref = 0, a_rwait = 0, a_wwait = 0\<rparr>"
  let ?E = "alone (\<lambda>y s. s)" and ?s = "(fd_plain {5} 0)\<lparr>pr_inited := b\<rparr> :: int set fdrt"
  have a: "fd_quiet ?a" "word_of ?a = 0" by (simp_all add: fd_quiet_def fdst_ok_def word_of_def enc_def)
  define s1 :: "int set fdrt" where "s1 = (fd_plain {5} (word_locked True ?a))\<lparr>pr_inited := b\<rparr>"
  have 1: "fd_lock (Suc 0) ?E True ?s = Some (Ret None, s1)"
    using lock_run [OF a(1), of ?s 0 ?E True] a(2) by (simp add: s1_def fd_plain_def)
  have 2: "prepareRead s1 = Some (Ret None, s1)"
    by (simp add: prepareRead_def fpd_prepare_def bindp_def getp_def retp_def s1_def)
  obtain sa t where w: "accept_cloexec libfd 5 (thr_of {5}) = ((9, sa, '''', None), t)" using libfd_accepts by blast
  define s2 where "s2 = s1\<lparr>pr_np := (pr_np s1)\<lparr>np_thr := t\<rparr>\<rparr>"
  have s: "f_Sysfd s1 = 5" "np_thr (pr_np s1) = thr_of {5}" "pr_first s1 = []" by (simp_all add: s1_def fd_plain_def)
  have "Accept_loop (Suc 0) ?E 0 libfd s1 = Some (Ret (9, sa, '''', None), s2)"
    using w s by (simp add: Accept_loop_def s2_def bindp_def getp_def retp_def onfd_def sysp_def)
  with 2 have 3: "guardp prepareRead (\<lambda>e. (-1, None, '''', Some e)) (Accept_loop (Suc 0) ?E 0 libfd) s1 = Some (Ret (9, sa, '''', None), s2)"
    by (simp add: guardp_def bindp_def)
  have 4: "fd_unlock libfd True s2 = Some (Ret (), s2\<lparr>f_mu := word_of ?a\<rparr>)"
    by (rule unlock_run [OF a(1)]) (simp add: s2_def s1_def)
  have r: "FD_Accept (Suc 0) ?E 0 libfd ?s = Some (Ret (9, sa, '''', None), s2\<lparr>f_mu := word_of ?a\<rparr>)"
    using 1 3 4 by (simp add: FD_Accept_def with_read_def readLock_def readUnlock_def guardp_def [of "fd_lock n e r" for n e r]
        bindp_def [of "fd_lock n e r" for n e r] deferp_def)
  with s(3) show ?thesis by (auto simp: s2_def)
qed

theorem Accept_no_leak_witness:
  "\<exists>sa s'. FD_Accept 1 (alone (\<lambda>y s. s)) 0 libfd (fd_plain {5} 0) = Some (Ret (9, sa, '''', None), s')
    \<and> t_world (np_thr (pr_np s')) = {5, 9}"
proof -
  let ?a = "\<lparr>a_closed = False, a_rlock = False, a_wlock = False, a_ref = 0, a_rwait = 0, a_wwait = 0\<rparr>"
  let ?s = "fd_plain {5} 0 :: int set fdrt"
  have a: "fd_quiet ?a" "word_of ?a = 0" by (simp_all add: fd_quiet_def fdst_ok_def word_of_def enc_def)
  have f: "f_mu ?s = word_of ?a" "has_errno (np_thr (pr_np ?s))" "t_world (np_thr (pr_np ?s)) = {5}"
    using a by (simp_all add: fd_plain_def thr_of_def has_errno_def)
  have "?s\<lparr>pr_inited := False\<rparr> = ?s" by (simp add: fd_plain_def)
  with libfd_FD_Accept [of False] obtain sa s' where r: "FD_Accept (Suc 0) (alone (\<lambda>y s. s)) 0 libfd ?s = Some (Ret (9, sa, '''', None), s')" by auto
  from Accept_no_leak [OF libfd_fds idle_quiet a(1) f(1,2) r] f(3) r show ?thesis by (simp add: insert_commute)
qed

end
