(* ===== verification/Fd_Sync.thy ===== *)
theory Fd_Sync
  imports Fd_Mutex
begin

text \<open>
  The threads of \<open>internal/poll\<close> that share one \<open>fdMutex\<close>, interleaved. A thread's program counter
  says where it is in \<open>fd_mutex.go\<close>; a step is one successful compare-and-swap, one semaphore
  operation of the runtime, or the return of an operation. A compare-and-swap that fails changes
  nothing and is not a step. \<open>runtime_Semacquire\<close> and \<open>runtime_Semrelease\<close> are the documented counting
  semaphore. The number of threads is at most 2^20 - 1, the number of operations the word can count.
\<close>

section \<open>Threads\<close>

datatype fdpc =
    PIdle
  | PHold
  | PLock bool
  | PSleep bool
  | PRetry bool
  | PWake bool bool
  | PClose nat nat
  | PDestroy
  | PPanic

datatype fdop = OIncref | ODecref | OLock bool | OUnlock bool | OClose

record fdsys =
  fy_word :: u64
  fy_rsema :: nat
  fy_wsema :: nat
  fy_pc :: "nat \<Rightarrow> fdpc"
  fy_destroyed :: nat

text \<open>An operation that reports "no references left" makes its caller destroy the descriptor.\<close>

definition after_last :: "bool \<Rightarrow> fdpc" where
  "after_last last_one = (if last_one then PDestroy else PIdle)"

text \<open>What an operation does from a program counter; \<open>None\<close> where the thread cannot call it.\<close>

definition fd_op :: "fdop \<Rightarrow> fdpc \<Rightarrow> u64 \<Rightarrow> (fdpc \<times> u64) outcome option" where
  "fd_op opn p w = (case opn of
     OIncref \<Rightarrow> if p = PIdle
       then Some (map_outcome (\<lambda>(ok, w'). (if ok then PHold else PIdle, w')) (fdmu_incref w)) else None
   | ODecref \<Rightarrow> if p = PHold then Some (map_outcome (\<lambda>(l, w'). (after_last l, w')) (fdmu_decref w)) else None
   | OLock rd \<Rightarrow> if p = PIdle \<or> p = PRetry rd
       then Some (map_outcome (\<lambda>(r, w'). (case r of Some True \<Rightarrow> PLock rd | Some False \<Rightarrow> PIdle | None \<Rightarrow> PSleep rd, w'))
                    (fdmu_rwlock rd w)) else None
   | OUnlock rd \<Rightarrow> if p = PLock rd
       then Some (map_outcome (\<lambda>(l, wake, w'). (if wake then PWake rd l else after_last l, w')) (fdmu_rwunlock rd w)) else None
   | OClose \<Rightarrow> if p = PIdle
       then Some (map_outcome (\<lambda>(ok, w', nr, nw). (if ok then PClose nr nw else PIdle, w')) (fdmu_increfAndClose w)) else None)"

definition sema :: "bool \<Rightarrow> fdsys \<Rightarrow> nat" where
  "sema rd s = (if rd then fy_rsema s else fy_wsema s)"

definition set_sema :: "bool \<Rightarrow> nat \<Rightarrow> fdsys \<Rightarrow> fdsys" where
  "set_sema rd n s = (if rd then s\<lparr>fy_rsema := n\<rparr> else s\<lparr>fy_wsema := n\<rparr>)"

text \<open>A thread moves; arriving at \<open>PDestroy\<close> is the start of a destruction.\<close>

definition goto :: "nat \<Rightarrow> fdpc \<Rightarrow> fdsys \<Rightarrow> fdsys" where
  "goto t p s = s\<lparr>fy_pc := (fy_pc s)(t := p), fy_destroyed := fy_destroyed s + of_bool (p = PDestroy)\<rparr>"

inductive fd_step :: "nat \<Rightarrow> fdsys \<Rightarrow> fdsys \<Rightarrow> bool" for N where
  operate: "t < N \<Longrightarrow> fd_op opn (fy_pc s t) (fy_word s) = Some (Ret (p, w)) \<Longrightarrow> fd_step N s (goto t p (s\<lparr>fy_word := w\<rparr>))"
| panic: "t < N \<Longrightarrow> fd_op opn (fy_pc s t) (fy_word s) = Some (Throw e) \<Longrightarrow> fd_step N s (goto t PPanic s)"
| acquire: "t < N \<Longrightarrow> fy_pc s t = PSleep rd \<Longrightarrow> 0 < sema rd s
    \<Longrightarrow> fd_step N s (goto t (PRetry rd) (set_sema rd (sema rd s - 1) s))"
| release: "t < N \<Longrightarrow> fy_pc s t = PWake rd l \<Longrightarrow> fd_step N s (goto t (after_last l) (set_sema rd (Suc (sema rd s)) s))"
| wake_reader: "t < N \<Longrightarrow> fy_pc s t = PClose (Suc nr) nw
    \<Longrightarrow> fd_step N s (goto t (PClose nr nw) (set_sema True (Suc (sema True s)) s))"
| wake_writer: "t < N \<Longrightarrow> fy_pc s t = PClose 0 (Suc nw)
    \<Longrightarrow> fd_step N s (goto t (PClose 0 nw) (set_sema False (Suc (sema False s)) s))"
| closed: "t < N \<Longrightarrow> fy_pc s t = PClose 0 0 \<Longrightarrow> fd_step N s (goto t PHold s)"
| destroyed: "t < N \<Longrightarrow> fy_pc s t = PDestroy \<Longrightarrow> fd_step N s (goto t PIdle s)"

definition fd_init :: fdsys where
  "fd_init = \<lparr>fy_word = 0, fy_rsema = 0, fy_wsema = 0, fy_pc = (\<lambda>t. PIdle), fy_destroyed = 0\<rparr>"

inductive fd_reach :: "nat \<Rightarrow> fdsys \<Rightarrow> bool" for N where
  start: "fd_reach N fd_init"
| step: "fd_reach N s \<Longrightarrow> fd_step N s s' \<Longrightarrow> fd_reach N s'"

inductive_cases fd_stepE: "fd_step N s s'"

section \<open>What a thread contributes\<close>

definition w_ref :: "fdpc \<Rightarrow> nat" where
  "w_ref p = (case p of PHold \<Rightarrow> 1 | PLock rd \<Rightarrow> 1 | PClose nr nw \<Rightarrow> 1 | _ \<Rightarrow> 0)"

definition w_lock :: "bool \<Rightarrow> fdpc \<Rightarrow> nat" where "w_lock rd p = of_bool (p = PLock rd)"
definition w_sleep :: "bool \<Rightarrow> fdpc \<Rightarrow> nat" where "w_sleep rd p = of_bool (p = PSleep rd)"
definition w_retry :: "bool \<Rightarrow> fdpc \<Rightarrow> nat" where "w_retry rd p = of_bool (p = PRetry rd)"
definition w_panic :: "fdpc \<Rightarrow> nat" where "w_panic p = of_bool (p = PPanic)"

text \<open>Semaphore releases the thread still owes, and a destruction it is about to start.\<close>

definition w_pend :: "bool \<Rightarrow> fdpc \<Rightarrow> nat" where
  "w_pend rd p = (case p of PWake rd' l \<Rightarrow> of_bool (rd = rd') | PClose nr nw \<Rightarrow> (if rd then nr else nw) | _ \<Rightarrow> 0)"

definition w_last :: "fdpc \<Rightarrow> nat" where
  "w_last p = (case p of PWake rd l \<Rightarrow> of_bool l | _ \<Rightarrow> 0)"

lemmas weights = w_ref_def w_lock_def w_sleep_def w_retry_def w_panic_def w_pend_def w_last_def

definition tot :: "nat \<Rightarrow> (fdpc \<Rightarrow> nat) \<Rightarrow> fdsys \<Rightarrow> nat" where
  "tot N f s = (\<Sum>i<N. f (fy_pc s i))"

lemma tot_goto: "t < N \<Longrightarrow> tot N f (goto t p s) + f (fy_pc s t) = tot N f s + f p"
proof -
  assume t: "t < N"
  have "(\<Sum>i<N. f (((fy_pc s)(t := p)) i)) = f p + (\<Sum>i \<in> {..<N} - {t}. f (fy_pc s i))"
    using t by (subst sum.remove [of _ t]) auto
  moreover have "(\<Sum>i<N. f (fy_pc s i)) = f (fy_pc s t) + (\<Sum>i \<in> {..<N} - {t}. f (fy_pc s i))"
    using t by (subst sum.remove [of _ t]) auto
  ultimately show ?thesis by (simp add: tot_def goto_def)
qed

lemma tot_update [simp]: "tot N f (s\<lparr>fy_word := w\<rparr>) = tot N f s" "tot N f (set_sema rd n s) = tot N f s"
  by (simp_all add: tot_def set_sema_def)

lemma tot_ge: "t < N \<Longrightarrow> f (fy_pc s t) \<le> tot N f s"
  unfolding tot_def by (rule member_le_sum) auto

lemma tot_less: "t < N \<Longrightarrow> f (fy_pc s t) = 0 \<Longrightarrow> (\<And>p. f p \<le> 1) \<Longrightarrow> tot N f s < N"
proof -
  assume t: "t < N" and 0: "f (fy_pc s t) = 0" and 1: "\<And>p. f p \<le> 1"
  have "tot N f s = (\<Sum>i \<in> {..<N} - {t}. f (fy_pc s i))"
    unfolding tot_def using t 0 by (subst sum.remove [of _ t]) auto
  also have "\<dots> \<le> (\<Sum>i \<in> {..<N} - {t}. 1)" by (rule sum_mono) (rule 1)
  finally show ?thesis using t by simp
qed

section \<open>What a step of one thread balances\<close>

text \<open>The same operations on the record.\<close>

definition fs_op :: "fdop \<Rightarrow> fdpc \<Rightarrow> fdst \<Rightarrow> (fdpc \<times> fdst) outcome option" where
  "fs_op opn p a = (case opn of
     OIncref \<Rightarrow> if p = PIdle
       then Some (map_outcome (\<lambda>(ok, a'). (if ok then PHold else PIdle, a')) (fs_incref a)) else None
   | ODecref \<Rightarrow> if p = PHold then Some (map_outcome (\<lambda>(l, a'). (after_last l, a')) (fs_decref a)) else None
   | OLock rd \<Rightarrow> if p = PIdle \<or> p = PRetry rd
       then Some (map_outcome (\<lambda>(r, a'). (case r of Some True \<Rightarrow> PLock rd | Some False \<Rightarrow> PIdle | None \<Rightarrow> PSleep rd, a'))
                    (fs_lock rd a)) else None
   | OUnlock rd \<Rightarrow> if p = PLock rd
       then Some (map_outcome (\<lambda>(l, wake, a'). (if wake then PWake rd l else after_last l, a')) (fs_unlock rd a)) else None
   | OClose \<Rightarrow> if p = PIdle
       then Some (map_outcome (\<lambda>(ok, a', nr, nw). (if ok then PClose nr nw else PIdle, a')) (fs_close a)) else None)"

lemma fd_op_word:
  assumes "fdst_ok a"
  shows "fd_op opn p (word_of a) = map_option (map_outcome (map_prod id word_of)) (fs_op opn p a)"
  by (cases opn) (simp_all add: fd_op_def fs_op_def incref_word decref_word rwlock_word rwunlock_word close_word assms
      outcome.map_comp comp_def map_prod_def case_prod_beta cong: if_cong)

definition fd_bal :: "fdst \<Rightarrow> fdpc \<Rightarrow> fdst \<Rightarrow> fdpc \<Rightarrow> bool" where
  "fd_bal a p a' p' \<longleftrightarrow> a_ref a + w_ref p' = a_ref a' + w_ref p
     \<and> (\<forall>rd. of_bool (a_lock rd a) + w_lock rd p' = of_bool (a_lock rd a') + w_lock rd p)
     \<and> (\<forall>rd. w_sleep rd p' + a_wait rd a + w_pend rd p = w_sleep rd p + a_wait rd a' + w_pend rd p')
     \<and> (a_closed a' \<longrightarrow> (\<forall>rd. a_wait rd a' = 0))
     \<and> of_bool (a_closed a \<and> a_ref a = 0) + w_last p' + of_bool (p' = PDestroy) = of_bool (a_closed a' \<and> a_ref a' = 0) + w_last p
     \<and> w_panic p' = w_panic p
     \<and> (\<forall>rd. 0 < a_wait rd a' \<and> \<not> a_lock rd a' \<longrightarrow>
          0 < w_pend rd p' \<or> 0 < a_wait rd a \<and> \<not> a_lock rd a \<and> w_pend rd p = 0 \<and> w_retry rd p \<le> w_retry rd p')"

lemma a_wait_update [simp]:
  "a_wait rd (a\<lparr>a_ref := n\<rparr>) = a_wait rd a" "a_lock rd (a\<lparr>a_ref := n\<rparr>) = a_lock rd a"
  "a_lock rd' (set_lock rd b a) = (if rd' = rd then b else a_lock rd' a)"
  "a_wait rd' (set_wait rd n a) = (if rd' = rd then n else a_wait rd' a)"
  by (auto simp: a_wait_def a_lock_def set_lock_def set_wait_def)

lemma fs_op_balance:
  assumes cl: "a_closed a \<longrightarrow> (\<forall>rd. a_wait rd a = 0)" and opr: "fs_op opn p a = Some (Ret (p', a'))"
  shows "fd_bal a p a' p'"
proof (cases opn)
  case OIncref
  with opr cl show ?thesis
    by (auto simp: fs_op_def fs_incref_def fd_bal_def weights split: if_splits)
next
  case ODecref
  with opr cl show ?thesis
    by (auto simp: fs_op_def fs_decref_def fd_bal_def weights after_last_def split: if_splits)
next
  case (OLock rd)
  with opr have p: "p = PIdle \<or> p = PRetry rd" by (simp add: fs_op_def split: if_splits)
  from opr OLock consider "a_closed a" "p' = PIdle" "a' = a"
    | "\<not> a_closed a" "\<not> a_lock rd a" "p' = PLock rd" "a' = set_lock rd True (a\<lparr>a_ref := Suc (a_ref a)\<rparr>)"
    | "\<not> a_closed a" "a_lock rd a" "p' = PSleep rd" "a' = set_wait rd (Suc (a_wait rd a)) a"
    by (auto simp: fs_op_def fs_lock_def split: if_splits)
  then show ?thesis
  proof cases
    case 1
    with p cl show ?thesis by (elim disjE) (simp_all add: fd_bal_def weights)
  next
    case 2
    with p cl show ?thesis by (elim disjE) (simp_all add: fd_bal_def weights)
  next
    case 3
    then have nc: "\<not> a_closed a'" "a_ref a' = a_ref a" "\<And>rd'. a_lock rd' a' = a_lock rd' a"
      "\<And>rd'. a_wait rd' a' = a_wait rd' a + of_bool (rd' = rd)" by (simp_all (no_asm_simp))
    from p 3(1,2) show ?thesis unfolding 3(3) fd_bal_def nc(2-4)
      by (elim disjE; cases rd; auto simp: nc(1) weights all_bool_eq)
  qed
next
  case (OUnlock rd)
  let ?last = "a_closed a \<and> a_ref a = 1"
  from opr OUnlock have f: "p = PLock rd" "a_lock rd a" "0 < a_ref a"
    "p' = (if a_wait rd a \<noteq> 0 then PWake rd ?last else after_last ?last)"
    "a' = set_wait rd (a_wait rd a - 1) (set_lock rd False (a\<lparr>a_ref := a_ref a - 1\<rparr>))"
    by (auto simp: fs_op_def fs_unlock_def split: if_splits)
  have a': "a_closed a' = a_closed a" "a_ref a' = a_ref a - 1" "\<And>rd'. a_lock rd' a' = (a_lock rd' a \<and> rd' \<noteq> rd)"
    "\<And>rd'. a_wait rd' a' = a_wait rd' a - of_bool (rd' = rd)" unfolding f(5) by auto
  show ?thesis
    unfolding fd_bal_def a' f(1) f(4) using f(2,3) cl
    by (cases rd; cases "a_wait rd a = 0"; cases "a_closed a"; cases "a_ref a = 1")
      (simp_all add: weights all_bool_eq after_last_def)
next
  case OClose
  with opr have p: "p = PIdle" by (simp add: fs_op_def split: if_splits)
  from opr OClose consider "a_closed a" "p' = PIdle" "a' = a"
    | "\<not> a_closed a" "p' = PClose (a_rwait a) (a_wwait a)"
      "a' = a\<lparr>a_closed := True, a_ref := Suc (a_ref a), a_rwait := 0, a_wwait := 0\<rparr>"
    by (auto simp: fs_op_def fs_close_def split: if_splits)
  then show ?thesis
  proof cases
    case 1
    with p cl show ?thesis by (simp add: fd_bal_def weights)
  next
    case 2
    have a': "a_closed a'" "a_ref a' = Suc (a_ref a)" "\<And>rd. a_lock rd a' = a_lock rd a" "\<And>rd. a_wait rd a' = 0"
      unfolding 2(3) by (simp_all add: a_lock_def a_wait_def)
    from 2(1) show ?thesis
      unfolding fd_bal_def a'(2-4) p 2(2) by (simp add: weights a'(1) all_bool_eq a_wait_def)
  qed
qed

section \<open>The invariant\<close>

definition fd_inv :: "nat \<Rightarrow> fdst \<Rightarrow> fdsys \<Rightarrow> bool" where
  "fd_inv N a s \<longleftrightarrow> fy_word s = word_of a \<and> fdst_ok a
     \<and> a_ref a = tot N w_ref s
     \<and> (\<forall>rd. of_bool (a_lock rd a) = tot N (w_lock rd) s)
     \<and> (\<forall>rd. tot N (w_sleep rd) s = a_wait rd a + sema rd s + tot N (w_pend rd) s)
     \<and> (a_closed a \<longrightarrow> (\<forall>rd. a_wait rd a = 0))
     \<and> fy_destroyed s + tot N w_last s = of_bool (a_closed a \<and> a_ref a = 0)
     \<and> tot N w_panic s = 0
     \<and> (\<forall>rd. 0 < a_wait rd a \<and> \<not> a_lock rd a \<longrightarrow> 0 < sema rd s + tot N (w_pend rd) s + tot N (w_retry rd) s)"

lemma weights_le: "w_ref p \<le> 1" "w_lock rd p \<le> 1" "w_sleep rd p \<le> 1"
  by (simp_all add: weights split: fdpc.split)

lemma goto_fields [simp]:
  "fy_word (goto t p s) = fy_word s" "sema rd (goto t p s) = sema rd s"
  "fy_destroyed (goto t p s) = fy_destroyed s + of_bool (p = PDestroy)" "fy_word (set_sema rd n s) = fy_word s"
  "sema rd' (set_sema rd n s) = (if rd' = rd then n else sema rd' s)" "sema rd (s\<lparr>fy_word := w\<rparr>) = sema rd s"
  "fy_destroyed (set_sema rd n s) = fy_destroyed s" "fy_pc (set_sema rd n s) = fy_pc s"
  by (simp_all add: goto_def sema_def set_sema_def)

text \<open>The bound on the number of threads keeps every counter in its field.\<close>

lemma tot_le: "(\<And>p. f p \<le> 1) \<Longrightarrow> tot N f s \<le> N"
  unfolding tot_def using sum_mono [of "{..<N}" "\<lambda>i. f (fy_pc s i)" "\<lambda>i. 1"] by simp

lemma fd_operate_inv:
  assumes inv: "fd_inv N a s" and N: "N < 2 ^ 20" and t: "t < N"
    and opr: "fs_op opn (fy_pc s t) a = Some (Ret (p, a'))"
  shows "fd_inv N a' (goto t p (s\<lparr>fy_word := word_of a'\<rparr>))"
proof -
  let ?q = "fy_pc s t" and ?s = "goto t p (s\<lparr>fy_word := word_of a'\<rparr>)"
  have tg: "tot N f ?s + f ?q = tot N f s + f p" for f
    using tot_goto [OF t, of f p "s\<lparr>fy_word := word_of a'\<rparr>"] by simp
  have cl: "a_closed a \<longrightarrow> (\<forall>rd. a_wait rd a = 0)" using inv by (simp add: fd_inv_def)
  note bal = fs_op_balance [OF cl opr, unfolded fd_bal_def]
  have ref: "a_ref a' = tot N w_ref ?s" using tg [of w_ref] bal inv by (simp add: fd_inv_def)
  have lock: "of_bool (a_lock rd a') = tot N (w_lock rd) ?s" for rd
  proof -
    have "of_bool (a_lock rd a) = tot N (w_lock rd) s" using inv by (simp add: fd_inv_def)
    moreover have "of_bool (a_lock rd a) + w_lock rd p = of_bool (a_lock rd a') + w_lock rd ?q" using bal by blast
    ultimately show ?thesis using tg [of "w_lock rd"] by linarith
  qed
  have wt: "tot N (w_sleep rd) ?s = a_wait rd a' + sema rd ?s + tot N (w_pend rd) ?s" for rd
  proof -
    have "tot N (w_sleep rd) s = a_wait rd a + sema rd s + tot N (w_pend rd) s" using inv by (simp add: fd_inv_def)
    moreover have "w_sleep rd p + a_wait rd a + w_pend rd ?q = w_sleep rd ?q + a_wait rd a' + w_pend rd p" using bal by blast
    moreover have "sema rd ?s = sema rd s" by simp
    ultimately show ?thesis using tg [of "w_sleep rd"] tg [of "w_pend rd"] by linarith
  qed
  have last: "fy_destroyed ?s + tot N w_last ?s = of_bool (a_closed a' \<and> a_ref a' = 0)"
  proof -
    have "fy_destroyed s + tot N w_last s = of_bool (a_closed a \<and> a_ref a = 0)" using inv by (simp add: fd_inv_def)
    moreover have "of_bool (a_closed a \<and> a_ref a = 0) + w_last p + of_bool (p = PDestroy)
        = of_bool (a_closed a' \<and> a_ref a' = 0) + w_last ?q" using bal by blast
    moreover have "fy_destroyed ?s = fy_destroyed s + of_bool (p = PDestroy)" by simp
    ultimately show ?thesis using tg [of w_last] by linarith
  qed
  have panic: "tot N w_panic ?s = 0" using tg [of w_panic] bal inv by (simp add: fd_inv_def)
  have "a_ref a' < 2 ^ 20" using ref tot_le [of w_ref N ?s] weights_le N by simp
  moreover have "a_wait rd a' < 2 ^ 20" for rd
    using wt [of rd] tot_le [of "w_sleep rd" N ?s] weights_le N by simp
  from this [of True] this [of False] have "a_rwait a' < 2 ^ 20" "a_wwait a' < 2 ^ 20" by (simp_all add: a_wait_def)
  ultimately have ok: "fdst_ok a'" by (simp add: fdst_ok_def)
  have live: "0 < sema rd ?s + tot N (w_pend rd) ?s + tot N (w_retry rd) ?s" if "0 < a_wait rd a'" "\<not> a_lock rd a'" for rd
  proof (cases "0 < w_pend rd p")
    case True
    moreover have "w_pend rd (fy_pc ?s t) \<le> tot N (w_pend rd) ?s" by (rule tot_ge [OF t])
    ultimately show ?thesis by (simp add: goto_def)
  next
    case False
    with bal that have "0 < a_wait rd a" "\<not> a_lock rd a" "w_pend rd ?q = 0" "w_retry rd ?q \<le> w_retry rd p" by auto
    moreover from this(1,2) inv have "0 < sema rd s + tot N (w_pend rd) s + tot N (w_retry rd) s" by (simp add: fd_inv_def)
    moreover have "sema rd ?s = sema rd s" by simp
    ultimately show ?thesis using tg [of "w_pend rd"] tg [of "w_retry rd"] by linarith
  qed
  show ?thesis
    unfolding fd_inv_def using ref lock wt last panic ok live bal by (auto simp: goto_def)
qed

text \<open>An operation never panics: what it needs is there, and no counter is full.\<close>

lemma fd_operate_no_panic:
  assumes inv: "fd_inv N a s" and N: "N < 2 ^ 20" and t: "t < N"
  shows "fs_op opn (fy_pc s t) a \<noteq> Some (Throw e)"
proof
  let ?q = "fy_pc s t"
  assume opr: "fs_op opn ?q a = Some (Throw e)"
  have ref: "a_ref a = tot N w_ref s" and lock: "\<And>rd. of_bool (a_lock rd a) = tot N (w_lock rd) s"
    and wt: "\<And>rd. tot N (w_sleep rd) s = a_wait rd a + sema rd s + tot N (w_pend rd) s"
    using inv by (simp_all add: fd_inv_def)
  have few: "a_ref a < N" if "w_ref ?q = 0" using tot_less [OF t, of w_ref s] that weights_le ref by simp
  have fewer: "a_wait rd a < N" if "w_sleep rd ?q = 0" for rd
    using tot_less [OF t, of "w_sleep rd" s] that weights_le wt [of rd] by simp
  have one: "w_ref ?q \<le> a_ref a" "w_lock rd ?q \<le> of_bool (a_lock rd a)" for rd
    using tot_ge [OF t, of w_ref s] tot_ge [OF t, of "w_lock rd" s] ref lock [of rd] by simp_all
  show False
  proof (cases opn)
    case OIncref
    with opr few N show ?thesis by (auto simp: fs_op_def fs_incref_def w_ref_def split: if_splits)
  next
    case ODecref
    with opr one(1) show ?thesis by (auto simp: fs_op_def fs_decref_def w_ref_def split: if_splits)
  next
    case (OLock rd)
    with opr few fewer [of rd] N show ?thesis
      by (auto simp: fs_op_def fs_lock_def w_ref_def w_sleep_def split: if_splits)
  next
    case (OUnlock rd)
    with opr one(1) one(2) [of rd] show ?thesis
      by (auto simp: fs_op_def fs_unlock_def w_ref_def w_lock_def split: if_splits)
  next
    case OClose
    with opr few N show ?thesis by (auto simp: fs_op_def fs_close_def w_ref_def split: if_splits)
  qed
qed

section \<open>Moves that leave the word alone\<close>

lemma fd_move_inv:
  assumes inv: "fd_inv N a s" and t: "t < N" and q: "fy_pc s t = q" and s': "s' = goto t p (set_sema rd n s)"
    and w: "w_ref p = w_ref q" "\<And>r. w_lock r p = w_lock r q" "w_last q = w_last p + of_bool (p = PDestroy)" "w_panic p = w_panic q"
    and sl: "\<And>r. w_sleep r p + sema r s + w_pend r q = w_sleep r q + sema r s' + w_pend r p"
    and live: "\<And>r. sema r s + w_pend r q + w_retry r q \<le> sema r s' + w_pend r p + w_retry r p"
  shows "fd_inv N a s'"
proof -
  have tg: "tot N f s' + f q = tot N f s + f p" for f
    using tot_goto [OF t, of f p "set_sema rd n s"] q by (simp add: s')
  have d: "fy_word s' = fy_word s" "fy_destroyed s' = fy_destroyed s + of_bool (p = PDestroy)" by (simp_all add: s')
  have "fdst_ok a" and word: "fy_word s' = word_of a" and cl: "a_closed a \<longrightarrow> (\<forall>rd. a_wait rd a = 0)"
    using inv d(1) by (simp_all add: fd_inv_def)
  moreover have "a_ref a = tot N w_ref s'" using inv tg [of w_ref] w(1) by (simp add: fd_inv_def)
  moreover have "of_bool (a_lock r a) = tot N (w_lock r) s'" for r using inv tg [of "w_lock r"] w(2) by (simp add: fd_inv_def)
  moreover have "tot N (w_sleep r) s' = a_wait r a + sema r s' + tot N (w_pend r) s'" for r
  proof -
    have "tot N (w_sleep r) s = a_wait r a + sema r s + tot N (w_pend r) s" using inv by (simp add: fd_inv_def)
    then show ?thesis using tg [of "w_sleep r"] tg [of "w_pend r"] sl [of r] by linarith
  qed
  moreover have "fy_destroyed s' + tot N w_last s' = of_bool (a_closed a \<and> a_ref a = 0)"
  proof -
    have "fy_destroyed s + tot N w_last s = of_bool (a_closed a \<and> a_ref a = 0)" using inv by (simp add: fd_inv_def)
    then show ?thesis using tg [of w_last] w(3) d(2) by linarith
  qed
  moreover have "tot N w_panic s' = 0" using inv tg [of w_panic] w(4) by (simp add: fd_inv_def)
  moreover have "0 < sema r s' + tot N (w_pend r) s' + tot N (w_retry r) s'" if "0 < a_wait r a" "\<not> a_lock r a" for r
  proof -
    have "0 < sema r s + tot N (w_pend r) s + tot N (w_retry r) s" using inv that by (simp add: fd_inv_def)
    moreover have "w_pend r q \<le> tot N (w_pend r) s" "w_retry r q \<le> tot N (w_retry r) s"
      using tot_ge [OF t, of "w_pend r" s] tot_ge [OF t, of "w_retry r" s] q by simp_all
    ultimately show ?thesis using tg [of "w_pend r"] tg [of "w_retry r"] live [of r] by linarith
  qed
  ultimately show ?thesis unfolding fd_inv_def by auto
qed

lemma set_sema_same: "set_sema rd (sema rd s) s = s"
  by (cases s) (simp add: set_sema_def sema_def)

lemma fd_step_inv:
  assumes "fd_step N s s'" and inv: "fd_inv N a s" and N: "N < 2 ^ 20"
  shows "\<exists>a'. fd_inv N a' s'"
  using assms(1)
proof cases
  case (operate t opn p w)
  have ok: "fdst_ok a" "fy_word s = word_of a" using inv by (simp_all add: fd_inv_def)
  with operate(3) obtain x where x: "fs_op opn (fy_pc s t) a = Some x" "map_outcome (map_prod id word_of) x = Ret (p, w)"
    by (auto simp: fd_op_word)
  then obtain a' where "x = Ret (p, a')" "w = word_of a'" by (cases x) auto
  with fd_operate_inv [OF inv N operate(2)] x(1) operate(1) show ?thesis by blast
next
  case (panic t opn e)
  have ok: "fdst_ok a" "fy_word s = word_of a" using inv by (simp_all add: fd_inv_def)
  with panic(3) obtain x where x: "fs_op opn (fy_pc s t) a = Some x" "map_outcome (map_prod id word_of) x = Throw e"
    by (auto simp: fd_op_word)
  then have "x = Throw e" by (cases x) auto
  with fd_operate_no_panic [OF inv N panic(2)] x(1) show ?thesis by blast
next
  case (acquire t rd)
  have "fd_inv N a s'" by (rule fd_move_inv [OF inv acquire(2,3,1)]) (use acquire in \<open>auto simp: weights\<close>)
  then show ?thesis ..
next
  case (release t rd l)
  have "fd_inv N a s'" by (rule fd_move_inv [OF inv release(2,3,1)]) (use release in \<open>auto simp: weights after_last_def\<close>)
  then show ?thesis ..
next
  case (wake_reader t nr nw)
  have "fd_inv N a s'" by (rule fd_move_inv [OF inv wake_reader(2,3,1)]) (use wake_reader in \<open>auto simp: weights\<close>)
  then show ?thesis ..
next
  case (wake_writer t nw)
  have "fd_inv N a s'" by (rule fd_move_inv [OF inv wake_writer(2,3,1)]) (use wake_writer in \<open>auto simp: weights\<close>)
  then show ?thesis ..
next
  case (closed t)
  then have "s' = goto t PHold (set_sema True (sema True s) s)" by (simp add: set_sema_same)
  then have "fd_inv N a s'" by (rule fd_move_inv [OF inv closed(2,3)]) (use closed in \<open>auto simp: weights\<close>)
  then show ?thesis ..
next
  case (destroyed t)
  then have "s' = goto t PIdle (set_sema True (sema True s) s)" by (simp add: set_sema_same)
  then have "fd_inv N a s'" by (rule fd_move_inv [OF inv destroyed(2,3)]) (use destroyed in \<open>auto simp: weights\<close>)
  then show ?thesis ..
qed

lemma fd_reach_inv:
  assumes "fd_reach N s" and "N < 2 ^ 20"
  shows "\<exists>a. fd_inv N a s"
  using assms(1)
proof induction
  case start
  let ?a = "\<lparr>a_closed = False, a_rlock = False, a_wlock = False, a_ref = 0, a_rwait = 0, a_wwait = 0\<rparr>"
  have "fd_inv N ?a fd_init"
    by (simp add: fd_inv_def fd_init_def tot_def weights sema_def word_of_def enc_def fdst_ok_def a_lock_def a_wait_def)
  then show ?case by blast
next
  case (step s s')
  then show ?case using fd_step_inv assms(2) by blast
qed

section \<open>Properties\<close>

text \<open>The program counters that may use the descriptor's number.\<close>

definition uses_fd :: "fdpc \<Rightarrow> bool" where
  "uses_fd p \<longleftrightarrow> w_ref p \<noteq> 0"

lemma tot_two:
  assumes "t < N" and "u < N" and "t \<noteq> u"
  shows "f (fy_pc s t) + f (fy_pc s u) \<le> tot N f s"
proof -
  have "tot N f s = f (fy_pc s t) + (\<Sum>i \<in> {..<N} - {t}. f (fy_pc s i))"
    unfolding tot_def using assms by (subst sum.remove [of _ t]) auto
  moreover have "f (fy_pc s u) \<le> (\<Sum>i \<in> {..<N} - {t}. f (fy_pc s i))"
    using assms by (intro member_le_sum) auto
  ultimately show ?thesis by simp
qed

lemma tot_pos: "0 < tot N f s \<longleftrightarrow> (\<exists>t < N. 0 < f (fy_pc s t))"
  unfolding tot_def neq0_conv [symmetric] by auto

text \<open>C1: However fewer than 2^20 threads interleave their operations on a file descriptor's lock, at
  most one reader and one writer hold it at a time, no operation panics, and the descriptor is destroyed
  at most once, never while some thread still uses its number.\<close>

theorem fd_mutex_safety:
  assumes "fd_reach N s" and "N < 2 ^ 20"
  shows "(\<forall>t < N. \<forall>u < N. \<forall>rd. fy_pc s t = PLock rd \<and> fy_pc s u = PLock rd \<longrightarrow> t = u)
    \<and> (\<forall>t < N. fy_pc s t \<noteq> PPanic) \<and> fy_destroyed s \<le> 1 \<and> (\<forall>t < N. fy_destroyed s = 1 \<longrightarrow> \<not> uses_fd (fy_pc s t))"
proof (intro conjI allI impI)
  obtain a where inv: "fd_inv N a s" using fd_reach_inv [OF assms] ..
  then have lock: "tot N (w_lock rd) s \<le> 1" for rd unfolding fd_inv_def by (metis of_bool_less_eq_one)
  have d: "fy_destroyed s + tot N w_last s = of_bool (a_closed a \<and> a_ref a = 0)" and ref: "a_ref a = tot N w_ref s"
    and p: "tot N w_panic s = 0" using inv by (simp_all add: fd_inv_def)
  show "fy_destroyed s \<le> 1" using d by (cases "a_closed a \<and> a_ref a = 0") simp_all
  fix t assume t: "t < N"
  show "fy_pc s t \<noteq> PPanic" using tot_ge [OF t, of w_panic s] p by (auto simp: w_panic_def)
  show "\<not> uses_fd (fy_pc s t)" if "fy_destroyed s = 1"
  proof -
    have "of_bool (a_closed a \<and> a_ref a = 0) \<noteq> (0 :: nat)" using that d by linarith
    then have "a_ref a = 0" by simp
    then show ?thesis using ref tot_ge [OF t, of w_ref s] by (simp add: uses_fd_def)
  qed
  fix u rd assume u: "u < N" and "fy_pc s t = PLock rd \<and> fy_pc s u = PLock rd"
  then show "t = u" using tot_two [OF t u, of "w_lock rd" s] lock [of rd] by (cases "t = u") (auto simp: w_lock_def)
qed

text \<open>Two threads: one holds the read lock, the other sleeps on it.\<close>

definition two_readers :: fdsys where
  "two_readers = goto 1 (PSleep True) ((goto 0 (PLock True) (fd_init\<lparr>fy_word := 10\<rparr>))\<lparr>fy_word := 0x80000A\<rparr>)"

lemma two_readers_reach: "fd_reach 2 two_readers"
proof -
  have "fd_step 2 fd_init (goto 0 (PLock True) (fd_init\<lparr>fy_word := 10\<rparr>))"
    by (rule fd_step.operate [where opn = "OLock True"])
      (simp_all add: fd_op_def fdmu_rwlock_def mutexBit_def mutexMask_defs fd_init_def)
  moreover have "fd_step 2 (goto 0 (PLock True) (fd_init\<lparr>fy_word := 10\<rparr>)) two_readers"
    unfolding two_readers_def
    by (rule fd_step.operate [where opn = "OLock True"])
      (simp_all add: fd_op_def fdmu_rwlock_def mutexBit_def mutexMask_def mutexMask_defs mutexWait_def goto_def fd_init_def)
  ultimately show ?thesis using fd_reach.start fd_reach.step by meson
qed

theorem fd_mutex_safety_witness: "fy_destroyed two_readers \<le> 1 \<and> \<not> (fy_pc two_readers 1 = PLock True)"
  using fd_mutex_safety [OF two_readers_reach]
  by (auto simp: two_readers_def goto_def fd_init_def)

text \<open>C13: No wake-up is lost. A thread asleep in \<open>rwlock\<close> always has a token waiting on its semaphore, or
  some other thread holds the lock it waits for, is about to retry that lock, or still owes a release of
  that semaphore. Once the descriptor is closed there are exactly as many tokens, delivered or owed, as
  sleepers.\<close>

theorem fd_no_lost_wakeup:
  assumes "fd_reach N s" and "N < 2 ^ 20" and "t < N" and "fy_pc s t = PSleep rd"
  shows "(0 < sema rd s \<or> (\<exists>u < N. fy_pc s u = PLock rd \<or> fy_pc s u = PRetry rd \<or> 0 < w_pend rd (fy_pc s u)))
    \<and> (fy_word s AND mutexClosed \<noteq> 0 \<longrightarrow> tot N (w_sleep rd) s = sema rd s + tot N (w_pend rd) s)"
proof (intro conjI impI)
  obtain a where inv: "fd_inv N a s" using fd_reach_inv [OF assms(1,2)] ..
  then have sl: "tot N (w_sleep rd) s = a_wait rd a + sema rd s + tot N (w_pend rd) s"
    and lk: "of_bool (a_lock rd a) = tot N (w_lock rd) s"
    and lv: "0 < a_wait rd a \<and> \<not> a_lock rd a \<longrightarrow> 0 < sema rd s + tot N (w_pend rd) s + tot N (w_retry rd) s"
    and cl: "a_closed a \<longrightarrow> a_wait rd a = 0" and w: "fy_word s = word_of a" by (simp_all add: fd_inv_def)
  have "0 < tot N (w_sleep rd) s" using assms(3,4) by (auto simp: tot_pos w_sleep_def)
  with sl lv lk consider "0 < sema rd s" | "0 < tot N (w_pend rd) s" | "0 < tot N (w_lock rd) s" | "0 < tot N (w_retry rd) s"
    by (cases "a_lock rd a") fastforce+
  then show "0 < sema rd s \<or> (\<exists>u < N. fy_pc s u = PLock rd \<or> fy_pc s u = PRetry rd \<or> 0 < w_pend rd (fy_pc s u))"
    by cases (auto simp: tot_pos w_lock_def w_retry_def)
  assume "fy_word s AND mutexClosed \<noteq> 0"
  then have "a_closed a" using w word_of_flags(1) [of a] by simp
  with cl sl show "tot N (w_sleep rd) s = sema rd s + tot N (w_pend rd) s" by simp
qed

theorem fd_no_lost_wakeup_witness:
  "0 < sema True two_readers \<or> (\<exists>u < 2. fy_pc two_readers u = PLock True \<or> fy_pc two_readers u = PRetry True
     \<or> 0 < w_pend True (fy_pc two_readers u))"
  using fd_no_lost_wakeup [OF two_readers_reach, of 1 True] by (simp add: two_readers_def goto_def)

end
