(* ===== verification/Netpoll_Sync.thy ===== *)
theory Netpoll_Sync
  imports Qnx_Netpoll
begin

text \<open>
  The locking and waking protocol of \<open>runtime/netpoll_qnx.go\<close>, with the threads interleaved. A thread's
  program counter says where it is in \<open>netpoll\<close> (reached from \<open>findRunnable\<close> of \<open>runtime/proc.go\<close>, which lets
  one thread at a time block in it), in a change of the table (\<open>netpollopen\<close>, \<open>netpollclose\<close>, \<open>netpollarm\<close>,
  which share their prologue and differ in the change they make), or in \<open>netpollBreak\<close>. A step is one lock
  operation, one access to a shared variable or one system call. The table is of any type: a change is a
  function on it. A full pipe drops the byte, as a non-blocking \<open>write\<close> does.
\<close>

section \<open>Threads\<close>

datatype 'a npc =
    NIdle
  | NPollLock
  | NPollSet
  | NPollClear
  | NPollUnlock
  | NPolling
  | NDrain "'a \<Rightarrow> 'a"
  | NStoreSig "'a \<Rightarrow> 'a"
  | NDispatch "'a \<Rightarrow> 'a"
  | NPollDone
  | NPollRet
  | NChangeLock "'a \<Rightarrow> 'a"
  | NWake "'a \<Rightarrow> 'a"
  | NWrite "'a \<Rightarrow> 'a"
  | NChangeSet "'a \<Rightarrow> 'a"
  | NChangeUnlock "'a \<Rightarrow> 'a"
  | NChange "'a \<Rightarrow> 'a"
  | NChangeDone
  | NBreakCas
  | NBreakWrite

record 'a nsys =
  ny_pc :: "nat \<Rightarrow> 'a npc"
  ny_mtxpoll :: "nat option"
  ny_mtxset :: "nat option"
  ny_pending :: bool
  ny_sig :: bool
  ny_pipe :: nat
  ny_lastpoll :: bool
  ny_tab :: 'a
  ny_polled :: 'a
  ny_log :: "('a \<Rightarrow> 'a) list"

definition ngo :: "nat \<Rightarrow> 'a npc \<Rightarrow> 'a nsys \<Rightarrow> 'a nsys" where
  "ngo t p s = s\<lparr>ny_pc := (ny_pc s)(t := p)\<rparr>"

definition npipe_write :: "nat \<Rightarrow> 'a nsys \<Rightarrow> 'a nsys" where
  "npipe_write cap s = s\<lparr>ny_pipe := (if ny_pipe s < cap then Suc (ny_pipe s) else ny_pipe s)\<rparr>"

definition napply :: "('a \<Rightarrow> 'a) \<Rightarrow> 'a nsys \<Rightarrow> 'a nsys" where
  "napply f s = s\<lparr>ny_tab := f (ny_tab s), ny_log := ny_log s @ [f]\<rparr>"

text \<open>
  The flag says whether the step is a thread's own or comes from outside: the start of a call, or a \<open>poll\<close> that
  returns because a descriptor is ready, a signal came or the time is over. Without a pipe (\<open>cap = 0\<close>) the
  time of a poll is capped, so its return is then the thread's own step.
\<close>

inductive np_step :: "nat \<Rightarrow> nat \<Rightarrow> bool \<Rightarrow> 'a nsys \<Rightarrow> 'a nsys \<Rightarrow> bool" for N cap where
  poll_call: "t < N \<Longrightarrow> ny_pc s t = NIdle \<Longrightarrow> ny_lastpoll s \<Longrightarrow> np_step N cap False s (ngo t NPollLock (s\<lparr>ny_lastpoll := False\<rparr>))"
| poll_lock: "t < N \<Longrightarrow> ny_pc s t = NPollLock \<Longrightarrow> ny_mtxpoll s = None \<Longrightarrow> np_step N cap True s (ngo t NPollSet (s\<lparr>ny_mtxpoll := Some t\<rparr>))"
| poll_set: "t < N \<Longrightarrow> ny_pc s t = NPollSet \<Longrightarrow> ny_mtxset s = None \<Longrightarrow> np_step N cap True s (ngo t NPollClear (s\<lparr>ny_mtxset := Some t\<rparr>))"
| poll_clear: "t < N \<Longrightarrow> ny_pc s t = NPollClear \<Longrightarrow> np_step N cap True s (ngo t NPollUnlock (s\<lparr>ny_pending := False\<rparr>))"
| poll_unlock: "t < N \<Longrightarrow> ny_pc s t = NPollUnlock
    \<Longrightarrow> np_step N cap True s (ngo t NPolling (s\<lparr>ny_mtxpoll := None, ny_polled := ny_tab s\<rparr>))"
| poll_woken: "t < N \<Longrightarrow> ny_pc s t = NPolling \<Longrightarrow> 0 < ny_pipe s \<Longrightarrow> np_step N cap True s (ngo t (NDrain f) s)"
| poll_ready: "t < N \<Longrightarrow> ny_pc s t = NPolling \<Longrightarrow> np_step N cap (cap = 0) s (ngo t (NDispatch f) s)"
| poll_intr: "t < N \<Longrightarrow> ny_pc s t = NPolling \<Longrightarrow> np_step N cap False s (ngo t NPollDone s)"
| drain_byte: "t < N \<Longrightarrow> ny_pc s t = NDrain f \<Longrightarrow> 0 < ny_pipe s \<Longrightarrow> np_step N cap True s (s\<lparr>ny_pipe := ny_pipe s - 1\<rparr>)"
| drain_end: "t < N \<Longrightarrow> ny_pc s t = NDrain f \<Longrightarrow> ny_pipe s = 0 \<Longrightarrow> np_step N cap True s (ngo t (NStoreSig f) s)"
| store_sig: "t < N \<Longrightarrow> ny_pc s t = NStoreSig f \<Longrightarrow> np_step N cap True s (ngo t (NDispatch f) (s\<lparr>ny_sig := False\<rparr>))"
| dispatch: "t < N \<Longrightarrow> ny_pc s t = NDispatch f \<Longrightarrow> np_step N cap True s (ngo t NPollDone (napply f s))"
| poll_done: "t < N \<Longrightarrow> ny_pc s t = NPollDone \<Longrightarrow> np_step N cap True s (ngo t NPollRet (s\<lparr>ny_mtxset := None\<rparr>))"
| poll_ret: "t < N \<Longrightarrow> ny_pc s t = NPollRet \<Longrightarrow> np_step N cap True s (ngo t NIdle (s\<lparr>ny_lastpoll := True\<rparr>))"
| change_call: "t < N \<Longrightarrow> ny_pc s t = NIdle \<Longrightarrow> np_step N cap False s (ngo t (NChangeLock f) s)"
| change_lock: "t < N \<Longrightarrow> ny_pc s t = NChangeLock f \<Longrightarrow> ny_mtxpoll s = None
    \<Longrightarrow> np_step N cap True s (ngo t (NWake f) (s\<lparr>ny_mtxpoll := Some t\<rparr>))"
| change_wake: "t < N \<Longrightarrow> ny_pc s t = NWake f
    \<Longrightarrow> np_step N cap True s (if cap > 0 \<and> \<not> ny_pending s then ngo t (NWrite f) (s\<lparr>ny_pending := True\<rparr>) else ngo t (NChangeSet f) s)"
| change_write: "t < N \<Longrightarrow> ny_pc s t = NWrite f \<Longrightarrow> np_step N cap True s (ngo t (NChangeSet f) (npipe_write cap s))"
| change_set: "t < N \<Longrightarrow> ny_pc s t = NChangeSet f \<Longrightarrow> ny_mtxset s = None
    \<Longrightarrow> np_step N cap True s (ngo t (NChangeUnlock f) (s\<lparr>ny_mtxset := Some t\<rparr>))"
| change_unlock: "t < N \<Longrightarrow> ny_pc s t = NChangeUnlock f \<Longrightarrow> np_step N cap True s (ngo t (NChange f) (s\<lparr>ny_mtxpoll := None\<rparr>))"
| change: "t < N \<Longrightarrow> ny_pc s t = NChange f \<Longrightarrow> np_step N cap True s (ngo t NChangeDone (napply f s))"
| change_done: "t < N \<Longrightarrow> ny_pc s t = NChangeDone \<Longrightarrow> np_step N cap True s (ngo t NIdle (s\<lparr>ny_mtxset := None\<rparr>))"
| break_call: "t < N \<Longrightarrow> ny_pc s t = NIdle \<Longrightarrow> 0 < cap \<Longrightarrow> np_step N cap False s (ngo t NBreakCas s)"
| break_cas: "t < N \<Longrightarrow> ny_pc s t = NBreakCas
    \<Longrightarrow> np_step N cap True s (if ny_sig s then ngo t NIdle s else ngo t NBreakWrite (s\<lparr>ny_sig := True\<rparr>))"
| break_write: "t < N \<Longrightarrow> ny_pc s t = NBreakWrite \<Longrightarrow> np_step N cap True s (ngo t NIdle (npipe_write cap s))"

definition np_start :: "'a \<Rightarrow> 'a nsys" where
  "np_start tab = \<lparr>ny_pc = (\<lambda>t. NIdle), ny_mtxpoll = None, ny_mtxset = None, ny_pending = False, ny_sig = False, ny_pipe = 0,
     ny_lastpoll = True, ny_tab = tab, ny_polled = tab, ny_log = []\<rparr>"

inductive np_reach :: "nat \<Rightarrow> nat \<Rightarrow> 'a \<Rightarrow> 'a nsys \<Rightarrow> bool" for N cap tab where
  start: "np_reach N cap tab (np_start tab)"
| step: "np_reach N cap tab s \<Longrightarrow> np_step N cap own s s' \<Longrightarrow> np_reach N cap tab s'"

inductive_cases np_stepE: "np_step N cap own s s'"

lemma ngo_simps [simp]:
  "ny_pc (ngo t p s) = (ny_pc s)(t := p)" "ny_mtxpoll (ngo t p s) = ny_mtxpoll s" "ny_mtxset (ngo t p s) = ny_mtxset s"
  "ny_pending (ngo t p s) = ny_pending s" "ny_sig (ngo t p s) = ny_sig s" "ny_pipe (ngo t p s) = ny_pipe s"
  "ny_lastpoll (ngo t p s) = ny_lastpoll s" "ny_tab (ngo t p s) = ny_tab s" "ny_polled (ngo t p s) = ny_polled s" "ny_log (ngo t p s) = ny_log s"
  by (simp_all add: ngo_def)

lemma npipe_write_simps [simp]:
  "ny_pc (npipe_write c s) = ny_pc s" "ny_mtxpoll (npipe_write c s) = ny_mtxpoll s" "ny_mtxset (npipe_write c s) = ny_mtxset s"
  "ny_pending (npipe_write c s) = ny_pending s" "ny_sig (npipe_write c s) = ny_sig s" "ny_lastpoll (npipe_write c s) = ny_lastpoll s"
  "ny_tab (npipe_write c s) = ny_tab s" "ny_polled (npipe_write c s) = ny_polled s" "ny_log (npipe_write c s) = ny_log s"
  by (simp_all add: npipe_write_def)

lemma npipe_write_pos: "0 < c \<Longrightarrow> 0 < ny_pipe (npipe_write c s)"
  by (auto simp: npipe_write_def)

lemma napply_simps [simp]:
  "ny_pc (napply f s) = ny_pc s" "ny_mtxpoll (napply f s) = ny_mtxpoll s" "ny_mtxset (napply f s) = ny_mtxset s"
  "ny_pending (napply f s) = ny_pending s" "ny_sig (napply f s) = ny_sig s" "ny_pipe (napply f s) = ny_pipe s"
  "ny_lastpoll (napply f s) = ny_lastpoll s" "ny_tab (napply f s) = f (ny_tab s)" "ny_polled (napply f s) = ny_polled s" "ny_log (napply f s) = ny_log s @ [f]"
  by (simp_all add: napply_def)

section \<open>Who holds which lock\<close>

definition holds_poll :: "'a npc \<Rightarrow> bool" where
  "holds_poll p = (case p of NPollSet \<Rightarrow> True | NPollClear \<Rightarrow> True | NPollUnlock \<Rightarrow> True | NWake f \<Rightarrow> True | NWrite f \<Rightarrow> True
     | NChangeSet f \<Rightarrow> True | NChangeUnlock f \<Rightarrow> True | _ \<Rightarrow> False)"

definition holds_set :: "'a npc \<Rightarrow> bool" where
  "holds_set p = (case p of NPollClear \<Rightarrow> True | NPollUnlock \<Rightarrow> True | NPolling \<Rightarrow> True | NDrain f \<Rightarrow> True | NStoreSig f \<Rightarrow> True
     | NDispatch f \<Rightarrow> True | NPollDone \<Rightarrow> True | NChangeUnlock f \<Rightarrow> True | NChange f \<Rightarrow> True | NChangeDone \<Rightarrow> True | _ \<Rightarrow> False)"

definition is_poller :: "'a npc \<Rightarrow> bool" where
  "is_poller p = (case p of NPollLock \<Rightarrow> True | NPollSet \<Rightarrow> True | NPollClear \<Rightarrow> True | NPollUnlock \<Rightarrow> True | NPolling \<Rightarrow> True
     | NDrain f \<Rightarrow> True | NStoreSig f \<Rightarrow> True | NDispatch f \<Rightarrow> True | NPollDone \<Rightarrow> True | NPollRet \<Rightarrow> True | _ \<Rightarrow> False)"

lemmas npc_defs = holds_poll_def holds_set_def is_poller_def

definition locks_ok :: "'a nsys \<Rightarrow> bool" where
  "locks_ok s \<longleftrightarrow> (\<forall>t. holds_poll (ny_pc s t) \<longleftrightarrow> ny_mtxpoll s = Some t) \<and> (\<forall>t. holds_set (ny_pc s t) \<longleftrightarrow> ny_mtxset s = Some t)"

lemma locks_step:
  assumes "np_step N cap own s s'" and "locks_ok s"
  shows "locks_ok s'"
  using assms(1)
  by (rule np_stepE; use assms(2) in \<open>force simp: locks_ok_def npc_defs split: if_splits\<close>)

lemma locks_unique:
  assumes "locks_ok s"
  shows "holds_poll (ny_pc s t) \<Longrightarrow> holds_poll (ny_pc s u) \<Longrightarrow> t = u" and "holds_set (ny_pc s t) \<Longrightarrow> holds_set (ny_pc s u) \<Longrightarrow> t = u"
  using assms by (auto simp: locks_ok_def)

section \<open>One poller\<close>

definition one_poller :: "'a nsys \<Rightarrow> bool" where
  "one_poller s \<longleftrightarrow> (\<forall>t u. is_poller (ny_pc s t) \<and> is_poller (ny_pc s u) \<longrightarrow> t = u) \<and> (ny_lastpoll s \<longrightarrow> (\<forall>t. \<not> is_poller (ny_pc s t)))"

lemma one_poller_move:
  assumes "one_poller s" and "ny_pc r = ny_pc s" and "ny_lastpoll r = ny_lastpoll s" and "is_poller p \<Longrightarrow> is_poller (ny_pc s t)"
  shows "one_poller (ngo t p r)"
proof -
  have "is_poller (ny_pc (ngo t p r) u) \<Longrightarrow> is_poller (ny_pc s u)" for u using assms(2,4) by (cases "u = t") simp_all
  then show ?thesis using assms(1,3) unfolding one_poller_def by (metis ngo_simps(7))
qed

lemma one_poller_step:
  assumes "np_step N cap own s s'" and "one_poller s"
  shows "one_poller s'"
  using assms(1)
proof (cases rule: np_step.cases)
  case (poll_call t)
  then show ?thesis using assms(2) by (auto simp: one_poller_def)
next
  case (poll_ret t)
  then show ?thesis using assms(2) by (auto simp: one_poller_def is_poller_def [of NPollRet] is_poller_def [of NIdle])
next
  case (change_wake t f)
  then show ?thesis by (auto intro!: one_poller_move [OF assms(2)] simp: is_poller_def)
next
  case (break_cas t)
  then show ?thesis by (auto intro!: one_poller_move [OF assms(2)] simp: is_poller_def)
next
  case (drain_byte t f)
  then show ?thesis using assms(2) by (simp add: one_poller_def)
qed (auto intro!: one_poller_move [OF assms(2)] simp: is_poller_def)

section \<open>Nobody waits for a sleeping poller\<close>

definition wake_ok :: "nat \<Rightarrow> 'a nsys \<Rightarrow> bool" where
  "wake_ok cap s \<longleftrightarrow> (\<forall>t. ny_pc s t = NPollUnlock \<longrightarrow> \<not> ny_pending s)
     \<and> (0 < cap \<longrightarrow> (\<forall>t f. ny_pc s t = NWrite f \<or> ny_pc s t = NChangeSet f \<longrightarrow> ny_pending s))
     \<and> (0 < cap \<and> ny_pending s \<longrightarrow> (\<forall>t. ny_pc s t = NPolling \<longrightarrow> 0 < ny_pipe s \<or> (\<exists>u f. ny_pc s u = NWrite f)))"

lemma poll_alone:
  assumes "locks_ok s" and "holds_poll (ny_pc s t)" and "u \<noteq> t"
  shows "ny_pc s u \<noteq> NPollUnlock" and "ny_pc s u \<noteq> NWrite f" and "ny_pc s u \<noteq> NChangeSet f"
  using locks_unique(1) [OF assms(1,2), of u] assms(3) by (auto simp: holds_poll_def split: npc.splits)

lemma set_alone:
  assumes "locks_ok s" and "holds_set (ny_pc s t)" and "u \<noteq> t"
  shows "ny_pc s u \<noteq> NPolling" and "ny_pc s u \<noteq> NDrain f" and "ny_pc s u \<noteq> NStoreSig f"
  using locks_unique(2) [OF assms(1,2), of u] assms(3) by (auto simp: holds_set_def split: npc.splits)

lemma wake_move:
  assumes "wake_ok cap s" and "ny_pc r = ny_pc s" and "ny_pending r = ny_pending s" and "ny_pipe s \<le> ny_pipe r"
    and "p \<noteq> NPollUnlock" and "p \<noteq> NPolling" and "\<And>f. p \<noteq> NWrite f \<and> p \<noteq> NChangeSet f" and "\<And>f. ny_pc s t \<noteq> NWrite f"
  shows "wake_ok cap (ngo t p r)"
proof -
  have "ny_pc (ngo t p r) u = q \<Longrightarrow> q \<noteq> p \<Longrightarrow> ny_pc s u = q" for u q using assms(2) by (auto split: if_splits)
  moreover have "\<exists>f. ny_pc (ngo t p r) u = NWrite f" if "\<exists>f. ny_pc s u = NWrite f" for u using that assms(2,8) by auto
  ultimately show ?thesis using assms(1,3-7) unfolding wake_ok_def by (metis ngo_simps(4,6) order_less_le_trans)
qed

lemma wake_step:
  assumes "np_step N cap own s s'" and "locks_ok s" and "wake_ok cap s"
  shows "wake_ok cap s'"
  using assms(1)
proof (cases rule: np_step.cases)
  case (poll_clear t)
  then have "holds_poll (ny_pc s t)" by (simp add: holds_poll_def)
  from poll_alone [OF assms(2) this] poll_clear show ?thesis using assms(3) by (auto simp: wake_ok_def)
next
  case (drain_byte t f)
  then have "holds_set (ny_pc s t)" by (simp add: holds_set_def)
  from set_alone(1) [OF assms(2) this] drain_byte assms(3) have "ny_pc s u \<noteq> NPolling" for u by (cases "u = t") auto
  with drain_byte assms(3) show ?thesis by (auto simp: wake_ok_def)
next
  case (change_wake t f)
  then have "holds_poll (ny_pc s t)" by (simp add: holds_poll_def)
  note alone = poll_alone [OF assms(2) this]
  have "ny_pc s u \<noteq> NWrite g" for u g using alone(2) [of u g] change_wake by (cases "u = t") auto
  with alone change_wake show ?thesis using assms(3) by (auto simp: wake_ok_def)
next
  case (change_write t f)
  then have "holds_poll (ny_pc s t)" by (simp add: holds_poll_def)
  from poll_alone [OF assms(2) this] change_write show ?thesis using assms(3) npipe_write_pos [of cap s] by (auto simp: wake_ok_def)
next
  case (break_write t)
  then show ?thesis using assms(3) npipe_write_pos [of cap s] by (auto simp: wake_ok_def)
next
  case (poll_unlock t)
  then show ?thesis using assms(3) by (auto simp: wake_ok_def)
next
  case (break_cas t)
  then show ?thesis by (auto intro!: wake_move [OF assms(3)])
next
  case (poll_ready t f)
  then show ?thesis using wake_move [OF assms(3) refl refl order_refl, of "NDispatch f" t] by auto
qed (auto intro!: wake_move [OF assms(3)])

section \<open>A break is not lost\<close>

definition is_break :: "'a npc \<Rightarrow> bool" where
  "is_break p \<longleftrightarrow> p = NBreakCas \<or> p = NBreakWrite"

definition attends :: "'a npc \<Rightarrow> bool" where
  "attends p = (case p of NBreakWrite \<Rightarrow> True | NDrain f \<Rightarrow> True | NStoreSig f \<Rightarrow> True | _ \<Rightarrow> False)"

definition break_ok :: "nat \<Rightarrow> 'a nsys \<Rightarrow> bool" where
  "break_ok cap s \<longleftrightarrow> (\<forall>t. is_break (ny_pc s t) \<longrightarrow> 0 < cap) \<and> (ny_sig s \<longrightarrow> 0 < ny_pipe s \<or> (\<exists>u. attends (ny_pc s u)))"

lemma break_move:
  assumes ok: "break_ok cap s" and r: "ny_pc r = ny_pc s" "ny_sig r \<Longrightarrow> ny_sig s" "ny_pipe s \<le> ny_pipe r"
    and p: "is_break p \<Longrightarrow> 0 < cap" "attends (ny_pc s t) \<Longrightarrow> attends p \<or> 0 < ny_pipe r"
  shows "break_ok cap (ngo t p r)"
proof -
  have "is_break (ny_pc (ngo t p r) u) \<Longrightarrow> 0 < cap" for u using ok p(1) r(1) by (auto simp: break_ok_def split: if_splits)
  moreover have "0 < ny_pipe r \<or> (\<exists>u. attends (ny_pc (ngo t p r) u))" if "ny_sig r"
  proof -
    from ok r(2,3) that consider "0 < ny_pipe r" | u where "attends (ny_pc s u)" unfolding break_ok_def by (meson order_less_le_trans)
    then show ?thesis
    proof cases
      case (2 u)
      then show ?thesis using p(2) r(1) by (cases "u = t") (auto intro: exI [of _ u])
    qed simp
  qed
  ultimately show ?thesis by (simp add: break_ok_def)
qed

lemma break_step:
  assumes "np_step N cap own s s'" and "break_ok cap s"
  shows "break_ok cap s'"
  using assms(1)
proof (cases rule: np_step.cases)
  case (break_write t)
  with assms(2) have "is_break (ny_pc s t)" by (simp add: is_break_def)
  with assms(2) have "0 < ny_pipe (npipe_write cap s)" by (intro npipe_write_pos) (auto simp: break_ok_def)
  with break_write show ?thesis by (auto intro!: break_move [OF assms(2)] simp: is_break_def npipe_write_def)
next
  case (drain_byte t f)
  then have "\<exists>u. attends (ny_pc s u)" by (intro exI [of _ t]) (simp add: attends_def)
  with drain_byte assms(2) show ?thesis by (simp add: break_ok_def)
next
  case (store_sig t f)
  then show ?thesis using assms(2) by (auto simp: break_ok_def is_break_def)
next
  case (break_cas t)
  have "attends (ny_pc (ngo t NBreakWrite (s\<lparr>ny_sig := True\<rparr>)) t)" by (simp add: attends_def)
  moreover have "0 < cap" using assms(2) break_cas by (auto simp: break_ok_def is_break_def)
  moreover have "break_ok cap (ngo t NIdle s)" by (rule break_move [OF assms(2)]) (simp_all add: is_break_def attends_def break_cas)
  ultimately show ?thesis using break_cas by (auto simp: break_ok_def)
next
  case (poll_ready t f)
  then show ?thesis using break_move [OF assms(2) refl _ order_refl, of "NDispatch f" t] by (auto simp: is_break_def attends_def)
next
  case (change_wake t f)
  then show ?thesis
    using break_move [OF assms(2), of s "NChangeSet f" t] break_move [OF assms(2), of "s\<lparr>ny_pending := True\<rparr>" "NWrite f" t]
    by (auto simp: is_break_def attends_def)
qed (auto intro!: break_move [OF assms(2)] simp: npipe_write_def is_break_def attends_def)

section \<open>The table\<close>

definition table_ok :: "'a \<Rightarrow> 'a nsys \<Rightarrow> bool" where
  "table_ok tab s \<longleftrightarrow> ny_tab s = fold (\<lambda>f a. f a) (ny_log s) tab \<and> (\<forall>t. ny_pc s t = NPolling \<longrightarrow> ny_polled s = ny_tab s)"

lemma table_move:
  assumes "table_ok tab s" and "ny_pc r = ny_pc s" and "ny_tab r = ny_tab s" and "ny_log r = ny_log s" and "ny_polled r = ny_polled s"
    and "p \<noteq> NPolling"
  shows "table_ok tab (ngo t p r)"
  using assms by (auto simp: table_ok_def)

lemma table_step:
  assumes "np_step N cap own s s'" and "locks_ok s" and "table_ok tab s"
  shows "table_ok tab s'"
  using assms(1)
proof (cases rule: np_step.cases)
  case (dispatch t f)
  then have "holds_set (ny_pc s t)" by (simp add: holds_set_def)
  from set_alone(1) [OF assms(2) this] dispatch assms(3) show ?thesis by (auto simp: table_ok_def)
next
  case (change t f)
  then have "holds_set (ny_pc s t)" by (simp add: holds_set_def)
  from set_alone(1) [OF assms(2) this] change assms(3) show ?thesis by (auto simp: table_ok_def)
next
  case (poll_unlock t)
  then have "holds_set (ny_pc s t)" by (simp add: holds_set_def)
  from set_alone(1) [OF assms(2) this] poll_unlock assms(3) show ?thesis by (auto simp: table_ok_def)
next
  case (drain_byte t f)
  then show ?thesis using assms(3) by (simp add: table_ok_def)
qed (auto intro!: table_move [OF assms(3)])

lemma reach_inv:
  "np_reach N cap tab s \<Longrightarrow> locks_ok s \<and> one_poller s \<and> wake_ok cap s \<and> break_ok cap s \<and> table_ok tab s"
proof (induction rule: np_reach.induct)
  case start
  show ?case by (simp add: np_start_def locks_ok_def one_poller_def wake_ok_def break_ok_def table_ok_def npc_defs is_break_def)
next
  case (step s own s')
  then show ?case
    using locks_step [OF step.hyps(2)] one_poller_step [OF step.hyps(2)] wake_step [OF step.hyps(2)] break_step [OF step.hyps(2)]
      table_step [OF step.hyps(2)] by blast
qed

section \<open>Progress\<close>

text \<open>The steps a thread has left, a byte that it may still write counted twice.\<close>

fun nrank :: "'a npc \<Rightarrow> nat" where
  "nrank NIdle = 0" | "nrank NPollRet = 1" | "nrank NPollDone = 2" | "nrank (NDispatch f) = 3" | "nrank (NStoreSig f) = 4"
| "nrank (NDrain f) = 5" | "nrank NPolling = 6" | "nrank NPollUnlock = 7" | "nrank NPollClear = 8" | "nrank NPollSet = 9" | "nrank NPollLock = 10"
| "nrank NChangeDone = 1" | "nrank (NChange f) = 2" | "nrank (NChangeUnlock f) = 3" | "nrank (NChangeSet f) = 4"
| "nrank (NWrite f) = 6" | "nrank (NWake f) = 7" | "nrank (NChangeLock f) = 8" | "nrank NBreakWrite = 2" | "nrank NBreakCas = 3"

definition nleft :: "nat \<Rightarrow> 'a nsys \<Rightarrow> nat" where
  "nleft N s = (\<Sum>t<N. nrank (ny_pc s t)) + ny_pipe s"

lemma nrank_move:
  assumes "t < N"
  shows "(\<Sum>u<N. nrank (((ny_pc s)(t := p)) u)) + nrank (ny_pc s t) = (\<Sum>u<N. nrank (ny_pc s u)) + nrank p"
proof -
  have "(\<Sum>u<N. nrank (((ny_pc s)(t := p)) u)) = nrank p + (\<Sum>u \<in> {..<N} - {t}. nrank (ny_pc s u))"
    using assms by (subst sum.remove [of _ t]) auto
  moreover have "(\<Sum>u<N. nrank (ny_pc s u)) = nrank (ny_pc s t) + (\<Sum>u \<in> {..<N} - {t}. nrank (ny_pc s u))"
    using assms by (subst sum.remove [of _ t]) auto
  ultimately show ?thesis by simp
qed

lemma nleft_move:
  assumes "t < N" and "ny_pc r = ny_pc s" and "nrank p + ny_pipe r < nrank (ny_pc s t) + ny_pipe s"
  shows "nleft N (ngo t p r) < nleft N s"
  using nrank_move [OF assms(1), of s p] assms(2,3) by (simp add: nleft_def)

lemma nleft_decreases:
  assumes "np_step N cap own s s'" and "own"
  shows "nleft N s' < nleft N s"
  using assms(1)
proof (cases rule: np_step.cases)
  case (drain_byte t f)
  then show ?thesis by (simp add: nleft_def)
qed (use assms(2) in \<open>auto intro!: nleft_move simp: npipe_write_def split: if_splits\<close>)

text \<open>What only a lock, or a poll, can keep waiting.\<close>

definition waits :: "'a npc \<Rightarrow> bool" where
  "waits p = (case p of NIdle \<Rightarrow> True | NPollLock \<Rightarrow> True | NPollSet \<Rightarrow> True | NPolling \<Rightarrow> True | NChangeLock f \<Rightarrow> True | NChangeSet f \<Rightarrow> True
     | _ \<Rightarrow> False)"

lemma goes_on:
  assumes "t < N" and "\<not> waits (ny_pc s t)"
  shows "\<exists>s'. np_step N cap True s s'"
proof (cases "ny_pc s t")
  case (NDrain f)
  then show ?thesis using assms(1) drain_byte drain_end by (cases "ny_pipe s = 0") blast+
qed (use assms in \<open>auto simp: waits_def intro: np_step.intros\<close>)

lemma gets_poll:
  assumes "t < N" and "ny_mtxpoll s = None" and "ny_pc s t = NPollLock \<or> ny_pc s t = NChangeLock f"
  shows "\<exists>s'. np_step N cap True s s'"
  using assms poll_lock change_lock by blast

lemma gets_set:
  assumes "t < N" and "ny_mtxset s = None" and "ny_pc s t = NPollSet \<or> ny_pc s t = NChangeSet f"
  shows "\<exists>s'. np_step N cap True s s'"
  using assms poll_set change_set by blast

text \<open>Some thread can go on unless all that are left are in \<open>poll\<close> with nothing in the pipe.\<close>

lemma nprogress:
  assumes L: "locks_ok s" and P: "one_poller s" and W: "wake_ok cap s" and t: "t < N" "ny_pc s t \<noteq> NIdle" "ny_pc s t \<noteq> NPolling"
    and all: "\<And>u. ny_pc s u \<noteq> NIdle \<Longrightarrow> u < N"
  shows "\<exists>s'. np_step N cap True s s'"
proof (rule ccontr)
  assume stuck: "\<nexists>s'. np_step N cap True s s'"
  have blocked: "waits (ny_pc s u)" for u using goes_on [of u N s cap] all [of u] stuck by (cases "ny_pc s u = NIdle") (auto simp: waits_def)
  have set: "ny_pc s u = NPolling" if "ny_mtxset s = Some u" for u
  proof -
    have "holds_set (ny_pc s u)" using L that by (simp add: locks_ok_def)
    with blocked [of u] show ?thesis by (auto simp: holds_set_def waits_def split: npc.splits)
  qed
  have poll: "\<exists>f. ny_pc s u = NChangeSet f" "ny_mtxset s \<noteq> None" if "ny_mtxpoll s = Some u" for u
  proof -
    have h: "holds_poll (ny_pc s u)" using L that by (simp add: locks_ok_def)
    then have c: "ny_pc s u = NPollSet \<or> (\<exists>f. ny_pc s u = NChangeSet f)"
      using blocked [of u] by (auto simp: holds_poll_def waits_def split: npc.splits)
    then have "u < N" using all by auto
    with gets_set c stuck show m: "ny_mtxset s \<noteq> None" by blast
    then obtain v where v: "ny_mtxset s = Some v" by blast
    from set [OF v] have "is_poller (ny_pc s v)" "v \<noteq> u" using c by (auto simp: is_poller_def)
    then have "\<not> is_poller (ny_pc s u)" using P by (auto simp: one_poller_def)
    with c show "\<exists>f. ny_pc s u = NChangeSet f" by (auto simp: is_poller_def)
  qed
  have "ny_mtxpoll s \<noteq> None \<or> (\<exists>u. ny_mtxset s = Some u)"
  proof -
    from blocked [of t] t(2,3) consider "ny_pc s t = NPollLock" | f where "ny_pc s t = NChangeLock f" | "ny_pc s t = NPollSet" | f where "ny_pc s t = NChangeSet f"
      by (auto simp: waits_def split: npc.splits)
    then show ?thesis using gets_poll [OF t(1)] gets_set [OF t(1)] stuck by cases blast+
  qed
  then obtain v where v: "ny_mtxset s = Some v" "ny_pc s v = NPolling" using poll(2) set by (metis option.exhaust)
  then have vN: "v < N" using all by simp
  have "cap \<noteq> 0" using stuck poll_ready [OF vN v(2), of cap id] by (metis (full_types))
  then have pipe: "0 < cap" "ny_pipe s = 0" using stuck poll_woken [OF vN v(2), of cap id] by auto
  have "is_poller (ny_pc s v)" "v \<noteq> t" using v(2) t(3) by (auto simp: is_poller_def)
  then have np: "\<not> is_poller (ny_pc s t)" using P unfolding one_poller_def by blast
  with blocked [of t] t(2) consider f where "ny_pc s t = NChangeLock f" | f where "ny_pc s t = NChangeSet f"
    by (cases "ny_pc s t") (simp_all add: waits_def is_poller_def)
  then have "ny_mtxpoll s \<noteq> None"
  proof cases
    case (2 f)
    then have "holds_poll (ny_pc s t)" by (simp add: holds_poll_def)
    with L show ?thesis by (simp add: locks_ok_def)
  qed (use gets_poll [OF t(1)] stuck in blast)
  then obtain u f where u: "ny_mtxpoll s = Some u" "ny_pc s u = NChangeSet f" using poll(1) by blast
  then have "ny_pending s" using W pipe(1) unfolding wake_ok_def by blast
  with W pipe v(2) obtain w g where "ny_pc s w = NWrite g" unfolding wake_ok_def by auto
  with blocked [of w] show False by (simp add: waits_def)
qed

lemma reach_bound: "np_reach N cap tab s \<Longrightarrow> ny_pc s u \<noteq> NIdle \<Longrightarrow> u < N"
proof (induction rule: np_reach.induct)
  case (step s own s')
  show ?case using step.hyps(2)
    by (cases rule: np_step.cases) (use step.IH step.prems in \<open>auto split: if_splits\<close>)
qed (simp add: np_start_def)

lemma own_run_bound: "(np_step N cap True ^^ n) s s' \<Longrightarrow> n + nleft N s' \<le> nleft N s"
proof (induction n arbitrary: s')
  case (Suc n)
  then obtain r where "(np_step N cap True ^^ n) s r" and st: "np_step N cap True r s'" by auto
  with Suc.IH nleft_decreases [OF st] show ?case by fastforce
qed simp

lemma own_run_ends:
  "np_reach N cap tab s \<Longrightarrow> \<exists>s'. (np_step N cap True)\<^sup>*\<^sup>* s s' \<and> np_reach N cap tab s' \<and> (\<forall>t. ny_pc s' t = NIdle \<or> ny_pc s' t = NPolling)"
proof (induction "nleft N s" arbitrary: s rule: less_induct)
  case less
  note inv = reach_inv [OF less.prems]
  show ?case
  proof (cases "\<forall>t. ny_pc s t = NIdle \<or> ny_pc s t = NPolling")
    case False
    then obtain t where t: "ny_pc s t \<noteq> NIdle" "ny_pc s t \<noteq> NPolling" by blast
    obtain r where r: "np_step N cap True s r"
      using nprogress [of s cap t N] inv t reach_bound [OF less.prems] by blast
    from less.hyps [OF nleft_decreases [OF r] np_reach.step [OF less.prems r]] obtain s' where
      "(np_step N cap True)\<^sup>*\<^sup>* r s'" "np_reach N cap tab s'" "\<forall>t. ny_pc s' t = NIdle \<or> ny_pc s' t = NPolling" by auto
    with r show ?thesis by (meson converse_rtranclp_into_rtranclp)
  qed (use less.prems in blast)
qed

text \<open>A poller asleep with a thread behind it that has something to add.\<close>

definition poll_and_change :: "nat nsys" where
  "poll_and_change = \<lparr>ny_pc = (\<lambda>t. NIdle)(0 := NPolling, 1 := NChangeSet Suc), ny_mtxpoll = Some 1, ny_mtxset = Some 0, ny_pending = True,
     ny_sig = False, ny_pipe = 1, ny_lastpoll = False, ny_tab = 5, ny_polled = 5, ny_log = []\<rparr>"

lemma poll_and_change_reach: "np_reach 2 1 5 poll_and_change"
proof -
  define s1 :: "nat nsys" where "s1 = ngo 0 NPollLock ((np_start 5)\<lparr>ny_lastpoll := False\<rparr>)"
  define s2 where "s2 = ngo 0 NPollSet (s1\<lparr>ny_mtxpoll := Some 0\<rparr>)"
  define s3 where "s3 = ngo 0 NPollClear (s2\<lparr>ny_mtxset := Some 0\<rparr>)"
  define s4 where "s4 = ngo 0 NPollUnlock (s3\<lparr>ny_pending := False\<rparr>)"
  define s5 where "s5 = ngo 0 NPolling (s4\<lparr>ny_mtxpoll := None, ny_polled := ny_tab s4\<rparr>)"
  define s6 where "s6 = ngo 1 (NChangeLock Suc) s5"
  define s7 where "s7 = ngo 1 (NWake Suc) (s6\<lparr>ny_mtxpoll := Some 1\<rparr>)"
  define s8 where "s8 = ngo 1 (NWrite Suc) (s7\<lparr>ny_pending := True\<rparr>)"
  note d = np_start_def s1_def s2_def s3_def s4_def s5_def s6_def s7_def s8_def
  have "np_reach 2 1 5 s1" unfolding s1_def by (rule np_reach.step [OF np_reach.start poll_call]) (simp_all add: d)
  then have "np_reach 2 1 5 s2" unfolding s2_def by (rule np_reach.step [OF _ poll_lock]) (simp_all add: d)
  then have "np_reach 2 1 5 s3" unfolding s3_def by (rule np_reach.step [OF _ poll_set]) (simp_all add: d)
  then have "np_reach 2 1 5 s4" unfolding s4_def by (rule np_reach.step [OF _ poll_clear]) (simp_all add: d)
  then have "np_reach 2 1 5 s5" unfolding s5_def by (rule np_reach.step [OF _ poll_unlock]) (simp_all add: d)
  then have "np_reach 2 1 5 s6" unfolding s6_def by (rule np_reach.step [OF _ change_call]) (simp_all add: d)
  then have "np_reach 2 1 5 s7" unfolding s7_def by (rule np_reach.step [OF _ change_lock]) (simp_all add: d)
  moreover have "np_step 2 1 True s7 s8" using change_wake [of 1 2 s7 Suc 1] by (simp add: d)
  ultimately have "np_reach 2 1 5 s8" by (rule np_reach.step)
  then have "np_reach 2 1 5 (ngo 1 (NChangeSet Suc) (npipe_write 1 s8))" by (rule np_reach.step [OF _ change_write]) (simp_all add: d)
  moreover have "ngo 1 (NChangeSet Suc) (npipe_write 1 s8) = poll_and_change"
    by (simp add: d poll_and_change_def ngo_def npipe_write_def fun_eq_iff)
  ultimately show ?thesis by simp
qed

section \<open>Properties\<close>

text \<open>C11: However the threads of the runtime interleave, the poller's table has one user at a time: at most one
  thread is between taking and releasing \<open>mtxset\<close>, and one between taking and releasing \<open>mtxpoll\<close>; the array
  that \<open>poll\<close> works on is not changed while it runs; and the table is what the changes and dispatches make of
  the initial one when they are applied one after the other, none lost and none twice, so what all of them
  preserve holds throughout.\<close>

theorem netpoll_exclusive:
  assumes "np_reach N cap tab s"
  shows "(holds_set (ny_pc s t) \<and> holds_set (ny_pc s u) \<longrightarrow> t = u) \<and> (holds_poll (ny_pc s t) \<and> holds_poll (ny_pc s u) \<longrightarrow> t = u)
    \<and> (is_poller (ny_pc s t) \<and> is_poller (ny_pc s u) \<longrightarrow> t = u)
    \<and> (ny_pc s t = NPolling \<longrightarrow> ny_polled s = ny_tab s) \<and> ny_tab s = fold (\<lambda>f a. f a) (ny_log s) tab"
  using reach_inv [OF assms] locks_unique [of s t u] unfolding one_poller_def table_ok_def by blast

theorem netpoll_exclusive_witness:
  "holds_set (ny_pc poll_and_change 0) \<and> holds_poll (ny_pc poll_and_change 1) \<and> \<not> holds_set (ny_pc poll_and_change 1) \<and> ny_tab poll_and_change = 5"
  using netpoll_exclusive [OF poll_and_change_reach, of 0 1] by (simp add: poll_and_change_def npc_defs)

text \<open>C12: Nobody waits behind a sleeping poller. When a thread holds \<open>mtxpoll\<close> and waits for the \<open>mtxset\<close> of a thread
  that is inside \<open>poll\<close>, the pipe is not empty, so that poll returns; a pending break has its byte in the pipe
  or on its way, or the poller is already awake. Left to themselves the threads come to rest after a bounded
  number of steps in any order, and never before every change, break and return is complete: at rest each
  thread is idle or inside \<open>poll\<close>.\<close>

theorem netpoll_no_lost_wakeup:
  assumes "np_reach N cap tab s"
  shows "(0 < cap \<and> ny_pc s t = NPolling \<and> ny_pc s u = NChangeSet f \<longrightarrow> 0 < ny_pipe s)
    \<and> (ny_sig s \<longrightarrow> 0 < ny_pipe s \<or> (\<exists>u. attends (ny_pc s u)))
    \<and> ((np_step N cap True ^^ n) s s' \<longrightarrow> n \<le> nleft N s)
    \<and> ((\<nexists>r. np_step N cap True s r) \<longrightarrow> ny_pc s t = NIdle \<or> ny_pc s t = NPolling)
    \<and> (\<exists>r. (np_step N cap True)\<^sup>*\<^sup>* s r \<and> (\<forall>t. ny_pc r t = NIdle \<or> ny_pc r t = NPolling))"
proof -
  have inv: "locks_ok s" "one_poller s" "wake_ok cap s" "break_ok cap s" using reach_inv [OF assms] by blast+
  have "0 < ny_pipe s" if "0 < cap" "ny_pc s t = NPolling" "ny_pc s u = NChangeSet f"
  proof -
    have "holds_poll (ny_pc s u)" using that by (simp add: holds_poll_def)
    then have "ny_pc s w \<noteq> NWrite g" for w g using poll_alone(2) [OF inv(1), of u w g] that by (cases "w = u") auto
    then show ?thesis using inv(3) that unfolding wake_ok_def by blast
  qed
  moreover have "ny_pc s t = NIdle \<or> ny_pc s t = NPolling" if "\<nexists>r. np_step N cap True s r"
    using nprogress [OF inv(1-3), of t N] reach_bound [OF assms] that by blast
  moreover have "(np_step N cap True ^^ n) s s' \<longrightarrow> n \<le> nleft N s" by (auto dest: own_run_bound)
  ultimately show ?thesis using inv(4) own_run_ends [OF assms] unfolding break_ok_def by blast
qed

theorem netpoll_no_lost_wakeup_witness:
  "0 < ny_pipe poll_and_change \<and> (\<exists>r. (np_step 2 1 True)\<^sup>*\<^sup>* poll_and_change r \<and> (\<forall>t. ny_pc r t = NIdle \<or> ny_pc r t = NPolling))"
  using netpoll_no_lost_wakeup [OF poll_and_change_reach, of 0 1 Suc] by (simp add: poll_and_change_def)

end
