(* ===== verification/Dir_Read.thy ===== *)
theory Dir_Read
  imports Fd_Unix
begin

text \<open>
  Reading directories: the record layout of \<open>syscall/ztypes_qnx_arm.go\<close>, \<open>ParseDirent\<close> of \<open>syscall/dirent.go\<close>, and
  \<open>readdir\<close> of \<open>os/dir_unix.go\<close> with the parts of package \<open>os\<close> it uses on QNX (\<open>dirent_qnx.go\<close>, \<open>stat_qnx.go\<close>,
  \<open>lstatat\<close>). The two loops take records apart the same way, which is one definition here.
\<close>

section \<open>Integers in a buffer\<close>

fun le_val :: "gostring \<Rightarrow> nat" where
  "le_val [] = 0"
| "le_val (b # bs) = unat b + 256 * le_val bs"

text \<open>\<open>arm\<close> is little-endian; the four sizes are those of \<open>byteorder\<close>.\<close>

definition readIntLE :: "gostring \<Rightarrow> nat \<Rightarrow> nat outcome" where
  "readIntLE b sz =
     (if sz = 1 \<or> sz = 2 \<or> sz = 4 \<or> sz = 8
      then (if length b < sz then Throw ''index out of range'' else Ret (le_val (take sz b)))
      else Throw ''syscall: readInt with unsupported size'')"

text \<open>A slice expression \<open>b[i:j]\<close>. Beyond the length of \<open>b\<close> Go panics, or, up to the capacity, exposes bytes that are not in \<open>b\<close>;
  either is an error here.\<close>

definition go_slice :: "nat \<Rightarrow> nat \<Rightarrow> gostring \<Rightarrow> gostring outcome" where
  "go_slice i j b = (if i \<le> j \<and> j \<le> length b then Ret (take (j - i) (drop i b)) else Throw ''slice bounds out of range'')"

definition readInt :: "gostring \<Rightarrow> nat \<Rightarrow> nat \<Rightarrow> nat option outcome" where
  "readInt b off sz =
     (if length b < off + sz then Ret None
      else (case go_slice off (length b) b of
              Throw e \<Rightarrow> Throw e
            | Ret b' \<Rightarrow> (case readIntLE b' sz of Ret u \<Rightarrow> Ret (Some u) | Throw e \<Rightarrow> Throw e)))"

definition direntIno :: "gostring \<Rightarrow> nat option outcome" where "direntIno buf = readInt buf 0 8"
definition direntReclen :: "gostring \<Rightarrow> nat option outcome" where "direntReclen buf = readInt buf 16 2"
definition direntNamlen :: "gostring \<Rightarrow> nat option outcome" where "direntNamlen buf = readInt buf 18 2"

definition namoff :: nat where "namoff = 20"

lemma dirent_fields [simp]:
  "direntIno b = Ret (if length b < 8 then None else Some (le_val (take 8 b)))"
  "direntReclen b = Ret (if length b < 18 then None else Some (le_val (take 2 (drop 16 b))))"
  "direntNamlen b = Ret (if length b < 20 then None else Some (le_val (take 2 (drop 18 b))))"
  by (auto simp: direntIno_def direntReclen_def direntNamlen_def readInt_def readIntLE_def go_slice_def)

section \<open>One record\<close>

datatype drec = Short | Broken nat | Skip nat | Entry nat gostring

definition dot :: gostring where "dot = [46]"
definition dotdot :: gostring where "dotdot = [46, 46]"

definition dirent_step :: "gostring \<Rightarrow> drec outcome" where
  "dirent_step buf =
     (case direntReclen buf of Throw e \<Rightarrow> Throw e
      | Ret None \<Rightarrow> Ret Short
      | Ret (Some reclen) \<Rightarrow>
          if reclen > length buf then Ret Short
          else (case go_slice 0 reclen buf of Throw e \<Rightarrow> Throw e | Ret rec \<Rightarrow>
               (case direntIno rec of Throw e \<Rightarrow> Throw e
                | Ret None \<Rightarrow> Ret (Broken reclen)
                | Ret (Some ino) \<Rightarrow>
                    if ino = 0 then Ret (Skip reclen)
                    else (case direntNamlen rec of Throw e \<Rightarrow> Throw e
                          | Ret None \<Rightarrow> Ret (Broken reclen)
                          | Ret (Some namlen) \<Rightarrow>
                              if namoff + namlen > length rec then Ret (Broken reclen)
                              else (case go_slice namoff (namoff + namlen) rec of Throw e \<Rightarrow> Throw e | Ret raw \<Rightarrow>
                                   (let name = takeWhile (\<lambda>c. c \<noteq> 0) raw
                                    in if name = dot \<or> name = dotdot then Ret (Skip reclen) else Ret (Entry reclen name)))))))"

lemma dirent_step_total: "\<exists>r. dirent_step buf = Ret r"
  by (simp add: dirent_step_def go_slice_def Let_def)

lemma dirent_skip: "dirent_step buf = Ret (Skip k) \<Longrightarrow> 0 < k \<and> k \<le> length buf"
  and dirent_entry: "dirent_step buf = Ret (Entry k name) \<Longrightarrow> 0 < k \<and> k \<le> length buf \<and> 0 \<notin> set name \<and> name \<noteq> dot \<and> name \<noteq> dotdot"
  by (auto simp: dirent_step_def go_slice_def Let_def dest: set_takeWhileD split: if_splits)

section \<open>ParseDirent\<close>

function ParseDirent_loop :: "gostring \<Rightarrow> int \<Rightarrow> int \<Rightarrow> gostring list \<Rightarrow> (gostring option \<times> int \<times> gostring list) outcome" where
  "ParseDirent_loop buf mx count names =
     (if mx \<noteq> 0 \<and> buf \<noteq> []
      then (case dirent_step buf of
              Throw e \<Rightarrow> Throw e
            | Ret Short \<Rightarrow> Ret (None, count, names)
            | Ret (Broken k) \<Rightarrow> Ret (Some (drop k buf), count, names)
            | Ret (Skip k) \<Rightarrow> ParseDirent_loop (drop k buf) mx count names
            | Ret (Entry k name) \<Rightarrow> ParseDirent_loop (drop k buf) (mx - 1) (count + 1) (names @ [name]))
      else Ret (Some buf, count, names))"
  by pat_completeness auto
termination
  by (relation "measure (\<lambda>(buf, _). length buf)") (auto dest!: dirent_skip dirent_entry)

declare ParseDirent_loop.simps [simp del]

text \<open>\<open>None\<close> is the early return that gives up the whole buffer.\<close>

definition ParseDirent :: "gostring \<Rightarrow> int \<Rightarrow> gostring list \<Rightarrow> (int \<times> int \<times> gostring list) outcome" where
  "ParseDirent buf mx names =
     (case ParseDirent_loop buf mx 0 names of
        Throw e \<Rightarrow> Throw e
      | Ret (rest, count, names') \<Rightarrow>
          Ret (case rest of None \<Rightarrow> int (length buf) | Some b \<Rightarrow> int (length buf) - int (length b), count, names'))"

section \<open>Records as the file system writes them\<close>

fun le_bytes :: "nat \<Rightarrow> nat \<Rightarrow> gostring" where
  "le_bytes 0 v = []"
| "le_bytes (Suc n) v = of_nat (v mod 256) # le_bytes n (v div 256)"

lemma le_bytes_length [simp]: "length (le_bytes n v) = n"
  by (induction n arbitrary: v) simp_all

lemma le_val_bytes: "v < 256 ^ n \<Longrightarrow> le_val (le_bytes n v) = v"
proof (induction n arbitrary: v)
  case (Suc n)
  then have "v div 256 < 256 ^ n" by (simp add: less_mult_imp_div_less mult.commute)
  with Suc.IH have "le_val (le_bytes n (v div 256)) = v div 256" by blast
  moreover have "unat (of_nat (v mod 256) :: u8) = v mod 256" by (simp add: unat_of_nat take_bit_eq_mod)
  ultimately show ?case by simp
qed simp

record dentry =
  de_ino :: nat
  de_off :: gostring
  de_name :: gostring
  de_pad :: gostring

definition dentry_len :: "dentry \<Rightarrow> nat" where
  "dentry_len d = 20 + length (de_name d) + length (de_pad d)"

definition dentry_ok :: "dentry \<Rightarrow> bool" where
  "dentry_ok d \<longleftrightarrow> de_ino d < 2 ^ 64 \<and> length (de_off d) = 8 \<and> dentry_len d < 2 ^ 16 \<and> 0 \<notin> set (de_name d)"

definition enc_dirent :: "dentry \<Rightarrow> gostring" where
  "enc_dirent d = le_bytes 8 (de_ino d) @ de_off d @ le_bytes 2 (dentry_len d) @ le_bytes 2 (length (de_name d)) @ de_name d @ de_pad d"

definition visible :: "dentry \<Rightarrow> bool" where
  "visible d \<longleftrightarrow> de_ino d \<noteq> 0 \<and> de_name d \<noteq> dot \<and> de_name d \<noteq> dotdot"

definition listing :: "dentry list \<Rightarrow> gostring list" where
  "listing ds = map de_name (filter visible ds)"

lemma enc_dirent_length: "dentry_ok d \<Longrightarrow> length (enc_dirent d) = dentry_len d"
  by (simp add: enc_dirent_def dentry_len_def dentry_ok_def)

lemma dirent_step_enc:
  assumes ok: "dentry_ok d"
  shows "dirent_step (enc_dirent d @ rest) = Ret (if visible d then Entry (dentry_len d) (de_name d) else Skip (dentry_len d))"
proof -
  have f: "de_ino d < 256 ^ 8" "length (de_off d) = 8" "dentry_len d < 256 ^ 2" "length (de_name d) < 256 ^ 2" "0 \<notin> set (de_name d)"
    using ok by (auto simp: dentry_ok_def dentry_len_def)
  let ?b = "enc_dirent d @ rest"
  note len = enc_dirent_length [OF ok]
  have 20: "20 \<le> dentry_len d" by (simp add: dentry_len_def)
  have "take 2 (drop 16 ?b) = le_bytes 2 (dentry_len d)" using f(2) by (simp add: enc_dirent_def)
  then have r: "direntReclen ?b = Ret (Some (dentry_len d))" using le_val_bytes [OF f(3)] len 20 by simp
  have t: "go_slice 0 (dentry_len d) ?b = Ret (enc_dirent d)" by (simp add: go_slice_def len)
  have "take 8 (enc_dirent d) = le_bytes 8 (de_ino d)" by (simp add: enc_dirent_def)
  then have i: "direntIno (enc_dirent d) = Ret (Some (de_ino d))" using le_val_bytes [OF f(1)] len 20 by simp
  have "take 2 (drop 18 (enc_dirent d)) = le_bytes 2 (length (de_name d))" using f(2) by (simp add: enc_dirent_def)
  then have n: "direntNamlen (enc_dirent d) = Ret (Some (length (de_name d)))" using le_val_bytes [OF f(4)] len 20 by simp
  have m: "go_slice 20 (20 + length (de_name d)) (enc_dirent d) = Ret (de_name d)"
    using f(2) len by (simp add: go_slice_def dentry_len_def) (simp add: enc_dirent_def)
  have w: "takeWhile (\<lambda>c. c \<noteq> 0) (de_name d) = de_name d" using f(5) by (auto intro: takeWhile_eq_all_conv [THEN iffD2])
  have g: "\<not> dentry_len d > length ?b" "\<not> namoff + length (de_name d) > length (enc_dirent d)" by (simp_all add: len namoff_def dentry_len_def)
  show ?thesis
    unfolding dirent_step_def r Let_def outcome.case option.case t i n if_not_P [OF g(1)] if_not_P [OF g(2)] namoff_def m outcome.case w
    using g(2) by (auto simp: visible_def namoff_def)
qed

lemma ParseDirent_loop_enc:
  assumes "\<forall>d \<in> set ds. dentry_ok d"
  shows "\<exists>ds1 ds2. ds = ds1 @ ds2 \<and> ParseDirent_loop (concat (map enc_dirent ds)) mx count names
      = Ret (Some (concat (map enc_dirent ds2)), count + int (length (listing ds1)), names @ listing ds1)
    \<and> (ds2 \<noteq> [] \<longrightarrow> int (length (listing ds1)) = mx) \<and> (0 \<le> mx \<longrightarrow> int (length (listing ds1)) \<le> mx)"
  using assms
proof (induction ds arbitrary: mx count names)
  case Nil
  show ?case by (intro exI [of _ "[]"]) (simp add: ParseDirent_loop.simps listing_def)
next
  case (Cons d ds)
  then have ok: "dentry_ok d" "\<forall>d \<in> set ds. dentry_ok d" by simp_all
  have len: "length (enc_dirent d) = dentry_len d" and ne: "enc_dirent d \<noteq> []"
    using enc_dirent_length [OF ok(1)] by (auto simp: dentry_len_def)
  show ?case
  proof (cases "mx = 0")
    case True
    then show ?thesis by (intro exI [of _ "[]"] exI [of _ "d # ds"]) (simp add: ParseDirent_loop.simps listing_def)
  next
    case False
    let ?m = "if visible d then mx - 1 else mx" and ?c = "if visible d then count + 1 else count"
    let ?n = "if visible d then names @ [de_name d] else names"
    have step: "ParseDirent_loop (concat (map enc_dirent (d # ds))) mx count names = ParseDirent_loop (concat (map enc_dirent ds)) ?m ?c ?n"
      using False ne by (subst ParseDirent_loop.simps) (simp add: dirent_step_enc [OF ok(1)] flip: len)
    from Cons.IH [OF ok(2), of ?m ?c ?n] obtain ds1 ds2 where h: "ds = ds1 @ ds2"
      "ParseDirent_loop (concat (map enc_dirent ds)) ?m ?c ?n
        = Ret (Some (concat (map enc_dirent ds2)), ?c + int (length (listing ds1)), ?n @ listing ds1)"
      "ds2 \<noteq> [] \<longrightarrow> int (length (listing ds1)) = ?m" "0 \<le> ?m \<longrightarrow> int (length (listing ds1)) \<le> ?m" by blast
    then show ?thesis unfolding step using False
      by (intro exI [of _ "d # ds1"] exI [of _ ds2]) (auto simp: listing_def)
  qed
qed

lemma ParseDirent_loop_bytes:
  "\<exists>rest new. ParseDirent_loop buf mx count names = Ret (rest, count + int (length new), names @ new)
    \<and> (\<forall>b. rest = Some b \<longrightarrow> length b \<le> length buf) \<and> (0 \<le> mx \<longrightarrow> int (length new) \<le> mx)
    \<and> (\<forall>nm \<in> set new. 0 \<notin> set nm \<and> nm \<noteq> dot \<and> nm \<noteq> dotdot)"
proof (induction buf mx count names rule: ParseDirent_loop.induct)
  case (1 buf mx count names)
  obtain r where r: "dirent_step buf = Ret r" using dirent_step_total by blast
  note simp = ParseDirent_loop.simps [of buf mx count names]
  show ?case
  proof (cases "mx \<noteq> 0 \<and> buf \<noteq> []")
    case True
    show ?thesis
    proof (cases r)
      case (Skip k)
      from 1(1) [OF True r Skip] obtain rest new where h: "ParseDirent_loop (drop k buf) mx count names = Ret (rest, count + int (length new), names @ new)"
        "\<forall>b. rest = Some b \<longrightarrow> length b \<le> length (drop k buf)" "0 \<le> mx \<longrightarrow> int (length new) \<le> mx"
        "\<forall>nm \<in> set new. 0 \<notin> set nm \<and> nm \<noteq> dot \<and> nm \<noteq> dotdot" by blast
      then show ?thesis using simp True r Skip by (intro exI [of _ rest] exI [of _ new]) auto
    next
      case (Entry k nm)
      from 1(2) [OF True r Entry] obtain rest new where h:
        "ParseDirent_loop (drop k buf) (mx - 1) (count + 1) (names @ [nm]) = Ret (rest, count + 1 + int (length new), (names @ [nm]) @ new)"
        "\<forall>b. rest = Some b \<longrightarrow> length b \<le> length (drop k buf)" "0 \<le> mx - 1 \<longrightarrow> int (length new) \<le> mx - 1"
        "\<forall>nm \<in> set new. 0 \<notin> set nm \<and> nm \<noteq> dot \<and> nm \<noteq> dotdot" by blast
      have "0 \<notin> set nm \<and> nm \<noteq> dot \<and> nm \<noteq> dotdot" using dirent_entry [of buf k nm] r Entry by blast
      with h show ?thesis using simp True r Entry by (intro exI [of _ rest] exI [of _ "nm # new"]) auto
    qed (use simp True r in \<open>auto intro!: exI [of _ "[]"]\<close>)
  qed (use simp in \<open>auto intro!: exI [of _ "[]"]\<close>)
qed

section \<open>Properties of the parser\<close>

text \<open>C28: What the file system wrote is what \<open>ParseDirent\<close> reads: on a buffer of well-formed records it returns,
  in order, the names of the entries in use other than "." and "..", as many as asked for; it consumes exactly
  the records up to there, so that the rest of the buffer holds exactly the records not yet seen.\<close>

theorem ParseDirent_roundtrip:
  assumes "\<forall>d \<in> set ds. dentry_ok d"
  shows "\<exists>ds1 ds2. ds = ds1 @ ds2 \<and> ParseDirent (concat (map enc_dirent ds)) mx names
      = Ret (int (length (concat (map enc_dirent ds1))), int (length (listing ds1)), names @ listing ds1)
    \<and> (ds2 \<noteq> [] \<longrightarrow> int (length (listing ds1)) = mx) \<and> (0 \<le> mx \<longrightarrow> int (length (listing ds1)) \<le> mx)"
proof -
  from ParseDirent_loop_enc [OF assms, of mx 0 names, unfolded add_0] obtain ds1 ds2 where h: "ds = ds1 @ ds2"
    "ParseDirent_loop (concat (map enc_dirent ds)) mx 0 names
      = Ret (Some (concat (map enc_dirent ds2)), int (length (listing ds1)), names @ listing ds1)"
    "ds2 \<noteq> [] \<longrightarrow> int (length (listing ds1)) = mx" "0 \<le> mx \<longrightarrow> int (length (listing ds1)) \<le> mx" by blast
  then have "ParseDirent (concat (map enc_dirent ds)) mx names
      = Ret (int (length (concat (map enc_dirent ds1))), int (length (listing ds1)), names @ listing ds1)"
    by (simp add: ParseDirent_def)
  with h show ?thesis by blast
qed

theorem ParseDirent_roundtrip_witness:
  "let d = (\<lambda>i nm. \<lparr>de_ino = i, de_off = replicate 8 0, de_name = nm, de_pad = [0]\<rparr>); ds = [d 1 dot, d 2 [97], d 0 [98], d 3 [99]]
   in ParseDirent (concat (map enc_dirent ds)) (-1) [] = Ret (88, 2, [[97], [99]])"
proof -
  let ?d = "\<lambda>i nm. \<lparr>de_ino = i, de_off = replicate 8 0, de_name = nm, de_pad = [0]\<rparr>"
  let ?ds = "[?d 1 dot, ?d 2 [97], ?d 0 [98], ?d 3 [99]]"
  have "\<forall>d \<in> set ?ds. dentry_ok d" by (simp add: dentry_ok_def dentry_len_def dot_def)
  from ParseDirent_roundtrip [OF this, of "-1" "[]"] obtain ds1 ds2 where e: "?ds = ds1 @ ds2"
    and r: "ParseDirent (concat (map enc_dirent ?ds)) (-1) [] = Ret (int (length (concat (map enc_dirent ds1))), int (length (listing ds1)), listing ds1)"
    and l: "ds2 \<noteq> [] \<longrightarrow> int (length (listing ds1)) = -1" by auto
  from l e have "ds1 = ?ds" by auto
  with r show ?thesis by (simp add: listing_def visible_def dot_def dotdot_def enc_dirent_def Let_def)
qed

text \<open>C40: No buffer, whatever bytes are in it, makes \<open>ParseDirent\<close> panic, loop, read past the end or invent entries: every index and every slice
  expression stays within its bounds (\<open>go_slice\<close>, \<open>readIntLE\<close> would throw), and it
  returns with a consumed count within the buffer, a count that is the number of names it appended and within the
  limit asked for, and no name holds a NUL byte or is "." or "..".\<close>

theorem ParseDirent_any_bytes:
  "\<exists>consumed new. ParseDirent buf mx names = Ret (consumed, int (length new), names @ new)
    \<and> 0 \<le> consumed \<and> consumed \<le> int (length buf) \<and> (0 \<le> mx \<longrightarrow> int (length new) \<le> mx)
    \<and> (\<forall>nm \<in> set new. 0 \<notin> set nm \<and> nm \<noteq> dot \<and> nm \<noteq> dotdot)"
  using ParseDirent_loop_bytes [of buf mx 0 names] by (auto simp: ParseDirent_def split: option.splits)

theorem ParseDirent_any_bytes_witness: "\<exists>c new. ParseDirent [1, 2, 3] 5 [] = Ret (c, int (length new), new) \<and> c \<le> 3 \<and> length new \<le> 5"
  using ParseDirent_any_bytes [of "[1, 2, 3]" 5 "[]"] by auto

end
