(* ===== verification/Os_Dir.thy ===== *)
theory Os_Dir
  imports Dir_Read Fd_Frame
begin

text \<open>
  \<open>readdir\<close> of \<open>os/dir_unix.go\<close>: the loop behind \<open>Readdirnames\<close>, \<open>ReadDir\<close> and \<open>Readdir\<close>, on top of the \<open>FD\<close> of
  package \<open>internal/poll\<close>, with \<open>fillFileStatFromSys\<close> (\<open>os/stat_qnx.go\<close>) and \<open>lstatat\<close>, which is \<open>Lstat\<close> of the joined
  path on QNX (\<open>os/statat_other.go\<close>). The buffer that \<open>dirBufPool\<close> hands out is an argument, whatever it holds.
\<close>

section \<open>File information\<close>

record fileStat =
  fs_name :: gostring
  fs_size :: int
  fs_mode :: u32
  fs_modTime :: int
  fs_sys :: Stat_t

abbreviation ModeDir :: u32 where "ModeDir \<equiv> 0x80000000"
abbreviation ModeSymlink :: u32 where "ModeSymlink \<equiv> 0x08000000"
abbreviation ModeDevice :: u32 where "ModeDevice \<equiv> 0x04000000"
abbreviation ModeNamedPipe :: u32 where "ModeNamedPipe \<equiv> 0x02000000"
abbreviation ModeSocket :: u32 where "ModeSocket \<equiv> 0x01000000"
abbreviation ModeSetuid :: u32 where "ModeSetuid \<equiv> 0x00800000"
abbreviation ModeSetgid :: u32 where "ModeSetgid \<equiv> 0x00400000"
abbreviation ModeCharDevice :: u32 where "ModeCharDevice \<equiv> 0x00200000"
abbreviation ModeSticky :: u32 where "ModeSticky \<equiv> 0x00100000"
abbreviation ModeIrregular :: u32 where "ModeIrregular \<equiv> 0x00080000"

definition ModeType :: u32 where
  "ModeType = ModeDir OR ModeSymlink OR ModeNamedPipe OR ModeSocket OR ModeDevice OR ModeCharDevice OR ModeIrregular"

abbreviation slash :: u8 where "slash \<equiv> 47"

text \<open>\<open>filepathlite.Base\<close>; there is no volume name on Unix.\<close>

definition Base :: "gostring \<Rightarrow> gostring" where
  "Base path =
     (if path = [] then [46]
      else (let p = rev (dropWhile (\<lambda>c. c = slash) (rev path));
                q = rev (takeWhile (\<lambda>c. c \<noteq> slash) (rev p))
            in if q = [] then [slash] else q))"

definition file_type :: "u32 \<Rightarrow> u32" where
  "file_type m =
     (let k = m AND 0xF000
      in if k = 0x6000 then ModeDevice else if k = 0x2000 then ModeDevice OR ModeCharDevice
         else if k = 0x4000 then ModeDir else if k = 0x1000 then ModeNamedPipe
         else if k = 0xA000 then ModeSymlink else if k = 0x8000 then 0 else if k = 0xC000 then ModeSocket else 0)"

definition fillFileStatFromSys :: "Stat_t \<Rightarrow> gostring \<Rightarrow> fileStat" where
  "fillFileStatFromSys st name =
     (let m = st_Mode st;
          m1 = (m AND 0x1FF) OR file_type m;
          m2 = (if m AND 0x400 \<noteq> 0 then m1 OR ModeSetgid else m1);
          m3 = (if m AND 0x800 \<noteq> 0 then m2 OR ModeSetuid else m2);
          m4 = (if m AND 0x200 \<noteq> 0 then m3 OR ModeSticky else m3)
      in \<lparr>fs_name = Base name, fs_size = st_Size st, fs_mode = m4, fs_modTime = st_Mtim st, fs_sys = st\<rparr>)"

definition zero_stat :: Stat_t where
  "zero_stat = \<lparr>st_Ino = 0, st_Size = 0, st_Dev = 0, st_Rdev = 0, st_Uid = 0, st_Gid = 0, st_Mtim = 0, st_Atim = 0, st_Ctim = 0,
     st_Mode = 0, st_Nlink = 0, st_Blocksize = 0, st_Nblocks = 0, st_Blksize = 0, st_Blocks = 0\<rparr>"

datatype patherr = PathError string gostring goerror | IoEOF

definition lstatNolog :: "nat \<Rightarrow> 'w libc \<Rightarrow> gostring \<Rightarrow> ('w, patherr + fileStat) prog" where
  "lstatNolog n L name =
     bindp (ignoringEINTRIO n (\<lambda>b. bindp (sysp (Lstat L name b)) (\<lambda>(err, b'). retp ((), err, b'))) zero_stat) (\<lambda>(_, err, st).
       retp (case err of Some e \<Rightarrow> Inl (PathError ''lstat'' name (Errno e)) | None \<Rightarrow> Inr (fillFileStatFromSys st name)))"

definition lstatat :: "nat \<Rightarrow> 'w libc \<Rightarrow> gostring \<Rightarrow> gostring \<Rightarrow> ('w, patherr + fileStat) prog" where
  "lstatat n L fname name = lstatNolog n L (fname @ [slash] @ name)"

definition IsNotExist :: "patherr \<Rightarrow> bool" where
  "IsNotExist err = (case err of PathError op path (Errno e) \<Rightarrow> Errno_Is e ErrNotExist | _ \<Rightarrow> False)"

text \<open>QNX has no type in a directory record, so the entry is always completed by \<open>lstatat\<close>.\<close>

record unixDirent =
  ud_parent :: gostring
  ud_name :: gostring
  ud_typ :: u32
  ud_info :: fileStat

definition newUnixDirent :: "nat \<Rightarrow> 'w libc \<Rightarrow> gostring \<Rightarrow> gostring \<Rightarrow> ('w, patherr + unixDirent) prog" where
  "newUnixDirent n L fname name =
     bindp (lstatat n L fname name) (\<lambda>r. retp (case r of Inl e \<Rightarrow> Inl e
       | Inr info \<Rightarrow> Inr \<lparr>ud_parent = fname, ud_name = name, ud_typ = fs_mode info AND ModeType, ud_info = info\<rparr>))"

section \<open>The loop\<close>

record dirInfo =
  di_buf :: "gostring option"
  di_nbuf :: int
  di_bufp :: int

datatype readdirMode = readdirName | readdirDirEntry | readdirFileInfo

record readdir_st =
  rd_d :: dirInfo
  rd_n :: int
  rd_names :: "gostring list"
  rd_dirents :: "unixDirent list"
  rd_infos :: "fileStat list"

type_synonym readdir_res = "dirInfo \<times> gostring list \<times> unixDirent list \<times> fileStat list \<times> patherr option"

definition readdir_finish :: "readdir_st \<Rightarrow> readdir_res" where
  "readdir_finish r =
     (if rd_n r > 0 \<and> length (rd_names r) + length (rd_dirents r) + length (rd_infos r) = 0
      then (rd_d r, [], [], [], Some IoEOF)
      else (rd_d r, rd_names r, rd_dirents r, rd_infos r, None))"

text \<open>What a new name becomes in each mode; an entry that is gone by then is left out.\<close>

definition readdir_entry ::
  "nat \<Rightarrow> 'w libc \<Rightarrow> gostring \<Rightarrow> readdirMode \<Rightarrow> gostring \<Rightarrow> readdir_st \<Rightarrow> ('w, readdir_st + readdir_res) prog" where
  "readdir_entry n L fname mode name r =
     (case mode of
        readdirName \<Rightarrow> retp (Inl (r\<lparr>rd_names := rd_names r @ [name]\<rparr>))
      | readdirDirEntry \<Rightarrow> bindp (newUnixDirent n L fname name) (\<lambda>x. retp (case x of
            Inl e \<Rightarrow> if IsNotExist e then Inl r else Inr (rd_d r, [], rd_dirents r, [], Some e)
          | Inr de \<Rightarrow> Inl (r\<lparr>rd_dirents := rd_dirents r @ [de]\<rparr>)))
      | readdirFileInfo \<Rightarrow> bindp (lstatat n L fname name) (\<lambda>x. retp (case x of
            Inl e \<Rightarrow> if IsNotExist e then Inl r else Inr (rd_d r, [], [], rd_infos r, Some e)
          | Inr info \<Rightarrow> Inl (r\<lparr>rd_infos := rd_infos r @ [info]\<rparr>))))"

definition readdir_drain ::
  "nat \<Rightarrow> 'w libc \<Rightarrow> gostring \<Rightarrow> readdirMode \<Rightarrow> readdir_st \<Rightarrow> ('w, readdir_st + readdir_res) prog" where
  "readdir_drain n L fname mode r =
     (let d = rd_d r; b = (case di_buf d of None \<Rightarrow> [] | Some b \<Rightarrow> b);
          adv = (\<lambda>k. r\<lparr>rd_d := d\<lparr>di_bufp := di_bufp d + int k\<rparr>\<rparr>)
      in slicep (di_bufp d) (di_nbuf d) b (\<lambda>buf.
           case dirent_step buf of
             Throw e \<Rightarrow> panicp e
           | Ret Short \<Rightarrow> retp (Inr (readdir_finish r))
           | Ret (Broken k) \<Rightarrow> retp (Inr (readdir_finish (adv k)))
           | Ret (Skip k) \<Rightarrow> retp (Inl (adv k))
           | Ret (Entry k name) \<Rightarrow>
               (let r1 = adv k in readdir_entry n L fname mode name (r1\<lparr>rd_n := if rd_n r1 > 0 then rd_n r1 - 1 else rd_n r1\<rparr>))))"

definition readdir_body ::
  "nat \<Rightarrow> 'w fenv \<Rightarrow> nat \<Rightarrow> 'w libc \<Rightarrow> gostring \<Rightarrow> readdirMode \<Rightarrow> readdir_st \<Rightarrow> ('w, readdir_st + readdir_res) prog" where
  "readdir_body n E g L fname mode r =
     (if rd_n r = 0 then retp (Inr (readdir_finish r))
      else if di_bufp (rd_d r) \<ge> di_nbuf (rd_d r)
      then bindp (FD_ReadDirent n E g L (case di_buf (rd_d r) of None \<Rightarrow> [] | Some b \<Rightarrow> b)) (\<lambda>(nb, err, b).
             let r1 = r\<lparr>rd_d := \<lparr>di_buf = Some b, di_nbuf = nb, di_bufp = 0\<rparr>\<rparr>
             in case err of
                  Some e \<Rightarrow> retp (Inr (rd_d r1, rd_names r, rd_dirents r, rd_infos r, Some (PathError ''readdirent'' fname e)))
                | None \<Rightarrow>
                    if nb \<le> 0 then retp (Inr (readdir_finish (r1\<lparr>rd_d := (rd_d r1)\<lparr>di_buf := None\<rparr>\<rparr>)))
                    else readdir_drain n L fname mode r1)
      else readdir_drain n L fname mode r)"

definition readdir ::
  "nat \<Rightarrow> 'w fenv \<Rightarrow> nat \<Rightarrow> 'w libc \<Rightarrow> gostring \<Rightarrow> gostring \<Rightarrow> dirInfo \<Rightarrow> int \<Rightarrow> readdirMode \<Rightarrow> ('w, readdir_res) prog" where
  "readdir n E g L pool fname d k mode =
     loopp n (readdir_body n E g L fname mode)
       \<lparr>rd_d = (if di_buf d = None then d\<lparr>di_buf := Some pool\<rparr> else d), rd_n = (if k = 0 then -1 else k),
        rd_names = [], rd_dirents = [], rd_infos = []\<rparr>"

section \<open>A directory that is read record by record\<close>

definition dir_bytes :: "dentry list \<Rightarrow> gostring" where
  "dir_bytes ds = concat (map enc_dirent ds)"

lemma dir_bytes_simps [simp]: "dir_bytes [] = []" "dir_bytes (d # ds) = enc_dirent d @ dir_bytes ds"
  by (simp_all add: dir_bytes_def)

text \<open>
  The C library is described by an observer \<open>rest\<close> of its world: the records that \<open>read\<close> has not handed out yet. A
  read of the directory fills the front of the buffer with whole records, at least one unless none are left.
\<close>

definition dir_libc :: "'w libc \<Rightarrow> ('w \<Rightarrow> dentry list) \<Rightarrow> int \<Rightarrow> bool" where
  "dir_libc L rest fd \<longleftrightarrow>
     (\<forall>p w. length p = 8192 \<longrightarrow> (let r = L ''libc_read'' [W fd, ABuf p, W 8192] 0 w
        in \<exists>ds1 ds2. rest w = ds1 @ ds2 \<and> rest (c_world r) = ds2 \<and> (ds1 = [] \<longrightarrow> ds2 = []) \<and> c_errno r = 0
           \<and> length (dir_bytes ds1) \<le> 8192 \<and> c_ret r = of_nat (length (dir_bytes ds1))
           \<and> argat (c_args r) 1 = ABuf (dir_bytes ds1 @ drop (length (dir_bytes ds1)) p)))"

definition fd_at_rest :: "fdst \<Rightarrow> int \<Rightarrow> 'w fdrt \<Rightarrow> bool" where
  "fd_at_rest a fd s \<longleftrightarrow> f_mu s = word_of a \<and> f_Sysfd s = fd \<and> has_errno (np_thr (pr_np s))"

abbreviation world_of :: "'w fdrt \<Rightarrow> 'w" where "world_of s \<equiv> t_world (np_thr (pr_np s))"

lemma ReadDirent_step:
  assumes L: "dir_libc L rest fd" and t: "has_errno t" and p: "length p = 8192"
  obtains ds1 ds2 t' where "rest (t_world t) = ds1 @ ds2" "ds1 = [] \<longrightarrow> ds2 = []" "length (dir_bytes ds1) \<le> 8192"
    "ReadDirent L fd p t = ((int (length (dir_bytes ds1)), None, dir_bytes ds1 @ drop (length (dir_bytes ds1)) p), t')"
    "rest (t_world t') = ds2" "has_errno t'"
proof -
  have "p \<noteq> []" using p by auto
  then have b: "bufptr p = ABuf p" by (simp add: bufptr_def)
  define r where "r = L ''libc_read'' [W fd, ABuf p, W 8192] 0 (t_world t)"
  from L p obtain ds1 ds2 where d: "rest (t_world t) = ds1 @ ds2" "rest (c_world r) = ds2" "ds1 = [] \<longrightarrow> ds2 = []" "c_errno r = 0"
    "length (dir_bytes ds1) \<le> 8192" "c_ret r = of_nat (length (dir_bytes ds1))"
    "argat (c_args r) 1 = ABuf (dir_bytes ds1 @ drop (length (dir_bytes ds1)) p)"
    unfolding dir_libc_def r_def Let_def by blast
  have k: "toint (of_nat (length (dir_bytes ds1))) = int (length (dir_bytes ds1))"
    using d(5) toint_uptr_id [of "int (length (dir_bytes ds1))"] by (simp add: uptr_def)
  obtain r1 r2 e as t' where c: "sysvicall6 L ''libc_read'' 3 [W fd, bufptr p, W (int (length p))] t = ((r1, r2, e, as), t')"
    by (metis prod.collapse)
  then have "r1 = c_ret r" "e = c_errno r" "as = c_args r" "t_world t' = c_world r" "has_errno t'"
    using t by (auto simp: r_def libcall_defs b p case_prod_beta Let_def has_errno_def)
  with d c k have "ReadDirent L fd p t = ((int (length (dir_bytes ds1)), None, dir_bytes ds1 @ drop (length (dir_bytes ds1)) p), t')"
    by (simp add: ReadDirent_def Getdents_def sys_read_def int_err_def goerr_def out_buf_def p)
  with d \<open>t_world t' = c_world r\<close> \<open>has_errno t'\<close> that show ?thesis by metis
qed

lemma ref_run:
  assumes "fd_quiet a" and "f_mu s = word_of a" and "body (s\<lparr>f_mu := word_ref a\<rparr>) = Some (Ret v, s1)" and "f_mu s1 = word_ref a"
  shows "with_ref L h body s = Some (Ret v, s1\<lparr>f_mu := word_of a\<rparr>)"
  using assms(3) incref_run [OF assms(1,2)] decref_run [OF assms(1,4), of L]
  by (simp add: with_ref_def guardp_def bindp_def deferp_def decref_deferred_def retp_def)

lemma FD_ReadDirent_run:
  assumes L: "dir_libc L rest fd" and a: "fd_quiet a" and s: "fd_at_rest a fd s" and p: "length p = 8192"
  obtains ds1 ds2 s' where "rest (world_of s) = ds1 @ ds2" "ds1 = [] \<longrightarrow> ds2 = []" "length (dir_bytes ds1) \<le> 8192"
    "FD_ReadDirent (Suc n) E g L p s = Some (Ret (int (length (dir_bytes ds1)), None, dir_bytes ds1 @ drop (length (dir_bytes ds1)) p), s')"
    "rest (world_of s') = ds2" "fd_at_rest a fd s'"
proof -
  have f: "f_mu s = word_of a" "f_Sysfd s = fd" "has_errno (np_thr (pr_np s))" using s by (simp_all add: fd_at_rest_def)
  from ReadDirent_step [OF L f(3) p] obtain ds1 ds2 t' where d: "rest (world_of s) = ds1 @ ds2" "ds1 = [] \<longrightarrow> ds2 = []" "length (dir_bytes ds1) \<le> 8192"
    and r: "ReadDirent L fd p (np_thr (pr_np s)) = ((int (length (dir_bytes ds1)), None, dir_bytes ds1 @ drop (length (dir_bytes ds1)) p), t')"
    and w: "rest (t_world t') = ds2" "has_errno t'" by metis
  define s1 where "s1 = s\<lparr>pr_np := (pr_np s)\<lparr>np_thr := t'\<rparr>\<rparr>"
  let ?q = "dir_bytes ds1 @ drop (length (dir_bytes ds1)) p" and ?s0 = "s\<lparr>f_mu := word_ref a\<rparr>"
  have "ignoringEINTRIO (Suc n) (\<lambda>b. onfd (\<lambda>fd. ReadDirent L fd b)) p ?s0 = Some (Ret (int (length (dir_bytes ds1)), None, ?q), s1\<lparr>f_mu := word_ref a\<rparr>)"
    using r f(2) by (simp add: ignoringEINTRIO_def prog_defs onfd_def s1_def)
  then have "loopp (Suc n) (\<lambda>q.
         bindp (ignoringEINTRIO (Suc n) (\<lambda>b. onfd (\<lambda>fd. ReadDirent L fd b)) q) (\<lambda>(k, err, q').
         bindp (if err \<noteq> None then wait_eagain (waitRead (Suc n) E g L) (oserr err) else retp (Some None)) (\<lambda>r.
         case r of None \<Rightarrow> retp (Inl q')
         | Some err' \<Rightarrow> retp (Inr (if err \<noteq> None then 0 else k, err', q'))))) p ?s0
      = Some (Ret (int (length (dir_bytes ds1)), None, ?q), s1\<lparr>f_mu := word_ref a\<rparr>)"
    by (simp add: bindp_def retp_def)
  then have "FD_ReadDirent (Suc n) E g L p s = Some (Ret (int (length (dir_bytes ds1)), None, ?q), s1\<lparr>f_mu := word_ref a\<rparr>\<lparr>f_mu := word_of a\<rparr>)"
    unfolding FD_ReadDirent_def by (rule ref_run [OF a f(1)]) simp
  then show ?thesis by (rule that [OF d]) (use w f in \<open>simp_all add: s1_def fd_at_rest_def\<close>)
qed

section \<open>The records in the buffer\<close>

definition in_buf :: "dirInfo \<Rightarrow> dentry list \<Rightarrow> bool" where
  "in_buf d ds \<longleftrightarrow> 0 \<le> di_bufp d \<and> di_bufp d \<le> di_nbuf d \<and> di_nbuf d \<le> 8192 \<and> (\<forall>x \<in> set ds. dentry_ok x)
     \<and> (case di_buf d of None \<Rightarrow> di_bufp d = di_nbuf d \<and> ds = []
        | Some b \<Rightarrow> length b = 8192 \<and> slice (nat (di_bufp d)) (nat (di_nbuf d)) b = dir_bytes ds)"

lemma in_buf_empty: "in_buf d ds \<Longrightarrow> di_nbuf d \<le> di_bufp d \<Longrightarrow> ds = []"
proof (rule ccontr)
  assume a: "in_buf d ds" "di_nbuf d \<le> di_bufp d" "ds \<noteq> []"
  then obtain x xs where x: "ds = x # xs" "dentry_ok x" by (cases ds) (auto simp: in_buf_def)
  with a have "enc_dirent x = []" by (auto simp: in_buf_def slice_def split: option.splits)
  with enc_dirent_length [OF x(2)] show False by (simp add: dentry_len_def)
qed

lemma in_buf_fill:
  assumes "length (dir_bytes ds) \<le> 8192" "length p = 8192" "\<forall>x \<in> set ds. dentry_ok x"
  shows "in_buf \<lparr>di_buf = Some (dir_bytes ds @ drop (length (dir_bytes ds)) p), di_nbuf = int (length (dir_bytes ds)), di_bufp = 0\<rparr> ds"
  using assms by (simp add: in_buf_def slice_def)

lemma slice_advance: "slice i j b = x @ y \<Longrightarrow> slice (i + length x) j b = y"
proof -
  assume a: "slice i j b = x @ y"
  have "slice (i + length x) j b = drop (length x) (slice i j b)" by (simp add: slice_def drop_take add.commute)
  with a show ?thesis by simp
qed

lemma in_buf_advance:
  assumes "in_buf d (x # ds)"
  shows "in_buf (d\<lparr>di_bufp := di_bufp d + int (dentry_len x)\<rparr>) ds"
proof -
  from assms obtain b where b: "di_buf d = Some b" "length b = 8192" "slice (nat (di_bufp d)) (nat (di_nbuf d)) b = enc_dirent x @ dir_bytes ds"
    "0 \<le> di_bufp d" "di_bufp d \<le> di_nbuf d" "di_nbuf d \<le> 8192" "dentry_ok x" "\<forall>x \<in> set ds. dentry_ok x"
    by (auto simp: in_buf_def split: option.splits)
  note len = enc_dirent_length [OF b(7)]
  have "slice (nat (di_bufp d) + dentry_len x) (nat (di_nbuf d)) b = dir_bytes ds" using slice_advance [OF b(3)] len by simp
  moreover have "nat (di_bufp d + int (dentry_len x)) = nat (di_bufp d) + dentry_len x" using b(4) by simp
  moreover have "dentry_len x \<le> length (slice (nat (di_bufp d)) (nat (di_nbuf d)) b)" unfolding b(3) using len by simp
  then have "di_bufp d + int (dentry_len x) \<le> di_nbuf d" using b(4,5) by (auto simp: slice_def)
  ultimately show ?thesis using b by (simp add: in_buf_def)
qed

section \<open>The loop of \<open>readdir\<close>\<close>

lemma drain_run:
  assumes "in_buf (rd_d r) (x # xs)"
  shows "readdir_drain n L fname readdirName r s = Some (Ret (Inl (r\<lparr>rd_d := (rd_d r)\<lparr>di_bufp := di_bufp (rd_d r) + int (dentry_len x)\<rparr>,
      rd_n := (if visible x \<and> rd_n r > 0 then rd_n r - 1 else rd_n r), rd_names := rd_names r @ listing [x]\<rparr>)), s)"
proof -
  from assms obtain b where b: "di_buf (rd_d r) = Some b" "slice (nat (di_bufp (rd_d r))) (nat (di_nbuf (rd_d r))) b = enc_dirent x @ dir_bytes xs"
    "0 \<le> di_bufp (rd_d r)" "di_bufp (rd_d r) \<le> di_nbuf (rd_d r)" "di_nbuf (rd_d r) \<le> int (length b)" "dentry_ok x"
    by (auto simp: in_buf_def split: option.splits)
  then show ?thesis
    by (simp add: readdir_drain_def slicep_def dirent_step_enc [OF b(6)] readdir_entry_def retp_def listing_def Let_def)
qed

definition coming :: "fdst \<Rightarrow> int \<Rightarrow> ('w \<Rightarrow> dentry list) \<Rightarrow> dirInfo \<Rightarrow> 'w fdrt \<Rightarrow> dentry list \<Rightarrow> bool" where
  "coming a fd rest d s ds \<longleftrightarrow> fd_at_rest a fd s \<and> (\<forall>x \<in> set ds. dentry_ok x) \<and> (\<exists>dsb. in_buf d dsb \<and> ds = dsb @ rest (world_of s))"

text \<open>What a call takes from the directory: all of it, or as many listed entries as were asked for.\<close>

definition taken :: "int \<Rightarrow> dentry list \<Rightarrow> dentry list \<Rightarrow> bool" where
  "taken k ds1 ds2 \<longleftrightarrow> (k < 0 \<longrightarrow> ds2 = []) \<and> (0 \<le> k \<longrightarrow> int (length (listing ds1)) \<le> k \<and> (ds2 \<noteq> [] \<longrightarrow> int (length (listing ds1)) = k))"

lemma listing_Cons: "listing (x # xs) = listing [x] @ listing xs"
  by (simp add: listing_def)

lemma one_step:
  assumes L: "dir_libc L rest fd" and a: "fd_quiet a" and c: "coming a fd rest (rd_d r) s (x # ds)" and b: "length (the (di_buf (rd_d r))) = 8192"
    "di_buf (rd_d r) \<noteq> None" and k: "rd_n r \<noteq> 0"
  obtains d' s' where "readdir_body (Suc n) E g L fname readdirName r s
      = Some (Ret (Inl (r\<lparr>rd_d := d', rd_n := (if visible x \<and> rd_n r > 0 then rd_n r - 1 else rd_n r), rd_names := rd_names r @ listing [x]\<rparr>)), s')"
    "coming a fd rest d' s' ds" "length (the (di_buf d')) = 8192" "di_buf d' \<noteq> None"
proof -
  from c obtain dsb where i: "fd_at_rest a fd s" "\<forall>x \<in> set (x # ds). dentry_ok x" "in_buf (rd_d r) dsb" "x # ds = dsb @ rest (world_of s)"
    unfolding coming_def by blast
  show ?thesis
  proof (cases "di_bufp (rd_d r) \<ge> di_nbuf (rd_d r)")
    case True
    then have e: "dsb = []" by (rule in_buf_empty [OF i(3)])
    from b obtain p where p: "di_buf (rd_d r) = Some p" "length p = 8192" by auto
    obtain ds1 ds2 s' where f: "rest (world_of s) = ds1 @ ds2" "ds1 = [] \<longrightarrow> ds2 = []" "length (dir_bytes ds1) \<le> 8192"
      "FD_ReadDirent (Suc n) E g L p s = Some (Ret (int (length (dir_bytes ds1)), None, dir_bytes ds1 @ drop (length (dir_bytes ds1)) p), s')"
      "rest (world_of s') = ds2" "fd_at_rest a fd s'" by (rule FD_ReadDirent_run [OF L a i(1) p(2)])
    from e i(4) f(1,2) obtain xs where xs: "ds1 = x # xs" "ds = xs @ ds2" by (cases ds1) auto
    let ?d = "\<lparr>di_buf = Some (dir_bytes ds1 @ drop (length (dir_bytes ds1)) p), di_nbuf = int (length (dir_bytes ds1)), di_bufp = 0\<rparr>"
    have ok: "in_buf ?d (x # xs)" using in_buf_fill [OF f(3) p(2)] i(2) xs by auto
    then have ok': "in_buf (rd_d (r\<lparr>rd_d := ?d\<rparr>)) (x # xs)" by simp
    have pos: "\<not> int (length (dir_bytes ds1)) \<le> 0"
      using enc_dirent_length [of x] i(2) by (simp add: xs(1) dentry_len_def)
    have run: "readdir_body (Suc n) E g L fname readdirName r s = readdir_drain (Suc n) L fname readdirName (r\<lparr>rd_d := ?d\<rparr>) s'"
      using True p(1) f(4) k pos by (simp add: readdir_body_def bindp_def Let_def)
    show ?thesis
    proof (rule that)
      show "readdir_body (Suc n) E g L fname readdirName r s = Some (Ret (Inl (r\<lparr>rd_d := ?d\<lparr>di_bufp := di_bufp ?d + int (dentry_len x)\<rparr>,
          rd_n := (if visible x \<and> rd_n r > 0 then rd_n r - 1 else rd_n r), rd_names := rd_names r @ listing [x]\<rparr>)), s')"
        unfolding run drain_run [OF ok'] by simp
      show "coming a fd rest (?d\<lparr>di_bufp := di_bufp ?d + int (dentry_len x)\<rparr>) s' ds"
        unfolding coming_def using f(5,6) i(2) xs(2) in_buf_advance [OF ok] by auto
    qed (use f(3) p(2) in simp_all)
  next
    case False
    have "dsb \<noteq> []"
    proof
      assume "dsb = []"
      with i(3) b False show False by (auto simp: in_buf_def slice_def)
    qed
    then obtain xs where xs: "dsb = x # xs" "ds = xs @ rest (world_of s)" using i(4) by (cases dsb) auto
    then have ok: "in_buf (rd_d r) (x # xs)" using i(3) by simp
    have run: "readdir_body (Suc n) E g L fname readdirName r s = readdir_drain (Suc n) L fname readdirName r s"
      using False k by (simp add: readdir_body_def)
    show ?thesis
    proof (rule that)
      show "readdir_body (Suc n) E g L fname readdirName r s = Some (Ret (Inl (r\<lparr>rd_d := (rd_d r)\<lparr>di_bufp := di_bufp (rd_d r) + int (dentry_len x)\<rparr>,
          rd_n := (if visible x \<and> rd_n r > 0 then rd_n r - 1 else rd_n r), rd_names := rd_names r @ listing [x]\<rparr>)), s)"
        unfolding run drain_run [OF ok] ..
      show "coming a fd rest ((rd_d r)\<lparr>di_bufp := di_bufp (rd_d r) + int (dentry_len x)\<rparr>) s ds"
        unfolding coming_def using i(1,2) xs(2) in_buf_advance [OF ok] by auto
    qed (use b in simp_all)
  qed
qed

lemma last_step:
  assumes L: "dir_libc L rest fd" and a: "fd_quiet a" and c: "coming a fd rest (rd_d r) s []" and b: "length (the (di_buf (rd_d r))) = 8192"
    "di_buf (rd_d r) \<noteq> None" and k: "rd_n r \<noteq> 0"
  obtains d' s' where "readdir_body (Suc n) E g L fname readdirName r s = Some (Ret (Inr (readdir_finish (r\<lparr>rd_d := d'\<rparr>))), s')"
    "coming a fd rest d' s' []"
proof -
  from c have i: "fd_at_rest a fd s" "in_buf (rd_d r) []" "rest (world_of s) = []" by (auto simp: coming_def)
  from b obtain p where p: "di_buf (rd_d r) = Some p" "length p = 8192" by auto
  have True: "di_bufp (rd_d r) \<ge> di_nbuf (rd_d r)" using i(2) p by (auto simp: in_buf_def slice_def)
  obtain ds1 ds2 s' where f: "rest (world_of s) = ds1 @ ds2" "ds1 = [] \<longrightarrow> ds2 = []" "length (dir_bytes ds1) \<le> 8192"
    "FD_ReadDirent (Suc n) E g L p s = Some (Ret (int (length (dir_bytes ds1)), None, dir_bytes ds1 @ drop (length (dir_bytes ds1)) p), s')"
    "rest (world_of s') = ds2" "fd_at_rest a fd s'" by (rule FD_ReadDirent_run [OF L a i(1) p(2)])
  with i(3) have e: "ds1 = []" "ds2 = []" by auto
  show ?thesis
  proof (rule that)
    show "readdir_body (Suc n) E g L fname readdirName r s = Some (Ret (Inr (readdir_finish (r\<lparr>rd_d := \<lparr>di_buf = None, di_nbuf = 0, di_bufp = 0\<rparr>\<rparr>))), s')"
      using True p(1) f(4) k e by (simp add: readdir_body_def bindp_def retp_def Let_def)
    show "coming a fd rest \<lparr>di_buf = None, di_nbuf = 0, di_bufp = 0\<rparr> s' []"
      using f(5,6) e by (simp add: coming_def in_buf_def)
  qed
qed

lemma readdir_loop:
  assumes L: "dir_libc L rest fd" and a: "fd_quiet a"
  shows "coming a fd rest (rd_d r) s ds \<Longrightarrow> length (the (di_buf (rd_d r))) = 8192 \<Longrightarrow> di_buf (rd_d r) \<noteq> None \<Longrightarrow> length ds < m \<Longrightarrow>
    \<exists>d' ds1 ds2 s'. loopp m (readdir_body (Suc n) E g L fname readdirName) r s
        = Some (Ret (readdir_finish (r\<lparr>rd_d := d', rd_n := (if rd_n r > 0 then rd_n r - int (length (listing ds1)) else rd_n r),
            rd_names := rd_names r @ listing ds1\<rparr>)), s')
      \<and> ds = ds1 @ ds2 \<and> coming a fd rest d' s' ds2 \<and> taken (rd_n r) ds1 ds2"
proof (induction ds arbitrary: r s m)
  case Nil
  obtain m' where m: "m = Suc m'" using Nil.prems(4) by (cases m) auto
  show ?case
  proof (cases "rd_n r = 0")
    case True
    then have "readdir_finish (r\<lparr>rd_n := 0\<rparr>) = readdir_finish r" by (cases r) simp
    with True show ?thesis using Nil.prems(1)
      by (intro exI [of _ "rd_d r"] exI [of _ "[]"] exI [of _ s]) (simp add: m readdir_body_def bindp_def retp_def listing_def taken_def)
  next
    case False
    obtain d' s' where h: "readdir_body (Suc n) E g L fname readdirName r s = Some (Ret (Inr (readdir_finish (r\<lparr>rd_d := d'\<rparr>))), s')"
      "coming a fd rest d' s' []" by (rule last_step [OF L a Nil.prems(1-3) False])
    then show ?thesis
      by (intro exI [of _ d'] exI [of _ "[]"] exI [of _ s']) (simp add: m bindp_def retp_def listing_def taken_def)
  qed
next
  case (Cons x ds)
  obtain m' where m: "m = Suc m'" "length ds < m'" using Cons.prems(4) by (cases m) auto
  show ?case
  proof (cases "rd_n r = 0")
    case True
    then have "readdir_finish (r\<lparr>rd_n := 0\<rparr>) = readdir_finish r" by (cases r) simp
    with True show ?thesis using Cons.prems(1)
      by (intro exI [of _ "rd_d r"] exI [of _ "[]"] exI [of _ "x # ds"] exI [of _ s])
        (simp add: m readdir_body_def bindp_def retp_def listing_def taken_def)
  next
    case False
    let ?k = "if visible x \<and> rd_n r > 0 then rd_n r - 1 else rd_n r"
    obtain d' s' where h: "readdir_body (Suc n) E g L fname readdirName r s
        = Some (Ret (Inl (r\<lparr>rd_d := d', rd_n := ?k, rd_names := rd_names r @ listing [x]\<rparr>)), s')"
      and c: "coming a fd rest d' s' ds" "length (the (di_buf d')) = 8192" "di_buf d' \<noteq> None"
      by (rule one_step [OF L a Cons.prems(1-3) False])
    define r1 where "r1 = r\<lparr>rd_d := d', rd_n := ?k, rd_names := rd_names r @ listing [x]\<rparr>"
    have f: "rd_d r1 = d'" "rd_n r1 = ?k" by (simp_all add: r1_def)
    from Cons.IH [of r1 s' m', unfolded f(1), OF c m(2)] obtain d2 ds1 ds2 s2 where
      i: "loopp m' (readdir_body (Suc n) E g L fname readdirName) r1 s'
        = Some (Ret (readdir_finish (r1\<lparr>rd_d := d2, rd_n := (if rd_n r1 > 0 then rd_n r1 - int (length (listing ds1)) else rd_n r1),
            rd_names := rd_names r1 @ listing ds1\<rparr>)), s2)"
      "ds = ds1 @ ds2" "coming a fd rest d2 s2 ds2" "taken (rd_n r1) ds1 ds2" by blast
    have t: "taken (rd_n r) (x # ds1) ds2"
      using i(4) False unfolding f(2) by (auto simp: taken_def listing_def split: if_splits)
    have nk: "(if rd_n r1 > 0 then rd_n r1 - int (length (listing ds1)) else rd_n r1)
        = (if rd_n r > 0 then rd_n r - int (length (listing (x # ds1))) else rd_n r)"
    proof -
      define l where "l = int (length (listing ds1))"
      have "int (length (listing (x # ds1))) = l + (if visible x then 1 else 0)" by (simp add: listing_def l_def)
      moreover have "0 \<le> rd_n r1 \<longrightarrow> l \<le> rd_n r1" using i(4) by (simp add: taken_def l_def)
      moreover have "0 \<le> l" by (simp add: l_def)
      ultimately show ?thesis unfolding l_def [symmetric] f(2) by (auto split: if_splits)
    qed
    have "r1\<lparr>rd_d := d2, rd_n := q, rd_names := rd_names r1 @ listing ds1\<rparr> = r\<lparr>rd_d := d2, rd_n := q, rd_names := rd_names r @ listing (x # ds1)\<rparr>" for q
      by (simp add: r1_def listing_Cons [of x ds1])
    then have "loopp m (readdir_body (Suc n) E g L fname readdirName) r s
        = Some (Ret (readdir_finish (r\<lparr>rd_d := d2, rd_n := (if rd_n r > 0 then rd_n r - int (length (listing (x # ds1))) else rd_n r),
            rd_names := rd_names r @ listing (x # ds1)\<rparr>)), s2)"
      using h [folded r1_def] i(1) [unfolded nk] unfolding m(1) loopp.simps bindp_def by simp
    with i(2,3) t show ?thesis by (intro exI [of _ d2] exI [of _ "x # ds1"] exI [of _ ds2] exI [of _ s2]) simp
  qed
qed

section \<open>Properties\<close>

text \<open>C16: \<open>Readdirnames\<close> lists the directory. With a file system that hands out whole records it comes to an end, and
  returns the names of the entries in use other than "." and "..", in order: all of them when no limit is given,
  otherwise at most that many and fewer only at the end of the directory; \<open>EOF\<close> is reported exactly when a limit
  was given and nothing was left to list. What it did not list is what the next call finds, so successive calls
  list every entry once. The descriptor's references are given back.\<close>

theorem readdir_lists:
  assumes "dir_libc L rest (f_Sysfd s)" and "fd_quiet a" and "coming a (f_Sysfd s) rest d s ds" and "length pool = 8192"
    and "length ds < n"
  shows "\<exists>d' s' ds1 ds2 names err. readdir n E g L pool fname d k readdirName s = Some (Ret (d', names, [], [], err), s')
    \<and> ds = ds1 @ ds2 \<and> names = listing ds1 \<and> coming a (f_Sysfd s) rest d' s' ds2
    \<and> (k \<le> 0 \<longrightarrow> ds2 = [] \<and> err = None)
    \<and> (0 < k \<longrightarrow> int (length names) \<le> k \<and> (int (length names) < k \<longrightarrow> ds2 = []) \<and> (err = None \<longleftrightarrow> names \<noteq> []) \<and> (err \<noteq> None \<longrightarrow> err = Some IoEOF))
    \<and> f_mu s' = f_mu s"
proof -
  obtain m where n: "n = Suc m" using assms(5) by (cases n) auto
  let ?d = "if di_buf d = None then d\<lparr>di_buf := Some pool\<rparr> else d" and ?k = "if k = 0 then -1 else k"
  define r where "r = \<lparr>rd_d = ?d, rd_n = ?k, rd_names = [], rd_dirents = [], rd_infos = []\<rparr>"
  have f: "rd_d r = ?d" "rd_n r = ?k" "rd_names r = []" by (simp_all add: r_def)
  from assms(3) obtain dsb where b: "in_buf d dsb" "ds = dsb @ rest (world_of s)" "fd_at_rest a (f_Sysfd s) s" "\<forall>x \<in> set ds. dentry_ok x"
    unfolding coming_def by blast
  have ib: "in_buf ?d dsb" "length (the (di_buf ?d)) = 8192" "di_buf ?d \<noteq> None"
    using b(1) assms(4) by (auto simp: in_buf_def slice_def split: option.splits)
  then have c: "coming a (f_Sysfd s) rest (rd_d r) s ds" using b(2-4) unfolding coming_def f(1) by blast
  have run: "readdir n E g L pool fname d k readdirName s = loopp n (readdir_body (Suc m) E g L fname readdirName) r s"
    by (simp add: readdir_def n r_def del: loopp.simps)
  from readdir_loop [OF assms(1,2) c, unfolded f(1), OF ib(2,3) assms(5), of m E g fname] obtain d' ds1 ds2 s' where
    h: "readdir n E g L pool fname d k readdirName s
        = Some (Ret (readdir_finish (r\<lparr>rd_d := d', rd_n := (if rd_n r > 0 then rd_n r - int (length (listing ds1)) else rd_n r),
            rd_names := rd_names r @ listing ds1\<rparr>)), s')"
    "ds = ds1 @ ds2" "coming a (f_Sysfd s) rest d' s' ds2" "taken ?k ds1 ds2"
    unfolding run f(2) by blast
  have mu: "f_mu s' = f_mu s" using h(3) b(3) by (auto simp: coming_def fd_at_rest_def)
  show ?thesis
  proof (cases "0 < k \<and> listing ds1 = []")
    case True
    then have "readdir n E g L pool fname d k readdirName s = Some (Ret (d', [], [], [], Some IoEOF), s')"
      using h(1) by (simp add: readdir_finish_def r_def)
    with True h(2-4) mu show ?thesis by (intro exI [of _ d'] exI [of _ s'] exI [of _ ds1] exI [of _ ds2]) (auto simp: taken_def)
  next
    case False
    then have "readdir n E g L pool fname d k readdirName s = Some (Ret (d', listing ds1, [], [], None), s')"
      using h(1) by (auto simp: readdir_finish_def r_def split: if_splits)
    with False h(2-4) mu show ?thesis
      by (intro exI [of _ d'] exI [of _ s'] exI [of _ ds1] exI [of _ ds2]) (auto simp: taken_def split: if_splits)
  qed
qed

text \<open>A file system whose world is the list of records left, one record a read.\<close>

definition fits :: "dentry \<Rightarrow> bool" where "fits x \<longleftrightarrow> length (enc_dirent x) \<le> 8192"

definition libdir :: "dentry list libc" where
  "libdir fn as e w = (case as of
     [x, ABuf p, y] \<Rightarrow> (case w of
         d # ds \<Rightarrow> if fits d then (of_nat (length (enc_dirent d)), 0, 0, [x, ABuf (enc_dirent d @ drop (length (enc_dirent d)) p), y], ds)
                   else (0, 0, 0, as, w)
       | [] \<Rightarrow> (0, 0, 0, as, w))
   | _ \<Rightarrow> (0, 0, 0, as, w))"

lemma libdir_dir: "dir_libc libdir (takeWhile fits) fd"
proof -
  have "\<exists>ds1 ds2. takeWhile fits w = ds1 @ ds2 \<and> takeWhile fits (c_world (libdir ''libc_read'' [W fd, ABuf p, W 8192] 0 w)) = ds2
      \<and> (ds1 = [] \<longrightarrow> ds2 = []) \<and> c_errno (libdir ''libc_read'' [W fd, ABuf p, W 8192] 0 w) = 0 \<and> length (dir_bytes ds1) \<le> 8192
      \<and> c_ret (libdir ''libc_read'' [W fd, ABuf p, W 8192] 0 w) = of_nat (length (dir_bytes ds1))
      \<and> argat (c_args (libdir ''libc_read'' [W fd, ABuf p, W 8192] 0 w)) 1 = ABuf (dir_bytes ds1 @ drop (length (dir_bytes ds1)) p)"
    for p :: gostring and w
  proof (cases "w \<noteq> [] \<and> fits (hd w)")
    case True
    then obtain d ds where "w = d # ds" "fits d" by (cases w) auto
    then show ?thesis
      by - (rule exI [of _ "[d]"], rule exI [of _ "takeWhile fits ds"], simp add: libdir_def fits_def argat_def)
  next
    case False
    then have "takeWhile fits w = []" by (cases w) auto
    with False show ?thesis by (intro exI [of _ "[]"]) (auto simp: libdir_def argat_def split: list.split)
  qed
  then show ?thesis unfolding dir_libc_def Let_def by blast
qed

theorem readdir_lists_witness:
  "\<exists>d' s'. readdir 3 (\<lambda>y s. s) 0 libdir (replicate 8192 0) [47] \<lparr>di_buf = None, di_nbuf = 0, di_bufp = 0\<rparr> (-1) readdirName
      (fd_plain [\<lparr>de_ino = 1, de_off = replicate 8 0, de_name = dot, de_pad = []\<rparr>, \<lparr>de_ino = 2, de_off = replicate 8 0, de_name = [97], de_pad = []\<rparr>] 0)
    = Some (Ret (d', [[97]], [], [], None), s')"
proof -
  let ?a = "\<lparr>a_closed = False, a_rlock = False, a_wlock = False, a_ref = 0, a_rwait = 0, a_wwait = 0\<rparr>"
  let ?d = "\<lparr>di_buf = None, di_nbuf = 0, di_bufp = 0\<rparr>"
  let ?ds = "[\<lparr>de_ino = 1, de_off = replicate 8 0, de_name = dot, de_pad = []\<rparr>, \<lparr>de_ino = 2, de_off = replicate 8 0, de_name = [97], de_pad = []\<rparr>]"
  let ?s = "fd_plain ?ds 0"
  have a: "fd_quiet ?a" "word_of ?a = 0" by (simp_all add: fd_quiet_def fdst_ok_def word_of_def enc_def)
  have c: "coming ?a (f_Sysfd ?s) (takeWhile fits) ?d ?s ?ds"
    using a(2) by (simp add: coming_def fd_at_rest_def fd_plain_def thr_of_def has_errno_def in_buf_def dentry_ok_def dentry_len_def
        fits_def enc_dirent_def dot_def)
  from readdir_lists [OF libdir_dir a(1) c, of "replicate 8192 0" 3 "\<lambda>y s. s" 0 "[47]" "-1"]
  show ?thesis by (auto simp: listing_def visible_def dot_def dotdot_def)
qed

end
