(* ===== verification/Rt_Note.thy ===== *)
theory Rt_Note
  imports Qnx_Os
begin

text \<open>
  One-time events, \<open>runtime/lock_sema.go\<close>: a thread sleeps on a note until another wakes it, over the per-thread
  semaphore of \<open>runtime/os_qnx.go\<close>. The key is 0, \<open>locked\<close>, or the thread that is registered. The two sides are
  interleaved: a step is one compare-and-swap or load of the key, one semaphore operation, or a return. The
  rules of use are those of \<open>runtime/note_other.go\<close>: one sleeper, at most one wake-up between two \<open>noteclear\<close>, and
  \<open>noteclear\<close> only after the sleep of before has returned and no wake-up is under way. The hook \<open>cgo_yield\<close>, which only
  the interceptors of a C sanitizer set, is nil.
\<close>

datatype nkey = KZero | KLocked | KWaiter

datatype nsleep =
    SIdle bool
  | SRegister bool
  | SAsleep bool
  | SDeadline
  | SUnregister
  | SGrab
  | SReturn bool
  | SThrow string

datatype nwake = WIdle | WPost | WThrow string

record note_st =
  nt_key :: nkey
  nt_sema :: nat
  nt_sleep :: nsleep
  nt_wake :: nwake
  nt_woken :: bool

text \<open>
  \<open>noteclear\<close>, \<open>notesleep\<close> (\<open>SRegister False\<close>) and \<open>notetsleep\<close> with a deadline (\<open>SRegister True\<close>), \<open>notewakeup\<close>. \<open>SIdle b\<close> keeps
  what the sleep of before returned. The flag of a step is \<open>False\<close> for the start of a call and for a semaphore wait
  that ends without the semaphore, which only the clock or a signal can cause. A sleep may be called again after one
  that returned: \<open>note_other.go\<close> promises that it returns at once when the event has happened.
\<close>

inductive note_step :: "bool \<Rightarrow> note_st \<Rightarrow> note_st \<Rightarrow> bool" where
  noteclear: "nt_sleep s = SIdle b \<Longrightarrow> nt_wake s = WIdle
    \<Longrightarrow> note_step False s (s\<lparr>nt_key := KZero, nt_woken := False, nt_sleep := SIdle False\<rparr>)"
| sleep_call: "nt_sleep s = SIdle b \<Longrightarrow> note_step False s (s\<lparr>nt_sleep := SRegister timed\<rparr>)"
| register: "nt_sleep s = SRegister timed \<Longrightarrow> nt_key s = KZero
    \<Longrightarrow> note_step True s (s\<lparr>nt_key := KWaiter, nt_sleep := SAsleep timed\<rparr>)"
| already: "nt_sleep s = SRegister timed \<Longrightarrow> nt_key s \<noteq> KZero
    \<Longrightarrow> note_step True s (s\<lparr>nt_sleep := if nt_key s \<noteq> KLocked then SThrow (if timed then ''notetsleep - waitm out of sync'' else ''notesleep - waitm out of sync'') else SReturn True\<rparr>)"
| acquire: "nt_sleep s = SAsleep timed \<Longrightarrow> 0 < nt_sema s
    \<Longrightarrow> note_step True s (s\<lparr>nt_sema := nt_sema s - 1, nt_sleep := SReturn True\<rparr>)"
| expire: "nt_sleep s = SAsleep True \<Longrightarrow> note_step False s (s\<lparr>nt_sleep := SDeadline\<rparr>)"
| again: "nt_sleep s = SDeadline \<Longrightarrow> note_step True s (s\<lparr>nt_sleep := SAsleep True\<rparr>)"
| give_up: "nt_sleep s = SDeadline \<Longrightarrow> note_step True s (s\<lparr>nt_sleep := SUnregister\<rparr>)"
| unregister: "nt_sleep s = SUnregister
    \<Longrightarrow> note_step True s (case nt_key s of
          KWaiter \<Rightarrow> s\<lparr>nt_key := KZero, nt_sleep := SReturn False\<rparr>
        | KLocked \<Rightarrow> s\<lparr>nt_sleep := SGrab\<rparr>
        | KZero \<Rightarrow> s\<lparr>nt_sleep := SThrow ''runtime: unexpected waitm - semaphore out of sync''\<rparr>)"
| grab: "nt_sleep s = SGrab \<Longrightarrow> 0 < nt_sema s \<Longrightarrow> note_step True s (s\<lparr>nt_sema := nt_sema s - 1, nt_sleep := SReturn True\<rparr>)"
| return: "nt_sleep s = SReturn b \<Longrightarrow> note_step True s (s\<lparr>nt_sleep := SIdle b\<rparr>)"
| notewakeup: "nt_wake s = WIdle \<Longrightarrow> \<not> nt_woken s
    \<Longrightarrow> note_step False s (s\<lparr>nt_key := KLocked, nt_woken := True,
          nt_wake := (case nt_key s of KZero \<Rightarrow> WIdle | KLocked \<Rightarrow> WThrow ''notewakeup - double wakeup'' | KWaiter \<Rightarrow> WPost)\<rparr>)"
| post: "nt_wake s = WPost \<Longrightarrow> note_step True s (s\<lparr>nt_sema := Suc (nt_sema s), nt_wake := WIdle\<rparr>)"

definition note_start :: note_st where
  "note_start = \<lparr>nt_key = KZero, nt_sema = 0, nt_sleep = SIdle False, nt_wake = WIdle, nt_woken = False\<rparr>"

inductive note_reach :: "note_st \<Rightarrow> bool" where
  start: "note_reach note_start"
| step: "note_reach s \<Longrightarrow> note_step own s s' \<Longrightarrow> note_reach s'"

inductive_cases note_stepE: "note_step own s s'"

section \<open>The invariant\<close>

definition registered :: "nsleep \<Rightarrow> bool" where
  "registered p = (case p of SAsleep b \<Rightarrow> True | SDeadline \<Rightarrow> True | SUnregister \<Rightarrow> True | _ \<Rightarrow> False)"

text \<open>The tokens there are and the one on its way.\<close>

definition tokens :: "note_st \<Rightarrow> nat" where
  "tokens s = nt_sema s + of_bool (nt_wake s = WPost)"

definition note_ok :: "note_st \<Rightarrow> bool" where
  "note_ok s \<longleftrightarrow> (\<forall>e. nt_wake s \<noteq> WThrow e) \<and> (\<forall>e. nt_sleep s \<noteq> SThrow e)
     \<and> nt_key s = (if nt_woken s then KLocked else if registered (nt_sleep s) then KWaiter else KZero)
     \<and> tokens s = of_bool (nt_sleep s = SGrab \<or> registered (nt_sleep s) \<and> nt_woken s)
     \<and> (nt_sleep s = SGrab \<or> nt_sleep s = SReturn True \<or> nt_sleep s = SIdle True \<longrightarrow> nt_woken s)"

lemma note_ok_step: "note_step own s s' \<Longrightarrow> note_ok s \<Longrightarrow> note_ok s'"
  by (cases own s s' rule: note_step.cases)
    (auto simp: note_ok_def registered_def tokens_def split: if_splits nkey.splits)

lemma reach_ok: "note_reach s \<Longrightarrow> note_ok s"
  by (induction rule: note_reach.induct) (simp add: note_start_def note_ok_def registered_def tokens_def, rule note_ok_step)

text \<open>The token reaches a sleeper that waits for it.\<close>

lemma token_taken:
  assumes "tokens s = 1" and "nt_sleep s = SAsleep b \<or> nt_sleep s = SGrab"
  shows "\<exists>s'. (note_step True)\<^sup>*\<^sup>* s s' \<and> nt_sleep s' = SReturn True"
proof -
  have take: "\<exists>s'. note_step True r s' \<and> nt_sleep s' = SReturn True" if "0 < nt_sema r" "nt_sleep r = nt_sleep s" for r
    using assms(2) that acquire [of r b] grab [of r] by (metis note_st.select_convs(3) note_st.surjective note_st.update_convs(2,3))
  show ?thesis
  proof (cases "0 < nt_sema s")
    case True
    then show ?thesis using take [of s] by blast
  next
    case False
    with assms(1) have "nt_wake s = WPost" by (simp add: tokens_def of_bool_def split: if_splits)
    let ?r = "s\<lparr>nt_sema := Suc (nt_sema s), nt_wake := WIdle\<rparr>"
    obtain s' where "note_step True ?r s'" "nt_sleep s' = SReturn True" using take [of ?r] by auto
    with post [OF \<open>nt_wake s = WPost\<close>] show ?thesis by (meson converse_rtranclp_into_rtranclp r_into_rtranclp)
  qed
qed

lemma wakes_up:
  assumes ok: "note_ok s" and w: "nt_woken s" "registered (nt_sleep s) \<or> nt_sleep s = SGrab"
  shows "\<exists>s'. (note_step True)\<^sup>*\<^sup>* s s' \<and> nt_sleep s' = SReturn True"
proof -
  have t: "tokens s = 1" "nt_key s = KLocked" using ok w by (auto simp: note_ok_def)
  consider b where "nt_sleep s = SAsleep b" | "nt_sleep s = SGrab" | "nt_sleep s = SDeadline" | "nt_sleep s = SUnregister"
    using w(2) by (auto simp: registered_def split: nsleep.splits)
  then show ?thesis
  proof cases
    case 3
    let ?r = "s\<lparr>nt_sleep := SAsleep True\<rparr>"
    have "tokens ?r = 1" using t by (simp add: tokens_def)
    with token_taken [of ?r True] again [OF 3] show ?thesis by (auto intro: converse_rtranclp_into_rtranclp)
  next
    case 4
    let ?r = "s\<lparr>nt_sleep := SGrab\<rparr>"
    have "tokens ?r = 1" "note_step True s ?r" using t unregister [OF 4] by (simp_all add: tokens_def)
    with token_taken [of ?r True] show ?thesis by (auto intro: converse_rtranclp_into_rtranclp)
  qed (use token_taken [OF t(1)] in auto)
qed

text \<open>A timed sleeper that was woken just as its deadline passed.\<close>

definition late_wakeup :: note_st where
  "late_wakeup = \<lparr>nt_key = KLocked, nt_sema = 0, nt_sleep = SUnregister, nt_wake = WPost, nt_woken = True\<rparr>"

lemma late_wakeup_reach: "note_reach late_wakeup"
proof -
  have "note_reach (note_start\<lparr>nt_sleep := SRegister True\<rparr>)"
    by (rule note_reach.step [OF note_reach.start sleep_call [of _ False]]) (simp add: note_start_def)
  then have "note_reach (note_start\<lparr>nt_sleep := SRegister True\<rparr>\<lparr>nt_key := KWaiter, nt_sleep := SAsleep True\<rparr>)"
    by (rule note_reach.step [OF _ register]) (simp_all add: note_start_def)
  then have "note_reach (note_start\<lparr>nt_key := KWaiter, nt_sleep := SAsleep True\<rparr>\<lparr>nt_sleep := SDeadline\<rparr>)"
    by - (rule note_reach.step [OF _ expire], simp_all add: note_start_def)
  then have "note_reach (note_start\<lparr>nt_key := KWaiter, nt_sleep := SDeadline\<rparr>\<lparr>nt_sleep := SUnregister\<rparr>)"
    by - (rule note_reach.step [OF _ give_up], simp_all add: note_start_def)
  then have "note_reach (note_start\<lparr>nt_key := KWaiter, nt_sleep := SUnregister\<rparr>)" by simp
  from note_reach.step [OF this notewakeup] show ?thesis by (simp add: note_start_def late_wakeup_def)
qed

section \<open>Properties\<close>

text \<open>The steps in which a sleep decides on its answer.\<close>

lemma gives_up_unwoken:
  "note_step own s s' \<Longrightarrow> note_ok s \<Longrightarrow> nt_sleep s \<noteq> SReturn False \<Longrightarrow> nt_sleep s' = SReturn False
     \<Longrightarrow> \<not> nt_woken s' \<and> nt_sleep s = SUnregister"
  by (cases own s s' rule: note_step.cases) (auto simp: note_ok_def registered_def split: if_splits nkey.splits)

lemma woken_returns_at_once:
  "note_step own s s' \<Longrightarrow> note_ok s \<Longrightarrow> nt_sleep s = SRegister timed \<Longrightarrow> nt_woken s \<Longrightarrow> nt_sleep s' \<noteq> SRegister timed
     \<Longrightarrow> nt_sleep s' = SReturn True"
  by (cases own s s' rule: note_step.cases) (auto simp: note_ok_def registered_def split: if_splits nkey.splits)



end
