(* ===== verification/Rt_Lock.thy ===== *)
theory Rt_Lock
  imports Qnx_Os
begin

text \<open>
  The runtime's mutex, \<open>lock2\<close> and \<open>unlock2\<close> of \<open>runtime/lock_spinbit.go\<close>, over the per-thread semaphores of
  \<open>runtime/os_qnx.go\<close>. One word holds four flags and a pointer to the thread that went to sleep last; the sleeping
  threads form a stack through their \<open>mWaitList.next\<close>. The threads are interleaved: a step is one atomic operation on
  the word, one access to a \<open>next\<close> field, one semaphore operation, or a return. Here the word is a record of its
  fields; \<open>Rt_Lock_Word\<close> relates the record to the word. The times that \<open>mLockProfile\<close> collects are left out.
\<close>

record mkey =
  k_locked :: bool
  k_sleeping :: bool
  k_spinning :: bool
  k_stack :: bool
  k_head :: "nat option"

text \<open>
  Where a thread is. \<open>MLoad i w a\<close>, \<open>MTry\<close>, \<open>MSpin\<close>, \<open>MPush\<close>, \<open>MPushCas\<close> and \<open>MReset\<close> are the loop of \<open>lock2\<close> with its variables
  \<open>i\<close>, \<open>weSpin\<close>, \<open>atTail\<close> and \<open>v\<close>; \<open>MWakeLoad\<close> to \<open>MPost\<close> are \<open>unlock2Wake\<close> with \<open>antiStarve\<close>, \<open>committed\<close>, \<open>wakem\<close> and \<open>v\<close>.
\<close>

datatype mpc =
    MIdle
  | MFast
  | MFix
  | MHeld
  | MLoad nat bool bool
  | MTry nat bool bool mkey
  | MSpin nat bool mkey
  | MPush nat bool bool mkey
  | MPushCas nat bool bool mkey
  | MAsleep
  | MWoken
  | MReset nat bool bool
  | MUnlock
  | MSample
  | MSampleCas mkey
  | MWakeLoad
  | MWakeReload bool
  | MWakeCas bool mkey
  | MPickLoad bool "nat option"
  | MWalk mkey nat nat
  | MUnlink mkey nat nat
  | MHead bool "nat option" "nat option" mkey
  | MPickCas bool "nat option" "nat option" mkey mkey
  | MPost nat
  | MRet
  | MThrow string

record mst =
  ms_key :: mkey
  ms_next :: "nat \<Rightarrow> nat option"
  ms_sema :: "nat \<Rightarrow> nat"
  ms_locks :: "nat \<Rightarrow> int"
  ms_pc :: "nat \<Rightarrow> mpc"

section \<open>The updates of the word\<close>

definition k_xchg8 :: "bool \<Rightarrow> bool \<Rightarrow> mkey \<Rightarrow> mkey" where
  "k_xchg8 lck slp k = k\<lparr>k_locked := lck, k_sleeping := slp\<rparr>"

definition k_acquire :: "mkey \<Rightarrow> mkey" where
  "k_acquire v = v\<lparr>k_spinning := False, k_sleeping := (k_head v \<noteq> None), k_locked := True\<rparr>"

definition k_push :: "nat \<Rightarrow> bool \<Rightarrow> mkey \<Rightarrow> mkey" where
  "k_push t weSpin v = v\<lparr>k_head := Some t, k_sleeping := True, k_spinning := (k_spinning v \<and> \<not> weSpin)\<rparr>"

definition k_sample :: "mkey \<Rightarrow> mkey" where
  "k_sample v = v\<lparr>k_stack := True, k_locked := False, k_sleeping := False\<rparr>"

definition k_release :: "nat option \<Rightarrow> mkey \<Rightarrow> mkey" where
  "k_release headM v = v\<lparr>k_stack := False, k_head := headM\<rparr>"

section \<open>Decisions between two accesses\<close>

text \<open>After the spin bit is settled: look again, or go to sleep.\<close>

definition sleep_or_spin :: "nat \<Rightarrow> bool \<Rightarrow> nat \<Rightarrow> bool \<Rightarrow> bool \<Rightarrow> mkey \<Rightarrow> mpc" where
  "sleep_or_spin spin low i weSpin atTail v =
     (if (weSpin \<or> atTail \<or> low) \<and> i < spin + 1 then MLoad (Suc i) weSpin atTail
      else if \<not> k_locked v then MThrow ''runtime.lock: sleeping while lock is available''
      else MPush i weSpin atTail v)"

definition tryAcquire :: "nat \<Rightarrow> bool \<Rightarrow> nat \<Rightarrow> bool \<Rightarrow> bool \<Rightarrow> mkey \<Rightarrow> mpc" where
  "tryAcquire spin low i weSpin atTail v =
     (if \<not> k_locked v then MTry i weSpin atTail v
      else if \<not> weSpin \<and> \<not> k_spinning v then MSpin i atTail v
      else sleep_or_spin spin low i weSpin atTail v)"

definition wake_test :: "bool \<Rightarrow> mkey \<Rightarrow> mpc" where
  "wake_test antiStarve v = (if k_head v = None \<or> k_stack v then MRet else MWakeCas antiStarve v)"

definition pick :: "bool \<Rightarrow> bool \<Rightarrow> nat option \<Rightarrow> mkey \<Rightarrow> mpc" where
  "pick low antiStarve committed v =
     (if committed = None \<and> antiStarve
      then (case k_head v of None \<Rightarrow> MThrow ''nil pointer dereference'' | Some mp \<Rightarrow> MWalk v mp mp)
      else MHead antiStarve committed
             (if committed \<noteq> None then committed else if \<not> k_spinning v \<or> low then k_head v else None) v)"

section \<open>Steps\<close>

definition mgo :: "nat \<Rightarrow> mpc \<Rightarrow> mst \<Rightarrow> mst" where
  "mgo t p s = s\<lparr>ms_pc := (ms_pc s)(t := p)\<rparr>"

definition put_key :: "mkey \<Rightarrow> mst \<Rightarrow> mst" where "put_key k s = s\<lparr>ms_key := k\<rparr>"

definition put_next :: "nat \<Rightarrow> nat option \<Rightarrow> mst \<Rightarrow> mst" where "put_next t n s = s\<lparr>ms_next := (ms_next s)(t := n)\<rparr>"

text \<open>The flag is \<open>False\<close> for the calls of \<open>lock2\<close> and \<open>unlock2\<close>, which the program decides on, and \<open>True\<close> for the steps inside them.\<close>

inductive lock2_step :: "nat \<Rightarrow> bool \<Rightarrow> bool \<Rightarrow> mst \<Rightarrow> mst \<Rightarrow> bool" for spin low where
  lock_call: "ms_pc s t = MIdle
    \<Longrightarrow> lock2_step spin low False s
          (if ms_locks s t < 0 then mgo t (MThrow ''runtime.lock: lock count'') s
           else mgo t MFast (s\<lparr>ms_locks := (ms_locks s)(t := ms_locks s t + 1)\<rparr>))"
| fast: "ms_pc s t = MFast \<Longrightarrow> v = ms_key s
    \<Longrightarrow> lock2_step spin low True s
          (mgo t (if \<not> k_locked v then if k_sleeping v then MFix else MHeld else MLoad 0 False False) (put_key (k_xchg8 True False v) s))"
| fix_hint: "ms_pc s t = MFix \<Longrightarrow> lock2_step spin low True s (mgo t MHeld (put_key ((ms_key s)\<lparr>k_sleeping := True\<rparr>) s))"
| load: "ms_pc s t = MLoad i w a \<Longrightarrow> lock2_step spin low True s (mgo t (tryAcquire spin low i w a (ms_key s)) s)"
| try_cas: "ms_pc s t = MTry i True a v
    \<Longrightarrow> lock2_step spin low True s (if ms_key s = v then mgo t MHeld (put_key (k_acquire v) s) else mgo t (MLoad (Suc i) True a) s)"
| try_xchg: "ms_pc s t = MTry i False a v0 \<Longrightarrow> v = ms_key s
    \<Longrightarrow> lock2_step spin low True s (mgo t (if \<not> k_locked v then MHeld else MLoad (Suc i) False a) (put_key (k_xchg8 True True v) s))"
| spin_cas: "ms_pc s t = MSpin i a v
    \<Longrightarrow> lock2_step spin low True s
          (if ms_key s = v then mgo t (sleep_or_spin spin low i True a (v\<lparr>k_spinning := True\<rparr>)) (put_key (v\<lparr>k_spinning := True\<rparr>) s)
           else mgo t (sleep_or_spin spin low i False a v) s)"
| push_next: "ms_pc s t = MPush i w a v \<Longrightarrow> lock2_step spin low True s (mgo t (MPushCas i w a v) (put_next t (k_head v) s))"
| push_cas: "ms_pc s t = MPushCas i w a v
    \<Longrightarrow> lock2_step spin low True s (if ms_key s = v then mgo t MAsleep (put_key (k_push t w v) s) else mgo t (MReset (Suc i) w a) s)"
| semasleep: "ms_pc s t = MAsleep \<Longrightarrow> 0 < ms_sema s t
    \<Longrightarrow> lock2_step spin low True s (mgo t MWoken (s\<lparr>ms_sema := (ms_sema s)(t := ms_sema s t - 1)\<rparr>))"
| woken: "ms_pc s t = MWoken \<Longrightarrow> lock2_step spin low True s (mgo t (MReset 1 False (ms_next s t = None)) s)"
| reset_next: "ms_pc s t = MReset i w a \<Longrightarrow> lock2_step spin low True s (mgo t (MLoad i w a) (put_next t None s))"

inductive unlock2_step :: "nat \<Rightarrow> bool \<Rightarrow> bool \<Rightarrow> mst \<Rightarrow> mst \<Rightarrow> bool" for spin low where
  unlock_call: "ms_pc s t = MHeld \<Longrightarrow> unlock2_step spin low False s (mgo t (if sample then MSample else MUnlock) s)"
| sample: "ms_pc s t = MSample \<Longrightarrow> v = ms_key s
    \<Longrightarrow> unlock2_step spin low True s (mgo t (if k_head v = None \<or> k_stack v then MUnlock else MSampleCas v) s)"
| sample_cas: "ms_pc s t = MSampleCas v
    \<Longrightarrow> unlock2_step spin low True s
          (if ms_key s = v
           then mgo t (if \<not> k_locked v then MThrow ''unlock of unlocked lock'' else MPickLoad anti None) (put_key (k_sample v) s)
           else mgo t MSample s)"
| unlock: "ms_pc s t = MUnlock \<Longrightarrow> v = ms_key s
    \<Longrightarrow> unlock2_step spin low True s
          (mgo t (if \<not> k_locked v then MThrow ''unlock of unlocked lock'' else if k_sleeping v then MWakeLoad else MRet)
             (put_key (k_xchg8 False False v) s))"
| return: "ms_pc s t = MRet
    \<Longrightarrow> unlock2_step spin low True s
          (mgo t (if ms_locks s t - 1 < 0 then MThrow ''runtime.unlock: lock count'' else MIdle)
             (s\<lparr>ms_locks := (ms_locks s)(t := ms_locks s t - 1)\<rparr>))"

inductive unlock2Wake_step :: "nat \<Rightarrow> bool \<Rightarrow> bool \<Rightarrow> mst \<Rightarrow> mst \<Rightarrow> bool" for spin low where
  wake_load: "ms_pc s t = MWakeLoad \<Longrightarrow> v = ms_key s
    \<Longrightarrow> unlock2Wake_step spin low True s (mgo t (if \<not> (anti \<or> \<not> k_spinning v \<or> low) then MRet else wake_test anti v) s)"
| wake_reload: "ms_pc s t = MWakeReload anti \<Longrightarrow> unlock2Wake_step spin low True s (mgo t (wake_test anti (ms_key s)) s)"
| wake_cas: "ms_pc s t = MWakeCas anti v
    \<Longrightarrow> unlock2Wake_step spin low True s
          (if ms_key s = v then mgo t (pick low anti None v) (put_key (v\<lparr>k_stack := True\<rparr>) s) else mgo t (MWakeReload anti) s)"
| pick_load: "ms_pc s t = MPickLoad anti com \<Longrightarrow> unlock2Wake_step spin low True s (mgo t (pick low anti com (ms_key s)) s)"
| walk: "ms_pc s t = MWalk v prev w
    \<Longrightarrow> unlock2Wake_step spin low True s
          (mgo t (case ms_next s w of
                    Some n \<Rightarrow> MWalk v w n
                  | None \<Rightarrow> if Some w \<noteq> k_head v then MUnlink v prev w else MHead True None (Some w) v) s)"
| unlink: "ms_pc s t = MUnlink v prev w \<Longrightarrow> unlock2Wake_step spin low True s (mgo t (MHead True (Some w) (Some w) v) (put_next prev (ms_next s w) s))"
| head: "ms_pc s t = MHead anti com wakem v
    \<Longrightarrow> unlock2Wake_step spin low True s
          (mgo t (if wakem = k_head v
                  then (case wakem of None \<Rightarrow> MThrow ''nil pointer dereference''
                        | Some mp \<Rightarrow> MPickCas anti com wakem v (k_release (ms_next s mp) v))
                  else MPickCas anti com wakem v (k_release (k_head v) v)) s)"
| pick_cas: "ms_pc s t = MPickCas anti com wakem v nxt
    \<Longrightarrow> unlock2Wake_step spin low True s
          (if ms_key s = v then mgo t (case wakem of None \<Rightarrow> MRet | Some w \<Rightarrow> MPost w) (put_key nxt s)
           else mgo t (MPickLoad anti com) s)"
| semawakeup: "ms_pc s t = MPost w \<Longrightarrow> unlock2Wake_step spin low True s (mgo t MRet (s\<lparr>ms_sema := (ms_sema s)(w := ms_sema s w + 1)\<rparr>))"

inductive lk_step :: "nat \<Rightarrow> bool \<Rightarrow> bool \<Rightarrow> mst \<Rightarrow> mst \<Rightarrow> bool" for spin low where
  lock2: "lock2_step spin low own s s' \<Longrightarrow> lk_step spin low own s s'"
| unlock2: "unlock2_step spin low own s s' \<Longrightarrow> lk_step spin low own s s'"
| unlock2Wake: "unlock2Wake_step spin low own s s' \<Longrightarrow> lk_step spin low own s s'"

inductive_simps lk_step_iff: "lk_step spin low own s s'"

definition lk_start :: mst where
  "lk_start = \<lparr>ms_key = \<lparr>k_locked = False, k_sleeping = False, k_spinning = False, k_stack = False, k_head = None\<rparr>,
     ms_next = (\<lambda>t. None), ms_sema = (\<lambda>t. 0), ms_locks = (\<lambda>t. 0), ms_pc = (\<lambda>t. MIdle)\<rparr>"

inductive lk_reach :: "nat \<Rightarrow> bool \<Rightarrow> mst \<Rightarrow> bool" for spin low where
  start: "lk_reach spin low lk_start"
| step: "lk_reach spin low s \<Longrightarrow> lk_step spin low own s s' \<Longrightarrow> lk_reach spin low s'"

lemma mgo_simps [simp]:
  "ms_key (mgo t p s) = ms_key s" "ms_next (mgo t p s) = ms_next s" "ms_sema (mgo t p s) = ms_sema s"
  "ms_locks (mgo t p s) = ms_locks s" "ms_pc (mgo t p s) = (ms_pc s)(t := p)"
  by (simp_all add: mgo_def)

lemma put_simps [simp]:
  "ms_key (put_key k s) = k" "ms_next (put_key k s) = ms_next s" "ms_sema (put_key k s) = ms_sema s"
  "ms_locks (put_key k s) = ms_locks s" "ms_pc (put_key k s) = ms_pc s"
  "ms_key (put_next u n s) = ms_key s" "ms_next (put_next u n s) = (ms_next s)(u := n)" "ms_sema (put_next u n s) = ms_sema s"
  "ms_locks (put_next u n s) = ms_locks s" "ms_pc (put_next u n s) = ms_pc s"
  by (simp_all add: put_key_def put_next_def)

lemma k_simps [simp]:
  "k_locked (k_xchg8 lk sl k) = lk" "k_sleeping (k_xchg8 lk sl k) = sl" "k_spinning (k_xchg8 lk sl k) = k_spinning k"
  "k_stack (k_xchg8 lk sl k) = k_stack k" "k_head (k_xchg8 lk sl k) = k_head k"
  "k_locked (k_acquire k) = True" "k_sleeping (k_acquire k) = (k_head k \<noteq> None)" "k_spinning (k_acquire k) = False"
  "k_stack (k_acquire k) = k_stack k" "k_head (k_acquire k) = k_head k"
  "k_locked (k_push t w k) = k_locked k" "k_sleeping (k_push t w k) = True" "k_spinning (k_push t w k) = (k_spinning k \<and> \<not> w)"
  "k_stack (k_push t w k) = k_stack k" "k_head (k_push t w k) = Some t"
  "k_locked (k_sample k) = False" "k_sleeping (k_sample k) = False" "k_spinning (k_sample k) = k_spinning k"
  "k_stack (k_sample k) = True" "k_head (k_sample k) = k_head k"
  "k_locked (k_release h k) = k_locked k" "k_sleeping (k_release h k) = k_sleeping k" "k_spinning (k_release h k) = k_spinning k"
  "k_stack (k_release h k) = False" "k_head (k_release h k) = h"
  by (simp_all add: k_xchg8_def k_acquire_def k_push_def k_sample_def k_release_def)

section \<open>What a thread holds\<close>

fun holder :: "mpc \<Rightarrow> bool" where
  "holder MFix = True"
| "holder MHeld = True"
| "holder MUnlock = True"
| "holder MSample = True"
| "holder (MSampleCas v) = True"
| "holder _ = False"

fun spinner :: "mpc \<Rightarrow> bool" where
  "spinner (MLoad i w a) = w"
| "spinner (MTry i w a v) = w"
| "spinner (MPush i w a v) = w"
| "spinner (MPushCas i w a v) = w"
| "spinner (MReset i w a) = w"
| "spinner _ = False"

fun stack_owner :: "mpc \<Rightarrow> bool" where
  "stack_owner (MPickLoad anti com) = True"
| "stack_owner (MWalk v prev w) = True"
| "stack_owner (MUnlink v prev w) = True"
| "stack_owner (MHead anti com wakem v) = True"
| "stack_owner (MPickCas anti com wakem v nxt) = True"
| "stack_owner _ = False"

text \<open>A sleeper taken off the stack, whom this thread will wake.\<close>

fun claimed :: "mpc \<Rightarrow> nat option" where
  "claimed (MPickLoad anti com) = com"
| "claimed (MHead anti com wakem v) = com"
| "claimed (MPickCas anti com wakem v nxt) = com"
| "claimed (MPost w) = Some w"
| "claimed _ = None"

text \<open>A thread on its way to the lock, or to waking somebody: it goes on by itself.\<close>

fun moving :: "mpc \<Rightarrow> bool" where
  "moving (MLoad i w a) = True"
| "moving (MTry i w a v) = True"
| "moving (MSpin i a v) = True"
| "moving (MPush i w a v) = True"
| "moving (MPushCas i w a v) = True"
| "moving MWoken = True"
| "moving (MReset i w a) = True"
| "moving MWakeLoad = True"
| "moving (MWakeReload anti) = True"
| "moving (MWakeCas anti v) = True"
| "moving p = stack_owner p"

text \<open>What a thread knows of its own variables.\<close>

fun local_ok :: "nat option \<Rightarrow> mpc \<Rightarrow> bool" where
  "local_ok n (MTry i w a v) = (\<not> k_locked v)"
| "local_ok n (MSpin i a v) = (k_locked v \<and> \<not> k_spinning v)"
| "local_ok n (MPush i w a v) = k_locked v"
| "local_ok n (MPushCas i w a v) = (k_locked v \<and> n = k_head v)"
| "local_ok n (MSampleCas v) = (k_head v \<noteq> None \<and> \<not> k_stack v)"
| "local_ok n (MWakeCas anti v) = (k_head v \<noteq> None \<and> \<not> k_stack v)"
| "local_ok n (MThrow e) = False"
| "local_ok n _ = True"

text \<open>What the owner of the stack lock knows of the stack.\<close>

definition knows_head :: "nat list \<Rightarrow> mkey \<Rightarrow> bool" where
  "knows_head xs v \<longleftrightarrow> (\<exists>mp \<in> set xs. k_head v = Some mp)"

definition choice_ok :: "nat option \<Rightarrow> nat option \<Rightarrow> mkey \<Rightarrow> bool" where
  "choice_ok com wakem v \<longleftrightarrow> (if com = None then wakem = None \<and> k_spinning v \<or> wakem = k_head v else wakem = com)"

fun owner_ok :: "nat list \<Rightarrow> (nat \<Rightarrow> nat option) \<Rightarrow> mpc \<Rightarrow> bool" where
  "owner_ok xs next (MPickLoad anti com) = (xs \<noteq> [])"
| "owner_ok xs next (MWalk v prev w) = (knows_head xs v \<and> w \<in> set xs \<and> (Some w = k_head v \<or> prev \<in> set xs \<and> next prev = Some w))"
| "owner_ok xs next (MUnlink v prev w) =
     (knows_head xs v \<and> w \<in> set xs \<and> prev \<in> set xs \<and> Some w \<noteq> k_head v \<and> next prev = Some w \<and> next w = None)"
| "owner_ok xs next (MHead anti com wakem v) = (knows_head xs v \<and> choice_ok com wakem v)"
| "owner_ok xs next (MPickCas anti com wakem v nxt) =
     (knows_head xs v \<and> choice_ok com wakem v \<and> nxt = k_release (if wakem = k_head v then next (the wakem) else k_head v) v)"
| "owner_ok xs next _ = True"

section \<open>The invariant\<close>

text \<open>A flag that says whether some thread is in a class of positions, with at most one thread in it.\<close>

definition held_by :: "(mpc \<Rightarrow> bool) \<Rightarrow> bool \<Rightarrow> (nat \<Rightarrow> mpc) \<Rightarrow> bool" where
  "held_by f b pc \<longleftrightarrow> (\<forall>t u. f (pc t) \<longrightarrow> f (pc u) \<longrightarrow> t = u) \<and> (b \<longleftrightarrow> (\<exists>t. f (pc t)))"

definition passes :: "(mpc \<Rightarrow> bool) \<Rightarrow> mpc \<Rightarrow> bool \<Rightarrow> mpc \<Rightarrow> bool \<Rightarrow> bool" where
  "passes f p b p' b' \<longleftrightarrow> (f p' = f p \<and> b' = b) \<or> (f p' \<and> \<not> b \<and> b') \<or> (f p \<and> \<not> f p' \<and> \<not> b')"

lemma held_by_move: "held_by f b pc \<Longrightarrow> passes f (pc t) b p b' \<Longrightarrow> held_by f b' (pc(t := p))"
  unfolding held_by_def passes_def by (auto split: if_splits)

lemma held_by_flag: "held_by f b pc \<Longrightarrow> f (pc t) \<Longrightarrow> b"
  by (auto simp: held_by_def)

lemma held_by_unique: "held_by f b pc \<Longrightarrow> f (pc t) \<Longrightarrow> f (pc u) \<Longrightarrow> t = u"
  by (auto simp: held_by_def)

fun stacked :: "(nat \<Rightarrow> nat option) \<Rightarrow> nat option \<Rightarrow> nat list \<Rightarrow> bool" where
  "stacked next h [] \<longleftrightarrow> h = None"
| "stacked next h (x # xs) \<longleftrightarrow> h = Some x \<and> stacked next (next x) xs"

text \<open>Somebody holds the lock who will look for sleepers when it unlocks.\<close>

definition hinted :: "mkey \<Rightarrow> (nat \<Rightarrow> mpc) \<Rightarrow> bool" where
  "hinted k pc \<longleftrightarrow> k_locked k \<and> (k_sleeping k \<or> (\<exists>u. pc u = MFix))"

definition flags_ok :: "mkey \<Rightarrow> (nat \<Rightarrow> mpc) \<Rightarrow> bool" where
  "flags_ok k pc \<longleftrightarrow> held_by holder (k_locked k) pc \<and> held_by spinner (k_spinning k) pc \<and> held_by stack_owner (k_stack k) pc"

definition stack_ok :: "nat list \<Rightarrow> mst \<Rightarrow> bool" where
  "stack_ok xs s \<longleftrightarrow> stacked (ms_next s) (k_head (ms_key s)) xs \<and> distinct xs \<and> (\<forall>t \<in> set xs. ms_pc s t = MAsleep)"

definition threads_ok :: "nat list \<Rightarrow> mst \<Rightarrow> bool" where
  "threads_ok xs s \<longleftrightarrow> (\<forall>t. local_ok (ms_next s t) (ms_pc s t) \<and> owner_ok xs (ms_next s) (ms_pc s t)
     \<and> ms_locks s t = (if ms_pc s t = MIdle then 0 else 1))"

text \<open>A sleeper off the stack has a token, or exactly one thread that is about to give it one.\<close>

definition tokens_ok :: "nat list \<Rightarrow> mst \<Rightarrow> bool" where
  "tokens_ok xs s \<longleftrightarrow> (\<forall>t. ms_sema s t \<le> 1
     \<and> held_by (\<lambda>p. claimed p = Some t) (ms_pc s t = MAsleep \<and> t \<notin> set xs \<and> ms_sema s t = 0) (ms_pc s)
     \<and> (0 < ms_sema s t \<longrightarrow> ms_pc s t = MAsleep \<and> t \<notin> set xs))"

definition live :: "nat list \<Rightarrow> mst \<Rightarrow> bool" where
  "live xs s \<longleftrightarrow> xs \<noteq> [] \<longrightarrow> hinted (ms_key s) (ms_pc s) \<or> (\<exists>t. moving (ms_pc s t)) \<or> (\<exists>t. ms_pc s t = MAsleep \<and> t \<notin> set xs)"

definition lk_inv :: "nat list \<Rightarrow> mst \<Rightarrow> bool" where
  "lk_inv xs s \<longleftrightarrow> flags_ok (ms_key s) (ms_pc s) \<and> stack_ok xs s \<and> threads_ok xs s \<and> tokens_ok xs s \<and> live xs s"

lemma stacked_upd [simp]: "t \<notin> set xs \<Longrightarrow> stacked (next(t := n)) h xs = stacked next h xs"
  by (induction xs arbitrary: h) auto

lemma owner_ok_upd: "owner_ok xs next p \<Longrightarrow> t \<notin> set xs \<Longrightarrow> owner_ok xs (next(t := n)) p"
  by (cases "(xs, next, p)" rule: owner_ok.cases) (auto simp: knows_head_def choice_ok_def split: if_splits)

lemma claimed_held: "held_by (\<lambda>p. claimed p = Some u) b pc \<Longrightarrow> claimed p = claimed (pc t) \<Longrightarrow> held_by (\<lambda>p. claimed p = Some u) b (pc(t := p))"
  by (erule held_by_move) (simp add: passes_def)

lemma hinted_other: "pc t \<noteq> MFix \<Longrightarrow> p \<noteq> MFix \<Longrightarrow> hinted k (pc(t := p)) = hinted k pc"
  unfolding hinted_def by (metis fun_upd_other fun_upd_same)

text \<open>A step that leaves the stack and the semaphores alone.\<close>

lemma quiet_step:
  assumes inv: "lk_inv xs s"
    and old: "ms_pc s t \<noteq> MAsleep" and new: "p \<noteq> MAsleep"
    and s': "ms_sema s' = ms_sema s" "ms_pc s' = (ms_pc s)(t := p)" "k_head (ms_key s') = k_head (ms_key s)"
      "ms_next s' = (ms_next s)(t := n)" "ms_locks s' = (ms_locks s)(t := if p = MIdle then 0 else 1)"
    and pass: "passes holder (ms_pc s t) (k_locked (ms_key s)) p (k_locked (ms_key s'))"
      "passes spinner (ms_pc s t) (k_spinning (ms_key s)) p (k_spinning (ms_key s'))"
      "passes stack_owner (ms_pc s t) (k_stack (ms_key s)) p (k_stack (ms_key s'))"
    and ok: "claimed p = claimed (ms_pc s t)" "local_ok n p" "owner_ok xs ((ms_next s)(t := n)) p"
    and lv: "xs \<noteq> [] \<Longrightarrow> moving p \<or> hinted (ms_key s') ((ms_pc s)(t := p)) \<or> (\<exists>u. u \<noteq> t \<and> moving (ms_pc s u))
      \<or> (\<exists>u. ms_pc s u = MAsleep \<and> u \<notin> set xs) \<or> (\<not> moving (ms_pc s t) \<and> \<not> hinted (ms_key s) (ms_pc s))"
  shows "lk_inv xs s'"
proof -
  have nt: "t \<notin> set xs" using inv old by (auto simp: lk_inv_def stack_ok_def)
  have "flags_ok (ms_key s') (ms_pc s')" using inv pass unfolding lk_inv_def flags_ok_def s' by (auto intro: held_by_move)
  moreover have "stack_ok xs s'" using inv nt by (auto simp: lk_inv_def stack_ok_def s')
  moreover have "threads_ok xs s'" using inv ok nt by (auto simp: lk_inv_def threads_ok_def s' owner_ok_upd)
  moreover have "tokens_ok xs s'"
  proof -
    have "((ms_pc s)(t := p)) u = MAsleep \<longleftrightarrow> ms_pc s u = MAsleep" for u using old new by simp
    then show ?thesis using inv ok(1) unfolding lk_inv_def tokens_ok_def s' by (simp only: claimed_held) (simp add: claimed_held)
  qed
  moreover have "live xs s'"
  proof (cases "xs = []")
    case False
    have "ms_pc s' u = MAsleep" if "ms_pc s u = MAsleep" for u using that old by (auto simp: s')
    moreover have "ms_pc s' u = ms_pc s u" if "u \<noteq> t" for u using that by (simp add: s')
    moreover have "moving p \<Longrightarrow> moving (ms_pc s' t)" by (simp add: s')
    ultimately show ?thesis using False inv lv [OF False] unfolding lk_inv_def live_def s'(2) by (metis fun_upd_other)
  qed (simp add: live_def)
  ultimately show ?thesis by (simp add: lk_inv_def)
qed

lemma quiet_key:
  assumes inv: "lk_inv xs s" and old: "ms_pc s t \<noteq> MAsleep" "ms_pc s t \<noteq> MIdle" and new: "p \<noteq> MAsleep" "p \<noteq> MIdle"
    and k: "k_head k = k_head (ms_key s)"
    and pass: "passes holder (ms_pc s t) (k_locked (ms_key s)) p (k_locked k)"
      "passes spinner (ms_pc s t) (k_spinning (ms_key s)) p (k_spinning k)"
      "passes stack_owner (ms_pc s t) (k_stack (ms_key s)) p (k_stack k)"
    and ok: "claimed p = claimed (ms_pc s t)" "local_ok (ms_next s t) p" "owner_ok xs (ms_next s) p"
    and lv: "xs \<noteq> [] \<Longrightarrow> moving p \<or> hinted k ((ms_pc s)(t := p)) \<or> (\<exists>u. u \<noteq> t \<and> moving (ms_pc s u))
      \<or> (\<exists>u. ms_pc s u = MAsleep \<and> u \<notin> set xs) \<or> (\<not> moving (ms_pc s t) \<and> \<not> hinted (ms_key s) (ms_pc s))"
  shows "lk_inv xs (mgo t p (put_key k s))"
proof -
  have "ms_locks s t = 1" using inv old(2) by (auto simp: lk_inv_def threads_ok_def)
  then have l: "ms_locks s = (ms_locks s)(t := 1)" by (simp add: fun_upd_idem)
  show ?thesis
    by (rule quiet_step [OF inv, where t = t and p = p and n = "ms_next s t"]) (use assms l in \<open>simp_all add: fun_upd_idem\<close>)
qed

lemma put_same [simp]: "put_key (ms_key s) s = s"
  by (simp add: put_key_def)

lemmas quiet_go = quiet_key [where s = s and k = "ms_key s" for s, unfolded put_same]

lemma inv_thread:
  assumes "lk_inv xs s"
  shows "local_ok (ms_next s t) (ms_pc s t)" "owner_ok xs (ms_next s) (ms_pc s t)" "ms_locks s t = (if ms_pc s t = MIdle then 0 else 1)"
  using assms by (auto simp: lk_inv_def threads_ok_def)

lemma inv_tokens:
  assumes "lk_inv xs s"
  shows "ms_sema s u \<le> 1"
    and "held_by (\<lambda>p. claimed p = Some u) (ms_pc s u = MAsleep \<and> u \<notin> set xs \<and> ms_sema s u = 0) (ms_pc s)"
    and "0 < ms_sema s u \<longrightarrow> ms_pc s u = MAsleep \<and> u \<notin> set xs"
  using assms by (simp_all add: lk_inv_def tokens_ok_def)

lemma inv_flags:
  assumes "lk_inv xs s"
  shows "holder (ms_pc s t) \<Longrightarrow> k_locked (ms_key s)" "spinner (ms_pc s t) \<Longrightarrow> k_spinning (ms_key s)" "stack_owner (ms_pc s t) \<Longrightarrow> k_stack (ms_key s)"
  using assms by (auto simp: lk_inv_def flags_ok_def dest: held_by_flag)

lemma inv_head:
  assumes "lk_inv xs s"
  shows "xs \<noteq> [] \<Longrightarrow> knows_head xs (ms_key s)" "k_head (ms_key s) = None \<longleftrightarrow> xs = []"
  using assms by (cases xs; auto simp: lk_inv_def stack_ok_def knows_head_def)+

text \<open>Somebody else spins, or owns the stack lock.\<close>

lemma inv_other:
  assumes "lk_inv xs s"
  shows "k_spinning (ms_key s) \<Longrightarrow> \<not> spinner (ms_pc s t) \<Longrightarrow> \<exists>u. u \<noteq> t \<and> moving (ms_pc s u)"
    and "k_stack (ms_key s) \<Longrightarrow> \<not> stack_owner (ms_pc s t) \<Longrightarrow> \<exists>u. u \<noteq> t \<and> moving (ms_pc s u)"
proof -
  have m: "spinner p \<or> stack_owner p \<Longrightarrow> moving p" for p by (cases p) auto
  show "\<exists>u. u \<noteq> t \<and> moving (ms_pc s u)" if "k_spinning (ms_key s)" "\<not> spinner (ms_pc s t)"
    using assms that m by (metis lk_inv_def flags_ok_def held_by_def)
  show "\<exists>u. u \<noteq> t \<and> moving (ms_pc s u)" if "k_stack (ms_key s)" "\<not> stack_owner (ms_pc s t)"
    using assms that m by (metis lk_inv_def flags_ok_def held_by_def)
qed

lemma tryAcquire_ok:
  "tryAcquire spin low i w a v \<noteq> MAsleep" "tryAcquire spin low i w a v \<noteq> MIdle" "\<not> holder (tryAcquire spin low i w a v)"
  "spinner (tryAcquire spin low i w a v) = w" "\<not> stack_owner (tryAcquire spin low i w a v)" "claimed (tryAcquire spin low i w a v) = None"
  "local_ok n (tryAcquire spin low i w a v)" "owner_ok xs next (tryAcquire spin low i w a v)" "moving (tryAcquire spin low i w a v)"
  by (auto simp: tryAcquire_def sleep_or_spin_def)

lemma sleep_or_spin_ok:
  assumes "k_locked v"
  shows "sleep_or_spin spin low i w a v \<noteq> MAsleep" "sleep_or_spin spin low i w a v \<noteq> MIdle" "\<not> holder (sleep_or_spin spin low i w a v)"
    "spinner (sleep_or_spin spin low i w a v) = w" "\<not> stack_owner (sleep_or_spin spin low i w a v)" "claimed (sleep_or_spin spin low i w a v) = None"
    "local_ok n (sleep_or_spin spin low i w a v)" "owner_ok xs next (sleep_or_spin spin low i w a v)" "moving (sleep_or_spin spin low i w a v)"
  using assms by (auto simp: sleep_or_spin_def)

section \<open>Steps of \<open>lock2\<close>\<close>

lemma fast_inv:
  assumes inv: "lk_inv xs s" and pc: "ms_pc s t = MFast"
  shows "lk_inv xs (mgo t (if \<not> k_locked (ms_key s) then if k_sleeping (ms_key s) then MFix else MHeld else MLoad 0 False False)
      (put_key (k_xchg8 True False (ms_key s)) s))"
proof (cases "k_locked (ms_key s)")
  case True
  then show ?thesis by (intro quiet_key [OF inv]) (simp_all add: pc passes_def)
next
  case False
  show ?thesis
  proof (cases "k_sleeping (ms_key s)")
    case True
    with False show ?thesis by simp (intro quiet_key [OF inv], auto simp: pc passes_def hinted_def)
  next
    case ns: False
    with False show ?thesis by simp (intro quiet_key [OF inv], auto simp: pc passes_def hinted_def)
  qed
qed

lemma fix_inv:
  assumes inv: "lk_inv xs s" and pc: "ms_pc s t = MFix"
  shows "lk_inv xs (mgo t MHeld (put_key ((ms_key s)\<lparr>k_sleeping := True\<rparr>) s))"
  using inv_flags(1) [OF inv, of t] by (intro quiet_key [OF inv]) (simp_all add: pc passes_def hinted_def)

lemma load_inv:
  assumes inv: "lk_inv xs s" and pc: "ms_pc s t = MLoad i w a"
  shows "lk_inv xs (mgo t (tryAcquire spin low i w a (ms_key s)) s)"
  by (intro quiet_go [OF inv]) (simp_all add: pc passes_def tryAcquire_ok)

lemma try_cas_inv:
  assumes inv: "lk_inv xs s" and pc: "ms_pc s t = MTry i True a v"
  shows "lk_inv xs (if ms_key s = v then mgo t MHeld (put_key (k_acquire v) s) else mgo t (MLoad (Suc i) True a) s)"
proof (cases "ms_key s = v")
  case True
  then show ?thesis using inv_thread(1) [OF inv, of t] inv_head(2) [OF inv]
    by simp (intro quiet_key [OF inv], auto simp: pc passes_def hinted_def)
next
  case False
  then show ?thesis by simp (intro quiet_go [OF inv], simp_all add: pc passes_def)
qed

lemma try_xchg_inv:
  assumes inv: "lk_inv xs s" and pc: "ms_pc s t = MTry i False a v"
  shows "lk_inv xs (mgo t (if \<not> k_locked (ms_key s) then MHeld else MLoad (Suc i) False a) (put_key (k_xchg8 True True (ms_key s)) s))"
  by (cases "k_locked (ms_key s)"; simp; intro quiet_key [OF inv]) (simp_all add: pc passes_def hinted_def)

lemma spin_cas_inv:
  assumes inv: "lk_inv xs s" and pc: "ms_pc s t = MSpin i a v"
  shows "lk_inv xs (if ms_key s = v then mgo t (sleep_or_spin spin low i True a (v\<lparr>k_spinning := True\<rparr>)) (put_key (v\<lparr>k_spinning := True\<rparr>) s)
           else mgo t (sleep_or_spin spin low i False a v) s)"
proof -
  have v: "k_locked v" "\<not> k_spinning v" using inv_thread(1) [OF inv, of t] by (simp_all add: pc)
  show ?thesis
  proof (cases "ms_key s = v")
    case True
    with v show ?thesis by simp (intro quiet_key [OF inv], simp_all add: pc passes_def sleep_or_spin_ok)
  next
    case False
    with v show ?thesis by simp (intro quiet_go [OF inv], simp_all add: pc passes_def sleep_or_spin_ok)
  qed
qed

lemma put_next_inv:
  assumes inv: "lk_inv xs s" and old: "ms_pc s t = MPush i w a v \<or> ms_pc s t = MReset i w a"
    and new: "p = (if ms_pc s t = MReset i w a then MLoad i w a else MPushCas i w a v)" "n = (if ms_pc s t = MReset i w a then None else k_head v)"
  shows "lk_inv xs (mgo t p (put_next t n s))"
  by (rule quiet_step [OF inv, where t = t and p = p and n = n])
    (use old new inv_thread [OF inv, of t] in \<open>auto simp: passes_def fun_upd_idem\<close>)

lemma woken_inv:
  assumes inv: "lk_inv xs s" and pc: "ms_pc s t = MWoken"
  shows "lk_inv xs (mgo t (MReset 1 False b) s)"
  by (intro quiet_go [OF inv]) (simp_all add: pc passes_def)

lemma lock_call_inv:
  assumes inv: "lk_inv xs s" and pc: "ms_pc s t = MIdle"
  shows "lk_inv xs (if ms_locks s t < 0 then mgo t (MThrow e) s else mgo t MFast (s\<lparr>ms_locks := (ms_locks s)(t := ms_locks s t + 1)\<rparr>))"
proof -
  have "ms_locks s t = 0" using inv_thread(3) [OF inv, of t] by (simp add: pc)
  then show ?thesis
    by simp (rule quiet_step [OF inv, where t = t and p = MFast and n = "ms_next s t"], auto simp: pc passes_def hinted_other)
qed

lemma return_inv:
  assumes inv: "lk_inv xs s" and pc: "ms_pc s t = MRet"
  shows "lk_inv xs (mgo t (if ms_locks s t - 1 < 0 then MThrow e else MIdle) (s\<lparr>ms_locks := (ms_locks s)(t := ms_locks s t - 1)\<rparr>))"
proof -
  have "ms_locks s t = 1" using inv_thread(3) [OF inv, of t] by (simp add: pc)
  then show ?thesis
    by simp (rule quiet_step [OF inv, where t = t and p = MIdle and n = "ms_next s t"], auto simp: pc passes_def hinted_other)
qed

lemma owner_ok_other: "\<not> stack_owner p \<Longrightarrow> owner_ok xs next p"
  by (cases p) auto

lemma owner_ok_push: "owner_ok xs next p \<Longrightarrow> owner_ok (t # xs) next p"
  by (cases p) (auto simp: knows_head_def)

lemma push_cas_inv:
  assumes inv: "lk_inv xs s" and pc: "ms_pc s t = MPushCas i w a (ms_key s)"
  shows "lk_inv (t # xs) (mgo t MAsleep (put_key (k_push t w (ms_key s)) s))"
proof -
  have v: "k_locked (ms_key s)" "ms_next s t = k_head (ms_key s)" using inv_thread(1) [OF inv, of t] by (simp_all add: pc)
  have nt: "t \<notin> set xs" using inv by (auto simp: lk_inv_def stack_ok_def pc)
  have sp: "w \<Longrightarrow> k_spinning (ms_key s)" using inv_flags(2) [OF inv, of t] by (simp add: pc)
  let ?s = "mgo t MAsleep (put_key (k_push t w (ms_key s)) s)"
  have "flags_ok (ms_key ?s) (ms_pc ?s)" using inv v sp unfolding lk_inv_def flags_ok_def
    by (auto intro!: held_by_move simp: pc passes_def)
  moreover have "stack_ok (t # xs) ?s" using inv nt v by (auto simp: lk_inv_def stack_ok_def)
  moreover have "threads_ok (t # xs) ?s" using inv by (auto simp: lk_inv_def threads_ok_def owner_ok_push pc)
  moreover have "tokens_ok (t # xs) ?s"
    unfolding tokens_ok_def
  proof (intro allI)
    fix u
    note o = inv_tokens [OF inv, of u]
    have "held_by (\<lambda>p. claimed p = Some u) (ms_pc ?s u = MAsleep \<and> u \<notin> set (t # xs) \<and> ms_sema ?s u = 0) (ms_pc ?s)"
      using held_by_move [OF o(2), of t MAsleep] by (cases "u = t") (auto simp: pc passes_def)
    with o show "ms_sema ?s u \<le> 1 \<and> held_by (\<lambda>p. claimed p = Some u) (ms_pc ?s u = MAsleep \<and> u \<notin> set (t # xs) \<and> ms_sema ?s u = 0) (ms_pc ?s)
       \<and> (0 < ms_sema ?s u \<longrightarrow> ms_pc ?s u = MAsleep \<and> u \<notin> set (t # xs))" by (auto simp: pc)
  qed
  moreover have "live (t # xs) ?s" using v by (simp add: live_def hinted_def)
  ultimately show ?thesis by (simp add: lk_inv_def)
qed

text \<open>The sleeper takes its token.\<close>

lemma semasleep_inv:
  assumes inv: "lk_inv xs s" and pc: "ms_pc s t = MAsleep" and tok: "0 < ms_sema s t"
  shows "lk_inv xs (mgo t MWoken (s\<lparr>ms_sema := (ms_sema s)(t := ms_sema s t - 1)\<rparr>))"
proof -
  let ?s = "mgo t MWoken (s\<lparr>ms_sema := (ms_sema s)(t := ms_sema s t - 1)\<rparr>)"
  have nt: "t \<notin> set xs" using inv tok by (auto simp: lk_inv_def tokens_ok_def)
  have "ms_sema s t \<le> 1" using inv by (simp add: lk_inv_def tokens_ok_def)
  with tok have one: "ms_sema s t = 1" by simp
  have "flags_ok (ms_key ?s) (ms_pc ?s)" using inv unfolding lk_inv_def flags_ok_def by (auto intro!: held_by_move simp: pc passes_def)
  moreover have "stack_ok xs ?s" using inv nt by (auto simp: lk_inv_def stack_ok_def)
  moreover have "threads_ok xs ?s" using inv by (auto simp: lk_inv_def threads_ok_def pc)
  moreover have "tokens_ok xs ?s"
    unfolding tokens_ok_def
  proof (intro allI)
    fix u
    note o = inv_tokens [OF inv, of u]
    have "held_by (\<lambda>p. claimed p = Some u) (ms_pc ?s u = MAsleep \<and> u \<notin> set xs \<and> ms_sema ?s u = 0) (ms_pc ?s)"
      using held_by_move [OF o(2), of t MWoken] one by (cases "u = t") (auto simp: pc passes_def)
    with o one show "ms_sema ?s u \<le> 1 \<and> held_by (\<lambda>p. claimed p = Some u) (ms_pc ?s u = MAsleep \<and> u \<notin> set xs \<and> ms_sema ?s u = 0) (ms_pc ?s)
       \<and> (0 < ms_sema ?s u \<longrightarrow> ms_pc ?s u = MAsleep \<and> u \<notin> set xs)" by (auto simp: pc)
  qed
  moreover have "live xs ?s" by (auto simp: live_def intro!: exI [of _ t])
  ultimately show ?thesis by (simp add: lk_inv_def)
qed

section \<open>Steps of \<open>unlock2\<close>\<close>

lemma unlock_call_inv:
  assumes inv: "lk_inv xs s" and pc: "ms_pc s t = MHeld"
  shows "lk_inv xs (mgo t (if sample then MSample else MUnlock) s)"
  by (cases sample; simp; intro quiet_go [OF inv]) (auto simp: pc passes_def hinted_other)

lemma sample_inv:
  assumes inv: "lk_inv xs s" and pc: "ms_pc s t = MSample"
  shows "lk_inv xs (mgo t (if k_head (ms_key s) = None \<or> k_stack (ms_key s) then MUnlock else MSampleCas (ms_key s)) s)"
  by (intro quiet_go [OF inv]) (auto simp: pc passes_def hinted_other split: if_splits)

lemma sample_cas_inv:
  assumes inv: "lk_inv xs s" and pc: "ms_pc s t = MSampleCas v"
  shows "lk_inv xs (if ms_key s = v
     then mgo t (if \<not> k_locked v then MThrow e else MPickLoad anti None) (put_key (k_sample v) s) else mgo t MSample s)"
proof (cases "ms_key s = v")
  case True
  have "k_locked (ms_key s)" using inv_flags(1) [OF inv, of t] by (simp add: pc)
  with True inv_thread(1) [OF inv, of t] inv_head(2) [OF inv] show ?thesis
    by simp (intro quiet_key [OF inv], auto simp: pc passes_def)
next
  case False
  then show ?thesis by simp (intro quiet_go [OF inv], auto simp: pc passes_def hinted_other)
qed

lemma unlock_inv:
  assumes inv: "lk_inv xs s" and pc: "ms_pc s t = MUnlock"
  shows "lk_inv xs (mgo t (if \<not> k_locked (ms_key s) then MThrow e else if k_sleeping (ms_key s) then MWakeLoad else MRet)
             (put_key (k_xchg8 False False (ms_key s)) s))"
proof -
  have l: "k_locked (ms_key s)" using inv_flags(1) [OF inv, of t] by (simp add: pc)
  have "ms_pc s u \<noteq> MFix" for u
    using inv pc held_by_unique [of holder "k_locked (ms_key s)" "ms_pc s" t u] by (auto simp: lk_inv_def flags_ok_def)
  with l show ?thesis
    by (cases "k_sleeping (ms_key s)"; simp; intro quiet_key [OF inv]) (auto simp: pc passes_def hinted_def)
qed

lemma wake_test_inv:
  assumes inv: "lk_inv xs s" and pc: "ms_pc s t = MWakeLoad \<or> ms_pc s t = MWakeReload a0"
  shows "lk_inv xs (mgo t (wake_test anti (ms_key s)) s)"
proof -
  have n: "\<not> stack_owner (ms_pc s t)" using pc by auto
  show ?thesis
    by (rule quiet_go [OF inv]) (use pc inv_other(2) [OF inv _ n] inv_head(2) [OF inv] in \<open>auto simp: passes_def wake_test_def\<close>)
qed

lemma wake_reload_inv:
  assumes "lk_inv xs s" and "ms_pc s t = MWakeReload anti"
  shows "lk_inv xs (mgo t (wake_test anti (ms_key s)) s)"
  using wake_test_inv [OF assms(1)] assms(2) by blast

lemma wake_load_inv:
  assumes inv: "lk_inv xs s" and pc: "ms_pc s t = MWakeLoad"
  shows "lk_inv xs (mgo t (if \<not> (anti \<or> \<not> k_spinning (ms_key s) \<or> low) then MRet else wake_test anti (ms_key s)) s)"
proof (cases "anti \<or> \<not> k_spinning (ms_key s) \<or> low")
  case True
  then show ?thesis using wake_test_inv [OF inv] pc by simp
next
  case False
  then show ?thesis using inv_other(1) [OF inv, of t] pc by simp (intro quiet_go [OF inv], auto simp: passes_def)
qed

lemma pick_ok:
  assumes "knows_head xs v"
  shows "pick low anti com v \<noteq> MAsleep" "pick low anti com v \<noteq> MIdle" "\<not> holder (pick low anti com v)" "\<not> spinner (pick low anti com v)"
    "stack_owner (pick low anti com v)" "claimed (pick low anti com v) = com" "local_ok n (pick low anti com v)"
    "owner_ok xs next (pick low anti com v)" "moving (pick low anti com v)"
  using assms by (auto simp: pick_def knows_head_def choice_ok_def)

lemma wake_cas_inv:
  assumes inv: "lk_inv xs s" and pc: "ms_pc s t = MWakeCas anti v"
  shows "lk_inv xs (if ms_key s = v then mgo t (pick low anti None v) (put_key (v\<lparr>k_stack := True\<rparr>) s) else mgo t (MWakeReload anti) s)"
proof (cases "ms_key s = v")
  case True
  have v: "k_head v \<noteq> None" "\<not> k_stack v" using inv_thread(1) [OF inv, of t] by (simp_all add: pc)
  with True inv_head [OF inv] have "knows_head xs v" by auto
  with True v show ?thesis by simp (intro quiet_key [OF inv], simp_all add: pc passes_def pick_ok)
next
  case False
  then show ?thesis by simp (intro quiet_go [OF inv], simp_all add: pc passes_def)
qed

lemma pick_load_inv:
  assumes inv: "lk_inv xs s" and pc: "ms_pc s t = MPickLoad anti com"
  shows "lk_inv xs (mgo t (pick low anti com (ms_key s)) s)"
proof -
  have "knows_head xs (ms_key s)" using inv_thread(2) [OF inv, of t] inv_head(1) [OF inv] by (simp add: pc)
  then show ?thesis by (intro quiet_go [OF inv]) (simp_all add: pc passes_def pick_ok)
qed

lemma stacked_next: "stacked next h xs \<Longrightarrow> w \<in> set xs \<Longrightarrow> next w = Some n \<Longrightarrow> n \<in> set xs"
  by (induction xs arbitrary: h) (auto, metis list.set_intros(1) stacked.elims(2) option.inject option.distinct(1))

lemma walk_inv:
  assumes inv: "lk_inv xs s" and pc: "ms_pc s t = MWalk v prev w"
  shows "lk_inv xs (mgo t (case ms_next s w of Some n \<Rightarrow> MWalk v w n
       | None \<Rightarrow> if Some w \<noteq> k_head v then MUnlink v prev w else MHead True None (Some w) v) s)"
proof -
  have o: "knows_head xs v" "w \<in> set xs" "Some w = k_head v \<or> prev \<in> set xs \<and> ms_next s prev = Some w"
    using inv_thread(2) [OF inv, of t] by (auto simp: pc)
  have st: "stacked (ms_next s) (k_head (ms_key s)) xs" using inv by (simp add: lk_inv_def stack_ok_def)
  show ?thesis
  proof (cases "ms_next s w")
    case (Some n)
    with o stacked_next [OF st o(2) Some] show ?thesis by simp (intro quiet_go [OF inv], auto simp: pc passes_def)
  next
    case None
    with o show ?thesis
      by (cases "Some w = k_head v"; simp; intro quiet_go [OF inv]) (auto simp: pc passes_def choice_ok_def)
  qed
qed

lemma head_inv:
  assumes inv: "lk_inv xs s" and pc: "ms_pc s t = MHead anti com wakem v"
  shows "lk_inv xs (mgo t (if wakem = k_head v
       then (case wakem of None \<Rightarrow> MThrow e | Some mp \<Rightarrow> MPickCas anti com wakem v (k_release (ms_next s mp) v))
       else MPickCas anti com wakem v (k_release (k_head v) v)) s)"
proof -
  have o: "knows_head xs v" "choice_ok com wakem v" using inv_thread(2) [OF inv, of t] by (auto simp: pc)
  show ?thesis
  proof (cases "wakem = k_head v")
    case True
    with o obtain mp where "wakem = Some mp" "k_head v = Some mp" by (auto simp: knows_head_def)
    with o show ?thesis by simp (intro quiet_go [OF inv], auto simp: pc passes_def)
  next
    case False
    with o show ?thesis by simp (intro quiet_go [OF inv], auto simp: pc passes_def)
  qed
qed

lemma stacked_last: "stacked next h xs \<Longrightarrow> w \<in> set xs \<Longrightarrow> next w = None \<Longrightarrow> \<exists>ys. xs = ys @ [w]"
proof (induction xs arbitrary: h)
  case (Cons x xs)
  show ?case
  proof (cases "w \<in> set xs")
    case True
    with Cons obtain ys where "xs = ys @ [w]" by auto
    then show ?thesis by (intro exI [of _ "x # ys"]) simp
  next
    case False
    with Cons.prems show ?thesis by (cases xs) auto
  qed
qed simp

lemma stacked_before:
  "stacked next h (ys @ [w]) \<Longrightarrow> distinct (ys @ [w]) \<Longrightarrow> prev \<in> set ys \<Longrightarrow> next prev = Some w \<Longrightarrow> \<exists>zs. ys = zs @ [prev]"
proof (induction ys arbitrary: h)
  case (Cons x ys)
  show ?case
  proof (cases "prev \<in> set ys")
    case True
    with Cons obtain zs where "ys = zs @ [prev]" by auto
    then show ?thesis by (intro exI [of _ "x # zs"]) simp
  next
    case False
    with Cons.prems show ?thesis by (cases ys) auto
  qed
qed simp

lemma stacked_cut: "stacked next h (zs @ [prev, w]) \<Longrightarrow> prev \<notin> set zs \<Longrightarrow> stacked (next(prev := None)) h (zs @ [prev])"
  by (induction zs arbitrary: h) auto

text \<open>The last sleeper is taken out of the stack.\<close>

lemma unlink_stack:
  assumes "stack_ok xs s" and "w \<in> set xs" "prev \<in> set xs" "ms_next s prev = Some w" "ms_next s w = None"
  obtains ys where "xs = ys @ [w]" "w \<notin> set ys" "prev \<in> set ys" "stacked ((ms_next s)(prev := None)) (k_head (ms_key s)) ys"
proof -
  have st: "stacked (ms_next s) (k_head (ms_key s)) xs" "distinct xs" using assms(1) by (auto simp: stack_ok_def)
  obtain ys where ys: "xs = ys @ [w]" using stacked_last [OF st(1) assms(2,5)] by blast
  have "prev \<noteq> w" using assms(4,5) by auto
  with assms(3) ys have p: "prev \<in> set ys" by auto
  obtain zs where zs: "ys = zs @ [prev]" using stacked_before [of "ms_next s" "k_head (ms_key s)" ys w prev] st ys p assms(4) by auto
  have "stacked ((ms_next s)(prev := None)) (k_head (ms_key s)) ys"
    using stacked_cut [of "ms_next s" "k_head (ms_key s)" zs prev w] st ys zs by simp
  with ys p st show ?thesis by (intro that [of ys]) auto
qed

text \<open>A sleeper leaves the stack and is claimed by the owner of the stack lock.\<close>

lemma claim_tokens:
  assumes tok: "tokens_ok xs s" and w: "w \<in> set xs" "ms_pc s w = MAsleep" and xs': "set xs' = set xs - {w}"
    and t: "ms_pc s t \<noteq> MAsleep" "claimed (ms_pc s t) = None" "p \<noteq> MAsleep" "claimed p = Some w"
    and s': "ms_sema s' = ms_sema s" "ms_pc s' = (ms_pc s)(t := p)"
  shows "tokens_ok xs' s'"
  unfolding tokens_ok_def
proof (intro allI)
  fix u
  have o: "ms_sema s u \<le> 1" "held_by (\<lambda>p. claimed p = Some u) (ms_pc s u = MAsleep \<and> u \<notin> set xs \<and> ms_sema s u = 0) (ms_pc s)"
    "0 < ms_sema s u \<longrightarrow> ms_pc s u = MAsleep \<and> u \<notin> set xs" using tok by (auto simp: tokens_ok_def)
  have a: "ms_pc s' u = MAsleep \<longleftrightarrow> ms_pc s u = MAsleep" using t by (simp add: s')
  have "held_by (\<lambda>p. claimed p = Some u) (ms_pc s' u = MAsleep \<and> u \<notin> set xs' \<and> ms_sema s' u = 0) (ms_pc s')"
    unfolding a s'(2) by (rule held_by_move [OF o(2)]) (use t w o(3) in \<open>auto simp: passes_def xs' s'(1)\<close>)
  with o show "ms_sema s' u \<le> 1 \<and> held_by (\<lambda>p. claimed p = Some u) (ms_pc s' u = MAsleep \<and> u \<notin> set xs' \<and> ms_sema s' u = 0) (ms_pc s')
     \<and> (0 < ms_sema s' u \<longrightarrow> ms_pc s' u = MAsleep \<and> u \<notin> set xs')" unfolding a by (auto simp: s' xs')
qed

lemma owner_alone:
  assumes "lk_inv xs s" "stack_owner (ms_pc s t)" "u \<noteq> t"
  shows "\<not> stack_owner (ms_pc s u)"
  using assms held_by_unique [of stack_owner "k_stack (ms_key s)" "ms_pc s" t u] by (auto simp: lk_inv_def flags_ok_def)

lemma unlink_inv:
  assumes inv: "lk_inv xs s" and pc: "ms_pc s t = MUnlink v prev w"
  shows "\<exists>xs'. lk_inv xs' (mgo t (MHead True (Some w) (Some w) v) (put_next prev (ms_next s w) s))"
proof -
  let ?s = "mgo t (MHead True (Some w) (Some w) v) (put_next prev (ms_next s w) s)"
  have o: "knows_head xs v" "w \<in> set xs" "prev \<in> set xs" "Some w \<noteq> k_head v" "ms_next s prev = Some w" "ms_next s w = None"
    using inv_thread(2) [OF inv, of t] by (auto simp: pc)
  have so: "stack_ok xs s" using inv by (simp add: lk_inv_def)
  obtain ys where ys: "xs = ys @ [w]" "w \<notin> set ys" "prev \<in> set ys" "stacked ((ms_next s)(prev := None)) (k_head (ms_key s)) ys"
    using unlink_stack [OF so o(2,3,5,6)] .
  have asleep: "ms_pc s u = MAsleep" if "u \<in> set xs" for u using so that by (simp add: stack_ok_def)
  have nt: "t \<notin> set xs" using asleep [of t] pc by auto
  have "flags_ok (ms_key ?s) (ms_pc ?s)" using inv unfolding lk_inv_def flags_ok_def by (auto intro!: held_by_move simp: pc passes_def)
  moreover have "stack_ok ys ?s" using so ys asleep nt by (auto simp: stack_ok_def o(6))
  moreover have "threads_ok ys ?s"
    unfolding threads_ok_def
  proof (intro allI)
    fix u
    have "local_ok (ms_next ?s u) (ms_pc ?s u)" using inv_thread(1) [OF inv, of u] asleep [OF o(3)] by auto
    moreover have "owner_ok ys (ms_next ?s) (ms_pc ?s u)"
      using o ys owner_alone [OF inv, of t u] by (cases "u = t") (auto simp: pc knows_head_def choice_ok_def owner_ok_other)
    ultimately show "local_ok (ms_next ?s u) (ms_pc ?s u) \<and> owner_ok ys (ms_next ?s) (ms_pc ?s u) \<and> ms_locks ?s u = (if ms_pc ?s u = MIdle then 0 else 1)"
      using inv_thread(3) [OF inv, of u] by (auto simp: pc)
  qed
  moreover have "tokens_ok ys ?s"
    by (rule claim_tokens [of xs s w _ t]) (use inv o asleep ys in \<open>auto simp: lk_inv_def pc\<close>)
  moreover have "live ys ?s" by (auto simp: live_def intro!: exI [of _ t])
  ultimately show ?thesis by (auto simp: lk_inv_def)
qed

text \<open>The owner of the stack lock commits to its choice and lets the stack go.\<close>

lemma pop_inv:
  assumes inv: "lk_inv xs s" and pc: "ms_pc s t = MPickCas anti None (Some mp) (ms_key s) nxt" and mp: "k_head (ms_key s) = Some mp"
  shows "\<exists>xs'. lk_inv xs' (mgo t (MPost mp) (put_key nxt s))"
proof -
  let ?s = "mgo t (MPost mp) (put_key nxt s)"
  have nxt: "nxt = k_release (ms_next s mp) (ms_key s)" using inv_thread(2) [OF inv, of t] mp by (simp add: pc)
  have so: "stack_ok xs s" using inv by (simp add: lk_inv_def)
  with mp obtain ys where ys: "xs = mp # ys" by (cases xs) (auto simp: stack_ok_def)
  have asleep: "ms_pc s u = MAsleep" if "u \<in> set xs" for u using so that by (simp add: stack_ok_def)
  have nt: "t \<notin> set xs" using asleep [of t] pc by auto
  have st: "k_stack (ms_key s)" using inv_flags(3) [OF inv, of t] by (simp add: pc)
  have "flags_ok (ms_key ?s) (ms_pc ?s)"
    using inv st unfolding lk_inv_def flags_ok_def by (auto intro!: held_by_move simp: pc passes_def nxt)
  moreover have "stack_ok ys ?s" using so ys asleep nt by (auto simp: stack_ok_def nxt)
  moreover have "threads_ok ys ?s"
    unfolding threads_ok_def
  proof (intro allI)
    fix u
    have "owner_ok ys (ms_next ?s) (ms_pc ?s u)" using owner_alone [OF inv, of t u] by (cases "u = t") (auto simp: pc owner_ok_other)
    then show "local_ok (ms_next ?s u) (ms_pc ?s u) \<and> owner_ok ys (ms_next ?s) (ms_pc ?s u) \<and> ms_locks ?s u = (if ms_pc ?s u = MIdle then 0 else 1)"
      using inv_thread(1,3) [OF inv, of u] by (auto simp: pc)
  qed
  moreover have "tokens_ok ys ?s"
    by (rule claim_tokens [of xs s mp _ t]) (use inv asleep ys so in \<open>auto simp: lk_inv_def stack_ok_def pc\<close>)
  moreover have "live ys ?s"
    using so ys asleep [of mp] nt by (auto simp: live_def stack_ok_def intro!: exI [of _ mp])
  ultimately show ?thesis by (auto simp: lk_inv_def)
qed

lemma claimed_asleep:
  assumes "lk_inv xs s" "claimed (ms_pc s t) = Some w"
  shows "ms_pc s w = MAsleep" "w \<notin> set xs" "ms_sema s w = 0"
  using assms held_by_flag [of "\<lambda>p. claimed p = Some w" _ "ms_pc s" t] by (fastforce simp: lk_inv_def tokens_ok_def)+

lemma pick_cas_inv:
  assumes inv: "lk_inv xs s" and pc: "ms_pc s t = MPickCas anti com wakem v nxt"
  shows "\<exists>xs'. lk_inv xs' (if ms_key s = v then mgo t (case wakem of None \<Rightarrow> MRet | Some w \<Rightarrow> MPost w) (put_key nxt s)
     else mgo t (MPickLoad anti com) s)"
proof (cases "ms_key s = v")
  case True
  have o: "knows_head xs v" "choice_ok com wakem v" "nxt = k_release (if wakem = k_head v then ms_next s (the wakem) else k_head v) v"
    using inv_thread(2) [OF inv, of t] by (auto simp: pc)
  have st: "k_stack v" using inv_flags(3) [OF inv, of t] True by (simp add: pc)
  consider mp where "com = None" "wakem = Some mp" "k_head v = Some mp" | "com = None" "wakem = None" "k_spinning v" | c where "com = Some c" "wakem = Some c"
    using o(1,2) by (cases com) (auto simp: choice_ok_def knows_head_def)
  then show ?thesis
  proof cases
    case 1
    then show ?thesis using pop_inv [OF inv, of t anti mp nxt] True pc by simp
  next
    case 2
    have "k_head v \<noteq> None" using o(1) by (auto simp: knows_head_def)
    with 2 o(3) have "nxt = k_release (k_head v) v" by auto
    then have "lk_inv xs (mgo t MRet (put_key nxt s))"
      using 2 True st inv_other(1) [OF inv, of t] by (intro quiet_key [OF inv]) (auto simp: pc passes_def)
    with 2 True show ?thesis by auto
  next
    case 3
    have c: "ms_pc s c = MAsleep" "c \<notin> set xs" using claimed_asleep [OF inv, of t c] by (simp_all add: pc 3)
    with o(1) have "k_head v \<noteq> Some c" by (auto simp: knows_head_def)
    with 3 o(3) have "nxt = k_release (k_head v) v" by auto
    then have "lk_inv xs (mgo t (MPost c) (put_key nxt s))"
      using 3 True st c by (intro quiet_key [OF inv]) (auto simp: pc passes_def)
    with 3 True show ?thesis by auto
  qed
next
  case False
  have "xs \<noteq> []" using inv_thread(2) [OF inv, of t] by (auto simp: pc knows_head_def)
  with False have "lk_inv xs (mgo t (MPickLoad anti com) s)" by (intro quiet_go [OF inv]) (auto simp: pc passes_def)
  with False show ?thesis by auto
qed

lemma semawakeup_inv:
  assumes inv: "lk_inv xs s" and pc: "ms_pc s t = MPost w"
  shows "lk_inv xs (mgo t MRet (s\<lparr>ms_sema := (ms_sema s)(w := ms_sema s w + 1)\<rparr>))"
proof -
  let ?s = "mgo t MRet (s\<lparr>ms_sema := (ms_sema s)(w := ms_sema s w + 1)\<rparr>)"
  have w: "ms_pc s w = MAsleep" "w \<notin> set xs" "ms_sema s w = 0" using claimed_asleep [OF inv, of t w] by (simp_all add: pc)
  have wt: "w \<noteq> t" using w pc by auto
  have "flags_ok (ms_key ?s) (ms_pc ?s)" using inv unfolding lk_inv_def flags_ok_def by (auto intro!: held_by_move simp: pc passes_def)
  moreover have "stack_ok xs ?s" using inv by (auto simp: lk_inv_def stack_ok_def pc)
  moreover have "threads_ok xs ?s" using inv by (auto simp: lk_inv_def threads_ok_def pc)
  moreover have "tokens_ok xs ?s"
    unfolding tokens_ok_def
  proof (intro allI)
    fix u
    note o = inv_tokens [OF inv, of u]
    have "held_by (\<lambda>p. claimed p = Some u) (ms_pc ?s u = MAsleep \<and> u \<notin> set xs \<and> ms_sema ?s u = 0) (ms_pc ?s)"
      using held_by_move [OF o(2), of t MRet] by (cases "u = w"; cases "u = t") (auto simp: pc passes_def)
    with o w wt show "ms_sema ?s u \<le> 1 \<and> held_by (\<lambda>p. claimed p = Some u) (ms_pc ?s u = MAsleep \<and> u \<notin> set xs \<and> ms_sema ?s u = 0) (ms_pc ?s)
       \<and> (0 < ms_sema ?s u \<longrightarrow> ms_pc ?s u = MAsleep \<and> u \<notin> set xs)" by (auto simp: pc)
  qed
  moreover have "live xs ?s" using w wt by (auto simp: live_def intro!: exI [of _ w])
  ultimately show ?thesis by (simp add: lk_inv_def)
qed

section \<open>Reachable states\<close>

lemmas lock2_invs = fast_inv fix_inv load_inv try_cas_inv try_xchg_inv spin_cas_inv woken_inv lock_call_inv semasleep_inv
lemmas unlock2_invs = return_inv unlock_call_inv sample_inv sample_cas_inv unlock_inv
lemmas unlock2Wake_invs = wake_reload_inv wake_load_inv wake_cas_inv pick_load_inv walk_inv head_inv semawakeup_inv

lemma lock2_step_inv:
  assumes "lock2_step spin low own s s'" and inv: "lk_inv xs s"
  shows "\<exists>xs'. lk_inv xs' s'"
  using assms(1)
proof cases
  case (push_next t i w a v)
  then show ?thesis using put_next_inv [OF inv, of t i w a v] by fastforce
next
  case (reset_next t i w a)
  then show ?thesis using put_next_inv [OF inv, of t i w a] by fastforce
next
  case (push_cas t i w a v)
  show ?thesis
  proof (cases "ms_key s = v")
    case True
    then show ?thesis using push_cas_inv [OF inv, of t i w a] push_cas by auto
  next
    case False
    have "lk_inv xs (mgo t (MReset (Suc i) w a) s)" by (intro quiet_go [OF inv]) (simp_all add: push_cas(3) passes_def)
    with False push_cas show ?thesis by auto
  qed
qed ((hypsubst+, rule exI, rule lock2_invs [OF inv], assumption+)+)

lemma unlock2_step_inv:
  assumes "unlock2_step spin low own s s'" and inv: "lk_inv xs s"
  shows "\<exists>xs'. lk_inv xs' s'"
  using assms(1) by cases ((hypsubst+, rule exI, rule unlock2_invs [OF inv], assumption+)+)

lemma unlock2Wake_step_inv:
  assumes "unlock2Wake_step spin low own s s'" and inv: "lk_inv xs s"
  shows "\<exists>xs'. lk_inv xs' s'"
  using assms(1)
  by cases ((hypsubst+, (rule unlink_inv [OF inv] pick_cas_inv [OF inv], assumption | rule exI, rule unlock2Wake_invs [OF inv], assumption+))+)

lemma lk_step_inv: "lk_step spin low own s s' \<Longrightarrow> lk_inv xs s \<Longrightarrow> \<exists>xs'. lk_inv xs' s'"
  unfolding lk_step_iff by (blast intro: lock2_step_inv unlock2_step_inv unlock2Wake_step_inv)

lemma lk_reach_inv: "lk_reach spin low s \<Longrightarrow> \<exists>xs. lk_inv xs s"
proof (induction rule: lk_reach.induct)
  case start
  have "lk_inv [] lk_start"
    by (simp add: lk_inv_def lk_start_def flags_ok_def stack_ok_def threads_ok_def tokens_ok_def live_def held_by_def)
  then show ?case ..
next
  case (step s own s')
  then show ?case using lk_step_inv by blast
qed

text \<open>A thread inside \<open>lock2\<close> or \<open>unlock2\<close> that is not asleep can go on.\<close>

lemma own_enabled:
  assumes "ms_pc s u \<noteq> MIdle" "ms_pc s u \<noteq> MHeld" "ms_pc s u \<noteq> MAsleep \<or> 0 < ms_sema s u" "\<And>e. ms_pc s u \<noteq> MThrow e"
  shows "\<exists>s'. lk_step spin low True s s'"
proof (cases "ms_pc s u")
  case (MTry i w a v)
  then show ?thesis using try_cas [of s u] try_xchg [of s u] by (cases w) (simp, blast intro: lk_step.intros)+
next
  case MAsleep
  with assms(3) semasleep [of s u] show ?thesis by (blast intro: lk_step.intros)
qed ((use assms in \<open>simp; fail\<close>)
  | (rule exI, rule lk_step.intros, (erule lock2_step.intros | erule unlock2_step.intros | erule unlock2Wake_step.intros), (rule refl)?))+

text \<open>Thread 0 holds the lock and thread 1 sleeps on it.\<close>

definition one_sleeper :: mst where
  "one_sleeper = lk_start\<lparr>ms_key := \<lparr>k_locked = True, k_sleeping = True, k_spinning = False, k_stack = False, k_head = Some 1\<rparr>,
     ms_locks := (\<lambda>t. 0)(0 := 1, 1 := 1), ms_pc := (\<lambda>t. MIdle)(0 := MHeld, 1 := MAsleep)\<rparr>"

section \<open>Properties\<close>

text \<open>C8: The runtime's mutex works however any number of threads interleave. Nothing throws: the lock is never
  released unlocked, no thread goes to sleep while the lock is free, and no nil waiter is followed. At most one
  thread holds the lock, one spins and one owns the stack of sleepers, and the flags of the word say whether there
  is one. The stack is a finite list without repetition, and only sleepers are on it; a sleeper that has left it
  has one token or exactly one thread about to post it; no other thread has a token, so no semaphore is out of step.\<close>

theorem lock_exclusive:
  assumes "lk_reach spin low s"
  shows "(\<forall>t e. ms_pc s t \<noteq> MThrow e)
    \<and> (\<forall>t u. holder (ms_pc s t) \<and> holder (ms_pc s u) \<longrightarrow> t = u) \<and> (k_locked (ms_key s) \<longleftrightarrow> (\<exists>t. holder (ms_pc s t)))
    \<and> (\<forall>t u. spinner (ms_pc s t) \<and> spinner (ms_pc s u) \<longrightarrow> t = u) \<and> (\<forall>t u. stack_owner (ms_pc s t) \<and> stack_owner (ms_pc s u) \<longrightarrow> t = u)
    \<and> (\<exists>xs. stacked (ms_next s) (k_head (ms_key s)) xs \<and> distinct xs
        \<and> (\<forall>t. if t \<in> set xs then ms_pc s t = MAsleep \<and> ms_sema s t = 0
               else if ms_pc s t = MAsleep
               then (if ms_sema s t = 0 then \<exists>!u. claimed (ms_pc s u) = Some t else ms_sema s t = 1 \<and> (\<forall>u. claimed (ms_pc s u) \<noteq> Some t))
               else ms_sema s t = 0))"
proof -
  obtain xs where inv: "lk_inv xs s" using lk_reach_inv [OF assms] ..
  have "ms_pc s t \<noteq> MThrow e" for t e using inv_thread(1) [OF inv, of t] by auto
  moreover have "\<forall>t. if t \<in> set xs then ms_pc s t = MAsleep \<and> ms_sema s t = 0
               else if ms_pc s t = MAsleep
               then (if ms_sema s t = 0 then \<exists>!u. claimed (ms_pc s u) = Some t else ms_sema s t = 1 \<and> (\<forall>u. claimed (ms_pc s u) \<noteq> Some t))
               else ms_sema s t = 0"
  proof (intro allI)
    fix t
    have "t \<in> set xs \<longrightarrow> ms_pc s t = MAsleep" using inv by (simp add: lk_inv_def stack_ok_def)
    with inv_tokens [OF inv, of t] show "if t \<in> set xs then ms_pc s t = MAsleep \<and> ms_sema s t = 0
               else if ms_pc s t = MAsleep
               then (if ms_sema s t = 0 then \<exists>!u. claimed (ms_pc s u) = Some t else ms_sema s t = 1 \<and> (\<forall>u. claimed (ms_pc s u) \<noteq> Some t))
               else ms_sema s t = 0" unfolding held_by_def by (auto intro: le_antisym)
  qed
  ultimately show ?thesis using inv unfolding lk_inv_def flags_ok_def held_by_def stack_ok_def by blast
qed

text \<open>C9: No wake-up of the runtime's mutex is lost. When a thread sleeps on the lock and no thread inside \<open>lock2\<close> or
  \<open>unlock2\<close> can go on, then a thread is in its critical section, the word carries the hint that makes its \<open>unlock2\<close>
  look for sleepers, nobody spins and nobody owns the stack, so that it will take a sleeper and wake it. In
  particular the threads are never all asleep, and a free lock with a sleeper is always on its way to somebody.\<close>

theorem lock_no_lost_wakeup:
  assumes "lk_reach spin low s" and "ms_pc s t = MAsleep" and "\<forall>s'. \<not> lk_step spin low True s s'"
  shows "(\<exists>!u. ms_pc s u = MHeld) \<and> k_locked (ms_key s) \<and> k_sleeping (ms_key s) \<and> k_head (ms_key s) \<noteq> None
    \<and> \<not> k_spinning (ms_key s) \<and> \<not> k_stack (ms_key s)"
proof -
  obtain xs where inv: "lk_inv xs s" using lk_reach_inv [OF assms(1)] ..
  have rest: "ms_pc s u = MIdle \<or> ms_pc s u = MHeld \<or> ms_pc s u = MAsleep \<and> ms_sema s u = 0" for u
    using own_enabled [of s u spin low] assms(3) inv_thread(1) [OF inv, of u] by (metis local_ok.simps(7) neq0_conv)
  have none: "\<not> moving (ms_pc s u)" "claimed (ms_pc s u) = None" "ms_pc s u \<noteq> MFix" "holder (ms_pc s u) \<longleftrightarrow> ms_pc s u = MHeld"
    "\<not> spinner (ms_pc s u)" "\<not> stack_owner (ms_pc s u)" for u
    using rest [of u] by auto
  have on: "u \<in> set xs" if "ms_pc s u = MAsleep" for u
  proof (rule ccontr)
    assume "u \<notin> set xs"
    then have "held_by (\<lambda>p. claimed p = Some u) True (ms_pc s)" using inv_tokens(2) [OF inv, of u] that rest [of u] by simp
    with none(2) show False by (simp add: held_by_def)
  qed
  then have "xs \<noteq> []" using assms(2) by fastforce
  moreover from this inv on none have "hinted (ms_key s) (ms_pc s)" by (auto simp: lk_inv_def live_def)
  ultimately show ?thesis using inv inv_head(2) [OF inv] none
    unfolding lk_inv_def flags_ok_def held_by_def hinted_def by metis
qed

section \<open>Witnesses\<close>

lemma one_sleeper_reach: "lk_reach 0 False one_sleeper"
proof -
  let ?k = "\<lambda>l sl sp h. \<lparr>k_locked = l, k_sleeping = sl, k_spinning = sp, k_stack = False, k_head = h\<rparr>"
  let ?s = "\<lambda>k l1 p0 p1. lk_start\<lparr>ms_key := k, ms_locks := (\<lambda>t. 0)(0 := 1, 1 := l1), ms_pc := (\<lambda>t. MIdle)(0 := p0, 1 := p1)\<rparr>"
  note defs = lk_start_def mgo_def put_key_def put_next_def k_xchg8_def k_push_def fun_eq_iff
  have "lk_reach 0 False (lk_start\<lparr>ms_locks := (\<lambda>t. 0)(0 := 1), ms_pc := (\<lambda>t. MIdle)(0 := MFast)\<rparr>)"
    using lk_reach.step [OF lk_reach.start lock2 [OF lock_call [of _ 0]]] by (simp add: defs)
  from lk_reach.step [OF this lock2 [OF fast [of _ 0]]] have "lk_reach 0 False
      (lk_start\<lparr>ms_key := ?k True False False None, ms_locks := (\<lambda>t. 0)(0 := 1), ms_pc := (\<lambda>t. MIdle)(0 := MHeld)\<rparr>)"
    by (simp add: defs)
  from lk_reach.step [OF this lock2 [OF lock_call [of _ 1]]] have "lk_reach 0 False (?s (?k True False False None) 1 MHeld MFast)" by (simp add: defs)
  from lk_reach.step [OF this lock2 [OF fast [of _ 1]]] have "lk_reach 0 False (?s (?k True False False None) 1 MHeld (MLoad 0 False False))" by (simp add: defs)
  from lk_reach.step [OF this lock2 [OF load [of _ 1 0 False False]]] have "lk_reach 0 False (?s (?k True False False None) 1 MHeld (MSpin 0 False (?k True False False None)))"
    by (simp add: defs tryAcquire_def)
  from lk_reach.step [OF this lock2 [OF spin_cas [of _ 1 0 False]]] have "lk_reach 0 False (?s (?k True False True None) 1 MHeld (MLoad 1 True False))"
    by (simp add: defs sleep_or_spin_def)
  from lk_reach.step [OF this lock2 [OF load [of _ 1 1 True False]]] have "lk_reach 0 False (?s (?k True False True None) 1 MHeld (MPush 1 True False (?k True False True None)))"
    by (simp add: defs tryAcquire_def sleep_or_spin_def)
  from lk_reach.step [OF this lock2 [OF push_next [of _ 1 1 True False]]] have "lk_reach 0 False (?s (?k True False True None) 1 MHeld (MPushCas 1 True False (?k True False True None)))"
    by (simp add: defs fun_upd_idem)
  from lk_reach.step [OF this lock2 [OF push_cas [of _ 1 1 True False]]] show ?thesis by (simp add: defs one_sleeper_def)
qed

lemma one_sleeper_rest: "\<not> lk_step 0 False True one_sleeper s'"
proof
  assume "lk_step 0 False True one_sleeper s'"
  moreover have "ms_pc one_sleeper t = (if t = 0 then MHeld else if t = 1 then MAsleep else MIdle)" "ms_sema one_sleeper t = 0" for t
    by (auto simp: one_sleeper_def lk_start_def)
  ultimately show False
    unfolding lk_step_iff by (auto elim!: lock2_step.cases unlock2_step.cases unlock2Wake_step.cases split: if_splits)
qed

theorem lock_exclusive_witness:
  "ms_pc one_sleeper 0 = MHeld \<and> \<not> holder (ms_pc one_sleeper 1)
    \<and> (\<exists>xs. stacked (ms_next one_sleeper) (Some 1) xs \<and> distinct xs)"
proof -
  have "ms_pc one_sleeper 0 = MHeld" "k_head (ms_key one_sleeper) = Some 1" by (simp_all add: one_sleeper_def)
  with lock_exclusive [OF one_sleeper_reach] show ?thesis by (metis holder.simps(2) zero_neq_one)
qed

theorem lock_no_lost_wakeup_witness:
  "\<exists>!u. ms_pc one_sleeper u = MHeld"
  using lock_no_lost_wakeup [OF one_sleeper_reach, of 1] one_sleeper_rest by (simp add: one_sleeper_def)

end
