(* ===== verification/Rt_Lock_Word.thy ===== *)
theory Rt_Lock_Word
  imports Rt_Lock
begin

text \<open>
  The word of the runtime's mutex as \<open>runtime/lock_spinbit.go\<close> packs it: bit 0 \<open>mutexLocked\<close>, bit 1 \<open>mutexSleeping\<close>, bit 8
  \<open>mutexSpinning\<close>, bit 9 \<open>mutexStackLocked\<close>, and above them the high bits of the pointer to the last sleeper. The fast
  paths exchange the low byte only. Every test and update of the source is a definition here, and each does to the
  word what \<open>Rt_Lock\<close> does to the record. The addresses of the threads are a parameter: \<open>m0\<close> is static, the others
  are allocated in a size class that \<open>lockVerifyMSize\<close> has checked.
\<close>

definition mutexLocked :: u32 where "mutexLocked = 0x001"
definition mutexSleeping :: u32 where "mutexSleeping = 0x002"
definition mutexSpinning :: u32 where "mutexSpinning = 0x100"
definition mutexStackLocked :: u32 where "mutexStackLocked = 0x200"
definition mutexMMask :: u32 where "mutexMMask = 0x3FF"
definition mutexMOffset :: u32 where "mutexMOffset = 8"

definition lowByte :: u32 where "lowByte = 0xFF"

definition mutexWaitListHead :: "u32 \<Rightarrow> u32 \<Rightarrow> u32" where
  "mutexWaitListHead m0 v =
     (let highBits = v AND NOT mutexMMask
      in if highBits = 0 then 0 else if highBits = m0 AND NOT mutexMMask then m0 else highBits + mutexMOffset)"

definition mutexContended :: "u32 \<Rightarrow> bool" where
  "mutexContended v \<longleftrightarrow> v AND NOT mutexMMask \<noteq> 0"

text \<open>\<open>atomic.Xchg8\<close> and \<open>atomic.Or8\<close> on the byte \<open>key8\<close> points to, the lowest of the word.\<close>

definition Xchg8 :: "u8 \<Rightarrow> u32 \<Rightarrow> u32 \<times> u8" where
  "Xchg8 b v = (v AND NOT lowByte OR ucast b, ucast v)"

definition Or8 :: "u8 \<Rightarrow> u32 \<Rightarrow> u32" where
  "Or8 b v = v OR ucast b"

definition w_acquire :: "u32 \<Rightarrow> u32" where
  "w_acquire v =
     (let next = v AND NOT mutexSpinning OR mutexSleeping OR mutexLocked
      in if next AND NOT mutexMMask = 0 then next AND NOT mutexSleeping else next)"

definition w_push :: "u32 \<Rightarrow> bool \<Rightarrow> u32 \<Rightarrow> u32" where
  "w_push mp weSpin v =
     (let next = mp AND NOT mutexMMask OR v AND mutexMMask OR mutexSleeping
      in if weSpin then next AND NOT mutexSpinning else next)"

definition w_sample :: "u32 \<Rightarrow> u32" where
  "w_sample v = (v OR mutexStackLocked) AND NOT (mutexLocked OR mutexSleeping)"

definition w_release :: "u32 \<Rightarrow> u32 \<Rightarrow> u32" where
  "w_release headM v = headM OR v AND (mutexMMask AND NOT mutexStackLocked)"

section \<open>The word of a record\<close>

definition mptr_ok :: "u32 \<Rightarrow> nat \<Rightarrow> (nat \<Rightarrow> u32) \<Rightarrow> bool" where
  "mptr_ok m0 N mptr \<longleftrightarrow> (\<forall>t<N. mptr t AND NOT mutexMMask \<noteq> 0
     \<and> (mptr t = m0 \<or> mptr t AND NOT mutexMMask \<noteq> m0 AND NOT mutexMMask \<and> mptr t AND mutexMMask = mutexMOffset)
     \<and> (\<forall>u<N. mptr t = mptr u \<longrightarrow> t = u))"

definition head_in :: "nat \<Rightarrow> mkey \<Rightarrow> bool" where
  "head_in N k \<longleftrightarrow> (case k_head k of None \<Rightarrow> True | Some t \<Rightarrow> t < N)"

definition key_word :: "(nat \<Rightarrow> u32) \<Rightarrow> mkey \<Rightarrow> u32" where
  "key_word mptr k =
     (case k_head k of None \<Rightarrow> 0 | Some t \<Rightarrow> mptr t AND NOT mutexMMask)
     OR (if k_locked k then mutexLocked else 0) OR (if k_sleeping k then mutexSleeping else 0)
     OR (if k_spinning k then mutexSpinning else 0) OR (if k_stack k then mutexStackLocked else 0)"

lemma mask_bits:
  "bit mutexLocked n \<longleftrightarrow> n = 0" "bit mutexSleeping n \<longleftrightarrow> n = 1" "bit mutexSpinning n \<longleftrightarrow> n = 8" "bit mutexStackLocked n \<longleftrightarrow> n = 9"
  "bit mutexMMask n \<longleftrightarrow> n < 10" "bit lowByte n \<longleftrightarrow> n < 8"
proof -
  have e: "bit ((2 :: u32) ^ m) n \<longleftrightarrow> n = m" if "m < 32" for m using that by (auto simp: bit_exp_iff possible_bit_word)
  have m: "bit (mask m :: u32) n \<longleftrightarrow> n < m" if "m < 32" for m using that by (auto simp: bit_mask_iff possible_bit_word)
  have c: "mutexLocked = 2 ^ 0" "mutexSleeping = 2 ^ 1" "mutexSpinning = 2 ^ 8" "mutexStackLocked = 2 ^ 9" "mutexMMask = mask 10" "lowByte = mask 8"
    by (simp_all add: mutexLocked_def mutexSleeping_def mutexSpinning_def mutexStackLocked_def mutexMMask_def lowByte_def mask_eq_exp_minus_1)
  show "bit mutexLocked n \<longleftrightarrow> n = 0" "bit mutexSleeping n \<longleftrightarrow> n = 1" "bit mutexSpinning n \<longleftrightarrow> n = 8" "bit mutexStackLocked n \<longleftrightarrow> n = 9"
    unfolding c by (rule e, simp)+
  show "bit mutexMMask n \<longleftrightarrow> n < 10" "bit lowByte n \<longleftrightarrow> n < 8" unfolding c by (rule m, simp)+
qed

lemma key_word_bit:
  assumes "n < 32"
  shows "bit (key_word mptr k) n \<longleftrightarrow>
    (if n < 10 then n = 0 \<and> k_locked k \<or> n = 1 \<and> k_sleeping k \<or> n = 8 \<and> k_spinning k \<or> n = 9 \<and> k_stack k
     else \<exists>t. k_head k = Some t \<and> bit (mptr t) n)"
  using assms by (auto simp: key_word_def bit_or_iff bit_and_iff bit_not_iff mask_bits split: option.splits if_splits)

lemma u32_eqI: "(\<And>n. n < 32 \<Longrightarrow> bit (v :: u32) n = bit w n) \<Longrightarrow> v = w"
  by (rule bit_word_eqI) simp

lemmas word_bits = bit_or_iff bit_and_iff bit_not_iff mask_bits key_word_bit possible_bit_word

lemma single_flag:
  assumes "\<And>n. bit (f :: u32) n \<longleftrightarrow> n = m" "m < 32"
  shows "v AND f \<noteq> 0 \<longleftrightarrow> bit v m"
proof -
  have "bit (v AND f) n \<longleftrightarrow> n = m \<and> bit v m" for n by (auto simp: bit_and_iff assms)
  then show ?thesis by (metis bit_0_eq bot_apply bot_bool_def bit_eq_iff)
qed

lemma flag_tests:
  "key_word mptr k AND mutexLocked \<noteq> 0 \<longleftrightarrow> k_locked k" "key_word mptr k AND mutexSleeping \<noteq> 0 \<longleftrightarrow> k_sleeping k"
  "key_word mptr k AND mutexSpinning \<noteq> 0 \<longleftrightarrow> k_spinning k" "key_word mptr k AND mutexStackLocked \<noteq> 0 \<longleftrightarrow> k_stack k"
  by (simp_all add: single_flag [OF mask_bits(1)] single_flag [OF mask_bits(2)] single_flag [OF mask_bits(3)] single_flag [OF mask_bits(4)] key_word_bit)

lemma key_word_high: "key_word mptr k AND NOT mutexMMask = (case k_head k of None \<Rightarrow> 0 | Some t \<Rightarrow> mptr t AND NOT mutexMMask)"
  by (rule u32_eqI) (auto simp: word_bits split: option.splits)

lemma high_low: "(p :: u32) AND NOT mutexMMask = h \<Longrightarrow> p AND mutexMMask = mutexMOffset \<Longrightarrow> p = h + mutexMOffset"
proof -
  assume h: "p AND NOT mutexMMask = h" and l: "p AND mutexMMask = mutexMOffset"
  have "p = (p AND NOT mutexMMask) OR (p AND mutexMMask)" by (rule u32_eqI) (auto simp: word_bits)
  also have "\<dots> = (p AND NOT mutexMMask) + (p AND mutexMMask)"
    by (rule disjunctive_add [symmetric]) (auto simp: word_bits)
  finally show ?thesis by (simp add: h l)
qed

lemma mptr_high: "mptr_ok m0 N mptr \<Longrightarrow> t < N \<Longrightarrow> u < N \<Longrightarrow> mptr t AND NOT mutexMMask = mptr u AND NOT mutexMMask \<Longrightarrow> t = u"
  unfolding mptr_ok_def by (metis high_low)

lemma head_pointer:
  assumes "mptr_ok m0 N mptr" "head_in N k"
  shows "mutexWaitListHead m0 (key_word mptr k) = (case k_head k of None \<Rightarrow> 0 | Some t \<Rightarrow> mptr t)"
proof (cases "k_head k")
  case (Some t)
  let ?h = "mptr t AND NOT mutexMMask"
  have "?h \<noteq> 0" "mptr t = m0 \<or> ?h \<noteq> m0 AND NOT mutexMMask \<and> mptr t = ?h + mutexMOffset"
    using assms Some high_low [of "mptr t" ?h] by (auto simp: mptr_ok_def head_in_def)
  with Some show ?thesis by (auto simp: mutexWaitListHead_def key_word_high Let_def)
qed (simp add: mutexWaitListHead_def key_word_high)

lemma key_word_inj:
  assumes "mptr_ok m0 N mptr" "head_in N k" "head_in N k'"
  shows "key_word mptr k = key_word mptr k' \<longleftrightarrow> k = k'"
proof
  assume eq: "key_word mptr k = key_word mptr k'"
  have "(case k_head k of None \<Rightarrow> 0 | Some t \<Rightarrow> mptr t AND NOT mutexMMask) = (case k_head k' of None \<Rightarrow> 0 | Some t \<Rightarrow> mptr t AND NOT mutexMMask)"
    using eq key_word_high by metis
  then have "k_head k = k_head k'"
    using assms mptr_high [OF assms(1)] by (auto simp: mptr_ok_def head_in_def split: option.splits)
  then show "k = k'" using eq flag_tests [of mptr k] flag_tests [of mptr k'] by (intro mkey.equality) simp_all
qed simp

lemma update_words:
  "w_push (mptr t) weSpin (key_word mptr k) = key_word mptr (k_push t weSpin k)"
  "w_sample (key_word mptr k) = key_word mptr (k_sample k)"
  "w_release (case h of None \<Rightarrow> 0 | Some t \<Rightarrow> mptr t AND NOT mutexMMask) (key_word mptr k) = key_word mptr (k_release h k)"
  "key_word mptr k OR mutexSpinning = key_word mptr (k\<lparr>k_spinning := True\<rparr>)"
  "key_word mptr k OR mutexStackLocked = key_word mptr (k\<lparr>k_stack := True\<rparr>)"
  "Or8 (ucast mutexSleeping) (key_word mptr k) = key_word mptr (k\<lparr>k_sleeping := True\<rparr>)"
  by (rule u32_eqI; force simp: word_bits w_push_def w_sample_def w_release_def Or8_def Let_def bit_ucast_iff split: option.splits)+

lemma acquire_word:
  assumes "mptr_ok m0 N mptr" "head_in N k"
  shows "w_acquire (key_word mptr k) = key_word mptr (k_acquire k)"
proof -
  let ?n = "key_word mptr k AND NOT mutexSpinning OR mutexSleeping OR mutexLocked"
  have "?n AND NOT mutexMMask = key_word mptr k AND NOT mutexMMask" by (rule u32_eqI) (auto simp: word_bits)
  then have "?n AND NOT mutexMMask = 0 \<longleftrightarrow> k_head k = None"
    using assms by (auto simp: key_word_high mptr_ok_def head_in_def split: option.splits)
  then show ?thesis
    by (cases "k_head k"; simp add: w_acquire_def Let_def; intro u32_eqI; auto simp: word_bits)
qed

lemma xchg_words:
  "Xchg8 (ucast mutexLocked) (key_word mptr k) = (key_word mptr (k_xchg8 True False k), ucast (key_word mptr k))"
  "Xchg8 (ucast (mutexLocked OR mutexSleeping)) (key_word mptr k) = (key_word mptr (k_xchg8 True True k), ucast (key_word mptr k))"
  "Xchg8 0 (key_word mptr k) = (key_word mptr (k_xchg8 False False k), ucast (key_word mptr k))"
  unfolding Xchg8_def by (auto intro!: u32_eqI simp: word_bits bit_ucast_iff)

lemma low_byte:
  "(ucast (ucast (key_word mptr k) :: u8) :: u32) AND mutexLocked \<noteq> 0 \<longleftrightarrow> k_locked k"
  "(ucast (ucast (key_word mptr k) :: u8) :: u32) AND mutexSleeping \<noteq> 0 \<longleftrightarrow> k_sleeping k"
  by (simp_all add: single_flag [OF mask_bits(1)] single_flag [OF mask_bits(2)] bit_ucast_iff key_word_bit)

section \<open>Properties\<close>

text \<open>C10: Packing the state of the runtime's mutex into one 32-bit word loses nothing. For threads whose addresses are
  aligned the way \<open>lockVerifyMSize\<close> demands, every test of the source reads the flag it means, the pointer to the last
  sleeper is recovered whole from its high bits, every new word the source computes is the word of the updated
  record, exchanging the low byte changes the two flags in it and nothing else, and two words are equal exactly when
  flags and sleeper are, so a compare-and-swap on the word is one on the record.\<close>

theorem lock_word_refines:
  assumes "mptr_ok m0 N mptr" and "head_in N k" and "head_in N k'"
  defines "v \<equiv> key_word mptr k"
  shows "(v AND mutexLocked \<noteq> 0 \<longleftrightarrow> k_locked k) \<and> (v AND mutexSleeping \<noteq> 0 \<longleftrightarrow> k_sleeping k)
    \<and> (v AND mutexSpinning \<noteq> 0 \<longleftrightarrow> k_spinning k) \<and> (v AND mutexStackLocked \<noteq> 0 \<longleftrightarrow> k_stack k)
    \<and> (mutexContended v \<longleftrightarrow> k_head k \<noteq> None)
    \<and> mutexWaitListHead m0 v = (case k_head k of None \<Rightarrow> 0 | Some t \<Rightarrow> mptr t)
    \<and> (v = key_word mptr k' \<longleftrightarrow> k = k')
    \<and> w_acquire v = key_word mptr (k_acquire k) \<and> w_push (mptr t) weSpin v = key_word mptr (k_push t weSpin k)
    \<and> w_sample v = key_word mptr (k_sample k) \<and> v OR mutexSpinning = key_word mptr (k\<lparr>k_spinning := True\<rparr>)
    \<and> v OR mutexStackLocked = key_word mptr (k\<lparr>k_stack := True\<rparr>)
    \<and> w_release (case h of None \<Rightarrow> 0 | Some u \<Rightarrow> mptr u AND NOT mutexMMask) v = key_word mptr (k_release h k)
    \<and> Or8 (ucast mutexSleeping) v = key_word mptr (k\<lparr>k_sleeping := True\<rparr>)
    \<and> fst (Xchg8 (ucast mutexLocked) v) = key_word mptr (k_xchg8 True False k)
    \<and> fst (Xchg8 (ucast (mutexLocked OR mutexSleeping)) v) = key_word mptr (k_xchg8 True True k)
    \<and> fst (Xchg8 0 v) = key_word mptr (k_xchg8 False False k)
    \<and> (\<forall>b. (ucast (snd (Xchg8 b v)) AND mutexLocked \<noteq> 0 \<longleftrightarrow> k_locked k) \<and> (ucast (snd (Xchg8 b v)) AND mutexSleeping \<noteq> 0 \<longleftrightarrow> k_sleeping k))"
proof -
  have c: "mutexContended v \<longleftrightarrow> k_head k \<noteq> None"
    using assms(1,2) by (auto simp: mutexContended_def v_def key_word_high mptr_ok_def head_in_def split: option.splits)
  show ?thesis
    unfolding v_def using c [unfolded v_def] flag_tests [of mptr k] low_byte [of mptr k]
    by (simp add: head_pointer [OF assms(1,2)] key_word_inj [OF assms(1-3)] acquire_word [OF assms(1,2)] update_words xchg_words)
       (simp add: Xchg8_def)
qed

text \<open>The static thread at an odd address and a second one in a block of 1024 bytes, behind its header.\<close>

theorem lock_word_refines_witness:
  "mutexWaitListHead 0x8123
     (key_word (\<lambda>t. if t = 0 then 0x8123 else 0x20000408) \<lparr>k_locked = True, k_sleeping = True, k_spinning = False, k_stack = True, k_head = Some 1\<rparr>)
   = 0x20000408"
proof -
  have "mptr_ok 0x8123 2 (\<lambda>t. if t = 0 then 0x8123 else 0x20000408)"
    by (auto simp: mptr_ok_def mutexMMask_def mutexMOffset_def less_2_cases_iff)
  from lock_word_refines [OF this, of "\<lparr>k_locked = True, k_sleeping = True, k_spinning = False, k_stack = True, k_head = Some 1\<rparr>"
      "\<lparr>k_locked = True, k_sleeping = True, k_spinning = False, k_stack = True, k_head = Some 1\<rparr>"]
  show ?thesis by (simp add: head_in_def)
qed

end
