(* ===== verification/Net_Qnx.thy ===== *)
theory Net_Qnx
  imports Fd_Unix
begin

text \<open>
  The QNX files of package \<open>net\<close>: the interface tables of \<open>interface_qnx.go\<close>, walked over the list that \<open>getifaddrs\<close>
  returns, and the socket options of \<open>sockopt_qnx.go\<close> and \<open>tcpsockopt_qnx.go\<close>. A structure that C lays out is read
  from its bytes; bytes past its end read as 0.
\<close>

section \<open>Errors\<close>

datatype neterr = SyscallError string goerror | Plain goerror | Canceled | TimedOut

definition NewSyscallError :: "string \<Rightarrow> u32 option \<Rightarrow> neterr option" where
  "NewSyscallError call err = map_option (\<lambda>e. SyscallError call (Errno e)) err"

fun wrapSyscallError :: "string \<Rightarrow> goerror option \<Rightarrow> neterr option" where
  "wrapSyscallError name None = None"
| "wrapSyscallError name (Some (Errno e)) = NewSyscallError name (Some e)"
| "wrapSyscallError name (Some err) = Some (Plain err)"

section \<open>Interfaces\<close>

abbreviation FlagUp :: u32 where "FlagUp \<equiv> 1"
abbreviation FlagBroadcast :: u32 where "FlagBroadcast \<equiv> 2"
abbreviation FlagLoopback :: u32 where "FlagLoopback \<equiv> 4"
abbreviation FlagPointToPoint :: u32 where "FlagPointToPoint \<equiv> 8"
abbreviation FlagMulticast :: u32 where "FlagMulticast \<equiv> 16"
abbreviation FlagRunning :: u32 where "FlagRunning \<equiv> 32"

definition linkFlags :: "u32 \<Rightarrow> u32" where
  "linkFlags raw =
     (let f1 = (if raw AND 0x1 \<noteq> 0 then FlagUp else 0);
          f2 = (if raw AND 0x40 \<noteq> 0 then f1 OR FlagRunning else f1);
          f3 = (if raw AND 0x2 \<noteq> 0 then f2 OR FlagBroadcast else f2);
          f4 = (if raw AND 0x8 \<noteq> 0 then f3 OR FlagLoopback else f3);
          f5 = (if raw AND 0x10 \<noteq> 0 then f4 OR FlagPointToPoint else f4)
      in if raw AND 0x8000 \<noteq> 0 then f5 OR FlagMulticast else f5)"

definition byte_at :: "gostring \<Rightarrow> nat \<Rightarrow> u8" where
  "byte_at b i = (if i < length b then b ! i else 0)"

definition bytes_at :: "gostring \<Rightarrow> nat \<Rightarrow> nat \<Rightarrow> gostring" where
  "bytes_at b i n = map (\<lambda>j. byte_at b (i + j)) [0..<n]"

definition ifa_goString :: "gostring option \<Rightarrow> gostring" where
  "ifa_goString p = (case p of None \<Rightarrow> [] | Some b \<Rightarrow> takeWhile (\<lambda>c. c \<noteq> 0) b)"

record Interface =
  if_Index :: int
  if_MTU :: int
  if_Name :: gostring
  if_HardwareAddr :: "gostring option"
  if_Flags :: u32

abbreviation AF_LINK :: u8 where "AF_LINK \<equiv> 18"

definition sdl_Index :: "gostring \<Rightarrow> int" where "sdl_Index b = uint (byte_at b 2) + 256 * uint (byte_at b 3)"
definition sdl_Nlen :: "gostring \<Rightarrow> nat" where "sdl_Nlen b = unat (byte_at b 5)"
definition sdl_Alen :: "gostring \<Rightarrow> nat" where "sdl_Alen b = unat (byte_at b 6)"

definition if_mtu :: "u64 option \<Rightarrow> int" where
  "if_mtu data = (case data of None \<Rightarrow> 1500 | Some m \<Rightarrow> if m > 0 \<and> m < 2 ^ 20 then uint m else 1500)"

definition if_mac :: "gostring \<Rightarrow> gostring option" where
  "if_mac b = (if sdl_Alen b > 0 \<and> sdl_Nlen b + sdl_Alen b \<le> 12 then Some (bytes_at b (8 + sdl_Nlen b) (sdl_Alen b)) else None)"

definition mk_interface :: "int \<Rightarrow> gostring \<Rightarrow> Ifaddrs \<Rightarrow> gostring \<Rightarrow> Interface" where
  "mk_interface idx name ifa b =
     \<lparr>if_Index = idx, if_MTU = if_mtu (ifa_Data ifa), if_Name = name, if_HardwareAddr = if_mac b, if_Flags = linkFlags (ifa_Flags ifa)\<rparr>"

fun interface_loop :: "'w libc \<Rightarrow> int \<Rightarrow> Ifaddrs list \<Rightarrow> int set \<Rightarrow> 'w thr \<Rightarrow> Interface list \<times> 'w thr" where
  "interface_loop L ifindex [] seen t = ([], t)"
| "interface_loop L ifindex (ifa # rest) seen t =
     (case ifa_Addr ifa of
        None \<Rightarrow> interface_loop L ifindex rest seen t
      | Some b \<Rightarrow>
          if byte_at b 1 \<noteq> AF_LINK then interface_loop L ifindex rest seen t
          else (let name = ifa_goString (ifa_Name ifa);
                    (idx, t1) = (if sdl_Index b = 0 then IfNametoindex L name t else (sdl_Index b, t))
                in if ifindex \<noteq> 0 \<and> ifindex \<noteq> idx then interface_loop L ifindex rest seen t1
                   else if idx \<in> seen then interface_loop L ifindex rest seen t1
                   else if ifindex = idx then ([mk_interface idx name ifa b], t1)
                   else (let (ifis, t2) = interface_loop L ifindex rest (insert idx seen) t1 in (mk_interface idx name ifa b # ifis, t2))))"

definition interfaceTable :: "'w libc \<Rightarrow> int \<Rightarrow> 'w thr \<Rightarrow> (neterr + Interface list) \<times> 'w thr" where
  "interfaceTable L ifindex t =
     (case Getifaddrs L t of
        (Inl e, t1) \<Rightarrow> (Inl (SyscallError ''getifaddrs'' (Errno e)), t1)
      | (Inr head, t1) \<Rightarrow> (let (ifis, t2) = interface_loop L ifindex head {} t1 in (Inr ifis, Freeifaddrs L head t2)))"

section \<open>Addresses\<close>

definition v4InV6Prefix :: gostring where "v4InV6Prefix = replicate 10 0 @ [0xff, 0xff]"

type_synonym ipnet = "gostring \<times> gostring option"

definition ifa_net :: "Ifaddrs \<Rightarrow> gostring \<Rightarrow> ipnet option" where
  "ifa_net ifa b =
     (if byte_at b 1 = AF_INET
      then Some (v4InV6Prefix @ bytes_at b 4 4, map_option (\<lambda>m. bytes_at m 4 4) (ifa_Netmask ifa))
      else if byte_at b 1 = AF_INET6
      then Some (bytes_at b 8 16, map_option (\<lambda>m. bytes_at m 8 16) (ifa_Netmask ifa))
      else None)"

fun addr_loop :: "'w libc \<Rightarrow> int option \<Rightarrow> Ifaddrs list \<Rightarrow> 'w thr \<Rightarrow> ipnet list \<times> 'w thr" where
  "addr_loop L ifi [] t = ([], t)"
| "addr_loop L ifi (ifa # rest) t =
     (case ifa_Addr ifa of
        None \<Rightarrow> addr_loop L ifi rest t
      | Some b \<Rightarrow>
          (let (keep, t1) = (case ifi of None \<Rightarrow> (True, t)
                 | Some i \<Rightarrow> (let (idx, t1) = IfNametoindex L (ifa_goString (ifa_Name ifa)) t in (idx = i, t1)))
           in if \<not> keep then addr_loop L ifi rest t1
              else (case ifa_net ifa b of
                      None \<Rightarrow> addr_loop L ifi rest t1
                    | Some a \<Rightarrow> (let (addrs, t2) = addr_loop L ifi rest t1 in (a # addrs, t2)))))"

definition interfaceAddrTable :: "'w libc \<Rightarrow> int option \<Rightarrow> 'w thr \<Rightarrow> (neterr + ipnet list) \<times> 'w thr" where
  "interfaceAddrTable L ifi t =
     (case Getifaddrs L t of
        (Inl e, t1) \<Rightarrow> (Inl (SyscallError ''getifaddrs'' (Errno e)), t1)
      | (Inr head, t1) \<Rightarrow> (let (addrs, t2) = addr_loop L ifi head t1 in (Inr addrs, Freeifaddrs L head t2)))"

definition interfaceMulticastAddrTable :: "int option \<Rightarrow> neterr + ipnet list" where
  "interfaceMulticastAddrTable ifi = Inr []"

section \<open>Socket options\<close>

abbreviation SOL_SOCKET :: int where "SOL_SOCKET \<equiv> 0xFFFF"
abbreviation IPPROTO_TCP :: int where "IPPROTO_TCP \<equiv> 6"
abbreviation IPPROTO_IPV6 :: int where "IPPROTO_IPV6 \<equiv> 41"
abbreviation SOCK_DGRAM :: int where "SOCK_DGRAM \<equiv> 2"
abbreviation SOCK_RAW :: int where "SOCK_RAW \<equiv> 3"

definition boolint :: "bool \<Rightarrow> int" where
  "boolint b = (if b then 1 else 0)"

definition set_one :: "'w libc \<Rightarrow> int \<Rightarrow> int \<Rightarrow> 'w thr \<Rightarrow> neterr option \<times> 'w thr" where
  "set_one L s opt t = (let (err, t1) = SetsockoptInt L s SOL_SOCKET opt 1 t in (NewSyscallError ''setsockopt'' err, t1))"

definition setDefaultSockopts :: "'w libc \<Rightarrow> int \<Rightarrow> int \<Rightarrow> int \<Rightarrow> bool \<Rightarrow> 'w thr \<Rightarrow> neterr option \<times> 'w thr" where
  "setDefaultSockopts L s family sotype ipv6only t =
     (let t1 = (if family = 24 \<and> sotype \<noteq> SOCK_RAW then snd (SetsockoptInt L s IPPROTO_IPV6 27 (boolint ipv6only) t) else t)
      in if (sotype = SOCK_DGRAM \<or> sotype = SOCK_RAW) \<and> family \<noteq> 1 then set_one L s 0x20 t1 else (None, t1))"

definition setDefaultListenerSockopts :: "'w libc \<Rightarrow> int \<Rightarrow> 'w thr \<Rightarrow> neterr option \<times> 'w thr" where
  "setDefaultListenerSockopts L s = set_one L s 0x4"

definition setDefaultMulticastSockopts :: "'w libc \<Rightarrow> int \<Rightarrow> 'w thr \<Rightarrow> neterr option \<times> 'w thr" where
  "setDefaultMulticastSockopts L s = set_one L s 0x4"

text \<open>A \<open>time.Duration\<close> is a count of nanoseconds in 64 bits, an \<open>int\<close> has 32.\<close>

abbreviation Second :: int where "Second \<equiv> 1000000000"

definition roundDurationUp :: "int \<Rightarrow> int \<Rightarrow> int" where
  "roundDurationUp d to = int64 (go_div (int64 (int64 (d + to) - 1)) to)"

definition setKeepAliveIdle :: "'w libc \<Rightarrow> int \<Rightarrow> ('w, neterr option) prog" where
  "setKeepAliveIdle L d0 =
     (if d0 < 0 then retp None
      else let d = (if d0 = 0 then 15 * Second else d0); secs = int32 (roundDurationUp d Second)
           in bindp (FD_SetsockoptInt L IPPROTO_TCP 4 secs) (\<lambda>err. retp (wrapSyscallError ''setsockopt'' err)))"

definition setKeepAliveInterval :: "int \<Rightarrow> ('w, neterr option) prog" where
  "setKeepAliveInterval d = retp None"

definition setKeepAliveCount :: "int \<Rightarrow> ('w, neterr option) prog" where
  "setKeepAliveCount n = retp None"

section \<open>Lemmas\<close>

text \<open>An entry of the link layer, and its index: the one in the address, or the one its name stands for.\<close>

definition is_link :: "Ifaddrs \<Rightarrow> bool" where
  "is_link ifa = (case ifa_Addr ifa of None \<Rightarrow> False | Some b \<Rightarrow> byte_at b 1 = AF_LINK)"

definition link_index :: "(gostring \<Rightarrow> int) \<Rightarrow> Ifaddrs \<Rightarrow> int" where
  "link_index nm ifa = (if sdl_Index (the (ifa_Addr ifa)) = 0 then nm (ifa_goString (ifa_Name ifa)) else sdl_Index (the (ifa_Addr ifa)))"

definition described :: "(gostring \<Rightarrow> int) \<Rightarrow> Ifaddrs \<Rightarrow> Interface" where
  "described nm ifa = mk_interface (link_index nm ifa) (ifa_goString (ifa_Name ifa)) ifa (the (ifa_Addr ifa))"

text \<open>The entries a table lists: for each index the first entry of the link layer that has it.\<close>

definition if_listed :: "(gostring \<Rightarrow> int) \<Rightarrow> int \<Rightarrow> int set \<Rightarrow> Ifaddrs list \<Rightarrow> nat \<Rightarrow> bool" where
  "if_listed nm k seen xs i \<longleftrightarrow> is_link (xs ! i) \<and> (k = 0 \<or> link_index nm (xs ! i) = k) \<and> link_index nm (xs ! i) \<notin> seen
     \<and> (\<forall>j<i. is_link (xs ! j) \<longrightarrow> link_index nm (xs ! j) \<noteq> link_index nm (xs ! i))"

definition if_listing :: "(gostring \<Rightarrow> int) \<Rightarrow> int \<Rightarrow> int set \<Rightarrow> Ifaddrs list \<Rightarrow> Interface list" where
  "if_listing nm k seen xs = map (\<lambda>i. described nm (xs ! i)) (filter (if_listed nm k seen xs) [0..<length xs])"

lemma if_listing_Nil [simp]: "if_listing nm k seen [] = []"
  by (simp add: if_listing_def)

lemma if_listed_Suc: "if_listed nm k seen (x # xs) (Suc i) \<longleftrightarrow> if_listed nm k (if is_link x then insert (link_index nm x) seen else seen) xs i"
  by (auto simp: if_listed_def All_less_Suc2)

lemma if_listing_Cons:
  "if_listing nm k seen (x # xs) =
     (if is_link x \<and> (k = 0 \<or> link_index nm x = k) \<and> link_index nm x \<notin> seen then [described nm x] else [])
     @ if_listing nm k (if is_link x then insert (link_index nm x) seen else seen) xs"
proof -
  have "filter (if_listed nm k seen (x # xs)) [0..<length (x # xs)]
      = (if if_listed nm k seen (x # xs) 0 then [0] else []) @ map Suc (filter (if_listed nm k (if is_link x then insert (link_index nm x) seen else seen) xs) [0..<length xs])"
    by (simp add: upt_conv_Cons map_Suc_upt [symmetric] filter_map comp_def if_listed_Suc del: upt_Suc map_Suc_upt)
  then show ?thesis by (simp add: if_listing_def if_listed_def comp_def)
qed

lemma if_listing_seen_other: "link_index nm x \<noteq> k \<Longrightarrow> k \<noteq> 0 \<Longrightarrow> if_listing nm k (insert (link_index nm x) seen) xs = if_listing nm k seen xs"
  unfolding if_listing_def by (intro arg_cong [of _ _ "map _"] filter_cong) (auto simp: if_listed_def)

lemma if_listing_seen_same: "k \<noteq> 0 \<Longrightarrow> k \<in> seen \<Longrightarrow> if_listing nm k seen xs = []"
  by (simp add: if_listing_def if_listed_def)

text \<open>A table of all interfaces (\<open>k = 0\<close>) ends with the first entry whose index is 0: the loop takes it for the one asked for.\<close>

fun part_read :: "('a \<Rightarrow> bool) \<Rightarrow> ('a \<Rightarrow> int) \<Rightarrow> 'a list \<Rightarrow> 'a list" where
  "part_read link ix [] = []"
| "part_read link ix (x # xs) = x # (if link x \<and> ix x = 0 then [] else part_read link ix xs)"

lemma part_read_all: "\<forall>x \<in> set xs. link x \<longrightarrow> ix x \<noteq> 0 \<Longrightarrow> part_read link ix xs = xs"
  by (induction xs) auto

lemma part_read_map: "part_read link ix (map f xs) = map f (part_read (\<lambda>x. link (f x)) (\<lambda>x. ix (f x)) xs)"
  by (induction xs) auto

lemma interface_loop_listing:
  assumes nm: "\<And>n t. fst (IfNametoindex L n t) = nm n"
  shows "k \<noteq> 0 \<or> 0 \<notin> seen \<Longrightarrow> fst (interface_loop L k xs seen t) = if_listing nm k seen (if k = 0 then part_read is_link (link_index nm) xs else xs)"
proof (induction xs arbitrary: seen t)
  case Nil
  then show ?case by simp
next
  case (Cons x xs)
  show ?case
  proof (cases "is_link x")
    case False
    then have "interface_loop L k (x # xs) seen t = interface_loop L k xs seen t" by (auto simp: is_link_def split: option.splits)
    with False Cons show ?thesis by (simp add: if_listing_Cons)
  next
    case True
    then obtain b where b: "ifa_Addr x = Some b" "byte_at b 1 = AF_LINK" by (auto simp: is_link_def split: option.splits)
    define r where "r = (if sdl_Index b = 0 then IfNametoindex L (ifa_goString (ifa_Name x)) t else (sdl_Index b, t))"
    have "fst r = link_index nm x" using nm b by (simp add: link_index_def r_def)
    then have i: "(if sdl_Index b = 0 then IfNametoindex L (ifa_goString (ifa_Name x)) t else (sdl_Index b, t)) = (link_index nm x, snd r)"
      unfolding r_def [symmetric] by (simp add: prod_eq_iff)
    have d: "mk_interface (link_index nm x) (ifa_goString (ifa_Name x)) x b = described nm x" using b by (simp add: described_def)
    let ?r = "if k = 0 then part_read is_link (link_index nm) xs else xs"
    have IH: "fst (interface_loop L k xs seen' t') = if_listing nm k seen' ?r" if "k \<noteq> 0 \<or> 0 \<notin> seen'" for seen' t'
      using Cons.IH [OF that] by simp
    have fi: "fst (case interface_loop L k' xs seen' t' of (ifis, t2) \<Rightarrow> (y # ifis, t2)) = y # fst (interface_loop L k' xs seen' t')" for k' seen' t' y
      by (simp add: prod.case_eq_if)
    show ?thesis
    proof (cases "k = 0")
      case True
      with Cons.prems have "0 \<notin> seen" by simp
      moreover have "link_index nm x = 0 \<Longrightarrow> mk_interface 0 (ifa_goString (ifa_Name x)) x b = described nm x" using d by simp
      ultimately show ?thesis using b IH \<open>is_link x\<close> \<open>k = 0\<close>
        by (auto simp: i d fi if_listing_Cons insert_absorb Let_def)
    next
      case False
      then show ?thesis using b IH \<open>is_link x\<close>
        by (auto simp: i d fi if_listing_Cons if_listing_seen_other if_listing_seen_same insert_absorb Let_def)
    qed
  qed
qed


lemma if_listing_index: "distinct (map if_Index (if_listing nm k seen xs))"
proof -
  have "inj_on (\<lambda>i. link_index nm (xs ! i)) (set (filter (if_listed nm k seen xs) [0..<length xs]))"
  proof (rule inj_onI)
    fix i j
    assume "i \<in> set (filter (if_listed nm k seen xs) [0..<length xs])" "j \<in> set (filter (if_listed nm k seen xs) [0..<length xs])"
      and "link_index nm (xs ! i) = link_index nm (xs ! j)"
    then show "i = j" by (cases i j rule: linorder_cases) (auto simp: if_listed_def)
  qed
  then show ?thesis by (simp add: if_listing_def described_def mk_interface_def comp_def distinct_map)
qed

lemma if_listing_complete: "if_Index ` set (if_listing nm 0 {} xs) = link_index nm ` {x \<in> set xs. is_link x}"
proof -
  have first: "\<exists>i<length xs. if_listed nm 0 {} xs i \<and> link_index nm (xs ! i) = link_index nm x" if x: "x \<in> set xs" "is_link x" for x
  proof -
    let ?P = "\<lambda>i. i < length xs \<and> is_link (xs ! i) \<and> link_index nm (xs ! i) = link_index nm x"
    have "\<exists>i. ?P i" using x by (auto simp: in_set_conv_nth)
    then obtain i where "?P i" "\<forall>j<i. \<not> ?P j" unfolding exists_least_iff [of ?P] by blast
    then show ?thesis by (intro exI [of _ i]) (auto simp: if_listed_def)
  qed
  have "if_Index ` set (if_listing nm 0 {} xs) = (\<lambda>i. link_index nm (xs ! i)) ` {i. i < length xs \<and> if_listed nm 0 {} xs i}"
    by (simp add: if_listing_def described_def mk_interface_def image_image conj_commute)
  also have "\<dots> = link_index nm ` {x \<in> set xs. is_link x}"
  proof (intro equalityI subsetI)
    fix v assume "v \<in> link_index nm ` {x \<in> set xs. is_link x}"
    then obtain x where "x \<in> set xs" "is_link x" "v = link_index nm x" by blast
    with first [of x] show "v \<in> (\<lambda>i. link_index nm (xs ! i)) ` {i. i < length xs \<and> if_listed nm 0 {} xs i}" by force
  qed (auto simp: if_listed_def)
  finally show ?thesis .
qed

lemma if_mtu_range: "0 < if_mtu d" "if_mtu d < 2 ^ 20"
  by (auto simp: if_mtu_def word_less_def split: option.split)

declare if_mtu_range [simplified, simp]

lemma if_mac_length: "if_mac b = Some m \<Longrightarrow> 0 < length m \<and> length m \<le> 12"
  by (auto simp: if_mac_def bytes_at_def split: if_splits)

definition ip_entry :: "(gostring \<Rightarrow> int) \<Rightarrow> int option \<Rightarrow> Ifaddrs \<Rightarrow> bool" where
  "ip_entry nm ifi ifa = (case ifa_Addr ifa of None \<Rightarrow> False
     | Some b \<Rightarrow> (byte_at b 1 = AF_INET \<or> byte_at b 1 = AF_INET6) \<and> (ifi = None \<or> ifi = Some (nm (ifa_goString (ifa_Name ifa)))))"

definition ip_address :: "Ifaddrs \<Rightarrow> ipnet" where
  "ip_address ifa = the (ifa_net ifa (the (ifa_Addr ifa)))"

lemma addr_loop_listing:
  assumes nm: "\<And>n t. fst (IfNametoindex L n t) = nm n"
  shows "fst (addr_loop L ifi xs t) = map ip_address (filter (ip_entry nm ifi) xs)"
proof (induction xs arbitrary: t)
  case Nil
  then show ?case by simp
next
  case (Cons x xs)
  show ?case
  proof (cases "ifa_Addr x")
    case None
    then show ?thesis using Cons by (simp add: ip_entry_def)
  next
    case (Some b)
    let ?n = "ifa_goString (ifa_Name x)"
    obtain t1 where i: "IfNametoindex L ?n t = (nm ?n, t1)" using nm [of ?n t] by (metis prod.collapse)
    define keep where "keep \<longleftrightarrow> ifi = None \<or> ifi = Some (nm ?n)"
    define t2 where "t2 = (if ifi = None then t else t1)"
    have k: "(case ifi of None \<Rightarrow> (True, t) | Some j \<Rightarrow> (case IfNametoindex L ?n t of (idx, t1) \<Rightarrow> (idx = j, t1))) = (keep, t2)"
      by (cases ifi) (auto simp: i keep_def t2_def)
    obtain as t3 where r: "addr_loop L ifi xs t2 = (as, t3)" by fastforce
    have "as = map ip_address (filter (ip_entry nm ifi) xs)" using Cons.IH [of t2] r by simp
    moreover have "ip_entry nm ifi x \<longleftrightarrow> (byte_at b 1 = AF_INET \<or> byte_at b 1 = AF_INET6) \<and> keep" by (simp add: ip_entry_def Some keep_def)
    ultimately show ?thesis
      unfolding addr_loop.simps Some option.case Let_def k prod.case list.map filter.simps by (simp add: r ip_address_def ifa_net_def Some)
  qed
qed

section \<open>The list C makes\<close>

text \<open>What an entry of the list of \<open>getifaddrs\<close> stands for, and how C lays it out. The link layer has a 16-bit index, the name
  and the hardware address (\<open>struct sockaddr_dl\<close>: length, family, index, type, the two lengths, a third length, the data),
  the flags and the MTU; the network layers have an address and a mask in a \<open>struct sockaddr_in\<close> or \<open>sockaddr_in6\<close>.\<close>

datatype ifitem =
    LinkItem (item_name: gostring) u16 (sdl_name: gostring) (sdl_mac: gostring) u32 "u64 option"
  | V4Item (item_name: gostring) u32 gostring "gostring option"
  | V6Item (item_name: gostring) u32 gostring "gostring option"
  | OtherItem Ifaddrs

definition c_sdl :: "u16 \<Rightarrow> gostring \<Rightarrow> gostring \<Rightarrow> gostring" where
  "c_sdl idx name mac =
     [of_nat (8 + length name + length mac), 18, ucast idx, ucast (drop_bit 8 idx), 6, of_nat (length name), of_nat (length mac), 0] @ name @ mac"

definition c_sin :: "gostring \<Rightarrow> gostring" where "c_sin a = [16, 2, 0, 0] @ a @ replicate 8 0"
definition c_sin6 :: "gostring \<Rightarrow> gostring" where "c_sin6 a = [28, 24, 0, 0, 0, 0, 0, 0] @ a @ replicate 4 0"

fun c_entry :: "ifitem \<Rightarrow> Ifaddrs" where
  "c_entry (LinkItem n idx dl mac fl mtu) = \<lparr>ifa_Name = Some (n @ [0]), ifa_Flags = fl, ifa_Addr = Some (c_sdl idx dl mac), ifa_Netmask = None, ifa_Data = mtu\<rparr>"
| "c_entry (V4Item n fl a m) = \<lparr>ifa_Name = Some (n @ [0]), ifa_Flags = fl, ifa_Addr = Some (c_sin a), ifa_Netmask = map_option c_sin m, ifa_Data = None\<rparr>"
| "c_entry (V6Item n fl a m) = \<lparr>ifa_Name = Some (n @ [0]), ifa_Flags = fl, ifa_Addr = Some (c_sin6 a), ifa_Netmask = map_option c_sin6 m, ifa_Data = None\<rparr>"
| "c_entry (OtherItem e) = e"

fun item_ok :: "ifitem \<Rightarrow> bool" where
  "item_ok (LinkItem n idx dl mac fl mtu) \<longleftrightarrow> 0 \<notin> set n \<and> length dl < 256 \<and> length mac < 256"
| "item_ok (V4Item n fl a m) \<longleftrightarrow> 0 \<notin> set n \<and> length a = 4 \<and> (case m of None \<Rightarrow> True | Some b \<Rightarrow> length b = 4)"
| "item_ok (V6Item n fl a m) \<longleftrightarrow> 0 \<notin> set n \<and> length a = 16 \<and> (case m of None \<Rightarrow> True | Some b \<Rightarrow> length b = 16)"
| "item_ok (OtherItem e) \<longleftrightarrow> (case ifa_Addr e of None \<Rightarrow> True | Some b \<Rightarrow> 2 \<le> length b \<and> b ! 1 \<notin> {2, 18, 24})"

text \<open>What Go is to make of an item. The flags are the bits up, broadcast, loopback, point-to-point, multicast and running, in
  this order; C has them in the bits 0, 1, 3, 4, 15 and 6. A hardware address is lost where it and the name in the
  \<open>sockaddr_dl\<close> have more than 12 bytes.\<close>

definition go_flags :: "u32 \<Rightarrow> u32" where
  "go_flags raw = (let b = (\<lambda>i. if bit raw i then 1 else 0) in b 0 + 2 * b 1 + 4 * b 3 + 8 * b 4 + 16 * b 15 + 32 * b 6)"

definition is_link_item :: "ifitem \<Rightarrow> bool" where
  "is_link_item x = (case x of LinkItem n idx dl mac fl mtu \<Rightarrow> True | _ \<Rightarrow> False)"

fun item_index :: "(gostring \<Rightarrow> int) \<Rightarrow> ifitem \<Rightarrow> int" where
  "item_index nm (LinkItem n idx dl mac fl mtu) = (if idx = 0 then nm n else uint idx)"
| "item_index nm _ = 0"

fun item_interface :: "(gostring \<Rightarrow> int) \<Rightarrow> ifitem \<Rightarrow> Interface" where
  "item_interface nm (LinkItem n idx dl mac fl mtu) =
     \<lparr>if_Index = (if idx = 0 then nm n else uint idx),
      if_MTU = (case mtu of None \<Rightarrow> 1500 | Some m \<Rightarrow> if uint m \<in> {1..1048575} then uint m else 1500),
      if_Name = n, if_HardwareAddr = (if mac = [] \<or> 12 < length dl + length mac then None else Some mac), if_Flags = go_flags fl\<rparr>"
| "item_interface nm _ = \<lparr>if_Index = 0, if_MTU = 0, if_Name = [], if_HardwareAddr = None, if_Flags = 0\<rparr>"

fun item_net :: "ifitem \<Rightarrow> ipnet" where
  "item_net (V4Item n fl a m) = ([0, 0, 0, 0, 0, 0, 0, 0, 0, 0, 255, 255] @ a, m)"
| "item_net (V6Item n fl a m) = (a, m)"
| "item_net _ = ([], None)"

fun is_net_item :: "ifitem \<Rightarrow> bool" where
  "is_net_item (V4Item n fl a m) = True"
| "is_net_item (V6Item n fl a m) = True"
| "is_net_item _ = False"

definition first_link :: "(gostring \<Rightarrow> int) \<Rightarrow> int \<Rightarrow> ifitem list \<Rightarrow> nat \<Rightarrow> bool" where
  "first_link nm k xs i \<longleftrightarrow> is_link_item (xs ! i) \<and> (k = 0 \<or> item_index nm (xs ! i) = k)
     \<and> (\<forall>j<i. is_link_item (xs ! j) \<longrightarrow> item_index nm (xs ! j) \<noteq> item_index nm (xs ! i))"

definition net_of :: "(gostring \<Rightarrow> int) \<Rightarrow> int option \<Rightarrow> ifitem \<Rightarrow> bool" where
  "net_of nm ifi x \<longleftrightarrow> is_net_item x \<and> (ifi = None \<or> ifi = Some (nm (item_name x)))"

lemma linkFlags_bits: "linkFlags raw = go_flags raw"
proof -
  have m: "raw AND 0x1 \<noteq> 0 \<longleftrightarrow> bit raw 0" "raw AND 0x2 \<noteq> 0 \<longleftrightarrow> bit raw 1" "raw AND 0x8 \<noteq> 0 \<longleftrightarrow> bit raw 3"
    "raw AND 0x10 \<noteq> 0 \<longleftrightarrow> bit raw 4" "raw AND 0x40 \<noteq> 0 \<longleftrightarrow> bit raw 6" "raw AND 0x8000 \<noteq> 0 \<longleftrightarrow> bit raw 15"
    using and_exp_eq_0_iff_not_bit [of raw 0] and_exp_eq_0_iff_not_bit [of raw 1] and_exp_eq_0_iff_not_bit [of raw 3]
      and_exp_eq_0_iff_not_bit [of raw 4] and_exp_eq_0_iff_not_bit [of raw 6] and_exp_eq_0_iff_not_bit [of raw 15] by simp_all
  show ?thesis unfolding linkFlags_def go_flags_def m Let_def by simp
qed

lemma goString_c [simp]: "0 \<notin> set n \<Longrightarrow> ifa_goString (Some (n @ [0])) = n"
  by (simp add: ifa_goString_def takeWhile_append)

lemma sdl_index_c [simp]: "sdl_Index (c_sdl idx dl mac) = uint idx"
proof -
  have "uint (ucast idx :: u8) = uint idx mod 256" "uint (ucast (drop_bit 8 idx) :: u8) = uint idx div 256 mod 256"
    by (simp_all add: unsigned_ucast_eq take_bit_eq_mod drop_bit_eq_div uint_div)
  moreover have "0 \<le> uint idx" "uint idx < 65536" using uint_bounded [of idx] by simp_all
  ultimately show ?thesis by (simp add: sdl_Index_def c_sdl_def byte_at_def)
qed

lemma sdl_lengths_c: "length dl < 256 \<Longrightarrow> sdl_Nlen (c_sdl idx dl mac) = length dl" "length mac < 256 \<Longrightarrow> sdl_Alen (c_sdl idx dl mac) = length mac"
  by (simp_all add: sdl_Nlen_def sdl_Alen_def c_sdl_def byte_at_def unat_of_nat)

lemma bytes_at_append: "length xs = i \<Longrightarrow> length ys = n \<Longrightarrow> bytes_at (xs @ ys @ zs) i n = ys"
  by (rule nth_equalityI) (simp_all add: bytes_at_def byte_at_def nth_append)

lemma if_mac_c:
  assumes "length dl < 256" "length mac < 256"
  shows "if_mac (c_sdl idx dl mac) = (if mac = [] \<or> 12 < length dl + length mac then None else Some mac)"
proof -
  have "c_sdl idx dl mac = (take 8 (c_sdl idx dl mac) @ dl) @ mac @ []" "length (take 8 (c_sdl idx dl mac) @ dl) = 8 + length dl"
    by (simp_all add: c_sdl_def)
  then have "bytes_at (c_sdl idx dl mac) (8 + length dl) (length mac) = mac" by (metis bytes_at_append)
  then show ?thesis by (auto simp: if_mac_def sdl_lengths_c assms)
qed

lemma family_c [simp]: "byte_at (c_sdl idx dl mac) 1 = 18" "byte_at (c_sin a) 1 = 2" "byte_at (c_sin6 a) 1 = 24"
  by (simp_all add: byte_at_def c_sdl_def c_sin_def c_sin6_def)

declare family_c [simplified, simp]

lemma All_lt_2: "(\<forall>j<2. P j) \<longleftrightarrow> P (0 :: nat) \<and> P 1"
  by (auto simp: less_2_cases_iff)

lemma prefix_c: "v4InV6Prefix = [0, 0, 0, 0, 0, 0, 0, 0, 0, 0, 255, 255]"
  by (simp add: v4InV6Prefix_def numeral_eq_Suc)

lemma byte_at_1: "2 \<le> length b \<Longrightarrow> byte_at b (Suc 0) = b ! Suc 0"
  by (simp add: byte_at_def)

lemma addr_c: "length a = 4 \<Longrightarrow> bytes_at (c_sin a) 4 4 = a" "length a = 16 \<Longrightarrow> bytes_at (c_sin6 a) 8 16 = a"
  unfolding c_sin_def c_sin6_def by (intro bytes_at_append; simp)+

lemma is_link_c: "item_ok x \<Longrightarrow> is_link (c_entry x) = is_link_item x"
  by (cases x) (auto simp: is_link_def is_link_item_def byte_at_1 split: option.splits)

lemma link_index_c: "item_ok x \<Longrightarrow> is_link_item x \<Longrightarrow> link_index nm (c_entry x) = item_index nm x"
  by (cases x) (auto simp: link_index_def is_link_item_def uint_0_iff)

lemma described_c: "item_ok x \<Longrightarrow> is_link_item x \<Longrightarrow> described nm (c_entry x) = item_interface nm x"
  by (cases x) (auto simp: described_def mk_interface_def link_index_def is_link_item_def if_mac_c if_mtu_def linkFlags_bits word_less_def
      uint_0_iff split: option.splits)

lemma ip_entry_c: "item_ok x \<Longrightarrow> ip_entry nm ifi (c_entry x) = net_of nm ifi x"
  by (cases x) (auto simp: ip_entry_def net_of_def byte_at_1 split: option.splits)

lemma ip_address_c: "item_ok x \<Longrightarrow> is_net_item x \<Longrightarrow> ip_address (c_entry x) = item_net x"
  by (cases x) (auto simp: ip_address_def ifa_net_def addr_c prefix_c split: option.splits)

lemma part_read_cong: "(\<And>x. x \<in> set xs \<Longrightarrow> link x = link' x) \<Longrightarrow> (\<And>x. x \<in> set xs \<Longrightarrow> link x \<Longrightarrow> ix x = ix' x) \<Longrightarrow> part_read link ix xs = part_read link' ix' xs"
  by (induction xs) auto

lemma part_read_subset: "set (part_read link ix xs) \<subseteq> set xs"
  by (induction xs) auto

lemma if_listing_c:
  assumes "\<forall>x \<in> set xs. item_ok x"
  shows "if_listing nm k {} (map c_entry xs) = map (\<lambda>i. item_interface nm (xs ! i)) (filter (first_link nm k xs) [0..<length xs])"
proof -
  have ok: "item_ok (xs ! i)" if "i < length xs" for i using that assms by simp
  have l: "is_link (c_entry (xs ! i)) = is_link_item (xs ! i)" if "i < length xs" for i using is_link_c [OF ok [OF that]] .
  have "if_listed nm k {} (map c_entry xs) i = first_link nm k xs i" if "i < length xs" for i
    using that by (auto simp: if_listed_def first_link_def l link_index_c ok)
  then have "filter (if_listed nm k {} (map c_entry xs)) [0..<length xs] = filter (first_link nm k xs) [0..<length xs]"
    by (intro filter_cong) auto
  then show ?thesis by (auto simp: if_listing_def first_link_def described_c ok)
qed

lemma nets_c:
  assumes "\<forall>x \<in> set xs. item_ok x"
  shows "map ip_address (filter (ip_entry nm ifi) (map c_entry xs)) = map item_net (filter (net_of nm ifi) xs)"
  using assms by (induction xs) (auto simp: ip_entry_c ip_address_c net_of_def)

section \<open>Properties\<close>

text \<open>C34: When the C library lists the interfaces, \<open>interfaceTable\<close> lists for each index the first link-layer entry that has
  it (the entry's own index, or the one its name stands for), in the order of the C list, and with an index given only the
  entry of that index; each with the index, name, flags, MTU (1500 unless C gives one below 2 ^ 20) and hardware address
  that C has laid out for it, where name and address fit into 12 bytes. Asked for all, it stops after an entry whose index
  is 0 (neither in the entry nor known for its name); where there is none, every index is listed. The indices are distinct.
  \<open>interfaceAddrTable\<close> lists the IPv4 and IPv6 addresses and masks in order, all of them or those of the interface given.
  The C list is freed last, whatever was found.\<close>

theorem interfaces_listed:
  assumes "Getifaddrs L t = (Inr (map c_entry items), t1)" and "\<forall>x \<in> set items. item_ok x" and "\<forall>n t. fst (IfNametoindex L n t) = nm n"
    and "xs = (if k = 0 then part_read is_link_item (item_index nm) items else items)"
  shows "(\<exists>t2 ifis. interfaceTable L k t = (Inr ifis, Freeifaddrs L (map c_entry items) t2)
      \<and> ifis = map (\<lambda>i. item_interface nm (xs ! i)) (filter (first_link nm k xs) [0..<length xs])
      \<and> distinct (map if_Index ifis)
      \<and> (k = 0 \<and> (\<forall>x \<in> set items. is_link_item x \<longrightarrow> item_index nm x \<noteq> 0)
          \<longrightarrow> xs = items \<and> if_Index ` set ifis = item_index nm ` {x \<in> set items. is_link_item x}))
    \<and> (\<exists>t2. interfaceAddrTable L ifi t = (Inr (map item_net (filter (net_of nm ifi) items)), Freeifaddrs L (map c_entry items) t2))"
proof -
  have "part_read is_link (link_index nm) (map c_entry items) = map c_entry (part_read is_link_item (item_index nm) items)"
    unfolding part_read_map using assms(2) is_link_c link_index_c by (intro arg_cong [of _ _ "map c_entry"] part_read_cong) auto
  then have xs: "(if k = 0 then part_read is_link (link_index nm) (map c_entry items) else map c_entry items) = map c_entry xs"
    using assms(4) by simp
  have ok: "\<forall>x \<in> set xs. item_ok x" using assms(2,4) part_read_subset [of is_link_item "item_index nm" items] by (auto split: if_splits)
  have nm: "fst (IfNametoindex L n u) = nm n" for n u using assms(3) by blast
  have "fst (interface_loop L k (map c_entry items) {} t1) = if_listing nm k {} (map c_entry xs)"
    using interface_loop_listing [OF nm, of k "{}" "map c_entry items" t1] unfolding xs by simp
  then obtain t2 where t2: "interface_loop L k (map c_entry items) {} t1 = (if_listing nm k {} (map c_entry xs), t2)" by (metis prod.collapse)
  have "fst (addr_loop L ifi (map c_entry items) t1) = map item_net (filter (net_of nm ifi) items)"
    using addr_loop_listing [OF nm, of ifi "map c_entry items" t1] unfolding nets_c [OF assms(2)] .
  then obtain t3 where t3: "addr_loop L ifi (map c_entry items) t1 = (map item_net (filter (net_of nm ifi) items), t3)" by (metis prod.collapse)
  have all: "xs = items \<and> if_Index ` set (if_listing nm k {} (map c_entry xs)) = item_index nm ` {x \<in> set items. is_link_item x}"
    if "k = 0" "\<forall>x \<in> set items. is_link_item x \<longrightarrow> item_index nm x \<noteq> 0"
  proof -
    have e: "xs = items" using that part_read_all [OF that(2)] assms(4) by simp
    have "{y \<in> c_entry ` set items. is_link y} = c_entry ` {x \<in> set items. is_link_item x}" using assms(2) by (auto simp: is_link_c)
    moreover have "link_index nm ` c_entry ` {x \<in> set items. is_link_item x} = item_index nm ` {x \<in> set items. is_link_item x}"
      using assms(2) by (auto simp: link_index_c image_image intro!: image_cong)
    ultimately show ?thesis using if_listing_complete [of nm "map c_entry items"] that(1) e by simp
  qed
  have tab: "interfaceTable L k t = (Inr (if_listing nm k {} (map c_entry xs)), Freeifaddrs L (map c_entry items) t2)"
    by (simp add: interfaceTable_def assms(1) t2)
  have addrs: "interfaceAddrTable L ifi t = (Inr (map item_net (filter (net_of nm ifi) items)), Freeifaddrs L (map c_entry items) t3)"
    by (simp add: interfaceAddrTable_def assms(1) t3)
  show ?thesis unfolding tab addrs if_listing_c [OF ok, symmetric]
  proof (rule conjI)
    show "\<exists>u. (Inr (map item_net (filter (net_of nm ifi) items)), Freeifaddrs L (map c_entry items) t3)
        = (Inr (map item_net (filter (net_of nm ifi) items)), Freeifaddrs L (map c_entry items) u)" by blast
  qed (rule exI [of _ t2], rule exI [of _ "if_listing nm k {} (map c_entry xs)"], use all if_listing_index in blast)
qed

text \<open>Three entries: the loopback interface with its index, its IPv4 address, and an interface whose index is in its name only.\<close>

definition demo_items :: "ifitem list" where
  "demo_items =
     [LinkItem [0x6C, 0x6F, 0x30] 1 [0x6C, 0x6F, 0x30] [] 0x8049 (Some 33192),
      V4Item [0x6C, 0x6F, 0x30] 0x8049 [127, 0, 0, 1] (Some [255, 0, 0, 0]),
      LinkItem [0x65, 0x6E, 0x30] 0 [0x65, 0x6E, 0x30] [2, 0, 0, 0, 0, 9] 0x8843 None]"

definition demo_net :: "unit libc" where
  "demo_net fn as e w = (if fn = ''libc_getifaddrs'' then (0, 0, 0, [AIfaddrs (map c_entry demo_items)], w) else (3, 0, 0, as, w))"

theorem interfaces_listed_witness:
  "\<exists>ifis. fst (interfaceTable demo_net 0 (thr_of ())) = Inr ifis
    \<and> ifis = [\<lparr>if_Index = 1, if_MTU = 33192, if_Name = [0x6C, 0x6F, 0x30], if_HardwareAddr = None, if_Flags = 53\<rparr>,
        \<lparr>if_Index = 3, if_MTU = 1500, if_Name = [0x65, 0x6E, 0x30], if_HardwareAddr = Some [2, 0, 0, 0, 0, 9], if_Flags = 51\<rparr>]
    \<and> fst (interfaceAddrTable demo_net (Some 3) (thr_of ())) = Inr [([0, 0, 0, 0, 0, 0, 0, 0, 0, 0, 255, 255, 127, 0, 0, 1], Some [255, 0, 0, 0])]"
proof -
  let ?nm = "\<lambda>n. if 0 \<in> set n then 0 else 3 :: int"
  have g: "fst (Getifaddrs demo_net (thr_of ())) = Inr (map c_entry demo_items)"
    by (simp add: Getifaddrs_def demo_net_def libcall_defs argat_def toint_def)
  have n: "\<forall>n t. fst (IfNametoindex demo_net n t) = ?nm n"
    by (simp add: demo_net_def libcall_defs argat_def IfNametoindex_def BytePtrFromString_def ByteSliceFromString_def toint_def)
  have ok: "\<forall>x \<in> set demo_items. item_ok x" by (simp add: demo_items_def)
  have p: "demo_items = (if 0 = (0 :: int) then part_read is_link_item (item_index ?nm) demo_items else demo_items)"
    by (simp add: demo_items_def is_link_item_def)
  have f: "map (\<lambda>i. item_interface ?nm (demo_items ! i)) (filter (first_link ?nm 0 demo_items) [0..<length demo_items])
      = [\<lparr>if_Index = 1, if_MTU = 33192, if_Name = [0x6C, 0x6F, 0x30], if_HardwareAddr = None, if_Flags = 53\<rparr>,
        \<lparr>if_Index = 3, if_MTU = 1500, if_Name = [0x65, 0x6E, 0x30], if_HardwareAddr = Some [2, 0, 0, 0, 0, 9], if_Flags = 51\<rparr>]"
    by (simp add: demo_items_def first_link_def is_link_item_def go_flags_def upt_rec All_less_Suc All_lt_2)
  have a: "map item_net (filter (net_of ?nm (Some 3)) demo_items) = [([0, 0, 0, 0, 0, 0, 0, 0, 0, 0, 255, 255, 127, 0, 0, 1], Some [255, 0, 0, 0])]"
    by (simp add: demo_items_def net_of_def)
  have "Getifaddrs demo_net (thr_of ()) = (Inr (map c_entry demo_items), snd (Getifaddrs demo_net (thr_of ())))" using g by (simp add: prod_eq_iff)
  from interfaces_listed [OF this ok n p, of "Some 3"] show ?thesis by (auto simp: f a)
qed

text \<open>The idle time of a keep-alive is handed to the kernel as the fewest whole seconds that cover it, 15
  when no time is given, for every time up to the \<open>2 ^ 31 - 1\<close> seconds that the option can hold; a negative time
  asks for nothing and makes no call.\<close>

theorem keepalive_seconds:
  assumes "d \<le> (2 ^ 31 - 1) * Second"
  shows "if d < 0 then setKeepAliveIdle L d = retp None
    else \<exists>secs. 0 < secs \<and> secs < 2 ^ 31 \<and> (d = 0 \<longrightarrow> secs = 15) \<and> (0 < d \<longrightarrow> d \<le> secs * Second \<and> (secs - 1) * Second < d)
       \<and> setKeepAliveIdle L d = bindp (FD_SetsockoptInt L IPPROTO_TCP 4 secs) (\<lambda>err. retp (wrapSyscallError ''setsockopt'' err))"
proof (cases "d < 0")
  case True
  then show ?thesis by (simp add: setKeepAliveIdle_def)
next
  case False
  define d1 where "d1 = (if d = 0 then 15 * Second else d)"
  have d1: "0 < d1" "d1 \<le> (2 ^ 31 - 1) * Second" using False assms by (auto simp: d1_def)
  define secs where "secs = (d1 + Second - 1) div Second"
  define m where "m = (d1 + Second - 1) mod Second"
  have "secs * Second + m = d1 + Second - 1" unfolding secs_def m_def by (rule div_mult_mod_eq)
  moreover have "0 \<le> m" "m < Second" by (simp_all add: m_def)
  ultimately have "d1 \<le> secs * Second" "(secs - 1) * Second < d1" by (simp_all add: left_diff_distrib)
  moreover from this d1 have "0 < secs" "secs < 2 ^ 31" by simp_all
  ultimately have secs: "0 < secs" "secs < 2 ^ 31" "d1 \<le> secs * Second" "(secs - 1) * Second < d1" by blast+
  have "roundDurationUp d1 Second = secs"
    using d1 secs(1,2) unfolding roundDurationUp_def secs_def by (simp add: go_arith)
  moreover have "int32 secs = secs" using secs by (simp add: go_arith)
  moreover have "setKeepAliveIdle L d = bindp (FD_SetsockoptInt L IPPROTO_TCP 4 (int32 (roundDurationUp d1 Second))) (\<lambda>err. retp (wrapSyscallError ''setsockopt'' err))"
    using False by (simp add: setKeepAliveIdle_def d1_def Let_def)
  ultimately show ?thesis using False secs by (auto simp: d1_def secs_def intro!: exI [of _ secs])
qed

theorem keepalive_seconds_witness:
  "\<exists>secs. 0 < secs \<and> 1500000000 \<le> secs * Second \<and> (secs - 1) * Second < 1500000000
     \<and> setKeepAliveIdle (\<lambda>fn as e w :: unit. (0, 0, 0, as, w)) 1500000000
       = bindp (FD_SetsockoptInt (\<lambda>fn as e w :: unit. (0, 0, 0, as, w)) IPPROTO_TCP 4 secs) (\<lambda>err. retp (wrapSyscallError ''setsockopt'' err))"
  using keepalive_seconds [of 1500000000 "\<lambda>fn as e w :: unit. (0, 0, 0, as, w)"] by auto

end
