(* ===== verification/Net_Sock.thy ===== *)
theory Net_Sock
  imports Net_Qnx Fd_Accept
begin

text \<open>
  Sockets of package \<open>net\<close>: \<open>sysSocket\<close> (\<open>net/sys_cloexec.go\<close>), \<open>connect\<close> of \<open>net/fd_unix.go\<close>, \<open>socket\<close>, \<open>dial\<close>, \<open>listenStream\<close> and
  \<open>listenDatagram\<close> of \<open>net/sock_posix.go\<close>, and the methods of \<open>netFD\<close> in \<open>net/fd_posix.go\<close>, as programs over the state of the
  descriptor of \<open>internal/poll\<close> they set up. A context is what the code sees of it: whether it can end, its deadline, the
  error it has ended with, and whether its hook could be stopped; it may end at any state. An address is the result of
  its \<open>sockaddr\<close> method; the control function of a dialer is an arbitrary program. The addresses a \<open>netFD\<close> records
  are kept as the socket addresses that \<open>addrFunc\<close> wraps. Finalizers, the fork lock and the file \<open>dup\<close> wraps its number in are left out.
\<close>

section \<open>Parameters\<close>

datatype ctxerr = CtxCanceled | CtxDeadlineExceeded | CtxOther goerror

fun mapErr :: "ctxerr \<Rightarrow> neterr" where
  "mapErr CtxCanceled = Canceled"
| "mapErr CtxDeadlineExceeded = TimedOut"
| "mapErr (CtxOther e) = Plain e"

record 'w netctx =
  cx_hasDone :: bool
  cx_deadline :: "int option"
  cx_err :: "'w fdrt \<Rightarrow> ctxerr option"
  cx_stop :: "'w fdrt \<Rightarrow> bool"

definition cx_done :: "'w netctx \<Rightarrow> 'w fdrt \<Rightarrow> ctxerr option" where
  "cx_done ctx s = (if cx_hasDone ctx then cx_err ctx s else None)"

text \<open>\<open>na_wild\<close> is set for a multicast UDP address: the same address with the wildcard IP of the family.\<close>

record naddr =
  na_sockaddr :: "int \<Rightarrow> neterr + GoSockaddr option"
  na_wild :: "(int \<Rightarrow> neterr + GoSockaddr option) option"

record netFD =
  nf_family :: int
  nf_sotype :: int
  nf_net :: string
  nf_isConnected :: bool
  nf_laddr :: "Sockaddr option"
  nf_raddr :: "(naddr + Sockaddr) option"

abbreviation SOCK_STREAM :: int where "SOCK_STREAM \<equiv> 1"
abbreviation SOCK_SEQPACKET :: int where "SOCK_SEQPACKET \<equiv> 5"
abbreviation SO_ERROR :: int where "SO_ERROR \<equiv> 0x1007"
abbreviation EINPROGRESS :: u32 where "EINPROGRESS \<equiv> 236"
abbreviation EALREADY :: u32 where "EALREADY \<equiv> 237"
abbreviation EISCONN :: u32 where "EISCONN \<equiv> 256"

text \<open>\<open>x, err := m; if err != nil { return err }\<close>, then the rest.\<close>

definition tryp :: "('w, 'e + 'a) prog \<Rightarrow> ('a \<Rightarrow> ('w, 'e + 'b) prog) \<Rightarrow> ('w, 'e + 'b) prog" where
  "tryp m f = bindp m (\<lambda>r. case r of Inl e \<Rightarrow> retp (Inl e) | Inr x \<Rightarrow> f x)"

section \<open>Making a descriptor\<close>

definition sysSocket :: "'w libc \<Rightarrow> bool \<Rightarrow> int \<Rightarrow> int \<Rightarrow> int \<Rightarrow> 'w thr \<Rightarrow> (neterr + int) \<times> 'w thr" where
  "sysSocket L noIPv6 family sotype proto t =
     (let ((s, err), t1) = Socket L noIPv6 family sotype proto t;
          t2 = (if err = None then CloseOnExec L s t1 else t1)
      in case err of Some e \<Rightarrow> (Inl (SyscallError ''socket'' (Errno e)), t2)
         | None \<Rightarrow> (let (err2, t3) = SetNonblock L s True t2
                   in case err2 of Some e \<Rightarrow> (Inl (SyscallError ''setnonblock'' (Errno e)), snd (Close L s t3))
                      | None \<Rightarrow> (Inr s, t3)))"

definition newFD :: "int \<Rightarrow> int \<Rightarrow> int \<Rightarrow> string \<Rightarrow> ('w, netFD) prog" where
  "newFD sysfd family sotype net =
     bindp (modp (\<lambda>s. s\<lparr>f_mu := 0, f_rsema := 0, f_wsema := 0, f_Sysfd := sysfd, f_ctx := None, f_csema := 0, f_isBlocking := False,
         f_IsStream := (sotype = SOCK_STREAM), f_ZeroReadIsEOF := (sotype \<noteq> SOCK_DGRAM \<and> sotype \<noteq> SOCK_RAW), f_isFile := False\<rparr>))
       (\<lambda>_. retp \<lparr>nf_family = family, nf_sotype = sotype, nf_net = net, nf_isConnected = False, nf_laddr = None, nf_raddr = None\<rparr>)"

definition netFD_init :: "nat \<Rightarrow> 'w libc \<Rightarrow> string \<Rightarrow> ('w, neterr option) prog" where
  "netFD_init blk L net = bindp (FD_Init blk L net True) (\<lambda>err. retp (map_option Plain err))"

section \<open>Connecting\<close>

definition connect_poll :: "nat \<Rightarrow> 'w fenv \<Rightarrow> nat \<Rightarrow> 'w libc \<Rightarrow> 'w netctx \<Rightarrow> ('w, unit + (neterr + Sockaddr option)) prog" where
  "connect_poll n E g L ctx =
     bindp (FD_WaitWrite n E g L) (\<lambda>werr. case werr of
       Some e \<Rightarrow> bindp (getp (cx_done ctx)) (\<lambda>d. retp (Inr (Inl (case d of Some c \<Rightarrow> mapErr c | None \<Rightarrow> Plain e))))
     | None \<Rightarrow>
         bindp (onfd (\<lambda>fd. GetsockoptInt L fd SOL_SOCKET SO_ERROR)) (\<lambda>(nerr, err). case err of
           Some e \<Rightarrow> retp (Inr (Inl (SyscallError ''getsockopt'' (Errno e))))
         | None \<Rightarrow>
             (let e = word_of_int nerr :: u32
              in if e = EINPROGRESS \<or> e = EALREADY \<or> e = EINTR then retp (Inl ())
                 else if e = EISCONN then retp (Inr (Inr None))
                 else if e = 0
                 then bindp (onfd (Getpeername L)) (\<lambda>r. case r of Inr rsa \<Rightarrow> retp (Inr (Inr (Some rsa))) | Inl e2 \<Rightarrow> retp (Inl ()))
                 else retp (Inr (Inl (SyscallError ''connect'' (Errno e)))))))"

definition connect_loop :: "nat \<Rightarrow> 'w fenv \<Rightarrow> nat \<Rightarrow> 'w libc \<Rightarrow> 'w netctx \<Rightarrow> ('w, neterr + Sockaddr option) prog" where
  "connect_loop n E g L ctx = loopp n (\<lambda>_. connect_poll n E g L ctx) ()"

text \<open>The deferred check of the context: a dial that its hook has poisoned is not a success.\<close>

definition connect_hooked :: "nat \<Rightarrow> 'w fenv \<Rightarrow> nat \<Rightarrow> 'w libc \<Rightarrow> 'w netctx \<Rightarrow> ('w, neterr + Sockaddr option) prog" where
  "connect_hooked n E g L ctx =
     (if \<not> cx_hasDone ctx then connect_loop n E g L ctx
      else bindp (connect_loop n E g L ctx) (\<lambda>ret. bindp (getp (\<lambda>s. (cx_stop ctx s, cx_err ctx s))) (\<lambda>(stopped, cerr).
        retp (case (ret, cerr) of (Inr rsa, Some c) \<Rightarrow> if \<not> stopped then Inl (mapErr c) else ret | _ \<Rightarrow> ret))))"

definition connect_wait :: "nat \<Rightarrow> 'w fenv \<Rightarrow> nat \<Rightarrow> 'w libc \<Rightarrow> 'w netctx \<Rightarrow> ('w, neterr + Sockaddr option) prog" where
  "connect_wait n E g L ctx =
     (case (cx_hasDone ctx, cx_deadline ctx) of
        (True, Some d) \<Rightarrow>
          bindp (FD_SetWriteDeadline L (Some d)) (\<lambda>_.
          deferp (bindp (FD_SetWriteDeadline L None) (\<lambda>_. retp ())) (connect_hooked n E g L ctx))
      | _ \<Rightarrow> connect_hooked n E g L ctx)"

definition netFD_connect ::
  "nat \<Rightarrow> 'w fenv \<Rightarrow> nat \<Rightarrow> 'w libc \<Rightarrow> nat \<Rightarrow> string \<Rightarrow> 'w netctx \<Rightarrow> GoSockaddr option \<Rightarrow> ('w, neterr + Sockaddr option) prog" where
  "netFD_connect n E g L blk net ctx ra =
     (case ra of None \<Rightarrow> panicp ''invalid memory address or nil pointer dereference''
      | Some sa \<Rightarrow>
          bindp (onfd (\<lambda>fd. Connect L fd sa)) (\<lambda>(err, sa'). case err of
            None \<Rightarrow> bindp (getp (cx_done ctx)) (\<lambda>d. case d of Some c \<Rightarrow> retp (Inl (mapErr c))
                     | None \<Rightarrow> guardp (netFD_init blk L net) Inl (retp (Inr None)))
          | Some e \<Rightarrow>
              if e = EINPROGRESS \<or> e = EALREADY \<or> e = EINTR then guardp (netFD_init blk L net) Inl (connect_wait n E g L ctx)
              else if e = EISCONN
              then bindp (getp (cx_done ctx)) (\<lambda>d. case d of Some c \<Rightarrow> retp (Inl (mapErr c))
                     | None \<Rightarrow> guardp (netFD_init blk L net) Inl (retp (Inr None)))
              else retp (Inl (SyscallError ''connect'' (Errno e)))))"

section \<open>Dialing and listening\<close>

definition run_ctrl :: "('w, neterr option) prog option \<Rightarrow> ('w, neterr option) prog" where
  "run_ctrl ctrl = (case ctrl of None \<Rightarrow> retp None | Some f \<Rightarrow> f)"

definition bind_addr :: "'w libc \<Rightarrow> GoSockaddr option \<Rightarrow> ('w, neterr option) prog" where
  "bind_addr L lsa = (case lsa of None \<Rightarrow> panicp ''invalid memory address or nil pointer dereference''
     | Some sa \<Rightarrow> bindp (onfd (\<lambda>fd. Bind L fd sa)) (\<lambda>(err, sa'). retp (NewSyscallError ''bind'' err)))"

definition local_addr :: "'w libc \<Rightarrow> ('w, Sockaddr option) prog" where
  "local_addr L = bindp (onfd (Getsockname L)) (\<lambda>r. retp (case r of Inr a \<Rightarrow> Some a | Inl e \<Rightarrow> None))"

definition dial_bind :: "'w libc \<Rightarrow> int \<Rightarrow> naddr option \<Rightarrow> ('w, neterr option) prog" where
  "dial_bind L family laddr =
     (case laddr of None \<Rightarrow> retp None
      | Some a \<Rightarrow> (case na_sockaddr a family of Inl e \<Rightarrow> retp (Some e)
                  | Inr None \<Rightarrow> retp None | Inr (Some lsa) \<Rightarrow> bind_addr L (Some lsa)))"

definition dial_connect ::
  "nat \<Rightarrow> 'w fenv \<Rightarrow> nat \<Rightarrow> 'w libc \<Rightarrow> nat \<Rightarrow> netFD \<Rightarrow> 'w netctx \<Rightarrow> naddr option \<Rightarrow> ('w, neterr + bool \<times> Sockaddr option) prog" where
  "dial_connect n E g L blk fd ctx raddr =
     (case raddr of None \<Rightarrow> guardp (netFD_init blk L (nf_net fd)) Inl (retp (Inr (False, None)))
      | Some a \<Rightarrow> (case na_sockaddr a (nf_family fd) of Inl e \<Rightarrow> retp (Inl e)
                  | Inr rsa \<Rightarrow> tryp (netFD_connect n E g L blk (nf_net fd) ctx rsa) (\<lambda>crsa. retp (Inr (True, crsa)))))"

definition netFD_dial ::
  "nat \<Rightarrow> 'w fenv \<Rightarrow> nat \<Rightarrow> 'w libc \<Rightarrow> nat \<Rightarrow> netFD \<Rightarrow> 'w netctx \<Rightarrow> naddr option \<Rightarrow> naddr option \<Rightarrow> ('w, neterr option) prog option
     \<Rightarrow> ('w, neterr + netFD) prog" where
  "netFD_dial n E g L blk fd ctx laddr raddr ctrl =
     guardp (run_ctrl ctrl) Inl
      (guardp (dial_bind L (nf_family fd) laddr) Inl
        (tryp (dial_connect n E g L blk fd ctx raddr) (\<lambda>(conn, crsa).
          bindp (local_addr L) (\<lambda>lsa.
          case crsa of
            Some r \<Rightarrow> retp (Inr (fd\<lparr>nf_isConnected := conn, nf_laddr := lsa, nf_raddr := Some (Inr r)\<rparr>))
          | None \<Rightarrow> bindp (onfd (Getpeername L)) (\<lambda>r.
              retp (Inr (fd\<lparr>nf_isConnected := conn, nf_laddr := lsa,
                nf_raddr := (case r of Inr p \<Rightarrow> Some (Inr p) | Inl e \<Rightarrow> map_option Inl raddr)\<rparr>)))))))"

definition listen_finish :: "nat \<Rightarrow> 'w libc \<Rightarrow> netFD \<Rightarrow> ('w, neterr + netFD) prog" where
  "listen_finish blk L fd =
     guardp (netFD_init blk L (nf_net fd)) Inl
      (bindp (local_addr L) (\<lambda>lsa. retp (Inr (fd\<lparr>nf_laddr := lsa, nf_raddr := None\<rparr>))))"

definition listenStream ::
  "'w libc \<Rightarrow> nat \<Rightarrow> netFD \<Rightarrow> naddr \<Rightarrow> int \<Rightarrow> ('w, neterr option) prog option \<Rightarrow> ('w, neterr + netFD) prog" where
  "listenStream L blk fd laddr backlog ctrl =
     guardp (onfd (setDefaultListenerSockopts L)) Inl
      (case na_sockaddr laddr (nf_family fd) of Inl e \<Rightarrow> retp (Inl e)
       | Inr lsa \<Rightarrow>
           guardp (run_ctrl ctrl) Inl
            (guardp (bind_addr L lsa) Inl
              (guardp (bindp (onfd (\<lambda>fd. Listen L fd backlog)) (\<lambda>err. retp (NewSyscallError ''listen'' err))) Inl
                (listen_finish blk L fd))))"

definition listenDatagram ::
  "'w libc \<Rightarrow> nat \<Rightarrow> netFD \<Rightarrow> naddr \<Rightarrow> ('w, neterr option) prog option \<Rightarrow> ('w, neterr + netFD) prog" where
  "listenDatagram L blk fd laddr ctrl =
     guardp (case na_wild laddr of None \<Rightarrow> retp None | Some w \<Rightarrow> onfd (setDefaultMulticastSockopts L)) Inl
      (case (case na_wild laddr of None \<Rightarrow> na_sockaddr laddr | Some w \<Rightarrow> w) (nf_family fd) of Inl e \<Rightarrow> retp (Inl e)
       | Inr lsa \<Rightarrow> guardp (run_ctrl ctrl) Inl (guardp (bind_addr L lsa) Inl (listen_finish blk L fd)))"

text \<open>A failure after the descriptor exists closes it.\<close>

definition or_close :: "'w fenv \<Rightarrow> 'w libc \<Rightarrow> ('w, neterr + netFD) prog \<Rightarrow> ('w, neterr + netFD) prog" where
  "or_close E L m = bindp m (\<lambda>r. case r of Inl e \<Rightarrow> bindp (FD_Close E L) (\<lambda>_. retp (Inl e)) | Inr fd \<Rightarrow> retp (Inr fd))"

definition socket_setup ::
  "nat \<Rightarrow> 'w fenv \<Rightarrow> nat \<Rightarrow> 'w libc \<Rightarrow> nat \<Rightarrow> netFD \<Rightarrow> 'w netctx \<Rightarrow> int \<Rightarrow> naddr option \<Rightarrow> naddr option
     \<Rightarrow> ('w, neterr option) prog option \<Rightarrow> ('w, neterr + netFD) prog" where
  "socket_setup n E g L blk fd ctx backlog laddr raddr ctrl =
     (case (laddr, raddr) of
        (Some a, None) \<Rightarrow>
          if nf_sotype fd = SOCK_STREAM \<or> nf_sotype fd = SOCK_SEQPACKET then listenStream L blk fd a backlog ctrl
          else if nf_sotype fd = SOCK_DGRAM then listenDatagram L blk fd a ctrl
          else netFD_dial n E g L blk fd ctx laddr raddr ctrl
      | _ \<Rightarrow> netFD_dial n E g L blk fd ctx laddr raddr ctrl)"

definition net_socket ::
  "nat \<Rightarrow> 'w fenv \<Rightarrow> nat \<Rightarrow> 'w libc \<Rightarrow> nat \<Rightarrow> bool \<Rightarrow> 'w netctx \<Rightarrow> string \<Rightarrow> int \<Rightarrow> int \<Rightarrow> int \<Rightarrow> bool \<Rightarrow> int \<Rightarrow> naddr option \<Rightarrow> naddr option
     \<Rightarrow> ('w, neterr option) prog option \<Rightarrow> ('w, neterr + netFD) prog" where
  "net_socket n E g L blk noIPv6 ctx net family sotype proto ipv6only backlog laddr raddr ctrl =
     tryp (sysp (sysSocket L noIPv6 family sotype proto)) (\<lambda>s.
     bindp (sysp (setDefaultSockopts L s family sotype ipv6only)) (\<lambda>err. case err of
       Some e \<Rightarrow> bindp (sysp (Close L s)) (\<lambda>_. retp (Inl e))
     | None \<Rightarrow> bindp (newFD s family sotype net) (\<lambda>fd.
         or_close E L (socket_setup n E g L blk fd ctx backlog laddr raddr ctrl))))"

section \<open>Accepting\<close>

text \<open>A second descriptor: the state seen from it, and a program that runs on it beside the first.\<close>

type_synonym pollFD = "unit fdrt_ext"

definition with_fd :: "pollFD \<Rightarrow> 'w fdrt \<Rightarrow> 'w fdrt" where
  "with_fd x s = pollrt.extend (pollrt.truncate s) x"

definition beside :: "('w, 'a) prog \<Rightarrow> ('w, 'a \<times> pollFD) prog" where
  "beside m s = (case m s of None \<Rightarrow> None
     | Some (r, s1) \<Rightarrow> Some (map_outcome (\<lambda>x. (x, pollrt.more s1)) r, with_fd (pollrt.more s) s1))"

definition accept_finish :: "nat \<Rightarrow> 'w libc \<Rightarrow> netFD \<Rightarrow> Sockaddr option \<Rightarrow> ('w, neterr + netFD) prog" where
  "accept_finish blk L netfd rsa =
     guardp (netFD_init blk L (nf_net netfd)) Inl
      (bindp (local_addr L) (\<lambda>lsa. retp (Inr (netfd\<lparr>nf_laddr := lsa, nf_raddr := map_option Inr rsa\<rparr>))))"

definition netFD_accept :: "nat \<Rightarrow> 'w fenv \<Rightarrow> nat \<Rightarrow> 'w libc \<Rightarrow> nat \<Rightarrow> netFD \<Rightarrow> ('w, neterr + netFD \<times> pollFD) prog" where
  "netFD_accept n E g L blk fd =
     bindp (FD_Accept n E g L) (\<lambda>(d, rsa, errcall, err). case err of
       Some e \<Rightarrow> retp (Inl (if errcall \<noteq> '''' then the (wrapSyscallError errcall err) else Plain e))
     | None \<Rightarrow>
         bindp (beside (bindp (newFD d (nf_family fd) (nf_sotype fd) (nf_net fd)) (\<lambda>netfd. or_close E L (accept_finish blk L netfd rsa))))
           (\<lambda>(r, x). retp (case r of Inl e \<Rightarrow> Inl e | Inr netfd \<Rightarrow> Inr (netfd, x))))"

section \<open>The methods of \<open>netFD\<close>\<close>

definition netFD_Close :: "'w fenv \<Rightarrow> 'w libc \<Rightarrow> ('w, goerror option) prog" where "netFD_Close E L = FD_Close E L"

definition netFD_shutdown :: "'w libc \<Rightarrow> int \<Rightarrow> ('w, neterr option) prog" where
  "netFD_shutdown L how = bindp (FD_Shutdown L how) (\<lambda>err. retp (wrapSyscallError ''shutdown'' err))"

definition netFD_closeRead :: "'w libc \<Rightarrow> ('w, neterr option) prog" where "netFD_closeRead L = netFD_shutdown L 0"
definition netFD_closeWrite :: "'w libc \<Rightarrow> ('w, neterr option) prog" where "netFD_closeWrite L = netFD_shutdown L 1"

definition netFD_Read :: "nat \<Rightarrow> 'w fenv \<Rightarrow> nat \<Rightarrow> 'w libc \<Rightarrow> gostring \<Rightarrow> ('w, int \<times> neterr option \<times> gostring) prog" where
  "netFD_Read n E g L p = bindp (FD_Read n E g L p) (\<lambda>(k, err, p'). retp (k, wrapSyscallError ''read'' err, p'))"

definition netFD_readFrom ::
  "nat \<Rightarrow> 'w fenv \<Rightarrow> nat \<Rightarrow> 'w libc \<Rightarrow> gostring \<Rightarrow> ('w, int \<times> neterr option \<times> gostring \<times> Sockaddr option) prog" where
  "netFD_readFrom n E g L p = bindp (FD_ReadFrom n E g L p) (\<lambda>(k, err, r). retp (k, wrapSyscallError ''recvfrom'' err, r))"

definition netFD_readFromInet4 ::
  "nat \<Rightarrow> 'w fenv \<Rightarrow> nat \<Rightarrow> 'w libc \<Rightarrow> gostring \<Rightarrow> SockaddrInet4 \<Rightarrow> ('w, int \<times> neterr option \<times> (gostring \<times> SockaddrInet4) \<times> unit) prog" where
  "netFD_readFromInet4 n E g L p a = bindp (FD_ReadFromInet4 n E g L p a) (\<lambda>(k, err, r). retp (k, wrapSyscallError ''recvfrom'' err, r))"

definition netFD_readFromInet6 ::
  "nat \<Rightarrow> 'w fenv \<Rightarrow> nat \<Rightarrow> 'w libc \<Rightarrow> gostring \<Rightarrow> SockaddrInet6 \<Rightarrow> ('w, int \<times> neterr option \<times> (gostring \<times> SockaddrInet6) \<times> unit) prog" where
  "netFD_readFromInet6 n E g L p a = bindp (FD_ReadFromInet6 n E g L p a) (\<lambda>(k, err, r). retp (k, wrapSyscallError ''recvfrom'' err, r))"

definition netFD_readMsg ::
  "nat \<Rightarrow> 'w fenv \<Rightarrow> nat \<Rightarrow> 'w libc \<Rightarrow> gostring \<Rightarrow> gostring \<Rightarrow> int \<Rightarrow> ('w, int \<times> neterr option \<times> unit \<times> int \<times> int \<times> Sockaddr option) prog" where
  "netFD_readMsg n E g L p oob flags = bindp (FD_ReadMsg n E g L p oob flags) (\<lambda>(k, err, r). retp (k, wrapSyscallError ''recvmsg'' err, r))"

definition netFD_readMsgInet4 ::
  "nat \<Rightarrow> 'w fenv \<Rightarrow> nat \<Rightarrow> 'w libc \<Rightarrow> gostring \<Rightarrow> gostring \<Rightarrow> int \<Rightarrow> SockaddrInet4 \<Rightarrow> ('w, int \<times> neterr option \<times> SockaddrInet4 \<times> int \<times> int) prog" where
  "netFD_readMsgInet4 n E g L p oob flags a = bindp (FD_ReadMsgInet4 n E g L p oob flags a) (\<lambda>(k, err, r). retp (k, wrapSyscallError ''recvmsg'' err, r))"

definition netFD_readMsgInet6 ::
  "nat \<Rightarrow> 'w fenv \<Rightarrow> nat \<Rightarrow> 'w libc \<Rightarrow> gostring \<Rightarrow> gostring \<Rightarrow> int \<Rightarrow> SockaddrInet6 \<Rightarrow> ('w, int \<times> neterr option \<times> SockaddrInet6 \<times> int \<times> int) prog" where
  "netFD_readMsgInet6 n E g L p oob flags a = bindp (FD_ReadMsgInet6 n E g L p oob flags a) (\<lambda>(k, err, r). retp (k, wrapSyscallError ''recvmsg'' err, r))"

definition netFD_Write :: "nat \<Rightarrow> 'w fenv \<Rightarrow> nat \<Rightarrow> 'w libc \<Rightarrow> gostring \<Rightarrow> ('w, int \<times> neterr option) prog" where
  "netFD_Write n E g L p = bindp (FD_Write n E g L p) (\<lambda>(k, err). retp (k, wrapSyscallError ''write'' err))"

definition netFD_writeTo :: "nat \<Rightarrow> 'w fenv \<Rightarrow> nat \<Rightarrow> 'w libc \<Rightarrow> gostring \<Rightarrow> GoSockaddr option \<Rightarrow> ('w, int \<times> neterr option) prog" where
  "netFD_writeTo n E g L p a = bindp (FD_WriteTo n E g L p a) (\<lambda>(k, err). retp (k, wrapSyscallError ''sendto'' err))"

definition netFD_writeToInet4 :: "nat \<Rightarrow> 'w fenv \<Rightarrow> nat \<Rightarrow> 'w libc \<Rightarrow> gostring \<Rightarrow> SockaddrInet4 \<Rightarrow> ('w, int \<times> neterr option) prog" where
  "netFD_writeToInet4 n E g L p a = bindp (FD_WriteToInet4 n E g L p a) (\<lambda>(k, err). retp (k, wrapSyscallError ''sendto'' err))"

definition netFD_writeToInet6 :: "nat \<Rightarrow> 'w fenv \<Rightarrow> nat \<Rightarrow> 'w libc \<Rightarrow> gostring \<Rightarrow> SockaddrInet6 \<Rightarrow> ('w, int \<times> neterr option) prog" where
  "netFD_writeToInet6 n E g L p a = bindp (FD_WriteToInet6 n E g L p a) (\<lambda>(k, err). retp (k, wrapSyscallError ''sendto'' err))"

definition netFD_writeMsg ::
  "nat \<Rightarrow> 'w fenv \<Rightarrow> nat \<Rightarrow> 'w libc \<Rightarrow> gostring \<Rightarrow> gostring \<Rightarrow> GoSockaddr option \<Rightarrow> ('w, int \<times> int \<times> neterr option) prog" where
  "netFD_writeMsg n E g L p oob a = bindp (FD_WriteMsg n E g L p oob a) (\<lambda>(k, oobn, err). retp (k, oobn, wrapSyscallError ''sendmsg'' err))"

definition netFD_writeMsgInet4 ::
  "nat \<Rightarrow> 'w fenv \<Rightarrow> nat \<Rightarrow> 'w libc \<Rightarrow> gostring \<Rightarrow> gostring \<Rightarrow> SockaddrInet4 option \<Rightarrow> ('w, int \<times> int \<times> neterr option) prog" where
  "netFD_writeMsgInet4 n E g L p oob a = bindp (FD_WriteMsgInet4 n E g L p oob a) (\<lambda>(k, oobn, err). retp (k, oobn, wrapSyscallError ''sendmsg'' err))"

definition netFD_writeMsgInet6 ::
  "nat \<Rightarrow> 'w fenv \<Rightarrow> nat \<Rightarrow> 'w libc \<Rightarrow> gostring \<Rightarrow> gostring \<Rightarrow> SockaddrInet6 option \<Rightarrow> ('w, int \<times> int \<times> neterr option) prog" where
  "netFD_writeMsgInet6 n E g L p oob a = bindp (FD_WriteMsgInet6 n E g L p oob a) (\<lambda>(k, oobn, err). retp (k, oobn, wrapSyscallError ''sendmsg'' err))"

definition netFD_SetDeadline :: "'w libc \<Rightarrow> int option \<Rightarrow> ('w, goerror option) prog" where "netFD_SetDeadline L t = FD_SetDeadline L t"
definition netFD_SetReadDeadline :: "'w libc \<Rightarrow> int option \<Rightarrow> ('w, goerror option) prog" where "netFD_SetReadDeadline L t = FD_SetReadDeadline L t"
definition netFD_SetWriteDeadline :: "'w libc \<Rightarrow> int option \<Rightarrow> ('w, goerror option) prog" where "netFD_SetWriteDeadline L t = FD_SetWriteDeadline L t"

definition netFD_dup :: "'w libc \<Rightarrow> ('w, neterr + int) prog" where
  "netFD_dup L =
     bindp (FD_Dup L) (\<lambda>(ns, call, err). retp (case err of None \<Rightarrow> Inr ns
       | Some e \<Rightarrow> Inl (if call \<noteq> '''' then SyscallError call e else Plain e)))"

end
