(* ===== verification/Net_Leak.thy ===== *)
theory Net_Leak
  imports Net_Sock
begin

text \<open>
  Making a socket leaks no descriptor: whatever fails between \<open>socket\<close> and the caller, the descriptor is closed
  again. The open descriptors are observed as in \<open>Fd_Accept\<close>; of the calls on sockets only \<open>socket\<close> changes them.
\<close>

section \<open>The library\<close>

definition sock_libc :: "'w libc \<Rightarrow> ('w \<Rightarrow> int set) \<Rightarrow> bool" where
  "sock_libc L opn \<longleftrightarrow> fds_libc L opn
     \<and> (\<forall>as w. let r = L ''libc_socket'' as 0 w
          in if c_errno r = 0 then toint (c_ret r) \<notin> opn w \<and> opn (c_world r) = insert (toint (c_ret r)) (opn w) else opn (c_world r) = opn w)
     \<and> (\<forall>fn as w. fn \<in> {''libc_connect'', ''libc_bind'', ''libc_listen'', ''libc_setsockopt'', ''libc_getsockopt'', ''libc_getpeername'',
            ''libc_getsockname'', ''libc_clock_gettime''} \<longrightarrow> opn (c_world (L fn as 0 w)) = opn w)"

lemma sock_call:
  assumes "sock_libc L opn" "has_open opn S t"
    and "fn \<in> {''libc_connect'', ''libc_bind'', ''libc_listen'', ''libc_setsockopt'', ''libc_getsockopt'', ''libc_getpeername'', ''libc_getsockname''}"
    and "n = length as" "n \<le> 6"
  shows "has_open opn S (snd (sysvicall6 L fn n as t))"
proof -
  obtain r1 r2 e bs t' where c: "sysvicall6 L fn n as t = ((r1, r2, e, bs), t')" by (metis prod.collapse)
  from assms(2) have "has_errno t" by (simp add: has_open_def)
  with errno_call [OF _ c assms(4,5)] assms show ?thesis unfolding has_open_def sock_libc_def c by (metis insertCI insertE snd_conv)
qed

lemma calls_open:
  assumes "sock_libc L opn" "has_open opn S t"
  shows "has_open opn S (snd (Connect L fd sa t))" "has_open opn S (snd (Bind L fd sa t))" "has_open opn S (snd (Listen L fd k t))"
    "has_open opn S (snd (GetsockoptInt L fd level opt t))" "has_open opn S (snd (Getpeername L fd t))" "has_open opn S (snd (Getsockname L fd t))"
    "has_open opn S (snd (SetsockoptInt L fd level opt v t))" "has_open opn S (snd (set_one L fd opt t))"
proof -
  note call = sock_call [OF assms]
  show "has_open opn S (snd (Connect L fd sa t))"
    using call [of "''libc_connect''" 3] assms(2) by (auto simp: Connect_def connect_def err_only_def case_prod_beta Let_def split: sum.splits prod.splits)
  show "has_open opn S (snd (Bind L fd sa t))"
    using call [of "''libc_bind''" 3] assms(2) by (auto simp: Bind_def bind_sock_def err_only_def case_prod_beta Let_def split: sum.splits prod.splits)
  show "has_open opn S (snd (Listen L fd k t))"
    using call [of "''libc_listen''" 2] by (simp add: Listen_def err_only_def case_prod_beta Let_def)
  show "has_open opn S (snd (GetsockoptInt L fd level opt t))"
    using call [of "''libc_getsockopt''" 5] by (simp add: GetsockoptInt_def getsockopt_def case_prod_beta Let_def)
  show "has_open opn S (snd (Getpeername L fd t))"
    using call [of "''libc_getpeername''" 3] by (simp add: Getpeername_def getpeername_def case_prod_beta Let_def split: option.split)
  show "has_open opn S (snd (Getsockname L fd t))"
    using call [of "''libc_getsockname''" 3] by (simp add: Getsockname_def getsockname_def case_prod_beta Let_def split: option.split)
  show s: "has_open opn S (snd (SetsockoptInt L fd level opt v t))" for level opt v
    using call [of "''libc_setsockopt''" 5] by (simp add: SetsockoptInt_def setsockopt_def err_only_def case_prod_beta Let_def)
  show "has_open opn S (snd (set_one L fd opt t))"
    using s by (simp add: set_one_def case_prod_beta Let_def)
qed

lemma nanotime_open:
  assumes "sock_libc L opn" "has_open opn S t"
  shows "has_open opn S (snd (nanotime1 L t))"
proof -
  have "snd (nanotime1 L t) = snd (sysvicall2 L ''libc_clock_gettime'' (AWord CLOCK_MONOTONIC_id) (ATimespec ts_zero) t)"
    by (simp add: nanotime1_def case_prod_beta Let_def)
  also have "has_open opn S \<dots>"
    using assms by (simp add: sysvicall2_def sysvicall2Err_def libcall_defs case_prod_beta Let_def has_open_def has_errno_def sock_libc_def)
  finally show ?thesis .
qed

section \<open>A socket under construction\<close>

definition owns :: "('w \<Rightarrow> int set) \<Rightarrow> int set \<Rightarrow> int \<Rightarrow> u64 \<Rightarrow> 'w fdrt \<Rightarrow> bool" where
  "owns opn S k m s \<longleftrightarrow> has_open opn S (np_thr (pr_np s)) \<and> f_mu s = m \<and> f_Sysfd s = k \<and> pr_inited s"

definition keeps_inited :: "'w fenv \<Rightarrow> bool" where
  "keeps_inited E \<longleftrightarrow> (\<forall>y s. pr_inited s \<longrightarrow> pr_inited (E y s))"

lemma owns_waits:
  assumes "sock_libc L opn" "others_quiet opn E" "keeps_inited E"
  shows "wait_frame (owns opn S k m) (alone E) L"
proof
  fix s :: "'a fdrt" assume J: "owns opn S k m s"
  have "pr_np (alone E y s) = pr_np (E y s)" "pr_inited (alone E y s) = pr_inited (E y s)" for y by (simp_all add: alone_def)
  then show "owns opn S k m (alone E y s)" for y using J assms(2,3) by (simp add: owns_def has_open_def others_quiet_def keeps_inited_def)
  show "owns opn S k m (pd_store pd d s)" for pd d using J by (simp add: owns_def pd_store_def)
  show "owns opn S k m (s\<lparr>pr_waiters := w\<rparr>)" for w using J by (simp add: owns_def)
  have "fds_libc L opn" using assms(1) by (simp add: sock_libc_def)
  with J enter_open [of L opn S "pr_np s"] show "owns opn S k m (s\<lparr>pr_np := snd (netpollarm L pd mode (pr_np s))\<rparr>)" for pd mode
    by (simp add: owns_def netpollarm_def Let_def unlock_mtxset_def)
qed

lemma owns_sys:
  assumes "\<And>t. has_open opn S t \<Longrightarrow> has_open opn S (snd (f t))"
  shows "keepsp (owns opn S k m) (sysp f)"
proof (rule keepspI)
  fix s r s' assume "owns opn S k m s" "sysp f s = Some (r, s')"
  then show "owns opn S k m s'" using assms [of "np_thr (pr_np s)"] by (auto simp: owns_def sysp_def case_prod_beta Let_def)
qed

lemma owns_onfd: "(\<And>fd t. has_open opn S t \<Longrightarrow> has_open opn S (snd (f fd t))) \<Longrightarrow> keepsp (owns opn S k m) (onfd f)"
  unfolding onfd_def by (intro keepsp_bind keepsp_get owns_sys)

lemma keepsp_sum [fd_keeps]: "(\<And>x. keepsp J (f x)) \<Longrightarrow> (\<And>x. keepsp J (h x)) \<Longrightarrow> keepsp J (case v of Inl x \<Rightarrow> f x | Inr x \<Rightarrow> h x)"
  by (cases v) simp_all

lemma keepsp_try [fd_keeps]: "keepsp J m \<Longrightarrow> (\<And>x. keepsp J (f x)) \<Longrightarrow> keepsp J (tryp m f)"
  unfolding tryp_def by (intro keepsp_bind keepsp_sum keepsp_ret)

lemma keepsp_defer [fd_keeps]: "keepsp J fin \<Longrightarrow> keepsp J m \<Longrightarrow> keepsp J (deferp fin m)"
  unfolding keepsp_def by (rule triple_defer [where R = "\<lambda>r. J"]) (auto elim!: triple_weaken split: outcome.splits)

text \<open>Registering the descriptor with the poller.\<close>

lemma pollOpen_open:
  assumes "fds_libc L opn" "owns opn S k m s"
  shows "owns opn S k m (snd (poll_runtime_pollOpen blk L fd s))"
proof -
  have n: "has_open opn S (np_thr (snd (netpollopen L fd pd np)))" if "has_open opn S (np_thr np)" for pd np
    using enter_open [OF assms(1) that] by (simp add: netpollopen_def Let_def unlock_mtxset_def)
  define pd s1 where "pd = fst (pollcache_alloc blk s)" and "s1 = snd (pollcache_alloc blk s)"
  then have a: "pollcache_alloc blk s = (pd, s1)" by simp
  have o: "owns opn S k m s1" using assms(2) by (auto simp: s1_def owns_def pollcache_alloc_def Let_def)
  show ?thesis
  proof (cases "pollOpen_reset fd (pd_at s1 pd)")
    case (Ret d)
    have "owns opn S k m (pd_store pd d s1)" using o by (simp add: owns_def pd_store_def)
    then have "owns opn S k m ((pd_store pd d s1)\<lparr>pr_np := snd (netpollopen L fd pd (pr_np (pd_store pd d s1)))\<rparr>)"
      using n [of "pr_np (pd_store pd d s1)" pd] by (simp add: owns_def)
    then show ?thesis using a Ret by (auto simp: poll_runtime_pollOpen_def case_prod_beta Let_def owns_def pollcache_release_def pd_store_def)
  next
    case (Throw e)
    then show ?thesis using a o by (simp add: poll_runtime_pollOpen_def)
  qed
qed

lemma owns_init:
  assumes "sock_libc L opn"
  shows "keepsp (owns opn S k m) (netFD_init blk L net)"
proof -
  have f: "fds_libc L opn" using assms by (simp add: sock_libc_def)
  have m: "keepsp (owns opn S k m) (modp h)" if "\<And>s. owns opn S k m s \<Longrightarrow> owns opn S k m (h s)" for h
    using that by (auto intro!: keepspI simp: modp_def)
  show ?thesis
    unfolding netFD_init_def FD_Init_def fpd_init_def
    by (intro fd_keeps m keepsp_callp pollOpen_open [OF f])
      (auto simp: owns_def poll_runtime_pollServerInit_def netpollGenericInit_def)
qed

text \<open>The lock word of a fresh descriptor.\<close>

abbreviation fresh_mu :: fdst where
  "fresh_mu \<equiv> \<lparr>a_closed = False, a_rlock = False, a_wlock = False, a_ref = 0, a_rwait = 0, a_wwait = 0\<rparr>"

lemma fresh_quiet: "fd_quiet fresh_mu" "word_of fresh_mu = 0"
  by (simp_all add: fd_quiet_def fdst_ok_def word_of_def enc_def)

lemma setDeadline_open:
  assumes "sock_libc L opn" "owns opn S k m s"
  shows "owns opn S k m (rt_pollSetDeadline L pd d mode s)"
proof -
  define x where "x = (if \<not> pd_closing (pd_at s pd) \<and> d > 0 then nanotime1 L (np_thr (pr_np s)) else (0, np_thr (pr_np s)))"
  have "has_open opn S (snd x)" using assms nanotime_open [OF assms(1), of S "np_thr (pr_np s)"] by (auto simp: x_def owns_def)
  with assms(2) show ?thesis
    unfolding rt_pollSetDeadline_def x_def [symmetric] by (simp add: owns_def pd_store_def case_prod_beta Let_def)
qed

lemma owns_deadline:
  assumes "sock_libc L opn"
  shows "keepsp (owns opn S k 0) (FD_SetWriteDeadline L until)"
proof (rule keepspI)
  fix s r s' assume o: "owns opn S k 0 s" and run: "FD_SetWriteDeadline L until s = Some (r, s')"
  define d where "d = (case until of None \<Rightarrow> 0 | Some u \<Rightarrow> if u = 0 then -1 else u)"
  let ?b = "bindp (getp f_ctx) (\<lambda>c. case c of None \<Rightarrow> retp (Some ErrNoDeadline)
             | Some pd \<Rightarrow> bindp (modp (rt_pollSetDeadline L pd d mode_w)) (\<lambda>_. retp None)) :: ('a, goerror option) prog"
  have m: "keepsp (owns opn S k w) (modp (rt_pollSetDeadline L pd d mode_w))" for w pd
    using setDeadline_open [OF assms] by (auto intro!: keepspI simp: modp_def)
  have b: "keepsp (owns opn S k w) ?b" for w by (intro fd_keeps m)
  have mu: "keepsp (\<lambda>s. f_mu s = word_ref fresh_mu) ?b"
    by (intro fd_keeps keepspI) (auto simp: modp_def rt_pollSetDeadline_def pd_store_def case_prod_beta Let_def)
  have w: "with_ref L Some ?b s = Some (r, s')" using run unfolding FD_SetWriteDeadline_def setDeadlineImpl_def Let_def d_def .
  have e: "f_mu s = word_of fresh_mu" using o by (simp add: owns_def fresh_quiet)
  obtain s1 where s1: "?b (s\<lparr>f_mu := word_ref fresh_mu\<rparr>) = Some (r, s1)" "s' = s1\<lparr>f_mu := word_of fresh_mu\<rparr>"
    by (rule with_ref_run [OF fresh_quiet(1) e mu w])
  have "owns opn S k (word_ref fresh_mu) (s\<lparr>f_mu := word_ref fresh_mu\<rparr>)" using o by (simp add: owns_def)
  from keepspD [OF b this s1(1)] show "owns opn S k 0 s'" unfolding s1(2) by (simp add: owns_def fresh_quiet(2))
qed

section \<open>Connecting and listening\<close>

lemma owns_connect:
  assumes lib: "sock_libc L opn" and "others_quiet opn E" "keeps_inited E"
  shows "keepsp (owns opn S k 0) (netFD_connect n (alone E) g L blk net ctx ra)"
proof -
  note W = wait_frame.keeps_waitWrite [OF owns_waits [OF assms]]
  note sys = calls_open [OF lib]
  have p: "keepsp (owns opn S k 0) (connect_poll n (alone E) g L ctx)"
    unfolding connect_poll_def FD_WaitWrite_def by (intro fd_keeps W owns_onfd sys)
  have h: "keepsp (owns opn S k 0) (connect_hooked n (alone E) g L ctx)"
    unfolding connect_hooked_def connect_loop_def by (intro fd_keeps p)
  have w: "keepsp (owns opn S k 0) (connect_wait n (alone E) g L ctx)"
    unfolding connect_wait_def by (cases "cx_hasDone ctx"; cases "cx_deadline ctx"; simp; intro fd_keeps h owns_deadline [OF lib])
  show ?thesis
    unfolding netFD_connect_def by (intro fd_keeps w owns_init [OF lib] owns_onfd sys)
qed

lemma owns_setup:
  assumes lib: "sock_libc L opn" and E: "others_quiet opn E" "keeps_inited E"
    and ctrl: "\<And>f. ctrl = Some f \<Longrightarrow> keepsp (owns opn S k 0) f"
  shows "keepsp (owns opn S k 0) (socket_setup n (alone E) g L blk fd ctx backlog laddr raddr ctrl)"
proof -
  note sys = calls_open [OF lib] and init = owns_init [OF lib]
  have c: "keepsp (owns opn S k 0) (run_ctrl ctrl)" using ctrl by (auto simp: run_ctrl_def keepsp_ret split: option.split)
  have b: "keepsp (owns opn S k 0) (bind_addr L lsa)" for lsa unfolding bind_addr_def by (intro fd_keeps owns_onfd sys)
  have l: "keepsp (owns opn S k 0) (local_addr L)" unfolding local_addr_def by (intro fd_keeps owns_onfd sys)
  have f: "keepsp (owns opn S k 0) (listen_finish blk L fd)" unfolding listen_finish_def by (intro fd_keeps init l)
  have d: "keepsp (owns opn S k 0) (netFD_dial n (alone E) g L blk fd ctx laddr raddr ctrl)"
    unfolding netFD_dial_def dial_bind_def dial_connect_def
    by (intro fd_keeps c b l init owns_onfd sys owns_connect [OF lib E])
  have o: "keepsp (owns opn S k 0) (onfd (\<lambda>s. set_one L s opt))" for opt by (intro owns_onfd sys)
  have "keepsp (owns opn S k 0) (listenStream L blk fd a backlog ctrl)" for a
    unfolding listenStream_def setDefaultListenerSockopts_def by (intro fd_keeps c b f owns_onfd sys)
  moreover have "keepsp (owns opn S k 0) (listenDatagram L blk fd a ctrl)" for a
    unfolding listenDatagram_def setDefaultMulticastSockopts_def by (cases "na_wild a"; simp; intro fd_keeps c b f o)
  ultimately show ?thesis using d unfolding socket_setup_def by (auto intro!: fd_keeps split: option.split)
qed

section \<open>Closing what was opened\<close>

lemma pollClose_open:
  assumes "fds_libc L opn" "has_open opn S (np_thr (pr_np s))"
  shows "has_open opn S (np_thr (pr_np (snd (poll_runtime_pollClose L pd s))))"
proof -
  have "has_open opn S (np_thr (snd (netpollclose L fd (pr_np s))))" for fd
    using enter_open [OF assms] by (simp add: netpollclose_def Let_def unlock_mtxset_def split: option.split)
  then show ?thesis using assms(2)
    by (auto simp: poll_runtime_pollClose_def pollcache_release_def pd_store_def Let_def split: outcome.splits prod.splits) (metis snd_conv)+
qed

lemma destroy_open:
  assumes "fds_libc L opn" "has_open opn S (np_thr (pr_np s))" "f_Sysfd s = toint r" "fd_destroy L s = Some (Ret e, s')"
  shows "has_open opn (S - {toint r}) (np_thr (pr_np s')) \<and> f_csema s' = f_csema s + 1 \<and> f_isBlocking s' = f_isBlocking s"
proof -
  obtain s1 where s1: "fpd_close L s = Some (Ret (), s1)" "bindp (getp f_Sysfd) (\<lambda>fd. bindp (sysp (Close L fd)) (\<lambda>err.
     bindp (modp (\<lambda>s. s\<lparr>f_Sysfd := -1\<rparr>)) (\<lambda>_. bindp (modp (\<lambda>s. s\<lparr>f_csema := f_csema s + 1\<rparr>)) (\<lambda>_. retp (oserr err))))) s1 = Some (Ret e, s')"
    using bindp_Ret [OF assms(4) [unfolded fd_destroy_def]] by auto
  have "has_open opn S (np_thr (pr_np s1)) \<and> f_Sysfd s1 = f_Sysfd s \<and> f_csema s1 = f_csema s \<and> f_isBlocking s1 = f_isBlocking s"
  proof (cases "f_ctx s")
    case (Some pd)
    obtain x s2 where c: "poll_runtime_pollClose L pd s = (x, s2)" by fastforce
    with s1(1) Some have "s1 = s2\<lparr>f_ctx := None\<rparr>"
      by (auto simp: fpd_close_def prog_defs split: outcome.splits)
    with pollClose_open [OF assms(1,2), of pd] more_fields [OF close_more, of L pd s] c show ?thesis by simp
  qed (use s1(1) assms(2) in \<open>simp add: fpd_close_def prog_defs\<close>)
  with s1(2) assms(3) Close_open [OF assms(1), of S "np_thr (pr_np s1)" r] show ?thesis
    by (auto simp: prog_defs case_prod_beta Let_def)
qed

lemma FD_Close_open:
  assumes lib: "fds_libc L opn" and o: "owns opn S (toint r) 0 s" and run: "FD_Close E L s = Some (Ret e, s')"
  shows "has_open opn (S - {toint r}) (np_thr (pr_np s'))"
proof -
  let ?b = "fresh_mu\<lparr>a_closed := True, a_ref := Suc 0\<rparr>"
  have b: "fdst_ok ?b" by (simp add: fdst_ok_def)
  have cl: "fdmu_increfAndClose (f_mu s) = Ret (True, word_of ?b, 0, 0)"
    using close_word [of fresh_mu] fresh_quiet o by (simp add: fs_close_def owns_def fdst_ok_def)
  define s0 where "s0 = s\<lparr>f_mu := word_of ?b\<rparr>"
  from run have "bindp fpd_evict (\<lambda>_. bindp (fd_decref L) (\<lambda>err. bindp (getp f_isBlocking) (\<lambda>b.
      bindp (if \<not> b then csema_acquire E else retp ()) (\<lambda>_. retp err)))) s0 = Some (Ret e, s')"
    by (simp add: FD_Close_def sem_release_def bindp_def mup_def cl modp_def s0_def)
  from bindp_Ret [OF this] obtain u s1 where ev: "fpd_evict s0 = Some (Ret u, s1)"
    and r1: "bindp (fd_decref L) (\<lambda>err. bindp (getp f_isBlocking) (\<lambda>b. bindp (if \<not> b then csema_acquire E else retp ()) (\<lambda>_. retp err))) s1
       = Some (Ret e, s')" by blast
  have s1: "np_thr (pr_np s1) = np_thr (pr_np s)" "f_mu s1 = word_of ?b" "f_Sysfd s1 = f_Sysfd s"
  proof -
    have "pollrt.more s1 = pollrt.more s0 \<and> np_thr (pr_np s1) = np_thr (pr_np s0)"
      using ev unblock_more [of _ s0] unblock_thr [of _ s0]
      by (cases "f_ctx s0") (auto simp: fpd_evict_def prog_defs, (metis snd_conv)+)
    with more_fields [of s1 s0] show "np_thr (pr_np s1) = np_thr (pr_np s)" "f_mu s1 = word_of ?b" "f_Sysfd s1 = f_Sysfd s"
      by (auto simp: s0_def)
  qed
  have dc: "fdmu_decref (f_mu s1) = Ret (True, word_of (?b\<lparr>a_ref := 0\<rparr>))"
    using decref_word [OF b] s1(2) by (simp add: fs_decref_def)
  define s2 where "s2 = s1\<lparr>f_mu := word_of (?b\<lparr>a_ref := 0\<rparr>)\<rparr>"
  from r1 have "bindp (fd_destroy L) (\<lambda>err. bindp (getp f_isBlocking) (\<lambda>b. bindp (if \<not> b then csema_acquire E else retp ()) (\<lambda>_. retp err))) s2
     = Some (Ret e, s')"
    by (simp add: fd_decref_def bindp_def mup_def dc s2_def)
  from bindp_Ret [OF this] obtain err s3 where d: "fd_destroy L s2 = Some (Ret err, s3)"
    and r3: "bindp (getp f_isBlocking) (\<lambda>b. bindp (if \<not> b then csema_acquire E else retp ()) (\<lambda>_. retp err)) s3 = Some (Ret e, s')" by blast
  have "has_open opn S (np_thr (pr_np s2))" "f_Sysfd s2 = toint r" using o s1 by (simp_all add: s2_def owns_def)
  from destroy_open [OF lib this d] have "has_open opn (S - {toint r}) (np_thr (pr_np s3))" "0 < f_csema s3" by auto
  with r3 show ?thesis by (auto simp: bindp_def getp_def csema_acquire_def modp_def retp_def Let_def split: if_splits)
qed

section \<open>The whole\<close>

lemma sysSocket_gives:
  assumes lib: "sock_libc L opn" and o: "has_open opn S t"
  shows "case sysSocket L noIPv6 family sotype proto t of
      (Inr k, t') \<Rightarrow> k \<notin> S \<and> (\<exists>r. k = toint r) \<and> has_open opn (insert k S) t' | (Inl e, t') \<Rightarrow> has_open opn S t'"
proof -
  have f: "fds_libc L opn" using lib by (simp add: sock_libc_def)
  obtain k err t1 where s: "Socket L noIPv6 family sotype proto t = ((k, err), t1)" by (metis prod.collapse)
  have g: "if err = None then k \<notin> S \<and> (\<exists>r. k = toint r) \<and> has_open opn (insert k S) t1 else has_open opn S t1"
  proof (cases "family = uint AF_INET6 \<and> noIPv6")
    case True
    with s o show ?thesis by (auto simp: Socket_def)
  next
    case False
    obtain r1 r2 e as t2 where c: "rawSysvicall6 L ''libc_socket'' 3 [W family, W sotype, W proto] t = ((r1, r2, e, as), t2)" by (metis prod.collapse)
    have "e = c_errno (L ''libc_socket'' [W family, W sotype, W proto] 0 (t_world t))" "r1 = c_ret (L ''libc_socket'' [W family, W sotype, W proto] 0 (t_world t))"
      "t_world t2 = c_world (L ''libc_socket'' [W family, W sotype, W proto] 0 (t_world t))" "has_errno t2"
      using c o by (auto simp: libcall_defs case_prod_beta Let_def has_errno_def has_open_def)
    moreover have "(k, err) = (if e \<noteq> 0 then (-1, Some e) else (toint r1, None))" "t1 = t2"
      using s c False by (auto simp: Socket_def socket_def fd_err_def split: if_splits)
    ultimately show ?thesis using lib o unfolding sock_libc_def has_open_def by (auto simp: Let_def split: if_splits)
  qed
  show ?thesis
  proof (cases err)
    case (Some e)
    with s g show ?thesis by (simp add: sysSocket_def)
  next
    case None
    with g obtain r where r: "k = toint r" "k \<notin> S" "has_open opn (insert k S) t1" by auto
    obtain err2 t3 where n: "SetNonblock L k True (CloseOnExec L k t1) = (err2, t3)" by fastforce
    have o3: "has_open opn (insert k S) t3" using SetNonblock_open [OF f CloseOnExec_open [OF f r(3)], of k True k] n by simp
    then have "has_open opn S (snd (Close L k t3))" using Close_open [OF f, of "insert k S" t3 r] r by simp
    with o3 s n None r show ?thesis by (cases err2) (auto simp: sysSocket_def)
  qed
qed

lemma defaults_open:
  assumes "sock_libc L opn" "has_open opn S t"
  shows "has_open opn S (snd (setDefaultSockopts L k family sotype v6 t))"
  using calls_open [OF assms(1)] assms(2) by (simp add: setDefaultSockopts_def Let_def)

lemma or_close_open:
  assumes lib: "fds_libc L opn" and m: "keepsp (owns opn S (toint r) 0) m" and o: "owns opn S (toint r) 0 s"
    and run: "or_close E L m s = Some (Ret x, s')"
  shows "case x of Inl e \<Rightarrow> has_open opn (S - {toint r}) (np_thr (pr_np s')) | Inr fd \<Rightarrow> owns opn S (toint r) 0 s'"
proof -
  from bindp_Ret [OF run [unfolded or_close_def]] obtain y s1 where y: "m s = Some (Ret y, s1)"
    and rest: "(case y of Inl e \<Rightarrow> bindp (FD_Close E L) (\<lambda>_. retp (Inl e)) | Inr fd \<Rightarrow> retp (Inr fd)) s1 = Some (Ret x, s')" by blast
  have o1: "owns opn S (toint r) 0 s1" by (rule keepspD [OF m o y])
  show ?thesis
  proof (cases y)
    case (Inl e)
    with rest obtain u where "FD_Close E L s1 = Some (Ret u, s')" "x = Inl e"
      by (auto simp: bindp_def retp_def split: option.splits prod.splits outcome.splits)
    with FD_Close_open [OF lib o1] show ?thesis by simp
  next
    case (Inr fd)
    with rest o1 show ?thesis by (auto simp: retp_def)
  qed
qed

section \<open>Accepting\<close>

lemma with_fd_fields [simp]:
  "pr_np (with_fd x s) = pr_np s" "pr_inited (with_fd x s) = pr_inited s" "pollrt.more (with_fd x s) = x"
  by (simp_all add: with_fd_def pollrt.defs)

lemma with_fd_mu [simp]: "f_mu (with_fd (pollrt.more t) s) = f_mu t"
  by (cases t) (simp add: with_fd_def pollrt.defs)

lemma with_fd_more: "with_fd (pollrt.more s) s = s"
  by (cases s) (simp add: with_fd_def pollrt.defs)

lemma Accept_inited:
  assumes "keeps_inited E"
  shows "keepsp pr_inited (guardp prepareRead h (Accept_loop n (alone E) g L))"
proof -
  have W: "wait_frame pr_inited (alone E) L"
    using assms by unfold_locales (auto simp: keeps_inited_def alone_def pd_store_def)
  have c: "keepsp pr_inited (onfd f)" for f :: "int \<Rightarrow> 'a thr \<Rightarrow> 'b \<times> 'a thr"
    by (auto intro!: keepspI simp: onfd_def bindp_def getp_def sysp_def split: prod.splits)
  show ?thesis
    unfolding Accept_loop_def
    by (intro fd_keeps c wait_frame.keeps_prepares [OF W] wait_frame.keeps_eagain [OF W] wait_frame.keeps_waitRead [OF W])
qed

lemma beside_Ret:
  assumes "beside m s = Some (Ret (r, x), s')"
  obtains s1 where "m s = Some (Ret r, s1)" "x = pollrt.more s1" "s' = with_fd (pollrt.more s) s1"
proof -
  from assms obtain r1 s1 where m: "m s = Some (r1, s1)" "map_outcome (\<lambda>x. (x, pollrt.more s1)) r1 = Ret (r, x)" "s' = with_fd (pollrt.more s) s1"
    by (auto simp: beside_def split: option.splits prod.splits)
  then show thesis using that by (cases r1) auto
qed

lemma owns_finish:
  assumes "sock_libc L opn"
  shows "keepsp (owns opn S k m) (accept_finish blk L fd rsa)"
  unfolding accept_finish_def local_addr_def by (intro fd_keeps owns_init [OF assms] owns_onfd calls_open [OF assms])

text \<open>The control function of a dialer does its work on the socket it is given: it neither opens nor closes anything.\<close>

definition ctrl_quiet :: "('w \<Rightarrow> int set) \<Rightarrow> ('w, neterr option) prog option \<Rightarrow> bool" where
  "ctrl_quiet opn ctrl \<longleftrightarrow> (\<forall>f S k. ctrl = Some f \<longrightarrow> keepsp (owns opn S k 0) f)"

section \<open>Properties\<close>

text \<open>C22: Making a socket leaks no descriptor. When \<open>socket\<close> returns one, dialed or listening, it is new, and it is
  the only descriptor open beside those that were; when it returns an error, the open descriptors are those that
  were. This covers every failure on the way: making it non-blocking, its options, the control function, an address
  that does not convert, \<open>bind\<close>, \<open>listen\<close>, registering with the poller, \<open>connect\<close> refused at once or after waiting, and
  a context that ends before, while or just after the connection is made.\<close>

theorem net_socket_no_leak:
  assumes lib: "sock_libc L opn" and E: "others_quiet opn E" "keeps_inited E" and ctrl: "ctrl_quiet opn ctrl"
    and s: "has_errno (np_thr (pr_np s))" "pr_inited s"
    and run: "net_socket n (alone E) g L blk noIPv6 ctx net family sotype proto ipv6only backlog laddr raddr ctrl s = Some (Ret r, s')"
  shows "case r of Inl e \<Rightarrow> opn (t_world (np_thr (pr_np s'))) = opn (t_world (np_thr (pr_np s)))
    | Inr fd \<Rightarrow> f_Sysfd s' \<notin> opn (t_world (np_thr (pr_np s)))
        \<and> opn (t_world (np_thr (pr_np s'))) = insert (f_Sysfd s') (opn (t_world (np_thr (pr_np s))))"
proof -
  let ?S = "opn (t_world (np_thr (pr_np s)))"
  have f: "fds_libc L opn" using lib by (simp add: sock_libc_def)
  have o: "has_open opn ?S (np_thr (pr_np s))" using s by (simp add: has_open_def)
  obtain x t where x: "sysSocket L noIPv6 family sotype proto (np_thr (pr_np s)) = (x, t)" by fastforce
  show ?thesis
  proof (cases x)
    case (Inl e)
    with run x sysSocket_gives [OF lib o, of noIPv6 family sotype proto] show ?thesis
      by (auto simp: net_socket_def tryp_def bindp_def sysp_def retp_def has_open_def)
  next
    case (Inr k)
    with x sysSocket_gives [OF lib o, of noIPv6 family sotype proto] obtain w where k: "k = toint w" "k \<notin> ?S" "has_open opn (insert k ?S) t" by auto
    obtain err t2 where e: "setDefaultSockopts L k family sotype ipv6only t = (err, t2)" by fastforce
    have o2: "has_open opn (insert k ?S) t2" using defaults_open [OF lib k(3)] e by (metis snd_conv)
    show ?thesis
    proof (cases err)
      case (Some e')
      with run x Inr e have "r = Inl e'" "np_thr (pr_np s') = snd (Close L k t2)"
        by (auto simp: net_socket_def tryp_def bindp_def sysp_def retp_def case_prod_beta Let_def)
      with Close_open [OF f o2, of w] k show ?thesis by (simp add: has_open_def)
    next
      case None
      define s1 where "s1 = s\<lparr>pr_np := (pr_np s)\<lparr>np_thr := t2\<rparr>, f_mu := 0, f_rsema := 0, f_wsema := 0, f_Sysfd := k, f_ctx := None, f_csema := 0,
        f_isBlocking := False, f_IsStream := (sotype = SOCK_STREAM), f_ZeroReadIsEOF := (sotype \<noteq> SOCK_DGRAM \<and> sotype \<noteq> SOCK_RAW), f_isFile := False\<rparr>"
      obtain fd where run1: "or_close (alone E) L (socket_setup n (alone E) g L blk fd ctx backlog laddr raddr ctrl) s1 = Some (Ret r, s')"
        using run x Inr e None by (simp add: net_socket_def tryp_def bindp_def sysp_def retp_def newFD_def modp_def s1_def)
      have "owns opn (insert k ?S) (toint w) 0 s1" using o2 s(2) k(1) by (simp add: owns_def s1_def)
      from or_close_open [OF f owns_setup [OF lib E] this run1] ctrl k show ?thesis
        by (auto simp: ctrl_quiet_def owns_def has_open_def split: sum.splits)
    qed
  qed
qed

text \<open>C23: Accepting a connection leaks none either. When a listener's \<open>accept\<close> returns a connection, the descriptor of
  that connection is new and the only one open beside those that were; when it returns an error - also that the new
  connection could not be registered with the poller - the open descriptors are those that were. The listener is left
  unlocked, and it is still the listener.\<close>

theorem netFD_accept_no_leak:
  assumes lib: "sock_libc L opn" and E: "others_quiet opn E" "keeps_inited E" and a: "fd_quiet a" "f_mu s = word_of a"
    and s: "has_errno (np_thr (pr_np s))" "pr_inited s"
    and run: "netFD_accept (Suc n) (alone E) g L blk fd s = Some (Ret r, s')"
  shows "f_mu s' = f_mu s \<and> (case r of Inl e \<Rightarrow> opn (t_world (np_thr (pr_np s'))) = opn (t_world (np_thr (pr_np s)))
    | Inr (netfd, x) \<Rightarrow> f_Sysfd (with_fd x s') \<notin> opn (t_world (np_thr (pr_np s)))
        \<and> opn (t_world (np_thr (pr_np s'))) = insert (f_Sysfd (with_fd x s')) (opn (t_world (np_thr (pr_np s)))))"
proof -
  let ?S = "opn (t_world (np_thr (pr_np s)))"
  have f: "fds_libc L opn" using lib by (simp add: sock_libc_def)
  from bindp_Ret [OF run [unfolded netFD_accept_def]] obtain d rsa errcall err s2 where acc: "FD_Accept (Suc n) (alone E) g L s = Some (Ret (d, rsa, errcall, err), s2)"
    and rest: "(case err of Some e \<Rightarrow> retp (Inl (if errcall \<noteq> '''' then the (wrapSyscallError errcall err) else Plain e))
     | None \<Rightarrow> bindp (beside (bindp (newFD d (nf_family fd) (nf_sotype fd) (nf_net fd)) (\<lambda>netfd. or_close (alone E) L (accept_finish blk L netfd rsa))))
           (\<lambda>(r, x). retp (case r of Inl e \<Rightarrow> Inl e | Inr netfd \<Rightarrow> Inr (netfd, x)))) s2 = Some (Ret r, s')"
    by (auto split: prod.splits)
  obtain s1 where body: "guardp prepareRead (\<lambda>e. (-1, None, '''', Some e)) (Accept_loop (Suc n) (alone E) g L) (s\<lparr>f_mu := word_locked True a\<rparr>)
      = Some (Ret (d, rsa, errcall, err), s1)" and s2: "s2 = s1\<lparr>f_mu := word_of a\<rparr>"
    by (rule FD_Accept_run [OF a acc])
  have o: "has_open opn ?S (np_thr (pr_np (s\<lparr>f_mu := word_locked True a\<rparr>)))" using s by (simp add: has_open_def)
  have g: "gives_fd opn ?S d (err = None) (np_thr (pr_np s2))" using Accept_body_gives [OF f E(1) o body] s2 by simp
  have i: "pr_inited s2" using keepspD [OF Accept_inited [OF E(2)] _ body] s(2) s2 by simp
  show ?thesis
  proof (cases err)
    case (Some e)
    with rest g s2 a(2) show ?thesis by (auto simp: retp_def gives_fd_def has_open_def)
  next
    case None
    with g obtain w where w: "d = toint w" "d \<notin> ?S" "has_open opn (insert d ?S) (np_thr (pr_np s2))" by (auto simp: gives_fd_def)
    from None rest obtain y x where b: "beside (bindp (newFD d (nf_family fd) (nf_sotype fd) (nf_net fd))
        (\<lambda>netfd. or_close (alone E) L (accept_finish blk L netfd rsa))) s2 = Some (Ret (y, x), s')"
      and r: "r = (case y of Inl e \<Rightarrow> Inl e | Inr netfd \<Rightarrow> Inr (netfd, x))"
      by (auto simp: bindp_def retp_def split: option.splits prod.splits outcome.splits)
    from b obtain s4 where c: "bindp (newFD d (nf_family fd) (nf_sotype fd) (nf_net fd))
        (\<lambda>netfd. or_close (alone E) L (accept_finish blk L netfd rsa)) s2 = Some (Ret y, s4)" and x: "x = pollrt.more s4" "s' = with_fd (pollrt.more s2) s4"
      by (rule beside_Ret)
    from bindp_Ret [OF c] obtain netfd s3 where nf: "newFD d (nf_family fd) (nf_sotype fd) (nf_net fd) s2 = Some (Ret netfd, s3)"
      and oc: "or_close (alone E) L (accept_finish blk L netfd rsa) s3 = Some (Ret y, s4)" by blast
    have "owns opn (insert d ?S) (toint w) 0 s3" using nf w i by (auto simp: newFD_def prog_defs owns_def)
    from or_close_open [OF f owns_finish [OF lib] this oc] w(1,2)
    have k: "case y of Inl e \<Rightarrow> has_open opn ?S (np_thr (pr_np s4)) | Inr q \<Rightarrow> owns opn (insert d ?S) d 0 s4" by (auto split: sum.splits)
    have "f_mu s' = f_mu s" using x(2) s2 a(2) by simp
    moreover have "with_fd x s' = s4" using x with_fd_more [of s4] by (simp add: with_fd_def pollrt.defs)
    ultimately show ?thesis using k r x(2) w(2) by (auto simp: owns_def has_open_def split: sum.splits)
  qed
qed

section \<open>Witnesses: a listener whose options are refused, a connection accepted\<close>

definition libnet :: "int set libc" where
  "libnet fn as e w = (if fn = ''libc_setsockopt'' then (NOT 0, 0, 22, as, w) else libfd fn as e w)"

lemma libs_sock: "sock_libc libnet id" "sock_libc libfd id"
proof -
  have "toint 9 = 9" by (simp add: toint_def)
  then show "sock_libc libnet id" "sock_libc libfd id" by (simp_all add: sock_libc_def fds_libc_def libnet_def libfd_def Let_def)
qed

lemma fresh_closes:
  assumes "f_mu s = 0" "f_ctx s = None"
  shows "\<exists>e s'. FD_Close E L s = Some (Ret e, s')"
proof -
  let ?b = "fresh_mu\<lparr>a_closed := True, a_ref := Suc 0\<rparr>"
  have cl: "fdmu_increfAndClose 0 = Ret (True, word_of ?b, 0, 0)"
    using close_word [of fresh_mu] fresh_quiet by (simp add: fs_close_def fdst_ok_def)
  have dc: "fdmu_decref (word_of ?b) = Ret (True, word_of (?b\<lparr>a_ref := 0\<rparr>))"
    using decref_word [of ?b] by (simp add: fs_decref_def fdst_ok_def)
  show ?thesis
    by (simp add: assms cl [simplified] dc [simplified] FD_Close_def mup_def sem_release_def fpd_evict_def fd_decref_def fd_destroy_def fpd_close_def prog_defs csema_acquire_def
        case_prod_beta Let_def)
qed

lemma libnet_socket:
  "\<exists>t. sysSocket libnet False 2 SOCK_STREAM 0 (thr_of {5}) = (Inr 9, t) \<and> has_errno t"
proof -
  have t9: "toint 9 = 9" by (simp add: toint_def)
  obtain r1 r2 e as t1 where c: "rawSysvicall6 libnet ''libc_socket'' 3 [W 2, W SOCK_STREAM, W 0] (thr_of {5}) = ((r1, r2, e, as), t1)" by (metis prod.collapse)
  have k: "r1 = 9" "e = 0" "has_errno t1"
    using c by (auto simp: libcall_defs case_prod_beta Let_def has_errno_def thr_of_def libnet_def libfd_def)
  have a: "Socket libnet False 2 SOCK_STREAM 0 (thr_of {5}) = ((9, None), t1)"
    using c k by (simp add: Socket_def socket_def fd_err_def t9)
  show ?thesis using k(3)
    by (simp add: sysSocket_def a CloseOnExec_def SetNonblock_def fcntl_def int_err_def libnet_def libfd_def libcall_defs has_errno_def
        case_prod_beta Let_def goerr_def toint_def)
qed

theorem net_socket_no_leak_witness:
  "\<exists>e s'. net_socket 1 (alone (\<lambda>y s. s)) 0 libnet 0 False \<lparr>cx_hasDone = False, cx_deadline = None, cx_err = (\<lambda>s. None), cx_stop = (\<lambda>s. True)\<rparr>
      ''tcp'' 2 SOCK_STREAM 0 False 128 (Some \<lparr>na_sockaddr = (\<lambda>f. Inr None), na_wild = None\<rparr>) None None ((fd_plain {5} 0)\<lparr>pr_inited := True\<rparr>)
        = Some (Ret (Inl e), s')
    \<and> t_world (np_thr (pr_np s')) = {5}"
proof -
  let ?s = "(fd_plain {5} 0)\<lparr>pr_inited := True\<rparr> :: int set fdrt" and ?E = "alone (\<lambda>y s. s) :: int set fenv"
  obtain t where t: "sysSocket libnet False 2 SOCK_STREAM 0 (thr_of {5}) = (Inr 9, t)" "has_errno t" using libnet_socket by blast
  define s1 :: "int set fdrt" where "s1 = ?s\<lparr>pr_np := (pr_np (fd_plain {5} 0))\<lparr>np_thr := t\<rparr>, f_mu := 0, f_rsema := 0, f_wsema := 0, f_Sysfd := 9, f_ctx := None, f_csema := 0,
     f_isBlocking := False, f_IsStream := True, f_ZeroReadIsEOF := True, f_isFile := False\<rparr>"
  obtain t2 where o: "setDefaultListenerSockopts libnet 9 t = (Some (SyscallError ''setsockopt'' (Errno 22)), t2)"
  proof -
    obtain r1 r2 e bs t' where c: "sysvicall6 libnet ''libc_setsockopt'' 5 [W 9, W SOL_SOCKET, W 4, AI32s [int32 1], AWord 4] t = ((r1, r2, e, bs), t')"
      by (metis prod.collapse)
    from errno_call [OF t(2) c] have "e = 22" by (simp add: libnet_def)
    with c show ?thesis
      using that by (simp add: setDefaultListenerSockopts_def set_one_def SetsockoptInt_def setsockopt_def err_only_def NewSyscallError_def goerr_def case_prod_beta Let_def)
  qed
  let ?s2 = "s1\<lparr>pr_np := (pr_np s1)\<lparr>np_thr := t2\<rparr>\<rparr>"
  obtain e s' where cl: "FD_Close ?E libnet ?s2 = Some (Ret e, s')" using fresh_closes [of ?s2 ?E libnet] by (force simp: s1_def)
  have l: "listenStream libnet 0 fd a 128 None s1 = Some (Ret (Inl (SyscallError ''setsockopt'' (Errno 22))), ?s2)" for fd a
    using o by (simp add: listenStream_def prog_defs onfd_def s1_def)
  obtain r where run: "net_socket 1 ?E 0 libnet 0 False \<lparr>cx_hasDone = False, cx_deadline = None, cx_err = (\<lambda>s. None), cx_stop = (\<lambda>s. True)\<rparr>
      ''tcp'' 2 SOCK_STREAM 0 False 128 (Some \<lparr>na_sockaddr = (\<lambda>f. Inr None), na_wild = None\<rparr>) None None ?s = Some (Ret (Inl r), s')"
    using t(1) l cl by (simp add: net_socket_def tryp_def bindp_def sysp_def retp_def setDefaultSockopts_def newFD_def modp_def or_close_def socket_setup_def
        s1_def [symmetric])
  from net_socket_no_leak [OF libs_sock(1) idle_quiet _ _ _ _ run] have "t_world (np_thr (pr_np s')) = {5}"
    by (simp add: keeps_inited_def ctrl_quiet_def thr_of_def has_errno_def)
  with run show ?thesis by blast
qed

lemma netFD_init_ok:
  assumes "pr_first s = []" "pr_inited s"
  shows "\<exists>s1. netFD_init blk L net s = Some (Ret None, s1)"
proof -
  have "\<exists>pd s1. poll_runtime_pollOpen blk L fd s' = (Ret (Some pd, 0), s1)" if "pr_first s' = []" for fd and s' :: "'a fdrt"
  proof -
    obtain pd s1 where a: "pollcache_alloc blk s' = (pd, s1)" by fastforce
    then have "pd_at s1 pd = pd_zero" using that by (auto simp: pollcache_alloc_def pd_at_def Let_def hd_rev)
    moreover have "\<exists>d. pollOpen_reset fd pd_zero = Ret d" by (simp add: pollOpen_reset_def pd_zero_def blocked_def Let_def)
    ultimately obtain d where "pollOpen_reset fd (pd_at s1 pd) = Ret d" by auto
    with a show ?thesis by (simp add: poll_runtime_pollOpen_def netpollopen_def Let_def)
  qed
  moreover define s0 where "s0 = (if net = ''file'' then s\<lparr>f_isFile := True\<rparr> else s)"
  moreover have s0: "pr_first s0 = []" "pr_inited s0" "f_Sysfd s0 = f_Sysfd s" using assms by (simp_all add: s0_def)
  ultimately obtain pd s1 where o: "poll_runtime_pollOpen blk L (uptr (f_Sysfd s0)) s0 = (Ret (Some pd, 0), s1)" by blast
  have "FD_Init blk L net True s = Some (Ret None, s1\<lparr>f_ctx := Some pd\<rparr>)"
    using o s0 by (simp add: FD_Init_def fpd_init_def prog_defs poll_runtime_pollServerInit_def netpollGenericInit_def s0_def [symmetric])
  then show ?thesis by (simp add: netFD_init_def prog_defs)
qed

theorem netFD_accept_no_leak_witness:
  "\<exists>netfd x s'. netFD_accept 1 (alone (\<lambda>y s. s)) 0 libfd 0 \<lparr>nf_family = 2, nf_sotype = SOCK_STREAM, nf_net = ''tcp'', nf_isConnected = False,
       nf_laddr = None, nf_raddr = None\<rparr> ((fd_plain {5} 0)\<lparr>pr_inited := True\<rparr>) = Some (Ret (Inr (netfd, x)), s')
    \<and> f_Sysfd (with_fd x s') \<noteq> 5 \<and> t_world (np_thr (pr_np s')) = {5, f_Sysfd (with_fd x s')}"
proof -
  let ?s = "(fd_plain {5} 0)\<lparr>pr_inited := True\<rparr> :: int set fdrt" and ?E = "alone (\<lambda>y s. s) :: int set fenv"
  let ?l = "\<lparr>nf_family = 2, nf_sotype = SOCK_STREAM, nf_net = ''tcp'', nf_isConnected = False, nf_laddr = None, nf_raddr = None\<rparr> :: netFD"
  have s: "f_mu ?s = word_of fresh_mu" "has_errno (np_thr (pr_np ?s))" "pr_inited ?s" "t_world (np_thr (pr_np ?s)) = {5}"
    using fresh_quiet(2) by (simp_all add: thr_of_def has_errno_def)
  have q: "keeps_inited (\<lambda>y s. s :: int set fdrt)" by (simp add: keeps_inited_def)
  obtain sa s2 where a: "FD_Accept (Suc 0) ?E 0 libfd ?s = Some (Ret (9, sa, '''', None), s2)" "pr_first s2 = []"
    using libfd_FD_Accept [of True] by auto
  have i: "pr_inited s2"
  proof -
    obtain s1 where "guardp prepareRead (\<lambda>e. (-1, None, '''', Some e)) (Accept_loop (Suc 0) ?E 0 libfd) (?s\<lparr>f_mu := word_locked True fresh_mu\<rparr>)
        = Some (Ret (9, sa, '''', None), s1)" "s2 = s1\<lparr>f_mu := word_of fresh_mu\<rparr>"
      by (rule FD_Accept_run [OF fresh_quiet(1) s(1) a(1)])
    with keepspD [OF Accept_inited [OF q] _ this(1)] show ?thesis by simp
  qed
  define fd where "fd = ?l"
  define s3 where "s3 = s2\<lparr>f_mu := 0, f_rsema := 0, f_wsema := 0, f_Sysfd := 9, f_ctx := None, f_csema := 0, f_isBlocking := False,
         f_IsStream := True, f_ZeroReadIsEOF := True, f_isFile := False\<rparr>"
  obtain s4 where "netFD_init 0 libfd ''tcp'' s3 = Some (Ret None, s4)" using netFD_init_ok [of s3 0 libfd] a(2) i by (force simp: s3_def)
  then obtain netfd s5 where "accept_finish 0 libfd fd sa s3 = Some (Ret (Inr netfd), s5)"
    by (simp add: accept_finish_def fd_def local_addr_def onfd_def prog_defs case_prod_beta)
  then have "or_close ?E libfd (accept_finish 0 libfd fd sa) s3 = Some (Ret (Inr netfd), s5)" by (simp add: or_close_def prog_defs)
  moreover have "newFD 9 2 SOCK_STREAM ''tcp'' s2 = Some (Ret fd, s3)" by (simp add: newFD_def prog_defs fd_def s3_def)
  ultimately obtain x s' where run: "netFD_accept (Suc 0) ?E 0 libfd 0 ?l ?s = Some (Ret (Inr (netfd, x)), s')"
    using a(1) by (simp add: netFD_accept_def bindp_def beside_def retp_def)
  from netFD_accept_no_leak [OF libs_sock(2) idle_quiet q fresh_quiet(1) s(1-3) run] s(4) run show ?thesis by (simp add: insert_commute)
qed

end
