(* ===== verification/Os_Proc.thy ===== *)
theory Os_Proc
  imports Qnx_Sockaddr
begin

text \<open>
  Waiting for a child process and signalling it: \<open>Process\<close> of \<open>os/exec.go\<close> and \<open>os/exec_unix.go\<close> as QNX builds it, without
  a process handle. Any number of goroutines call \<open>Wait\<close>, \<open>Signal\<close> and \<open>Release\<close> on one \<open>Process\<close>; a step is one load, store
  or compare-and-swap, one operation on \<open>sigMu\<close> or one system call, and steps of all goroutines interleave. Next to them
  stands the process table, as far as the identifier of the child goes: which process has it (its generation; the child is
  generation 0), whether that process runs, is a zombie or is gone, and whether it is a child of this program. An identifier
  is free to be used again once its process is gone. Other parts of the program do not wait for the child. \<open>ps_took\<close> only
  records, for each goroutine, whose status its last successful \<open>Wait4\<close> took: the generation of that process, or nothing for
  a process with another identifier. No step reads it.

  \<open>blockUntilWaitable\<close> has one body per system. On QNX (\<open>os/wait_unimp.go\<close>) it does nothing; where \<open>waitid\<close> exists it returns
  when the child is a zombie. The parameter \<open>bw\<close> of the steps says which of the two is built in.
\<close>

section \<open>State\<close>

datatype processStatus = StOK | StDone | StReleased

datatype presult =
    Waited int
  | WaitEINVAL
  | WaitError
  | Sent
  | SignalDone
  | SignalReleased
  | SignalUnset
  | SignalError
  | Released

text \<open>Where a call of \<open>doRelease\<close> continues: in \<open>pidWait\<close> before or after \<open>Wait4\<close>, or at the end of \<open>Release\<close>.\<close>

datatype after = AMark | ADone int | ARel

datatype ppc =
    PIdle
  | PWaitStatus
  | PWaitBlock
  | PLoad after
  | PCas after
  | PWriteLock
  | PWriteUnlock
  | PWait4
  | PInWait int
  | PSigPid
  | PSigUnset
  | PSigRLock
  | PSigStatus
  | PSigKill
  | PSigCall int
  | PSigRUnlock presult
  | PRelPid
  | PRet presult

datatype plife = Alive | Zombie | Gone

datatype pevent = Kill nat | KillAll | Reap nat | ReapAny

record psys =
  ps_Pid :: int
  ps_status :: processStatus
  ps_readers :: nat
  ps_writer :: bool
  ps_pc :: "nat \<Rightarrow> ppc"
  ps_gen :: nat
  ps_life :: plife
  ps_ours :: bool
  ps_log :: "pevent list"
  ps_took :: "nat \<Rightarrow> nat option"

abbreviation pidReleased :: int where "pidReleased \<equiv> -1"
abbreviation pidUnset :: int where "pidUnset \<equiv> 0"

definition pgo :: "nat \<Rightarrow> ppc \<Rightarrow> psys \<Rightarrow> psys" where
  "pgo t p s = s\<lparr>ps_pc := (ps_pc s)(t := p)\<rparr>"

definition plog :: "pevent \<Rightarrow> psys \<Rightarrow> psys" where
  "plog e s = s\<lparr>ps_log := ps_log s @ [e]\<rparr>"

lemma pgo_took [simp]: "ps_took (pgo t p s) = ps_took s" "ps_took (plog e s) = ps_took s"
  by (simp_all add: pgo_def plog_def)

lemma pgo_fields [simp]: "ps_pc (pgo t p s) = (ps_pc s)(t := p)" "ps_Pid (pgo t p s) = ps_Pid s" "ps_status (pgo t p s) = ps_status s"
  "ps_readers (pgo t p s) = ps_readers s" "ps_writer (pgo t p s) = ps_writer s" "ps_gen (pgo t p s) = ps_gen s" "ps_life (pgo t p s) = ps_life s"
  "ps_ours (pgo t p s) = ps_ours s" "ps_log (pgo t p s) = ps_log s"
  by (simp_all add: pgo_def)

lemma plog_fields [simp]: "ps_pc (plog e s) = ps_pc s" "ps_Pid (plog e s) = ps_Pid s" "ps_status (plog e s) = ps_status s"
  "ps_readers (plog e s) = ps_readers s" "ps_writer (plog e s) = ps_writer s" "ps_gen (plog e s) = ps_gen s" "ps_life (plog e s) = ps_life s"
  "ps_ours (plog e s) = ps_ours s" "ps_log (plog e s) = ps_log s @ [e]"
  by (simp_all add: plog_def)

section \<open>Steps\<close>

fun release_status :: "after \<Rightarrow> processStatus" where
  "release_status ARel = StReleased"
| "release_status _ = StDone"

fun after_release :: "after \<Rightarrow> ppc" where
  "after_release AMark = PWriteLock"
| "after_release (ADone k) = PRet (Waited k)"
| "after_release ARel = PRet Released"

inductive doRelease_step :: "nat \<Rightarrow> psys \<Rightarrow> psys \<Rightarrow> bool" for t where
  load: "ps_pc s t = PLoad a \<Longrightarrow> doRelease_step t s (pgo t (if ps_status s \<noteq> StOK then after_release a else PCas a) s)"
| cas: "ps_pc s t = PCas a \<Longrightarrow> ps_status s = StOK \<Longrightarrow> doRelease_step t s (pgo t (after_release a) (s\<lparr>ps_status := release_status a\<rparr>))"
| cas_fails: "ps_pc s t = PCas a \<Longrightarrow> ps_status s \<noteq> StOK \<Longrightarrow> doRelease_step t s (pgo t (PLoad a) s)"

inductive pidWait_step :: "bool \<Rightarrow> int \<Rightarrow> nat \<Rightarrow> psys \<Rightarrow> psys \<Rightarrow> bool" for bw pid t where
  status: "ps_pc s t = PWaitStatus \<Longrightarrow> pidWait_step bw pid t s (pgo t (if ps_status s = StReleased then PRet WaitEINVAL else PWaitBlock) s)"
| unimp: "ps_pc s t = PWaitBlock \<Longrightarrow> \<not> bw \<Longrightarrow> pidWait_step bw pid t s (pgo t PWait4 s)"
| ready: "ps_pc s t = PWaitBlock \<Longrightarrow> bw \<Longrightarrow> ps_ours s \<Longrightarrow> ps_life s = Zombie \<Longrightarrow> pidWait_step bw pid t s (pgo t (PLoad AMark) s)"
| no_child: "ps_pc s t = PWaitBlock \<Longrightarrow> bw \<Longrightarrow> ps_life s = Gone \<or> \<not> ps_ours s \<Longrightarrow> pidWait_step bw pid t s (pgo t (PRet WaitError) s)"
| lock: "ps_pc s t = PWriteLock \<Longrightarrow> ps_readers s = 0 \<Longrightarrow> \<not> ps_writer s \<Longrightarrow> pidWait_step bw pid t s (pgo t PWriteUnlock (s\<lparr>ps_writer := True\<rparr>))"
| unlock: "ps_pc s t = PWriteUnlock \<Longrightarrow> pidWait_step bw pid t s (pgo t PWait4 (s\<lparr>ps_writer := False\<rparr>))"
| wait4: "ps_pc s t = PWait4 \<Longrightarrow> pidWait_step bw pid t s (pgo t (PInWait (ps_Pid s)) s)"
| eintr: "ps_pc s t = PInWait q \<Longrightarrow> pidWait_step bw pid t s (pgo t PWait4 s)"
| reap: "ps_pc s t = PInWait q \<Longrightarrow> q = pid \<or> q = -1 \<Longrightarrow> ps_ours s \<Longrightarrow> ps_life s = Zombie
    \<Longrightarrow> pidWait_step bw pid t s (pgo t (PLoad (ADone pid)) (plog (Reap (ps_gen s)) (s\<lparr>ps_life := Gone, ps_took := (ps_took s)(t := Some (ps_gen s))\<rparr>)))"
| reap_any: "ps_pc s t = PInWait (-1) \<Longrightarrow> k \<noteq> pid \<Longrightarrow> pidWait_step bw pid t s (pgo t (PLoad (ADone k)) (plog ReapAny (s\<lparr>ps_took := (ps_took s)(t := None)\<rparr>)))"
| echild: "ps_pc s t = PInWait q \<Longrightarrow> ps_life s = Gone \<or> \<not> ps_ours s \<Longrightarrow> pidWait_step bw pid t s (pgo t (PRet WaitError) s)"

inductive pidSignal_step :: "int \<Rightarrow> nat \<Rightarrow> psys \<Rightarrow> psys \<Rightarrow> bool" for pid t where
  released: "ps_pc s t = PSigPid \<Longrightarrow> pidSignal_step pid t s (pgo t (if ps_Pid s = pidReleased then PRet SignalReleased else PSigUnset) s)"
| unset: "ps_pc s t = PSigUnset \<Longrightarrow> pidSignal_step pid t s (pgo t (if ps_Pid s = pidUnset then PRet SignalUnset else PSigRLock) s)"
| rlock: "ps_pc s t = PSigRLock \<Longrightarrow> \<not> ps_writer s \<Longrightarrow> pidSignal_step pid t s (pgo t PSigStatus (s\<lparr>ps_readers := Suc (ps_readers s)\<rparr>))"
| status: "ps_pc s t = PSigStatus \<Longrightarrow> pidSignal_step pid t s (pgo t (case ps_status s of StOK \<Rightarrow> PSigKill
      | StDone \<Rightarrow> PSigRUnlock SignalDone | StReleased \<Rightarrow> PSigRUnlock SignalReleased) s)"
| pid: "ps_pc s t = PSigKill \<Longrightarrow> pidSignal_step pid t s (pgo t (PSigCall (ps_Pid s)) s)"
| kill: "ps_pc s t = PSigCall q \<Longrightarrow> q = pid \<Longrightarrow> ps_life s \<noteq> Gone
    \<Longrightarrow> pidSignal_step pid t s (pgo t (PSigRUnlock Sent) (plog (Kill (ps_gen s)) s))"
| esrch: "ps_pc s t = PSigCall q \<Longrightarrow> q = pid \<Longrightarrow> ps_life s = Gone \<Longrightarrow> pidSignal_step pid t s (pgo t (PSigRUnlock SignalDone) s)"
| kill_all: "ps_pc s t = PSigCall (-1) \<Longrightarrow> pidSignal_step pid t s (pgo t (PSigRUnlock Sent) (plog KillAll s))"
| refused: "ps_pc s t = PSigCall q \<Longrightarrow> pidSignal_step pid t s (pgo t (PSigRUnlock SignalError) s)"
| runlock: "ps_pc s t = PSigRUnlock r \<Longrightarrow> pidSignal_step pid t s (pgo t (PRet r) (s\<lparr>ps_readers := ps_readers s - 1\<rparr>))"

inductive Release_step :: "nat \<Rightarrow> psys \<Rightarrow> psys \<Rightarrow> bool" for t where
  set_pid: "ps_pc s t = PRelPid \<Longrightarrow> Release_step t s (pgo t (PLoad ARel) (s\<lparr>ps_Pid := -1\<rparr>))"

text \<open>The process table: the process ends; a new process gets the identifier.\<close>

inductive table_step :: "psys \<Rightarrow> psys \<Rightarrow> bool" where
  exits: "ps_life s = Alive \<Longrightarrow> table_step s (s\<lparr>ps_life := if ps_ours s then Zombie else Gone\<rparr>)"
| reused: "ps_life s = Gone \<Longrightarrow> table_step s (s\<lparr>ps_gen := Suc (ps_gen s), ps_life := Alive, ps_ours := ours\<rparr>)"

text \<open>\<open>rel\<close> says whether the program calls \<open>Release\<close>.\<close>

inductive proc_step :: "bool \<Rightarrow> bool \<Rightarrow> int \<Rightarrow> psys \<Rightarrow> psys \<Rightarrow> bool" for bw rel pid where
  call: "ps_pc s t = PIdle \<Longrightarrow> p \<in> {PWaitStatus, PSigPid} \<Longrightarrow> proc_step bw rel pid s (pgo t p s)"
| call_release: "ps_pc s t = PIdle \<Longrightarrow> rel \<Longrightarrow> proc_step bw rel pid s (pgo t PRelPid s)"
| release: "doRelease_step t s s' \<Longrightarrow> proc_step bw rel pid s s'"
| wait: "pidWait_step bw pid t s s' \<Longrightarrow> proc_step bw rel pid s s'"
| signal: "pidSignal_step pid t s s' \<Longrightarrow> proc_step bw rel pid s s'"
| rel: "Release_step t s s' \<Longrightarrow> proc_step bw rel pid s s'"
| return: "ps_pc s t = PRet r \<Longrightarrow> proc_step bw rel pid s (pgo t PIdle s)"
| table: "table_step s s' \<Longrightarrow> proc_step bw rel pid s s'"

definition newPIDProcess :: "int \<Rightarrow> psys" where
  "newPIDProcess pid = \<lparr>ps_Pid = pid, ps_status = StOK, ps_readers = 0, ps_writer = False, ps_pc = (\<lambda>t. PIdle),
     ps_gen = 0, ps_life = Alive, ps_ours = True, ps_log = [], ps_took = (\<lambda>t. None)\<rparr>"

inductive proc_reach :: "bool \<Rightarrow> bool \<Rightarrow> int \<Rightarrow> psys \<Rightarrow> bool" for bw rel pid where
  start: "proc_reach bw rel pid (newPIDProcess pid)"
| step: "proc_reach bw rel pid s \<Longrightarrow> proc_step bw rel pid s s' \<Longrightarrow> proc_reach bw rel pid s'"

inductive_cases proc_stepE: "proc_step bw rel pid s s'"
inductive_cases doRelease_stepE: "doRelease_step t s s'"
inductive_cases pidWait_stepE: "pidWait_step bw pid t s s'"
inductive_cases pidSignal_stepE: "pidSignal_step pid t s s'"
inductive_cases Release_stepE: "Release_step t s s'"
inductive_cases table_stepE: "table_step s s'"

lemmas proc_elims = proc_stepE doRelease_stepE pidWait_stepE pidSignal_stepE Release_stepE table_stepE

section \<open>What Wait reports\<close>

record ProcessState =
  pst_pid :: int
  pst_status :: u32
  pst_rusage :: Rusage

definition itoa :: "int \<Rightarrow> string" where
  "itoa k = (if k < 0 then ''-'' @ itoa_nat (nat (- k)) else itoa_nat (nat k))"

definition signals_table :: "(int \<times> string) list" where
  "signals_table =
     [(1, ''hangup''), (2, ''interrupt''), (9, ''killed''), (11, ''segmentation fault''), (13, ''broken pipe''),
      (15, ''terminated''), (21, ''urgent I/O condition'')]"

definition Signal_String :: "int \<Rightarrow> string" where
  "Signal_String sig = (case map_of signals_table sig of Some str \<Rightarrow> str | None \<Rightarrow> ''signal '' @ itoa sig)"

definition WaitStatus_TrapCause :: "u32 \<Rightarrow> int" where "WaitStatus_TrapCause w = -1"

definition ProcessState_exited :: "ProcessState \<Rightarrow> bool" where "ProcessState_exited ps = WaitStatus_Exited (pst_status ps)"
definition ProcessState_success :: "ProcessState \<Rightarrow> bool" where "ProcessState_success ps \<longleftrightarrow> WaitStatus_ExitStatus (pst_status ps) = 0"

definition ProcessState_ExitCode :: "ProcessState option \<Rightarrow> int" where
  "ProcessState_ExitCode p = (case p of None \<Rightarrow> -1 | Some ps \<Rightarrow> WaitStatus_ExitStatus (pst_status ps))"

definition ProcessState_String :: "ProcessState option \<Rightarrow> string" where
  "ProcessState_String p =
     (case p of None \<Rightarrow> ''<nil>''
      | Some ps \<Rightarrow>
          (let w = pst_status ps;
               res = (if WaitStatus_Exited w then ''exit status '' @ itoa (WaitStatus_ExitStatus w)
                      else if WaitStatus_Signaled w then ''signal: '' @ Signal_String (WaitStatus_Signal w)
                      else if WaitStatus_Stopped w
                      then ''stop signal: '' @ Signal_String (WaitStatus_StopSignal w)
                           @ (if WaitStatus_StopSignal w = 5 \<and> WaitStatus_TrapCause w \<noteq> 0 then '' (trap '' @ itoa (WaitStatus_TrapCause w) @ '')'' else '''')
                      else if WaitStatus_Continued w then ''continued'' else '''')
           in res @ (if WaitStatus_CoreDump w then '' (core dumped)'' else '''')))"

section \<open>No signal any more\<close>

definition killing :: "ppc \<Rightarrow> bool" where
  "killing p \<longleftrightarrow> p = PSigKill \<or> (\<exists>q. p = PSigCall q)"

lemma killing_simps [simp]: "killing PSigKill" "killing (PSigCall q)" "\<not> killing PIdle" "\<not> killing PWaitStatus" "\<not> killing PWaitBlock"
  "\<not> killing (PLoad a)" "\<not> killing (PCas a)" "\<not> killing PWriteLock" "\<not> killing PWriteUnlock" "\<not> killing PWait4" "\<not> killing (PInWait q)"
  "\<not> killing PSigPid" "\<not> killing PSigUnset" "\<not> killing PSigRLock" "\<not> killing PSigStatus" "\<not> killing (PSigRUnlock r)" "\<not> killing PRelPid" "\<not> killing (PRet r)"
  by (simp_all add: killing_def)

lemma killing_after [simp]: "\<not> killing (after_release a)"
  by (cases a) simp_all

lemma status_release [simp]: "release_status a \<noteq> StOK"
  by (cases a) simp_all

definition quiet :: "psys \<Rightarrow> bool" where
  "quiet s \<longleftrightarrow> ps_status s \<noteq> StOK \<and> (\<forall>t. \<not> killing (ps_pc s t))"

definition kills :: "psys \<Rightarrow> pevent list" where
  "kills s = filter (\<lambda>e. e = KillAll \<or> (\<exists>g. e = Kill g)) (ps_log s)"

lemma done_step: "proc_step bw rel pid s s' \<Longrightarrow> quiet s \<Longrightarrow> quiet s' \<and> kills s' = kills s"
  by (elim proc_elims) (auto simp: quiet_def kills_def split: processStatus.splits, (metis killing_simps(1,2))+)

lemma quiet_run: "(proc_step bw rel pid)\<^sup>*\<^sup>* s s' \<Longrightarrow> quiet s \<Longrightarrow> quiet s' \<and> kills s' = kills s"
  by (induction rule: rtranclp_induct) (auto dest: done_step)

section \<open>The lock\<close>

definition reading :: "ppc \<Rightarrow> bool" where
  "reading p \<longleftrightarrow> p = PSigStatus \<or> p = PSigKill \<or> (\<exists>q. p = PSigCall q) \<or> (\<exists>r. p = PSigRUnlock r)"

lemma reading_simps [simp]: "reading PSigStatus" "reading PSigKill" "reading (PSigCall q)" "reading (PSigRUnlock r)"
  "\<not> reading PIdle" "\<not> reading PWaitStatus" "\<not> reading PWaitBlock" "\<not> reading (PLoad a)" "\<not> reading (PCas a)" "\<not> reading PWriteLock"
  "\<not> reading PWriteUnlock" "\<not> reading PWait4" "\<not> reading (PInWait q)" "\<not> reading PSigPid" "\<not> reading PSigUnset" "\<not> reading PSigRLock"
  "\<not> reading PRelPid" "\<not> reading (PRet r)"
  by (simp_all add: reading_def)

lemma after_simps [simp]: "\<not> reading (after_release a)" "after_release a \<noteq> PWriteUnlock" "after_release a \<noteq> PWait4" "after_release a \<noteq> PInWait q"
  by (cases a; simp)+

definition readers :: "psys \<Rightarrow> nat set" where
  "readers s = {t. reading (ps_pc s t)}"

lemma readers_go: "readers (pgo t p s) = (if reading p then insert t (readers s) else readers s - {t})"
  by (auto simp: readers_def)

definition sigMu_ok :: "psys \<Rightarrow> bool" where
  "sigMu_ok s \<longleftrightarrow> finite (readers s) \<and> card (readers s) = ps_readers s
     \<and> (ps_writer s \<longrightarrow> ps_readers s = 0) \<and> (\<forall>t. ps_pc s t = PWriteUnlock \<longrightarrow> ps_writer s)
     \<and> (\<forall>t u. ps_pc s t = PWriteUnlock \<longrightarrow> ps_pc s u = PWriteUnlock \<longrightarrow> t = u)"

lemma readers_fields: "ps_pc r = ps_pc s \<Longrightarrow> readers r = readers s"
  by (simp add: readers_def)

lemma sigMu_intro:
  assumes "finite (readers s)" "card (readers s) = ps_readers s" "ps_writer s \<Longrightarrow> ps_readers s = 0"
    and "\<And>t. ps_pc s t = PWriteUnlock \<Longrightarrow> ps_writer s" "\<And>t u. ps_pc s t = PWriteUnlock \<Longrightarrow> ps_pc s u = PWriteUnlock \<Longrightarrow> t = u"
  shows "sigMu_ok s"
  unfolding sigMu_ok_def using assms by blast

lemma sigMu_D:
  assumes "sigMu_ok s"
  shows "finite (readers s)" "card (readers s) = ps_readers s" "ps_writer s \<Longrightarrow> ps_readers s = 0"
    "ps_pc s t = PWriteUnlock \<Longrightarrow> ps_writer s" "ps_pc s t = PWriteUnlock \<Longrightarrow> ps_pc s u = PWriteUnlock \<Longrightarrow> t = u"
  using assms unfolding sigMu_ok_def by blast+

lemma sigMu_go:
  assumes "sigMu_ok s" "ps_pc r = ps_pc s" "ps_readers r = ps_readers s" "ps_writer r = ps_writer s"
    and "reading p \<longleftrightarrow> reading (ps_pc s t)" "p \<noteq> PWriteUnlock"
  shows "sigMu_ok (pgo t p r)"
proof -
  have "readers (pgo t p r) = readers s"
    using assms(2,5) by (auto simp: readers_def)
  with sigMu_D [OF assms(1)] show ?thesis using assms(2-4,6) by (intro sigMu_intro) (auto split: if_splits)
qed

lemma sigMu_lock:
  assumes "sigMu_ok s" "ps_pc s t = PWriteLock" "ps_readers s = 0" "\<not> ps_writer s"
  shows "sigMu_ok (pgo t PWriteUnlock (s\<lparr>ps_writer := True\<rparr>))"
proof -
  have e: "readers s = {}" using sigMu_D(1,2) [OF assms(1)] assms(3) by simp
  have "readers (s\<lparr>ps_writer := True\<rparr>) = readers s" by (rule readers_fields) simp
  with e sigMu_D(4) [OF assms(1)] assms(3,4) show ?thesis
    by (intro sigMu_intro) (auto simp: readers_go split: if_splits)
qed

lemma sigMu_unlock:
  assumes "sigMu_ok s" "ps_pc s t = PWriteUnlock"
  shows "sigMu_ok (pgo t PWait4 (s\<lparr>ps_writer := False\<rparr>))"
proof -
  have n: "t \<notin> readers s" using assms(2) by (simp add: readers_def)
  have "readers (s\<lparr>ps_writer := False\<rparr>) = readers s" by (rule readers_fields) simp
  moreover have "u = t" if "ps_pc s u = PWriteUnlock" for u using sigMu_D(5) [OF assms(1) that assms(2)] .
  ultimately show ?thesis using n sigMu_D(1,2) [OF assms(1)]
    by (intro sigMu_intro) (auto simp: readers_go split: if_splits)
qed

lemma sigMu_rlock:
  assumes "sigMu_ok s" "ps_pc s t = PSigRLock" "\<not> ps_writer s"
  shows "sigMu_ok (pgo t PSigStatus (s\<lparr>ps_readers := Suc (ps_readers s)\<rparr>))"
proof -
  have n: "t \<notin> readers s" using assms(2) by (simp add: readers_def)
  have "readers (s\<lparr>ps_readers := Suc (ps_readers s)\<rparr>) = readers s" by (rule readers_fields) simp
  with n sigMu_D [OF assms(1)] assms(3) show ?thesis
    by (intro sigMu_intro) (auto simp: readers_go split: if_splits)
qed

lemma sigMu_runlock:
  assumes "sigMu_ok s" "ps_pc s t = PSigRUnlock r"
  shows "sigMu_ok (pgo t (PRet r) (s\<lparr>ps_readers := ps_readers s - 1\<rparr>))"
proof -
  have n: "t \<in> readers s" using assms(2) by (simp add: readers_def)
  have "readers (s\<lparr>ps_readers := ps_readers s - 1\<rparr>) = readers s" by (rule readers_fields) simp
  with n sigMu_D [OF assms(1)] show ?thesis
    by (intro sigMu_intro) (auto simp: readers_go split: if_splits)
qed

lemma sigMu_table: "sigMu_ok (s\<lparr>ps_life := l\<rparr>) = sigMu_ok s" "sigMu_ok (s\<lparr>ps_gen := g, ps_life := l, ps_ours := b\<rparr>) = sigMu_ok s"
  by (simp_all add: sigMu_ok_def readers_def)

lemmas sigMu_moves = sigMu_lock sigMu_unlock sigMu_rlock sigMu_runlock [simplified] sigMu_table

lemma sigMu_step: "proc_step bw rel pid s s' \<Longrightarrow> sigMu_ok s \<Longrightarrow> sigMu_ok s'"
proof (elim proc_elims)
qed (auto simp: sigMu_moves intro!: sigMu_go split: processStatus.split)

section \<open>Without Release\<close>

text \<open>Where a goroutine may be, and what a \<open>Wait\<close> that is through has brought about.\<close>

fun fixed :: "int \<Rightarrow> bool \<Rightarrow> bool \<Rightarrow> ppc \<Rightarrow> bool" where
  "fixed pid over reaped PRelPid = False"
| "fixed pid over reaped (PLoad a) = (a = AMark \<or> a = ADone pid \<and> reaped)"
| "fixed pid over reaped (PCas a) = (a = AMark \<or> a = ADone pid \<and> reaped)"
| "fixed pid over reaped (PInWait q) = (q = pid)"
| "fixed pid over reaped (PSigCall q) = (q = pid)"
| "fixed pid over reaped (PSigRUnlock r) = (\<forall>k. r \<noteq> Waited k)"
| "fixed pid over reaped (PRet r) = (\<forall>k. r = Waited k \<longrightarrow> k = pid \<and> over \<and> reaped)"
| "fixed pid over reaped _ = True"

definition unreleased :: "int \<Rightarrow> psys \<Rightarrow> bool" where
  "unreleased pid s \<longleftrightarrow> ps_Pid s = pid \<and> ps_status s \<noteq> StReleased
     \<and> (\<forall>t. fixed pid (ps_status s \<noteq> StOK) (Reap 0 \<in> set (ps_log s)) (ps_pc s t))
     \<and> KillAll \<notin> set (ps_log s) \<and> ReapAny \<notin> set (ps_log s)"

lemma fixed_mono: "fixed pid a b p \<Longrightarrow> (a \<Longrightarrow> a') \<Longrightarrow> (b \<Longrightarrow> b') \<Longrightarrow> fixed pid a' b' p"
  by (cases p) auto

lemma unreleased_go:
  assumes "unreleased pid s" "ps_pc r = ps_pc s" "ps_Pid r = ps_Pid s" "ps_status r \<noteq> StReleased"
    and "ps_status s \<noteq> StOK \<Longrightarrow> ps_status r \<noteq> StOK" "set (ps_log s) \<subseteq> set (ps_log r)" "KillAll \<notin> set (ps_log r)" "ReapAny \<notin> set (ps_log r)"
    and "fixed pid (ps_status r \<noteq> StOK) (Reap 0 \<in> set (ps_log r)) p"
  shows "unreleased pid (pgo t p r)"
proof -
  have "fixed pid (ps_status s \<noteq> StOK) (Reap 0 \<in> set (ps_log s)) (ps_pc s u)" for u using assms(1) by (simp add: unreleased_def)
  then have "fixed pid (ps_status r \<noteq> StOK) (Reap 0 \<in> set (ps_log r)) (ps_pc s u)" for u
    by (rule fixed_mono) (use assms(5,6) in auto)
  with assms show ?thesis by (simp add: unreleased_def)
qed

lemma unreleased_table: "unreleased pid (s\<lparr>ps_life := l\<rparr>) = unreleased pid s" "unreleased pid (s\<lparr>ps_gen := g, ps_life := l, ps_ours := b\<rparr>) = unreleased pid s"
  by (simp_all add: unreleased_def)

text \<open>The identifier leaves the child only when a \<open>Wait\<close> takes its status, once; a signal to another process comes later.\<close>

definition late_kills :: "pevent list \<Rightarrow> bool" where
  "late_kills es \<longleftrightarrow> (\<forall>as g bs. es = as @ Kill g # bs \<longrightarrow> 0 < g \<longrightarrow> Reap 0 \<in> set as)"

definition table_ok :: "psys \<Rightarrow> bool" where
  "table_ok s \<longleftrightarrow> (ps_gen s = 0 \<longrightarrow> ps_ours s) \<and> (Reap 0 \<in> set (ps_log s) \<longleftrightarrow> 0 < ps_gen s \<or> ps_life s = Gone)
     \<and> count_list (ps_log s) (Reap 0) \<le> 1 \<and> late_kills (ps_log s)"

lemma late_kills_snoc: "late_kills es \<Longrightarrow> (\<And>g. e = Kill g \<Longrightarrow> 0 < g \<Longrightarrow> Reap 0 \<in> set es) \<Longrightarrow> late_kills (es @ [e])"
  unfolding late_kills_def by (auto simp: append_eq_append_conv2 append_eq_Cons_conv Cons_eq_append_conv)

lemma count_list_0: "x \<notin> set xs \<Longrightarrow> count_list xs x = 0"
  by (simp add: count_list_0_iff)

lemma table_kept: "proc_step bw rel pid s s' \<Longrightarrow> table_ok s \<Longrightarrow> table_ok s'"
  by (elim proc_elims) (auto simp: table_ok_def count_list_0 intro!: late_kills_snoc)

lemma unreleased_D:
  assumes "unreleased pid s"
  shows "ps_Pid s = pid" "ps_status s \<noteq> StReleased" "KillAll \<notin> set (ps_log s)" "ReapAny \<notin> set (ps_log s)"
    "ps_pc s t = p \<Longrightarrow> fixed pid (ps_status s \<noteq> StOK) (Reap 0 \<in> set (ps_log s)) p"
  using assms by (auto simp: unreleased_def)

lemma unreleased_release: "doRelease_step t s s' \<Longrightarrow> unreleased pid s \<Longrightarrow> unreleased pid s'"
  by (erule doRelease_stepE; frule (1) unreleased_D(5)) (auto intro!: unreleased_go simp: unreleased_D(2-4))

lemma unreleased_wait: "pidWait_step bw pid t s s' \<Longrightarrow> table_ok s \<Longrightarrow> unreleased pid s \<Longrightarrow> 0 < pid \<Longrightarrow> unreleased pid s'"
  by (elim pidWait_stepE) (auto intro!: unreleased_go dest: unreleased_D(5) simp: unreleased_D(1-4) table_ok_def)

lemma unreleased_signal: "pidSignal_step pid t s s' \<Longrightarrow> unreleased pid s \<Longrightarrow> 0 < pid \<Longrightarrow> unreleased pid s'"
  by (elim pidSignal_stepE) (auto intro!: unreleased_go dest: unreleased_D(5) simp: unreleased_D(1-4) split: processStatus.split)

lemma unreleased_step:
  assumes "proc_step bw False pid s s'" "table_ok s" "unreleased pid s" "0 < pid"
  shows "unreleased pid s'"
  using assms(1)
proof cases
  case (rel t)
  with assms(3) show ?thesis by (auto elim!: Release_stepE dest: unreleased_D(5))
next
  case table
  with assms(3) show ?thesis by (auto elim!: table_stepE simp: unreleased_table)
qed (use assms(2-4) unreleased_release unreleased_wait unreleased_signal in
      \<open>auto intro!: unreleased_go simp: unreleased_D(2-4)\<close>)

section \<open>With waitid\<close>

definition past_lock :: "ppc \<Rightarrow> bool" where
  "past_lock p \<longleftrightarrow> p = PWriteUnlock \<or> p = PWait4 \<or> (\<exists>q. p = PInWait q)"

definition ready_ok :: "psys \<Rightarrow> bool" where
  "ready_ok s \<longleftrightarrow> (\<forall>t. ps_pc s t = PWriteLock \<longrightarrow> ps_status s \<noteq> StOK) \<and> (\<forall>t. past_lock (ps_pc s t) \<longrightarrow> quiet s)
     \<and> (Reap 0 \<in> set (ps_log s) \<longrightarrow> quiet s) \<and> (\<forall>g. Kill g \<in> set (ps_log s) \<longrightarrow> g = 0)"

lemma locked_quiet:
  assumes "sigMu_ok s" "ps_readers s = 0" "ps_status s \<noteq> StOK"
  shows "quiet s"
proof -
  have "readers s = {}" using sigMu_D(1,2) [OF assms(1)] assms(2) by simp
  then have "\<not> killing (ps_pc s t)" for t by (auto simp: readers_def killing_def reading_def)
  with assms(3) show ?thesis by (simp add: quiet_def)
qed

lemma ready_intro:
  assumes "ready_ok s" "proc_step bw rel pid s s'"
    and "\<And>t. ps_pc s' t = PWriteLock \<Longrightarrow> ps_pc s t = PWriteLock \<and> ps_status s' = ps_status s \<or> ps_status s' \<noteq> StOK"
    and "\<And>t. past_lock (ps_pc s' t) \<Longrightarrow> (\<exists>u. past_lock (ps_pc s u)) \<or> quiet s"
    and "Reap 0 \<in> set (ps_log s') \<Longrightarrow> Reap 0 \<in> set (ps_log s) \<or> (\<exists>u. past_lock (ps_pc s u))"
    and "\<And>g. Kill g \<in> set (ps_log s') \<Longrightarrow> Kill g \<in> set (ps_log s) \<or> g = 0"
  shows "ready_ok s'"
proof -
  have q: "quiet s'" if "quiet s" using done_step [OF assms(2) that] by simp
  show ?thesis
    unfolding ready_ok_def
  proof (intro conjI allI impI)
    fix t assume "ps_pc s' t = PWriteLock"
    with assms(1) assms(3) [of t] show "ps_status s' \<noteq> StOK" by (auto simp: ready_ok_def)
  next
    fix t assume "past_lock (ps_pc s' t)"
    with assms(1) assms(4) [of t] q show "quiet s'" by (auto simp: ready_ok_def)
  next
    assume "Reap 0 \<in> set (ps_log s')"
    with assms(1,5) q show "quiet s'" by (auto simp: ready_ok_def)
  next
    fix g assume "Kill g \<in> set (ps_log s')"
    with assms(1) assms(6) [of g] show "g = 0" by (auto simp: ready_ok_def)
  qed
qed

lemma ready_step:
  assumes "proc_step True rel pid s s'" "sigMu_ok s" "table_ok s" "ready_ok s"
  shows "ready_ok s'"
proof (rule ready_intro [OF assms(4,1)])
  fix t assume "ps_pc s' t = PWriteLock"
  with assms(1) show "ps_pc s t = PWriteLock \<and> ps_status s' = ps_status s \<or> ps_status s' \<noteq> StOK"
    by (elim proc_elims) (auto split: if_splits processStatus.splits)
next
  fix t assume "past_lock (ps_pc s' t)"
  with assms(1,2,4) locked_quiet show "(\<exists>u. past_lock (ps_pc s u)) \<or> quiet s"
    by (elim proc_elims) (auto simp: past_lock_def ready_ok_def split: if_splits processStatus.splits)
next
  assume "Reap 0 \<in> set (ps_log s')"
  with assms(1) show "Reap 0 \<in> set (ps_log s) \<or> (\<exists>u. past_lock (ps_pc s u))"
    by (elim proc_elims) (auto simp: past_lock_def)
next
  fix g assume k: "Kill g \<in> set (ps_log s')"
  show "Kill g \<in> set (ps_log s) \<or> g = 0"
  proof (rule disjCI)
    assume "g \<noteq> 0"
    show "Kill g \<in> set (ps_log s)"
    proof (rule ccontr)
      assume n: "Kill g \<notin> set (ps_log s)"
      with assms(1) k obtain t q where "ps_pc s t = PSigCall q" "g = ps_gen s" by (elim proc_elims) auto
      with assms(3,4) \<open>g \<noteq> 0\<close> have "quiet s" by (auto simp: table_ok_def ready_ok_def)
      with \<open>ps_pc s t = PSigCall q\<close> show False by (metis quiet_def killing_simps(2))
    qed
  qed
qed

section \<open>Whose status a Wait has taken\<close>

text \<open>A goroutine whose \<open>Wait4\<close> has succeeded and whose \<open>Wait\<close> is still to return, or has just returned.\<close>

fun holder :: "ppc \<Rightarrow> bool" where
  "holder (PLoad a) = (\<exists>k. a = ADone k)"
| "holder (PCas a) = (\<exists>k. a = ADone k)"
| "holder (PSigRUnlock r) = (\<exists>k. r = Waited k)"
| "holder (PRet r) = (\<exists>k. r = Waited k)"
| "holder _ = False"

lemma holder_after [simp]: "holder (after_release a) \<longleftrightarrow> (\<exists>k. a = ADone k)"
  by (cases a) auto

definition late_reaps :: "pevent list \<Rightarrow> bool" where
  "late_reaps es \<longleftrightarrow> (\<forall>as g bs. es = as @ Reap g # bs \<longrightarrow> 0 < g \<longrightarrow> Reap 0 \<in> set as)"

lemma late_reaps_snoc: "late_reaps es \<Longrightarrow> (\<And>g. e = Reap g \<Longrightarrow> 0 < g \<Longrightarrow> Reap 0 \<in> set es) \<Longrightarrow> late_reaps (es @ [e])"
  unfolding late_reaps_def by (auto simp: append_eq_append_conv2 append_eq_Cons_conv Cons_eq_append_conv)

definition reaps_ok :: "psys \<Rightarrow> bool" where
  "reaps_ok s \<longleftrightarrow> (\<forall>g. Reap g \<in> set (ps_log s) \<longrightarrow> g < ps_gen s \<or> g = ps_gen s \<and> ps_life s = Gone)
     \<and> (\<forall>g. count_list (ps_log s) (Reap g) \<le> 1) \<and> late_reaps (ps_log s)"

definition backed :: "psys \<Rightarrow> nat option \<Rightarrow> bool" where
  "backed s x \<longleftrightarrow> (case x of None \<Rightarrow> ReapAny | Some g \<Rightarrow> Reap g) \<in> set (ps_log s)"

definition took_ok :: "psys \<Rightarrow> bool" where
  "took_ok s \<longleftrightarrow> (\<forall>t. holder (ps_pc s t) \<longrightarrow> backed s (ps_took s t))
     \<and> (\<forall>t u. holder (ps_pc s t) \<longrightarrow> holder (ps_pc s u) \<longrightarrow> t \<noteq> u \<longrightarrow> ps_took s t = ps_took s u \<longrightarrow> ps_took s t = None)"

lemma took_D:
  assumes "took_ok s" "holder (ps_pc s t)"
  shows "backed s (ps_took s t)" "holder (ps_pc s u) \<Longrightarrow> t \<noteq> u \<Longrightarrow> ps_took s t = ps_took s u \<Longrightarrow> ps_took s t = None"
  using assms unfolding took_ok_def by blast+

lemma backed_mono: "backed s x \<Longrightarrow> set (ps_log s) \<subseteq> set (ps_log r) \<Longrightarrow> backed r x"
  by (auto simp: backed_def)

lemma reaps_kept: "proc_step bw rel pid s s' \<Longrightarrow> table_ok s \<Longrightarrow> reaps_ok s \<Longrightarrow> reaps_ok s'"
  by (elim proc_elims) (auto simp: table_ok_def reaps_ok_def count_list_0 intro!: late_reaps_snoc intro: less_SucI, (metis count_list_0 less_irrefl)+)

lemma took_intro:
  assumes "took_ok s" "ps_pc r = ps_pc s" "ps_took r = ps_took s" "set (ps_log s) \<subseteq> set (ps_log r)"
    and "holder p \<Longrightarrow> holder (ps_pc s t)"
  shows "took_ok (pgo t p r)"
proof -
  have h: "holder (ps_pc s u)" if "holder (ps_pc (pgo t p r) u)" for u using that assms(2,5) by (auto split: if_splits)
  then have b: "backed (pgo t p r) (ps_took s u)" if "holder (ps_pc (pgo t p r) u)" for u
    using backed_mono [OF took_D(1) [OF assms(1) h [OF that]], of "pgo t p r"] assms(4) by simp
  have n: "ps_took s u = None"
    if "holder (ps_pc (pgo t p r) u)" "holder (ps_pc (pgo t p r) v)" "u \<noteq> v" "ps_took s u = ps_took s v" for u v
    by (rule took_D(2) [OF assms(1) h [OF that(1)] h [OF that(2)] that(3,4)])
  show ?thesis unfolding took_ok_def pgo_took assms(3) using b n by blast
qed

lemma took_reap:
  assumes "took_ok s" "\<And>u. holder (ps_pc s u) \<Longrightarrow> g = None \<or> ps_took s u \<noteq> g"
    and "e = (case g of None \<Rightarrow> ReapAny | Some n \<Rightarrow> Reap n)" "ps_pc r = ps_pc s" "ps_took r = (ps_took s)(t := g)" "ps_log r = ps_log s"
  shows "took_ok (pgo t p (plog e r))"
proof -
  let ?r = "pgo t p (plog e r)"
  have h: "u = t \<and> ps_took ?r u = g \<or> u \<noteq> t \<and> holder (ps_pc s u) \<and> ps_took ?r u = ps_took s u" if "holder (ps_pc ?r u)" for u
    using that assms(4,5) by (auto split: if_splits)
  have "backed ?r g" using assms(3) by (simp add: backed_def)
  moreover have "backed ?r x" if "backed s x" for x using that assms(6) by (auto intro: backed_mono [of s])
  ultimately have "backed ?r (ps_took ?r u)" if "holder (ps_pc ?r u)" for u
    using h [OF that] took_D(1) [OF assms(1)] by metis
  moreover have "ps_took ?r u = None" if "holder (ps_pc ?r u)" "holder (ps_pc ?r v)" "u \<noteq> v" "ps_took ?r u = ps_took ?r v" for u v
    using h [OF that(1)] h [OF that(2)] that(3,4) assms(2) took_D(2) [OF assms(1)] by metis
  ultimately show ?thesis unfolding took_ok_def by blast
qed

lemma took_table: "took_ok (s\<lparr>ps_life := l\<rparr>) = took_ok s" "took_ok (s\<lparr>ps_gen := g, ps_life := l, ps_ours := b\<rparr>) = took_ok s"
  by (simp_all add: took_ok_def backed_def)

lemma took_fresh:
  assumes "took_ok s" "reaps_ok s" "ps_life s = Zombie" "holder (ps_pc s u)"
  shows "ps_took s u \<noteq> Some (ps_gen s)"
  using took_D(1) [OF assms(1,4)] assms(2,3) by (auto simp: backed_def reaps_ok_def)

lemma took_wait: "pidWait_step bw pid t s s' \<Longrightarrow> reaps_ok s \<Longrightarrow> took_ok s \<Longrightarrow> took_ok s'"
proof (elim pidWait_stepE)
  fix q assume "s' = pgo t (PLoad (ADone pid)) (plog (Reap (ps_gen s)) (s\<lparr>ps_life := Gone, ps_took := (ps_took s)(t := Some (ps_gen s))\<rparr>))"
    and "reaps_ok s" "took_ok s" "ps_life s = Zombie"
  then show "took_ok s'" by (simp, intro took_reap [of s "Some (ps_gen s)"]) (auto dest: took_fresh)
next
  fix k assume "s' = pgo t (PLoad (ADone k)) (plog ReapAny (s\<lparr>ps_took := (ps_took s)(t := None)\<rparr>))" and "took_ok s"
  then show "took_ok s'" by (simp, intro took_reap [of s None]) auto
qed (auto intro!: took_intro split: if_splits)

lemma took_step:
  assumes "proc_step bw rel pid s s'" "reaps_ok s" "took_ok s"
  shows "took_ok s'"
  using assms(1)
proof cases
  case (wait t)
  with assms(2,3) show ?thesis by (simp add: took_wait)
next
  case (release t)
  from this(1) assms(3) show ?thesis by (elim doRelease_stepE) (auto intro!: took_intro split: if_splits)
next
  case (signal t)
  from this(1) assms(3) show ?thesis by (elim pidSignal_stepE) (auto intro!: took_intro split: if_splits processStatus.splits)
next
  case (rel t)
  from this(1) assms(3) show ?thesis by (elim Release_stepE) (auto intro!: took_intro)
next
  case table
  with assms(3) show ?thesis by (auto elim!: table_stepE simp: took_table)
qed (use assms(3) in \<open>auto intro!: took_intro\<close>)

section \<open>Reachable states\<close>

lemma start_ok:
  "sigMu_ok (newPIDProcess pid)" "table_ok (newPIDProcess pid)" "unreleased pid (newPIDProcess pid)" "ready_ok (newPIDProcess pid)"
  "reaps_ok (newPIDProcess pid)" "took_ok (newPIDProcess pid)"
  by (simp_all add: reaps_ok_def took_ok_def late_reaps_def newPIDProcess_def sigMu_ok_def readers_def table_ok_def late_kills_def unreleased_def ready_ok_def past_lock_def)

lemma proc_reach_ok:
  assumes "proc_reach bw rel pid s"
  shows "sigMu_ok s \<and> table_ok s \<and> (bw \<longrightarrow> ready_ok s) \<and> reaps_ok s \<and> took_ok s"
  using assms by induction (auto simp: start_ok sigMu_step table_kept ready_step intro: reaps_kept took_step)

lemma reach_unreleased:
  assumes "proc_reach bw False pid s" "0 < pid"
  shows "unreleased pid s"
  using assms by (induction) (auto simp: start_ok intro: unreleased_step dest: proc_reach_ok)

section \<open>Three races\<close>

lemma new_fields [simp]: "ps_Pid (newPIDProcess pid) = pid" "ps_status (newPIDProcess pid) = StOK" "ps_readers (newPIDProcess pid) = 0"
  "ps_writer (newPIDProcess pid) = False" "ps_pc (newPIDProcess pid) t = PIdle" "ps_gen (newPIDProcess pid) = 0"
  "ps_life (newPIDProcess pid) = Alive" "ps_ours (newPIDProcess pid)" "ps_log (newPIDProcess pid) = []"
  by (simp_all add: newPIDProcess_def)

text \<open>A \<open>Signal\<close> that has looked at the status and is about to read \<open>p.Pid\<close>.\<close>

definition signalling :: psys where
  "signalling = pgo 1 PSigKill ((newPIDProcess 7)\<lparr>ps_readers := 1\<rparr>)"

lemma signalling_fields [simp]: "ps_Pid signalling = 7" "ps_status signalling = StOK" "ps_readers signalling = 1" "ps_writer signalling = False"
  "ps_pc signalling = (\<lambda>t. PIdle)(1 := PSigKill)" "ps_gen signalling = 0" "ps_life signalling = Alive" "ps_ours signalling" "ps_log signalling = []"
  by (simp_all add: signalling_def newPIDProcess_def)

lemma signalling_reach: "proc_reach bw rel 7 signalling"
proof -
  let ?s = "newPIDProcess 7"
  note sig = proc_reach.step [OF _ proc_step.signal]
  have "proc_reach bw rel 7 (pgo 1 PSigPid ?s)" by (rule proc_reach.step [OF proc_reach.start proc_step.call]) simp_all
  from sig [OF this pidSignal_step.released [of _ 1]] have "proc_reach bw rel 7 (pgo 1 PSigUnset (pgo 1 PSigPid ?s))" by simp
  from sig [OF this pidSignal_step.unset [of _ 1]] have "proc_reach bw rel 7 (pgo 1 PSigRLock (pgo 1 PSigUnset (pgo 1 PSigPid ?s)))" by simp
  from sig [OF this pidSignal_step.rlock [of _ 1]]
  have "proc_reach bw rel 7 (pgo 1 PSigStatus (?s\<lparr>ps_readers := 1\<rparr>))" by (simp add: pgo_def)
  from sig [OF this pidSignal_step.status [of _ 1]] show ?thesis by (simp add: signalling_def pgo_def)
qed

lemma signal_reaches_other: "\<exists>s. proc_reach False False 7 s \<and> Kill 1 \<in> set (ps_log s)"
proof -
  note w = proc_reach.step [OF _ proc_step.wait] and sig = proc_reach.step [OF _ proc_step.signal]
  let ?s1 = "pgo 0 PWaitStatus signalling" let ?s2 = "pgo 0 PWaitBlock ?s1" let ?s3 = "pgo 0 PWait4 ?s2" let ?s4 = "pgo 0 (PInWait 7) ?s3"
  let ?s5 = "?s4\<lparr>ps_life := Zombie\<rparr>" let ?s6 = "pgo 0 (PLoad (ADone 7)) (plog (Reap 0) (?s5\<lparr>ps_life := Gone, ps_took := (ps_took ?s5)(0 := Some 0)\<rparr>))"
  let ?s7 = "?s6\<lparr>ps_gen := Suc (ps_gen ?s6), ps_life := Alive, ps_ours := False\<rparr>" let ?s8 = "pgo 1 (PSigCall 7) ?s7"
  have "proc_reach False False 7 ?s1" by (rule proc_reach.step [OF signalling_reach proc_step.call]) simp_all
  from w [OF this pidWait_step.status [of _ 0]] have "proc_reach False False 7 ?s2" by simp
  from w [OF this pidWait_step.unimp [of _ 0]] have "proc_reach False False 7 ?s3" by simp
  from w [OF this pidWait_step.wait4 [of _ 0]] have "proc_reach False False 7 ?s4" by simp
  from proc_reach.step [OF this proc_step.table [OF table_step.exits]] have "proc_reach False False 7 ?s5" by simp
  from w [OF this pidWait_step.reap [of _ 0 7]] have "proc_reach False False 7 ?s6" by simp
  from proc_reach.step [OF this proc_step.table [OF table_step.reused [of _ False]]] have "proc_reach False False 7 ?s7" by simp
  from sig [OF this pidSignal_step.pid [of _ 1]] have "proc_reach False False 7 ?s8" by simp
  from sig [OF this pidSignal_step.kill [of _ 1 7]] have "proc_reach False False 7 (pgo 1 (PSigRUnlock Sent) (plog (Kill (ps_gen ?s8)) ?s8))" by simp
  moreover have "Kill 1 \<in> set (ps_log (pgo 1 (PSigRUnlock Sent) (plog (Kill (ps_gen ?s8)) ?s8)))" by simp
  ultimately show ?thesis by blast
qed

lemma release_signals_all: "\<exists>s. proc_reach bw True 7 s \<and> KillAll \<in> set (ps_log s)"
proof -
  note sig = proc_reach.step [OF _ proc_step.signal]
  let ?s1 = "pgo 0 PRelPid signalling" let ?s2 = "pgo 0 (PLoad ARel) (?s1\<lparr>ps_Pid := -1\<rparr>)" let ?s3 = "pgo 1 (PSigCall (-1)) ?s2"
  have "proc_reach bw True 7 ?s1" by (rule proc_reach.step [OF signalling_reach proc_step.call_release]) simp_all
  from proc_reach.step [OF this proc_step.rel [OF Release_step.set_pid [of _ 0]]] have "proc_reach bw True 7 ?s2" by simp
  from sig [OF this pidSignal_step.pid [of _ 1]] have "proc_reach bw True 7 ?s3" by simp
  from sig [OF this pidSignal_step.kill_all [of _ 1]] have "proc_reach bw True 7 (pgo 1 (PSigRUnlock Sent) (plog KillAll ?s3))" by simp
  moreover have "KillAll \<in> set (ps_log (pgo 1 (PSigRUnlock Sent) (plog KillAll ?s3)))" by simp
  ultimately show ?thesis by blast
qed

text \<open>Two calls of \<open>Wait\<close>: the second takes the status of another child of the program, which has got the identifier of the first.\<close>

definition waiting_both :: psys where
  "waiting_both = pgo 1 (PInWait 7) (pgo 0 (PInWait 7) (newPIDProcess 7))"

lemma waiting_both_fields [simp]: "ps_status waiting_both = StOK" "ps_pc waiting_both = (\<lambda>t. PIdle)(0 := PInWait 7, 1 := PInWait 7)"
  "ps_gen waiting_both = 0" "ps_life waiting_both = Alive" "ps_ours waiting_both" "ps_log waiting_both = []" "ps_took waiting_both = (\<lambda>t. None)"
  by (simp_all add: waiting_both_def newPIDProcess_def)

lemma in_wait_reach:
  assumes "proc_reach False rel pid s" "ps_pc s t = PIdle" "ps_status s = StOK" "ps_Pid s = pid"
  shows "proc_reach False rel pid (pgo t (PInWait pid) s)"
proof -
  note w = proc_reach.step [OF _ proc_step.wait]
  have "proc_reach False rel pid (pgo t PWaitStatus s)" by (rule proc_reach.step [OF assms(1) proc_step.call]) (simp_all add: assms)
  from w [OF this pidWait_step.status [of _ t]] have "proc_reach False rel pid (pgo t PWaitBlock s)" by (simp add: assms pgo_def)
  from w [OF this pidWait_step.unimp [of _ t]] have "proc_reach False rel pid (pgo t PWait4 s)" by (simp add: pgo_def)
  from w [OF this pidWait_step.wait4 [of _ t]] show ?thesis by (simp add: assms pgo_def)
qed

lemma waiting_both_reach: "proc_reach False rel 7 waiting_both"
  unfolding waiting_both_def by (intro in_wait_reach proc_reach.start) simp_all

lemma second_wait_other:
  "\<exists>s. proc_reach False False 7 s \<and> ps_log s = [Reap 0, Reap 1] \<and> ps_pc s 1 = PRet (Waited 7) \<and> ps_took s 1 = Some 1"
proof -
  note w = proc_reach.step [OF _ proc_step.wait] and d = proc_reach.step [OF _ proc_step.release]
    and x = proc_reach.step [OF _ proc_step.table [OF table_step.exits]]
  let ?s1 = "waiting_both\<lparr>ps_life := Zombie\<rparr>"
  let ?s2 = "pgo 0 (PLoad (ADone 7)) (plog (Reap 0) (?s1\<lparr>ps_life := Gone, ps_took := (ps_took ?s1)(0 := Some 0)\<rparr>))"
  let ?s3 = "?s2\<lparr>ps_gen := Suc (ps_gen ?s2), ps_life := Alive, ps_ours := True\<rparr>"
  let ?s4 = "?s3\<lparr>ps_life := Zombie\<rparr>"
  let ?s5 = "pgo 1 (PLoad (ADone 7)) (plog (Reap 1) (?s4\<lparr>ps_life := Gone, ps_took := (ps_took ?s4)(1 := Some 1)\<rparr>))"
  let ?s6 = "pgo 1 (PCas (ADone 7)) ?s5" let ?s7 = "pgo 1 (PRet (Waited 7)) (?s6\<lparr>ps_status := StDone\<rparr>)"
  from x [OF waiting_both_reach [of False]] have "proc_reach False False 7 ?s1" by simp
  from w [OF this pidWait_step.reap [of _ 0 7]] have "proc_reach False False 7 ?s2" by simp
  from proc_reach.step [OF this proc_step.table [OF table_step.reused [of _ True]]] have "proc_reach False False 7 ?s3" by simp
  from x [OF this] have "proc_reach False False 7 ?s4" by simp
  from w [OF this pidWait_step.reap [of _ 1 7]] have "proc_reach False False 7 ?s5" by simp
  from d [OF this doRelease_step.load [of _ 1]] have "proc_reach False False 7 ?s6" by simp
  from d [OF this doRelease_step.cas [of _ 1]] have "proc_reach False False 7 ?s7" by simp
  moreover have "ps_log ?s7 = [Reap 0, Reap 1]" "ps_pc ?s7 1 = PRet (Waited 7)" "ps_took ?s7 1 = Some 1" by simp_all
  ultimately show ?thesis by blast
qed

section \<open>Properties\<close>

text \<open>C25: Whom the signals and the waiting of a \<open>Process\<close> reach, however \<open>Wait\<close>, \<open>Signal\<close> and \<open>Release\<close> interleave. The
  status of each process that has the identifier is taken at most once, and the first that is taken is the child's. A signal
  reaches another process only after a \<open>Wait\<close> has taken the status of the child; where \<open>blockUntilWaitable\<close> works it never
  does. Without \<open>Release\<close>, no signal goes to all processes and no \<open>Wait\<close> takes the status of a process with another
  identifier; a \<open>Wait\<close> that succeeds returns the identifier of the child with a status it has taken itself and has marked
  the process as done, and two that succeed have not taken the same status: so when it reports another process (lemma
  \<open>second_wait_other\<close>: it can), an earlier \<open>Wait\<close> has taken the child's.\<close>

theorem signals_reach_child:
  assumes "proc_reach bw rel pid s" and "0 < pid"
  shows "(\<forall>g. count_list (ps_log s) (Reap g) \<le> 1)
    \<and> (\<forall>as g bs. ps_log s = as @ Reap g # bs \<and> 0 < g \<longrightarrow> Reap 0 \<in> set as)
    \<and> (\<forall>as g bs. ps_log s = as @ Kill g # bs \<and> 0 < g \<longrightarrow> Reap 0 \<in> set as)
    \<and> (bw \<longrightarrow> (\<forall>g. Kill g \<in> set (ps_log s) \<longrightarrow> g = 0))
    \<and> (\<not> rel \<longrightarrow> KillAll \<notin> set (ps_log s) \<and> ReapAny \<notin> set (ps_log s)
        \<and> (\<forall>t k. ps_pc s t = PRet (Waited k) \<longrightarrow> k = pid \<and> ps_status s = StDone \<and> Reap 0 \<in> set (ps_log s)
             \<and> (\<exists>g. ps_took s t = Some g \<and> Reap g \<in> set (ps_log s)))
        \<and> (\<forall>t u k l. ps_pc s t = PRet (Waited k) \<and> ps_pc s u = PRet (Waited l) \<and> t \<noteq> u \<longrightarrow> ps_took s t \<noteq> ps_took s u))"
proof -
  note ok = proc_reach_ok [OF assms(1)]
  have un: "unreleased pid s" if "\<not> rel" using reach_unreleased [of bw pid s] assms that by simp
  have k: "k = pid \<and> ps_status s = StDone \<and> Reap 0 \<in> set (ps_log s)" if "\<not> rel" "ps_pc s t = PRet (Waited k)" for t k
    using unreleased_D(2) [OF un [OF that(1)]] unreleased_D(5) [OF un [OF that(1)] that(2)] by (cases "ps_status s") auto
  have g: "\<exists>g. ps_took s t = Some g \<and> Reap g \<in> set (ps_log s)" if "\<not> rel" "ps_pc s t = PRet (Waited k)" for t k
  proof -
    have "holder (ps_pc s t)" using that(2) by simp
    then have "backed s (ps_took s t)" using ok took_D(1) by blast
    then show ?thesis using unreleased_D(4) [OF un [OF that(1)]] by (auto simp: backed_def split: option.splits)
  qed
  have "ps_took s t \<noteq> ps_took s u" if "\<not> rel" "ps_pc s t = PRet (Waited k)" "ps_pc s u = PRet (Waited l)" "t \<noteq> u" for t u k l
  proof -
    have "holder (ps_pc s t)" "holder (ps_pc s u)" using that(2,3) by simp_all
    with ok g [OF that(1,2)] that(4) took_D(2) show ?thesis by fastforce
  qed
  then show ?thesis using ok k g unreleased_D(3,4) [OF un]
    by (auto simp: table_ok_def late_kills_def ready_ok_def reaps_ok_def late_reaps_def)
qed

theorem signals_reach_child_witness:
  "\<exists>s. proc_reach False False 7 s \<and> Kill 1 \<in> set (ps_log s) \<and> Reap 0 \<in> set (ps_log s) \<and> KillAll \<notin> set (ps_log s)"
proof -
  obtain s where s: "proc_reach False False 7 s" "Kill 1 \<in> set (ps_log s)" using signal_reaches_other by blast
  from split_list [OF s(2)] obtain as bs where l: "ps_log s = as @ Kill 1 # bs" by blast
  have pos: "0 < (7 :: int)" by simp
  note c = signals_reach_child [OF s(1) pos]
  from c l have "Reap 0 \<in> set as" by (metis zero_less_one)
  with c l have "Reap 0 \<in> set (ps_log s)" "KillAll \<notin> set (ps_log s)" by auto
  with s show ?thesis by blast
qed

text \<open>C26: A process that is done stays unsignalled: once the status has been set and no \<open>Signal\<close> is between its look at the
  status and its \<open>kill\<close>, no signal is sent any more, whatever the goroutines do, and the status never becomes good again.\<close>

theorem done_stays_unsignalled:
  assumes "(proc_step bw rel pid)\<^sup>*\<^sup>* s s'" and "ps_status s \<noteq> StOK"
    and "\<And>t. \<not> (ps_pc s t = PSigKill \<or> (\<exists>q. ps_pc s t = PSigCall q))"
  shows "kills s' = kills s \<and> ps_status s' \<noteq> StOK"
  using quiet_run [OF assms(1)] assms(2,3) by (auto simp: quiet_def killing_def)

theorem done_stays_unsignalled_witness:
  "\<exists>s'. (proc_step False False 7)\<^sup>*\<^sup>* ((newPIDProcess 7)\<lparr>ps_status := StDone\<rparr>) s' \<and> ps_pc s' 1 = PSigPid \<and> kills s' = []"
proof -
  let ?s = "(newPIDProcess 7)\<lparr>ps_status := StDone\<rparr>"
  have st: "(proc_step False False 7)\<^sup>*\<^sup>* ?s (pgo 1 PSigPid ?s)" by (rule r_into_rtranclp, rule proc_step.call) simp_all
  from done_stays_unsignalled [OF this] have "kills (pgo 1 PSigPid ?s) = kills ?s" by simp
  then have "kills (pgo 1 PSigPid ?s) = []" by (simp add: kills_def)
  with st show ?thesis by (intro exI [of _ "pgo 1 PSigPid ?s"]) simp
qed

end
