(* ===== verification/Spec2Isabelle.thy ===== *)
theory Spec2Isabelle
  imports Qnx_At Qnx_Socket Qnx_Exec Qnx_Time Fd_Writev Fd_Accept Fd_Sync Netpoll_Sync Os_Dir Rt_Note Rt_Lock_Word Net_Leak Os_Proc
begin

text \<open>
  The \<open>GOOS=qnx GOARCH=arm\<close> port of Go (\<open>src/go/src\<close>): how a Go program reaches QNX Neutrino 6.5.

  \<^bold>\<open>The program.\<close> The port has no system calls of its own: every service is a C function of \<open>libc.so.3\<close> or
  \<open>libsocket.so.3\<close> called through one assembly trampoline. On top of that bridge stand the runtime's
  operating-system layer, package \<open>syscall\<close> with its wrappers, addresses and process creation, the emulated
  \<open>*at\<close> operations, and the network poller: a table of descriptors given to \<open>poll\<close>, woken through a pipe.
  Package \<open>internal/poll\<close> joins the two: its type \<open>FD\<close> guards a file descriptor with a reference-counting
  lock, parks goroutines in the poller and turns \<open>EAGAIN\<close> into waiting.

  \<^bold>\<open>The theories and the code.\<close>
  \<^item> \<open>Go_Prelude\<close>: machine integers of a 32-bit target, Go's conversions and truncating division, results that
    may throw (\<open>outcome\<close>), byte strings.
  \<^item> \<open>Qnx_Types\<close>: \<open>syscall/zerrors_qnx_arm.go\<close>, \<open>syscall/ztypes_qnx_arm.go\<close>; error numbers, their classes and
    messages, C structures as records.
  \<^item> \<open>Qnx_Libcall\<close>: \<open>runtime/sys_qnx_arm.s\<close> (\<open>asmsysvicall6\<close>), \<open>runtime/syscall_qnx.go\<close> and the \<open>sysvicall\<close>
    family of \<open>runtime/os_qnx.go\<close>, with the import directives of all files. A C library is a parameter
    \<open>L\<close> of type \<open>'w libc\<close>: a function of name, arguments, \<open>errno\<close> and world to result, \<open>errno\<close>, written
    arguments and world. Nothing is assumed of it unless a theorem says so.
  \<^item> \<open>Qnx_Sockaddr\<close>: \<open>syscall/syscall_qnx_arm.go\<close>; wait statuses, socket addresses to bytes and back.
  \<^item> \<open>Qnx_Syscall\<close>: \<open>syscall/syscall_qnx.go\<close>, \<open>syscall_qnx2.go\<close>, \<open>syscall_qnx3.go\<close>; one definition per wrapper.
  \<^item> \<open>Qnx_Socket\<close>, \<open>Qnx_Time\<close>: the exported operations of \<open>syscall/syscall_unix.go\<close> and \<open>syscall/timestruct.go\<close>.
  \<^item> \<open>Qnx_Exec\<close>: \<open>syscall/exec_qnx.go\<close>, \<open>exec_unix.go\<close>, \<open>forkpipe.go\<close>, \<open>rlimit.go\<close>; process creation over
    \<open>posix_spawn\<close>.
  \<^item> \<open>Qnx_At\<close>: \<open>internal/syscall/unix/at_qnx.go\<close>.
  \<^item> \<open>Qnx_Os\<close>: \<open>runtime/os_qnx.go\<close>, \<open>signal_qnx.go\<close>, \<open>sigtab_qnx.go\<close>, \<open>mem_bsd.go\<close>, \<open>nbpipe_pipe.go\<close>.
  \<^item> \<open>Poll_Desc\<close>: the descriptor of \<open>runtime/netpoll.go\<close> with its semaphores, summary word and deadline timers.
  \<^item> \<open>Qnx_Netpoll\<close>: \<open>runtime/netpoll_qnx.go\<close>, the whole file, each function one sequential execution;
    \<open>Netpoll_Sync\<close>: its locking and waking protocol with the threads interleaved, as a step relation.
  \<^item> \<open>Poll_Runtime\<close>: the entry points of \<open>runtime/netpoll.go\<close> that \<open>internal/poll\<close> is linked to, and the
    descriptor cache. Where a goroutine parks, an arbitrary function \<open>env\<close> of the state stands for what the
    rest of the program does meanwhile.
  \<^item> \<open>Fd_Mutex\<close>: \<open>internal/poll/fd_mutex.go\<close> on the packed 64-bit word; \<open>Fd_Sync\<close>: its threads interleaved, as
    a step relation.
  \<^item> \<open>Fd_Prog\<close>: programs over the state (result, panic, or out of fuel), their sequencing, deferring and
    looping, and the triples used to reason about them; \<open>Fd_Unix\<close>: every method of \<open>FD\<close> in
    \<open>internal/poll/fd_unix.go\<close>, \<open>fd_posix.go\<close>, \<open>fd_unixjs.go\<close>, \<open>fd_poll_runtime.go\<close>, \<open>writev.go\<close>, \<open>sockopt.go\<close>
    \<open>sockoptip.go\<close> and their neighbours.
  \<^item> \<open>Fd_Closed\<close>: closing and closed descriptors; \<open>Fd_Frame\<close>: what every method leaves alone, and the answers
    of \<open>Read\<close>; \<open>Fd_Stream\<close>, \<open>Fd_Writev\<close>: what \<open>Write\<close> and \<open>Writev\<close> deliver; \<open>Fd_Accept\<close>: the descriptors \<open>Accept\<close>
    leaves open.
  \<^item> \<open>Dir_Read\<close>: directory records and \<open>ParseDirent\<close> of \<open>syscall/dirent.go\<close>; \<open>Os_Dir\<close>: \<open>readdir\<close> of \<open>os/dir_unix.go\<close> in
    its three modes with \<open>lstat\<close> and \<open>fillFileStatFromSys\<close> (\<open>os/stat_qnx.go\<close>), on top of \<open>FD\<close>.
  \<^item> \<open>Os_Proc\<close>: \<open>Wait\<close>, \<open>Signal\<close> and \<open>Release\<close> of \<open>os/exec.go\<close> and \<open>os/exec_unix.go\<close> interleaved on one child process, next to the
    process table, as a step relation; what \<open>ProcessState\<close> (\<open>os/exec_posix.go\<close>) reports.
  \<^item> \<open>Rt_Note\<close>: one-time events of \<open>runtime/lock_sema.go\<close> over the semaphores, sleeper and waker interleaved.
  \<^item> \<open>Rt_Lock\<close>: the runtime's mutex, \<open>lock2\<close>, \<open>unlock2\<close> and \<open>unlock2Wake\<close> of \<open>runtime/lock_spinbit.go\<close>, any number of threads
    interleaved, on a record of the fields of its word; \<open>Rt_Lock_Word\<close>: the word itself.
  \<^item> \<open>Net_Qnx\<close>: \<open>net/interface_qnx.go\<close>, \<open>sockopt_qnx.go\<close> and \<open>tcpsockopt_qnx.go\<close>; \<open>Net_Sock\<close>: \<open>socket\<close>, \<open>dial\<close> and the listeners of
    \<open>net/sock_posix.go\<close>, \<open>connect\<close> and \<open>accept\<close> of \<open>net/fd_unix.go\<close>, the methods of \<open>netFD\<close> (\<open>net/fd_posix.go\<close>), all on top of \<open>FD\<close>;
    \<open>Net_Leak\<close>: the descriptors they leave open.

  \<^bold>\<open>What is shown.\<close>
  The bridge reports no stale \<open>errno\<close> and keeps the traceback frame. The wrappers deliver paths and offsets
  whole and terminated or refuse them, close what they cannot describe, and turn addresses into bytes that decode to the same
  address. Spawning balances its resources, restores the working directory and gives the child the requested
  descriptors, when none of them is overwritten before it is duplicated. The poller hands over exactly the goroutines of ready descriptors, keeps its table sound through
  the life of every descriptor, and returns; under every interleaving its table has one user at a time and
  nobody waits behind a poller that sleeps. The packed lock word refines a record of flags and counters; under
  every interleaving of fewer than 2^20 threads its locks are exclusive, nothing is destroyed twice or while in
  use, and no wake-up is lost. Every method of \<open>FD\<close> but \<open>Close\<close> gives back the locks it took, a closed descriptor refuses
  every method that takes one, closing closes once, writing delivers a prefix of the bytes in order, and accepting, dialing
  and listening leak no descriptor, whatever fails on the way. Reading a directory lists every visible entry once, in order, across calls; no bytes make the
  parser of directory records panic or run past its buffer. A note wakes its sleeper exactly once, also when the
  wake-up races with the deadline. The runtime's mutex is exclusive, keeps its stack of sleepers a proper list, wakes
  each sleeper once and never leaves one behind; its packed word loses nothing. The interface tables read back what C lays out, each interface
  once, and free the C list; where an entry has no index they stop too early. The status of a child is taken once, and before that of any process that gets its
  identifier; a signal meant for the child reaches another process only in the window that \<open>os/wait_unimp.go\<close> admits, or when \<open>Release\<close> races with
  \<open>Signal\<close>, and of two concurrent \<open>Wait\<close>s the later may report another process.

  \<^bold>\<open>Fuel.\<close> Loops that the environment may keep running take a bound: draining the wake pipe and retrying \<open>poll\<close>
  in \<open>Qnx_Netpoll\<close> (\<open>netpoll_returns\<close> shows that some bound is enough when reading shortens the pipe), waiting in
  \<open>pollWait\<close> (one round is enough when every resumption brings readiness or an error), and the retry loops of
  \<open>FD\<close>. Running out is the value \<open>None\<close>, never a result.

  \<^bold>\<open>Not modelled.\<close> The portable scheduler, allocator and garbage collector, thread start and signal trampolines
  (register-level assembly), cgo's C file, the compiler and the linker, which are upstream code with target
  switches; the rest of \<open>os\<close>, name resolution and the address types of \<open>net\<close>, and the QNX files of \<open>crypto\<close>; the C, C++ and Rust toolchains, build scripts and vendor
  binaries of the repository, which hold no Go program logic. In \<open>Netpoll_Sync\<close> the table is of any type
  and a change is a function on it; the two views of the poller are not joined into one model.
\<close>

end
